(* ===== verification/Prelude.thy ===== *)
theory Prelude
  imports Main "HOL-Library.Word" "HOL-Library.Char_ord" "HOL-Library.List_Lexorder"
    "HOL-Library.Product_Lexorder"
begin

text \<open>
  What every component of the development shares: the machine types of the Rust program, the parts
  of the Rust standard library it uses (checked and saturating arithmetic, UTF-8 validation,
  decimal formatting and parsing, the string searches), and the lemmas about them that the
  component proofs use through the collections below.

  A Rust \<open>String\<close> is the list of its UTF-8 bytes, as a HOL \<open>string\<close>; a \<open>Vec<u8>\<close> is a list of
  8-bit words.  A \<open>Result\<close> is a sum whose left part is the error.  Unsigned addition on words wraps
  at the width of the type, as the release build of the program does.
\<close>

named_theorems word_arith "successors, saturation and order on machine words"
named_theorems str_simps "decimal strings, padding, searching and splitting"

type_synonym u8 = "8 word"
type_synonym u16 = "16 word"
type_synonym u32 = "32 word"
type_synonym u64 = "64 word"
type_synonym i32 = "32 word"
type_synonym i64 = "64 word"
type_synonym bytes = "u8 list"

section \<open>Machine integers\<close>

definition u64_max :: u64 where
  "u64_max = - 1"

definition checked_add :: "u64 \<Rightarrow> u64 \<Rightarrow> u64 option" where
  "checked_add a b = (if unat a + unat b < 2 ^ 64 then Some (a + b) else None)"

definition saturating_add :: "u64 \<Rightarrow> u64 \<Rightarrow> u64" where
  "saturating_add a b = (if unat a + unat b < 2 ^ 64 then a + b else u64_max)"

definition saturating_sub :: "u64 \<Rightarrow> u64 \<Rightarrow> u64" where
  "saturating_sub a b = (if b \<le> a then a - b else 0)"

definition saturating_mul :: "u64 \<Rightarrow> u64 \<Rightarrow> u64" where
  "saturating_mul a b = (if unat a * unat b < 2 ^ 64 then a * b else u64_max)"

lemma u64_le_max [simp]: "x \<le> u64_max"
  by (simp add: u64_max_def)

lemma unat_u64_max: "unat u64_max = 2 ^ 64 - 1"
  by (simp add: u64_max_def unsigned_minus_1_eq_mask mask_eq_exp_minus_1)

lemma unat_lt_2p64 [simp]: "unat (x :: u64) < 18446744073709551616"
  using unsigned_less [of x] by simp

lemma lt_imp_ne_max: "x < y \<Longrightarrow> x \<noteq> u64_max"
  by (metis u64_le_max leD)

lemma unat_succ [word_arith]: "x \<noteq> u64_max \<Longrightarrow> unat (x + 1) = unat x + 1"
  using unatSuc [of x] by (auto simp: u64_max_def add.commute eq_neg_iff_add_eq_0)

lemma succ_le [word_arith]: "(x :: u64) < y \<Longrightarrow> x + 1 \<le> y"
  by (simp add: inc_le)

lemma lt_succ [word_arith]: "x \<noteq> u64_max \<Longrightarrow> x < x + 1"
  by (simp add: unat_succ word_less_nat_alt)

lemma lt_succ_iff [word_arith]: "x \<noteq> u64_max \<Longrightarrow> (y < x + 1) = (y \<le> x)"
  by (simp add: unat_succ word_less_nat_alt word_le_nat_alt less_Suc_eq_le)

lemma succ_le_iff [word_arith]: "x \<noteq> u64_max \<Longrightarrow> (x + 1 \<le> y) = (x < y)"
  by (simp add: unat_succ word_less_nat_alt word_le_nat_alt Suc_le_eq)

lemma succ_inject_u64 [simp]: "((x :: u64) + 1 = y + 1) = (x = y)"
  by simp

lemma checked_succ: "checked_add x 1 = (if x = u64_max then None else Some (x + 1))"
proof (cases "x = u64_max")
  case True
  then show ?thesis by (simp add: checked_add_def unat_u64_max)
next
  case False
  have "unat (x + 1) = unat x + 1" using False by (rule unat_succ)
  moreover have "unat (x + 1) < 2 ^ 64" using unat_lt_2p64 [of "x + 1"] by simp
  ultimately show ?thesis using False by (simp add: checked_add_def)
qed

text \<open>Equations that compute on integers instead of unary naturals.\<close>

lemma int_less_2p64: "(int n < 18446744073709551616) = (n < 2 ^ 64)"
  by simp

lemma uint_add_int: "uint a + uint b = int (unat a + unat b)"
  by simp

lemma uint_mult_int: "uint a * uint b = int (unat a * unat b)"
  by simp

lemma checked_add_code [code]:
  "checked_add a b = (if uint a + uint b < 18446744073709551616 then Some (a + b) else None)"
  unfolding checked_add_def uint_add_int int_less_2p64 ..

lemma saturating_add_code [code]:
  "saturating_add a b = (if uint a + uint b < 18446744073709551616 then a + b else u64_max)"
  unfolding saturating_add_def uint_add_int int_less_2p64 ..

lemma saturating_mul_code [code]:
  "saturating_mul a b = (if uint a * uint b < 18446744073709551616 then a * b else u64_max)"
  unfolding saturating_mul_def uint_mult_int int_less_2p64 ..

lemma unat_saturating_sub: "unat (saturating_sub a b) = unat a - unat b"
  by (auto simp: saturating_sub_def unat_sub word_le_nat_alt)

lemma unat_saturating_mul: "unat (saturating_mul a b) = min (unat a * unat b) (2 ^ 64 - 1)"
  by (auto simp: saturating_mul_def unat_u64_max unat_word_ariths)

lemma unat_saturating_add: "unat (saturating_add a b) = min (unat a + unat b) (2 ^ 64 - 1)"
  by (auto simp: saturating_add_def unat_u64_max unat_word_ariths)

lemma saturating_sub_zero [simp]: "saturating_sub a a = 0" "saturating_sub 0 a = 0"
  by (auto simp: saturating_sub_def)

section \<open>Results, options and lists\<close>

abbreviation Ok :: "'a \<Rightarrow> 'e + 'a" where "Ok \<equiv> Inr"
abbreviation Err :: "'e \<Rightarrow> 'e + 'a" where "Err \<equiv> Inl"

definition is_ok :: "'e + 'a \<Rightarrow> bool" where
  "is_ok r = (case r of Inl _ \<Rightarrow> False | Inr _ \<Rightarrow> True)"

lemma is_ok_simps [simp]: "is_ok (Inr x)" "\<not> is_ok (Inl e)"
  by (simp_all add: is_ok_def)

lemma is_okD: "is_ok r \<Longrightarrow> \<exists>x. r = Inr x"
  by (cases r) simp_all

definition res_bind :: "'e + 'a \<Rightarrow> ('a \<Rightarrow> 'e + 'b) \<Rightarrow> 'e + 'b" where
  "res_bind r f = (case r of Inl e \<Rightarrow> Inl e | Inr x \<Rightarrow> f x)"

lemma res_bind_simps [simp]: "res_bind (Inl e) f = Inl e" "res_bind (Inr x) f = f x"
  by (simp_all add: res_bind_def)

lemma res_bind_Inr [simp]: "(res_bind r f = Inr y) = (\<exists>x. r = Inr x \<and> f x = Inr y)"
  by (cases r) auto

definition unwrap_or :: "'a option \<Rightarrow> 'a \<Rightarrow> 'a" where
  "unwrap_or v d = (case v of None \<Rightarrow> d | Some x \<Rightarrow> x)"

lemma unwrap_or_simps [simp]: "unwrap_or None d = d" "unwrap_or (Some x) d = x"
  by (simp_all add: unwrap_or_def)

text \<open>\<open>for x in xs \<open>{\<close> f(x)? \<open>}\<close>\<close>: the first error ends the iteration.\<close>

fun try_each :: "('a \<Rightarrow> 'e + unit) \<Rightarrow> 'a list \<Rightarrow> 'e + unit" where
  "try_each f [] = Ok ()"
| "try_each f (x # xs) = (case f x of Inl e \<Rightarrow> Inl e | Inr _ \<Rightarrow> try_each f xs)"

lemma try_each_ok: "(try_each f xs = Ok ()) = (\<forall>x \<in> set xs. f x = Ok ())"
  by (induction xs) (auto split: sum.splits)

lemma try_each_err: "try_each f xs = Inl e \<Longrightarrow> \<exists>x \<in> set xs. f x = Inl e"
  by (induction xs) (auto split: sum.splits)

text \<open>\<open>iter().map(f).collect::<Result<Vec<_>, _>>()\<close>.\<close>

fun try_map :: "('a \<Rightarrow> 'e + 'b) \<Rightarrow> 'a list \<Rightarrow> 'e + 'b list" where
  "try_map f [] = Ok []"
| "try_map f (x # xs) = (case f x of Inl e \<Rightarrow> Inl e
     | Inr y \<Rightarrow> (case try_map f xs of Inl e \<Rightarrow> Inl e | Inr ys \<Rightarrow> Ok (y # ys)))"

lemma try_map_ok: "(try_map f xs = Inr ys) = (list_all2 (\<lambda>x y. f x = Inr y) xs ys)"
proof (induction xs arbitrary: ys)
  case (Cons x xs)
  show ?case
    by (cases ys) (auto simp: Cons.IH [symmetric] split: sum.splits)
qed auto

lemma try_map_all_ok: "\<forall>x \<in> set xs. \<exists>y. f x = Inr y \<Longrightarrow> \<exists>ys. try_map f xs = Inr ys"
  by (induction xs) auto

lemma try_map_length: "try_map f xs = Inr ys \<Longrightarrow> length ys = length xs"
  by (simp add: try_map_ok list_all2_lengthD)

text \<open>\<open>Iterator::max\<close> and \<open>min\<close> over an iterator that may be empty.\<close>

definition list_max :: "'a :: linorder list \<Rightarrow> 'a option" where
  "list_max xs = (if xs = [] then None else Some (Max (set xs)))"

definition list_min :: "'a :: linorder list \<Rightarrow> 'a option" where
  "list_min xs = (if xs = [] then None else Some (Min (set xs)))"

lemma list_min_Some: "list_min xs = Some m \<Longrightarrow> m \<in> set xs \<and> (\<forall>x \<in> set xs. m \<le> x)"
  by (auto simp: list_min_def split: if_splits)

lemma list_max_Some: "list_max xs = Some m \<Longrightarrow> m \<in> set xs \<and> (\<forall>x \<in> set xs. x \<le> m)"
  by (auto simp: list_max_def split: if_splits)

section \<open>Strings and UTF-8\<close>

definition utf8_cont :: "nat \<Rightarrow> bool" where
  "utf8_cont b = (128 \<le> b \<and> b < 192)"

text \<open>\<open>core::str::from_utf8\<close>: well-formed sequences only (no overlong form, no surrogate, nothing
  above U+10FFFF).\<close>

fun utf8_ok :: "nat list \<Rightarrow> bool" where
  "utf8_ok [] = True"
| "utf8_ok (a # rest) =
    (if a < 128 then utf8_ok rest
     else if 194 \<le> a \<and> a < 224 then
       (case rest of b # r \<Rightarrow> utf8_cont b \<and> utf8_ok r | _ \<Rightarrow> False)
     else if 224 \<le> a \<and> a < 240 then
       (case rest of b # c # r \<Rightarrow>
          utf8_cont b \<and> (a = 224 \<longrightarrow> 160 \<le> b) \<and> (a = 237 \<longrightarrow> b < 160) \<and> utf8_cont c \<and> utf8_ok r
        | _ \<Rightarrow> False)
     else if 240 \<le> a \<and> a < 245 then
       (case rest of b # c # d # r \<Rightarrow>
          utf8_cont b \<and> (a = 240 \<longrightarrow> 144 \<le> b) \<and> (a = 244 \<longrightarrow> b < 144) \<and> utf8_cont c \<and> utf8_cont d
            \<and> utf8_ok r
        | _ \<Rightarrow> False)
     else False)"

definition char_of_byte :: "u8 \<Rightarrow> char" where
  "char_of_byte b = char_of (unat b)"

definition from_utf8 :: "bytes \<Rightarrow> string option" where
  "from_utf8 bs = (if utf8_ok (map unat bs) then Some (map char_of_byte bs) else None)"

definition as_bytes :: "string \<Rightarrow> bytes" where
  "as_bytes s = map (\<lambda>c. of_nat (of_char c)) s"

lemma char_of_byte_inverse [simp]: "of_nat (of_char (char_of_byte b)) = b"
proof -
  have "unat b < 2 ^ 8" using unsigned_less [of b] by simp
  then show ?thesis by (simp add: char_of_byte_def)
qed

lemma byte_of_char_inverse [simp]: "char_of_byte (of_nat (of_char c)) = c"
proof -
  have "(of_char c :: nat) < 2 ^ 8" using nat_of_char_less_256 [of c] by simp
  then have "unat (of_nat (of_char c) :: u8) = of_char c"
    by (simp add: unat_of_nat)
  then show ?thesis by (simp add: char_of_byte_def)
qed

lemma from_utf8_as_bytes: "from_utf8 bs = Some s \<Longrightarrow> as_bytes s = bs"
  by (auto simp: from_utf8_def as_bytes_def o_def split: if_splits)

lemma from_utf8_inj: "from_utf8 a = Some s \<Longrightarrow> from_utf8 b = Some s \<Longrightarrow> a = b"
  by (metis from_utf8_as_bytes)

end
