(* ===== verification/Std_Text.thy ===== *)
theory Std_Text
  imports Prelude
begin

text \<open>
  The string functions of the Rust standard library that the program parses and prints names with:
  \<open>format!("{n:020}")\<close> and \<open>to_string\<close> (\<open>pad_dec\<close>, \<open>dec_of\<close>), \<open>str::parse::<u64>\<close> (\<open>parse_u64\<close>),
  \<open>strip_suffix\<close>, \<open>strip_prefix\<close>, \<open>split_once\<close> on a substring and \<open>rfind\<close> on a character, with the
  round-trip and order lemmas that the file naming scheme rests on.
\<close>

section \<open>Decimal numbers\<close>

definition digit_char :: "nat \<Rightarrow> char" where
  "digit_char d = char_of (48 + d)"

definition digit_val :: "char \<Rightarrow> nat" where
  "digit_val c = of_char c - 48"

definition is_ascii_digit :: "char \<Rightarrow> bool" where
  "is_ascii_digit c = (48 \<le> (of_char c :: nat) \<and> (of_char c :: nat) < 58)"

definition is_ascii_lowercase :: "char \<Rightarrow> bool" where
  "is_ascii_lowercase c = (97 \<le> (of_char c :: nat) \<and> (of_char c :: nat) < 123)"

fun dec_of :: "nat \<Rightarrow> string" where
  "dec_of n = (if n < 10 then [digit_char n] else dec_of (n div 10) @ [digit_char (n mod 10)])"

declare dec_of.simps [simp del]

definition pad_dec :: "nat \<Rightarrow> nat \<Rightarrow> string" where
  "pad_dec w n = replicate (w - length (dec_of n)) (CHR ''0'') @ dec_of n"

definition dec_val :: "string \<Rightarrow> nat" where
  "dec_val = foldl (\<lambda>a c. a * 10 + digit_val c) 0"

text \<open>\<open>str::parse::<u64>\<close>: an optional plus sign, at least one digit, no overflow.\<close>

definition parse_u64 :: "string \<Rightarrow> u64 option" where
  "parse_u64 s =
     (let ds = (case s of c # r \<Rightarrow> if c = CHR ''+'' then r else s | [] \<Rightarrow> [])
      in if ds \<noteq> [] \<and> list_all is_ascii_digit ds \<and> dec_val ds < 2 ^ 64
         then Some (of_nat (dec_val ds)) else None)"

lemma digit_char_props [str_simps]:
  assumes "d < 10"
  shows "is_ascii_digit (digit_char d)" "digit_val (digit_char d) = d"
  using assms by (simp_all add: is_ascii_digit_def digit_val_def digit_char_def)

lemma dec_of_digits [str_simps]: "list_all is_ascii_digit (dec_of n)"
proof (induction n rule: dec_of.induct)
  case (1 n)
  then show ?case by (subst dec_of.simps) (auto simp: str_simps)
qed

lemma dec_of_nonempty [simp]: "dec_of n \<noteq> []"
  by (subst dec_of.simps) simp

lemma dec_val_snoc [str_simps]: "dec_val (s @ [c]) = dec_val s * 10 + digit_val c"
  by (simp add: dec_val_def)

lemma dec_val_dec_of [str_simps]: "dec_val (dec_of n) = n"
proof (induction n rule: dec_of.induct)
  case (1 n)
  show ?case
  proof (cases "n < 10")
    case True
    then show ?thesis by (subst dec_of.simps) (simp add: dec_val_def str_simps)
  next
    case False
    then have "dec_val (dec_of n) = n div 10 * 10 + n mod 10"
      by (subst dec_of.simps) (simp add: str_simps 1)
    then show ?thesis by simp
  qed
qed

lemma dec_val_zeros [str_simps]: "dec_val (replicate k (CHR ''0'') @ s) = dec_val s"
proof -
  have "foldl (\<lambda>a c. a * 10 + digit_val c) 0 (replicate k (CHR ''0'')) = 0"
    by (induction k) (simp_all add: digit_val_def)
  then show ?thesis by (simp add: dec_val_def)
qed

lemma pad_dec_digits [str_simps]: "list_all is_ascii_digit (pad_dec w n)"
proof -
  have "list_all is_ascii_digit (replicate k (CHR ''0''))" for k
    by (induction k) (simp_all add: is_ascii_digit_def)
  then show ?thesis by (simp add: pad_dec_def str_simps)
qed

lemma pad_dec_nonempty [simp]: "pad_dec w n \<noteq> []"
  by (simp add: pad_dec_def)

lemma dec_val_pad_dec [str_simps]: "dec_val (pad_dec w n) = n"
  by (simp add: pad_dec_def str_simps)

lemma length_dec_of: "n < 10 ^ k \<Longrightarrow> 0 < k \<Longrightarrow> length (dec_of n) \<le> k"
proof (induction n arbitrary: k rule: dec_of.induct)
  case (1 n)
  show ?case
  proof (cases "n < 10")
    case True
    then show ?thesis using 1(3) by (subst dec_of.simps) simp
  next
    case False
    from False 1(2) have k: "1 < k" by (cases k; cases "k - 1") auto
    then obtain j where j: "k = Suc j" "0 < j" by (cases k) auto
    have "n div 10 < 10 ^ j" using 1(2) j by (simp add: div_less_iff_less_mult mult.commute)
    then have "length (dec_of (n div 10)) \<le> j" using 1(1) False j by simp
    then show ?thesis using False j by (subst dec_of.simps) simp
  qed
qed

lemma length_pad_dec [str_simps]: "n < 10 ^ w \<Longrightarrow> 0 < w \<Longrightarrow> length (pad_dec w n) = w"
  using length_dec_of [of n w] by (simp add: pad_dec_def)

lemma plus_not_digit [simp]: "\<not> is_ascii_digit (CHR ''+'')"
  by (simp add: is_ascii_digit_def)

lemma parse_u64_digits:
  assumes "ds \<noteq> []" "list_all is_ascii_digit ds" "dec_val ds < 2 ^ 64"
  shows "parse_u64 ds = Some (of_nat (dec_val ds))"
proof -
  have "hd ds \<noteq> CHR ''+''" using assms by (cases ds) auto
  then show ?thesis using assms by (cases ds) (auto simp: parse_u64_def Let_def)
qed

lemma parse_u64_pad_dec [str_simps]: "parse_u64 (pad_dec w (unat x)) = Some x"
  by (subst parse_u64_digits) (simp_all add: str_simps)

lemma parse_u64_dec_of [str_simps]: "parse_u64 (dec_of (unat x)) = Some x"
  by (subst parse_u64_digits) (simp_all add: str_simps)

section \<open>Searching and splitting\<close>

definition strip_prefix :: "string \<Rightarrow> string \<Rightarrow> string option" where
  "strip_prefix p s = (if take (length p) s = p then Some (drop (length p) s) else None)"

definition strip_suffix :: "string \<Rightarrow> string \<Rightarrow> string option" where
  "strip_suffix p s = (if length p \<le> length s \<and> drop (length s - length p) s = p
     then Some (take (length s - length p) s) else None)"

text \<open>\<open>s.split_once(sep)\<close>: at the first occurrence of \<open>sep\<close>.\<close>

fun split_once :: "string \<Rightarrow> string \<Rightarrow> (string \<times> string) option" where
  "split_once sep [] = (if sep = [] then Some ([], []) else None)"
| "split_once sep (c # s) = (case strip_prefix sep (c # s) of
     Some r \<Rightarrow> Some ([], r)
   | None \<Rightarrow> map_option (\<lambda>(a, b). (c # a, b)) (split_once sep s))"

text \<open>What follows the last occurrence of a character (\<open>rfind\<close> and a slice).\<close>

fun after_last :: "char \<Rightarrow> string \<Rightarrow> string option" where
  "after_last d [] = None"
| "after_last d (c # s) = (case after_last d s of Some r \<Rightarrow> Some r
     | None \<Rightarrow> if c = d then Some s else None)"

lemma strip_suffix_append [str_simps]: "strip_suffix p (s @ p) = Some s"
  by (simp add: strip_suffix_def)

lemma strip_suffix_Some: "strip_suffix p s = Some r \<Longrightarrow> s = r @ p"
  by (metis append_take_drop_id option.distinct(1) option.inject strip_suffix_def)

lemma strip_prefix_Some: "strip_prefix p s = Some r \<Longrightarrow> s = p @ r"
  by (metis append_take_drop_id option.distinct(1) option.inject strip_prefix_def)

lemma split_once_Some: "split_once sep s = Some (a, b) \<Longrightarrow> s = a @ sep @ b"
proof (induction s arbitrary: a)
  case (Cons c s)
  then show ?case
    by (auto split: option.splits dest!: strip_prefix_Some)
qed (auto split: if_splits)

lemma split_once_none [str_simps]:
  "sep \<noteq> [] \<Longrightarrow> hd sep \<notin> set s \<Longrightarrow> split_once sep s = None"
proof (induction s)
  case (Cons c s)
  then show ?case by (cases sep) (auto simp: strip_prefix_def)
qed simp

lemma split_once_at [str_simps]:
  "sep \<noteq> [] \<Longrightarrow> hd sep \<notin> set a \<Longrightarrow> split_once sep (a @ sep @ b) = Some (a, b)"
proof (induction a)
  case Nil
  then show ?case by (cases sep) (auto simp: strip_prefix_def)
next
  case (Cons c a)
  then show ?case by (cases sep) (auto simp: strip_prefix_def)
qed

lemma after_last_none: "(after_last d s = None) = (d \<notin> set s)"
  by (induction s) (auto split: option.splits)

lemma after_last_at [str_simps]: "d \<notin> set b \<Longrightarrow> after_last d (a @ d # b) = Some b"
  by (induction a) (auto simp: after_last_none [symmetric])

lemma digits_no_char:
  "list_all is_ascii_digit s \<Longrightarrow> \<not> is_ascii_digit c \<Longrightarrow> c \<notin> set s"
  by (induction s) auto

lemma separators_not_digits [simp]:
  "\<not> is_ascii_digit (CHR ''-'')" "\<not> is_ascii_digit (CHR ''.'')"
  by (simp_all add: is_ascii_digit_def)

section \<open>Order\<close>

text \<open>On strings of digits of one length, the order of the strings is the order of the numbers.\<close>

lemma digit_less_iff:
  "is_ascii_digit c \<Longrightarrow> is_ascii_digit d \<Longrightarrow> (c < d) = (digit_val c < digit_val d)"
  by (auto simp: is_ascii_digit_def digit_val_def less_char_def)

lemma digit_eq_iff:
  "is_ascii_digit c \<Longrightarrow> is_ascii_digit d \<Longrightarrow> (c = d) = (digit_val c = digit_val d)"
  by (metis digit_less_iff less_irrefl neq_iff)

lemma dec_val_bound: "list_all is_ascii_digit s \<Longrightarrow> dec_val s < 10 ^ length s"
proof (induction s rule: rev_induct)
  case (snoc c s)
  then have "digit_val c < 10" by (auto simp: is_ascii_digit_def digit_val_def)
  then show ?case using snoc by (auto simp: str_simps)
qed (simp add: dec_val_def)

lemma dec_val_Cons: "dec_val (c # s) = digit_val c * 10 ^ length s + dec_val s"
proof (induction s rule: rev_induct)
  case Nil
  then show ?case by (simp add: dec_val_def)
next
  case (snoc d s)
  have "dec_val (c # s @ [d]) = dec_val (c # s) * 10 + digit_val d"
    using dec_val_snoc [of "c # s" d] by simp
  then show ?case using snoc by (simp add: str_simps algebra_simps)
qed

lemma digits_less_iff:
  assumes "length a = length b" "list_all is_ascii_digit a" "list_all is_ascii_digit b"
  shows "(a < b) = (dec_val a < dec_val b) \<and> (a = b) = (dec_val a = dec_val b)"
  using assms
proof (induction a b rule: list_induct2)
  case (Cons x xs y ys)
  have less: "(x # xs < y # ys) = (x < y \<or> x = y \<and> xs < ys)" by simp
  have bx: "dec_val xs < 10 ^ length ys" using dec_val_bound [of xs] Cons by simp
  have byy: "dec_val ys < 10 ^ length ys" using dec_val_bound [of ys] Cons by simp
  have dig: "(x < y) = (digit_val x < digit_val y)" "(x = y) = (digit_val x = digit_val y)"
    using Cons.prems digit_less_iff digit_eq_iff by auto
  have step: "a * k + r < b * k + s" if "a < b" "r < k" for a b k r s :: nat
  proof -
    have "a * k + r < (a + 1) * k" using that by simp
    also have "\<dots> \<le> b * k" using that by (intro mult_right_mono) auto
    finally show ?thesis by simp
  qed
  show ?case
  proof (cases "digit_val x" "digit_val y" rule: linorder_cases)
    case less
    then show ?thesis
      using step [OF less bx, of "dec_val ys"] dig Cons.hyps by (auto simp: dec_val_Cons)
  next
    case equal
    then show ?thesis using Cons dig by (auto simp: dec_val_Cons)
  next
    case greater
    then show ?thesis
      using step [OF greater byy, of "dec_val xs"] dig Cons.hyps by (auto simp: dec_val_Cons)
  qed
qed (simp add: dec_val_def)

lemma less_append_same_length:
  "length a = length b \<Longrightarrow> (a @ r < b @ s) = (a < b \<or> a = b \<and> r < s)" for a :: string
  by (induction a b rule: list_induct2) auto

end
