(* ===== verification/Core_Types.thy ===== *)
theory Core_Types
  imports Std_Text
begin

text \<open>
  The data that every component passes around (\<open>crates/mirror-core/src/lib.rs\<close>): records, timestamp
  types, column types and their validation contract, and the error types with the rule that tells
  which of them are worth retrying.  Error messages are not modelled: an error is its variant and
  the offsets it carries.
\<close>

section \<open>Records\<close>

datatype timestamp_type = CreateTime | LogAppendTime | NotAvailable

definition as_str :: "timestamp_type \<Rightarrow> string" where
  "as_str t = (case t of
      CreateTime \<Rightarrow> ''create_time''
    | LogAppendTime \<Rightarrow> ''log_append_time''
    | NotAvailable \<Rightarrow> ''not_available'')"

definition from_wire :: "string \<Rightarrow> timestamp_type option" where
  "from_wire s =
    (if s = ''create_time'' then Some CreateTime
     else if s = ''log_append_time'' then Some LogAppendTime
     else if s = ''not_available'' then Some NotAvailable
     else None)"

lemma from_wire_as_str [simp]: "from_wire (as_str t) = Some t"
  by (cases t) (simp_all add: as_str_def from_wire_def)

record header =
  h_key :: string
  h_value :: "bytes option"

record krecord =
  r_topic :: string
  r_partition :: i32
  r_offset :: u64
  r_timestamp_ms :: "i64 option"
  r_timestamp_type :: timestamp_type
  r_key :: "bytes option"
  r_value :: "bytes option"
  r_headers :: "header list"

abbreviation offsets :: "krecord list \<Rightarrow> u64 list" where
  "offsets rs \<equiv> map r_offset rs"

text \<open>Records whose offsets increase strictly: what a partition delivers.\<close>

definition increasing :: "krecord list \<Rightarrow> bool" where
  "increasing rs = sorted_wrt (<) (offsets rs)"

lemma increasing_Nil [simp]: "increasing []"
  by (simp add: increasing_def)

lemma increasing_append:
  "increasing (a @ b) = (increasing a \<and> increasing b \<and>
     (\<forall>x \<in> set a. \<forall>y \<in> set b. r_offset x < r_offset y))"
  by (auto simp: increasing_def sorted_wrt_append)

lemma increasing_snoc:
  "increasing (rs @ [r]) = (increasing rs \<and> (\<forall>x \<in> set rs. r_offset x < r_offset r))"
  by (simp add: increasing_append) (simp add: increasing_def)

datatype flush_trigger = MaxOffsets | MaxBytes | MaxTime | Daily | Explicit

definition trigger_as_str :: "flush_trigger \<Rightarrow> string" where
  "trigger_as_str t = (case t of
      MaxOffsets \<Rightarrow> ''max-offsets''
    | MaxBytes \<Rightarrow> ''max-bytes''
    | MaxTime \<Rightarrow> ''max-time''
    | Daily \<Rightarrow> ''daily''
    | Explicit \<Rightarrow> ''explicit'')"

section \<open>Column types\<close>

datatype column_type = CT_Bytes | CT_Utf8 | CT_Json | CT_JsonParseable

text \<open>
  \<open>json_ok\<close> stands for \<open>serde_json::from_str::<IgnoredAny>\<close>.  The result says whether the payload is
  accepted.
\<close>

definition validate_column :: "(string \<Rightarrow> bool) \<Rightarrow> column_type \<Rightarrow> bytes option \<Rightarrow> unit + unit" where
  "validate_column json_ok ct payload = (case payload of
      None \<Rightarrow> Ok ()
    | Some bs \<Rightarrow> (case ct of
          CT_Bytes \<Rightarrow> Ok ()
        | CT_Utf8 \<Rightarrow> (case from_utf8 bs of None \<Rightarrow> Err () | Some _ \<Rightarrow> Ok ())
        | CT_Json \<Rightarrow> (case from_utf8 bs of None \<Rightarrow> Err () | Some _ \<Rightarrow> Ok ())
        | CT_JsonParseable \<Rightarrow> (case from_utf8 bs of
              None \<Rightarrow> Err ()
            | Some s \<Rightarrow> if json_ok s then Ok () else Err ())))"

text \<open>The column types form a chain: each accepts what the stricter ones accept.\<close>

lemma validate_column_utf8:
  "ct \<noteq> CT_Bytes \<Longrightarrow> validate_column j ct (Some bs) = Ok () \<Longrightarrow> from_utf8 bs \<noteq> None"
  by (cases ct) (auto simp: validate_column_def split: option.splits)

section \<open>Errors\<close>

datatype source_error = SrcTransport | SrcPositionLost | SrcInconsistent

definition source_is_transient :: "source_error \<Rightarrow> bool" where
  "source_is_transient e = (e = SrcTransport)"

datatype sink_error =
    UnexpectedPosition u64 u64
  | SnkTransport
  | SnkInconsistent
  | SnkRejected

definition sink_is_transient :: "sink_error \<Rightarrow> bool" where
  "sink_is_transient e = (e = SnkTransport)"

text \<open>\<open>SinkError::context\<close>: what a tee reports of an inner sink's error.\<close>

definition sink_context :: "sink_error \<Rightarrow> sink_error" where
  "sink_context e = (case e of
      SnkTransport \<Rightarrow> SnkTransport
    | SnkRejected \<Rightarrow> SnkRejected
    | SnkInconsistent \<Rightarrow> SnkInconsistent
    | UnexpectedPosition _ _ \<Rightarrow> SnkInconsistent)"

lemma sink_context_transient [simp]:
  "sink_is_transient (sink_context e) = sink_is_transient e"
  by (cases e) (simp_all add: sink_is_transient_def sink_context_def)

datatype notify_error = NtfTransport | NtfExhausted u32

datatype mirror_error =
    MSource source_error
  | MSink sink_error
  | MNotify notify_error
  | SourceWentBackwards u64 u64
  | SourceGapAboveExpected u64 u64
  | DestinationDrift u64 u64
  | SinkAheadOfSource u64 u64
  | SourceCompactedBelowExpected u64 u64 u64

definition mirror_is_transient :: "mirror_error \<Rightarrow> bool" where
  "mirror_is_transient e = (case e of
      MSource e \<Rightarrow> source_is_transient e
    | MSink e \<Rightarrow> sink_is_transient e
    | _ \<Rightarrow> False)"

end
