(* ===== verification/Run_Loop.thy ===== *)
theory Run_Loop
  imports Core_Types
begin

text \<open>
  The mirror loop (\<open>run_mirror_with_notifier\<close> in \<open>crates/mirror-core/src/lib.rs\<close>) over the traits
  \<open>Source\<close>, \<open>Sink\<close> and \<open>Notifier\<close> of the same file, each a record of operations.  What the outside
  does in one operation (broker answers, clocks, store outcomes) is that operation's first argument.
  The \<open>select!\<close> picks one event at a time, so a run is a list of events; heartbeats only log.

  The locale \<open>sink_contract\<close> is what the loop relies on of a destination.  Inside it, the loop is shown
  to hand the destination a strictly increasing sequence that starts at the position it checked.
\<close>

section \<open>The traits\<close>

record ('s, 'e) sink_ops =
  k_next_expected_offset :: "'e \<Rightarrow> 's \<Rightarrow> (sink_error + u64) \<times> 's"
  k_furthest_next_offset :: "'e \<Rightarrow> 's \<Rightarrow> (sink_error + u64 option) \<times> 's"
  k_write :: "'e \<Rightarrow> krecord \<Rightarrow> 's \<Rightarrow> (sink_error + unit) \<times> 's"
  k_flush :: "'e \<Rightarrow> 's \<Rightarrow> (sink_error + unit) \<times> 's"
  k_align :: "'e \<Rightarrow> u64 \<Rightarrow> 's \<Rightarrow> (sink_error + unit) \<times> 's"
  k_allows_compacted_source :: "'s \<Rightarrow> bool"
  k_allows_offset_holes :: "'s \<Rightarrow> bool"

text \<open>The default bodies of the trait's methods.\<close>

definition default_furthest :: "'e \<Rightarrow> 's \<Rightarrow> (sink_error + u64 option) \<times> 's" where
  "default_furthest e s = (Ok None, s)"

definition default_flush :: "'e \<Rightarrow> 's \<Rightarrow> (sink_error + unit) \<times> 's" where
  "default_flush e s = (Ok (), s)"

definition default_align :: "'e \<Rightarrow> u64 \<Rightarrow> 's \<Rightarrow> (sink_error + unit) \<times> 's" where
  "default_align e low s = (Ok (), s)"

definition default_allows :: "'s \<Rightarrow> bool" where
  "default_allows s = False"

record ('src, 'd) source_ops =
  s_seek :: "'d \<Rightarrow> u64 \<Rightarrow> 'src \<Rightarrow> (source_error + unit) \<times> 'src"
  s_poll_one :: "'d \<Rightarrow> 'src \<Rightarrow> (source_error + krecord option) \<times> 'src"
  s_low_watermark :: "'d \<Rightarrow> 'src \<Rightarrow> (source_error + u64) \<times> 'src"
  s_high_watermark :: "'d \<Rightarrow> 'src \<Rightarrow> (source_error + u64) \<times> 'src"

definition default_low_watermark :: "'d \<Rightarrow> 'src \<Rightarrow> (source_error + u64) \<times> 'src" where
  "default_low_watermark d s = (Ok 0, s)"

definition default_high_watermark :: "'d \<Rightarrow> 'src \<Rightarrow> (source_error + u64) \<times> 'src" where
  "default_high_watermark d s = (Ok u64_max, s)"

record ('n, 'f) notifier_ops =
  n_on_record :: "'f \<Rightarrow> krecord \<Rightarrow> 'n \<Rightarrow> (notify_error + unit) \<times> 'n"
  n_shutdown :: "'f \<Rightarrow> 'n \<Rightarrow> (notify_error + unit) \<times> 'n"

text \<open>\<open>NoOpNotifier\<close>.\<close>

definition no_op_notifier :: "('n, 'f) notifier_ops" where
  "no_op_notifier = \<lparr>n_on_record = (\<lambda>f r n. (Ok (), n)), n_shutdown = (\<lambda>f n. (Ok (), n))\<rparr>"

section \<open>Startup\<close>

record ('s, 'src, 'n) loop_state =
  lp_source :: 'src
  lp_sink :: 's
  lp_notifier :: 'n
  lp_expected :: u64
  lp_last_heartbeat_offset :: u64

text \<open>What the calls of the startup read: one environment per call.\<close>

record ('e, 'd) start_env =
  ste_next :: 'e
  ste_low :: 'd
  ste_high :: 'd
  ste_furthest :: 'e
  ste_align :: 'e
  ste_seek :: 'd

text \<open>Where to begin: at the sink's position, or, for a sink that may, at the low watermark.\<close>

definition choose_start ::
    "('s, 'e) sink_ops \<Rightarrow> 'e \<Rightarrow> u64 \<Rightarrow> u64 \<Rightarrow> 's \<Rightarrow> mirror_error + u64 \<times> 's" where
  "choose_start K e sink_start low sink =
     (if sink_start < low then
        (if k_allows_compacted_source K sink then
           (case k_align K e low sink of
              (Inl x, _) \<Rightarrow> Err (MSink x)
            | (Inr _, sink') \<Rightarrow> Ok (low, sink'))
         else Err (SourceCompactedBelowExpected sink_start low (saturating_sub low 1)))
      else Ok (sink_start, sink))"

definition start_mirror ::
    "('s, 'e) sink_ops \<Rightarrow> ('src, 'd) source_ops \<Rightarrow> ('e, 'd) start_env \<Rightarrow> 'src \<Rightarrow> 's \<Rightarrow> 'n
      \<Rightarrow> mirror_error + ('s, 'src, 'n) loop_state" where
  "start_mirror K S e source sink notifier =
     (case k_next_expected_offset K (ste_next e) sink of (Inl x, _) \<Rightarrow> Err (MSink x)
      | (Inr sink_start, sink1) \<Rightarrow>
     (case s_low_watermark S (ste_low e) source of (Inl x, _) \<Rightarrow> Err (MSource x)
      | (Inr low, source1) \<Rightarrow>
     (case s_high_watermark S (ste_high e) source1 of (Inl x, _) \<Rightarrow> Err (MSource x)
      | (Inr high, source2) \<Rightarrow>
     (case k_furthest_next_offset K (ste_furthest e) sink1 of (Inl x, _) \<Rightarrow> Err (MSink x)
      | (Inr furthest, sink2) \<Rightarrow>
     (let sink_furthest = unwrap_or furthest sink_start in
      if high < sink_furthest then Err (SinkAheadOfSource sink_furthest high)
      else
       (case choose_start K (ste_align e) sink_start low sink2 of
          Inl x \<Rightarrow> Err x
        | Inr (expected, sink4) \<Rightarrow>
           (case s_seek S (ste_seek e) expected source2 of
              (Inl x, _) \<Rightarrow> Err (MSource x)
            | (Inr _, source3) \<Rightarrow>
                Ok \<lparr>lp_source = source3, lp_sink = sink4, lp_notifier = notifier,
                    lp_expected = expected, lp_last_heartbeat_offset = expected\<rparr>)))))))"

section \<open>The loop\<close>

datatype ('e, 'd, 'f) loop_event =
    Shutdown 'e 'f
  | Heartbeat
  | Poll 'd 'e 'f

text \<open>\<open>Panicked\<close>: \<open>checked_add(1).expect(..)\<close> on an offset of \<open>u64::MAX\<close>.\<close>

datatype loop_result = Running | Finished | Failed mirror_error | Panicked

text \<open>One record that the source delivered.\<close>

definition deliver ::
    "('s, 'e) sink_ops \<Rightarrow> ('n, 'f) notifier_ops \<Rightarrow> 'e \<Rightarrow> 'f \<Rightarrow> krecord \<Rightarrow> ('s, 'src, 'n) loop_state
      \<Rightarrow> loop_result \<times> ('s, 'src, 'n) loop_state \<times> krecord list" where
  "deliver K N e f r st =
     (let expected = lp_expected st; got = r_offset r in
      if got < expected then (Failed (SourceWentBackwards expected got), st, [])
      else if expected < got \<and> \<not> k_allows_offset_holes K (lp_sink st)
      then (Failed (SourceGapAboveExpected expected got), st, [])
      else (let st1 = (if expected < got then st\<lparr>lp_expected := got\<rparr> else st) in
        case k_write K e r (lp_sink st1) of
          (Inl x, sink') \<Rightarrow> (Failed (MSink x), st1\<lparr>lp_sink := sink'\<rparr>, [])
        | (Inr _, sink') \<Rightarrow>
            (let st2 = st1\<lparr>lp_sink := sink'\<rparr> in
             case checked_add (lp_expected st2) 1 of
               None \<Rightarrow> (Panicked, st2, [r])
             | Some nxt \<Rightarrow>
                (case n_on_record N f r (lp_notifier st2) of
                   (Inl x, n') \<Rightarrow>
                     (Failed (MNotify x), st2\<lparr>lp_expected := nxt, lp_notifier := n'\<rparr>, [r])
                 | (Inr _, n') \<Rightarrow>
                     (Running, st2\<lparr>lp_expected := nxt, lp_notifier := n'\<rparr>, [r])))))"

definition idle_check ::
    "('s, 'e) sink_ops \<Rightarrow> 'e \<Rightarrow> ('s, 'src, 'n) loop_state
      \<Rightarrow> loop_result \<times> ('s, 'src, 'n) loop_state" where
  "idle_check K e st =
     (case k_next_expected_offset K e (lp_sink st) of
        (Inl x, sink') \<Rightarrow> (Failed (MSink x), st\<lparr>lp_sink := sink'\<rparr>)
      | (Inr current, sink') \<Rightarrow>
          (if current \<noteq> lp_expected st then Failed (DestinationDrift (lp_expected st) current)
           else Running, st\<lparr>lp_sink := sink'\<rparr>))"

definition finish_loop ::
    "('s, 'e) sink_ops \<Rightarrow> ('n, 'f) notifier_ops \<Rightarrow> 'e \<Rightarrow> 'f \<Rightarrow> ('s, 'src, 'n) loop_state
      \<Rightarrow> loop_result \<times> ('s, 'src, 'n) loop_state" where
  "finish_loop K N e f st =
     (case k_flush K e (lp_sink st) of
        (Inl x, sink') \<Rightarrow> (Failed (MSink x), st\<lparr>lp_sink := sink'\<rparr>)
      | (Inr _, sink') \<Rightarrow>
         (case n_shutdown N f (lp_notifier st) of
            (Inl x, n') \<Rightarrow> (Failed (MNotify x), st\<lparr>lp_sink := sink', lp_notifier := n'\<rparr>)
          | (Inr _, n') \<Rightarrow> (Finished, st\<lparr>lp_sink := sink', lp_notifier := n'\<rparr>)))"

text \<open>One turn of the loop; the last component lists the records the destination accepted.\<close>

definition loop_step ::
    "('s, 'e) sink_ops \<Rightarrow> ('src, 'd) source_ops \<Rightarrow> ('n, 'f) notifier_ops
      \<Rightarrow> ('e, 'd, 'f) loop_event \<Rightarrow> ('s, 'src, 'n) loop_state
      \<Rightarrow> loop_result \<times> ('s, 'src, 'n) loop_state \<times> krecord list" where
  "loop_step K S N ev st = (case ev of
      Shutdown e f \<Rightarrow> (case finish_loop K N e f st of (res, st') \<Rightarrow> (res, st', []))
    | Heartbeat \<Rightarrow> (Running, st\<lparr>lp_last_heartbeat_offset := lp_expected st\<rparr>, [])
    | Poll d e f \<Rightarrow> (case s_poll_one S d (lp_source st) of
          (Inl x, source') \<Rightarrow> (Failed (MSource x), st\<lparr>lp_source := source'\<rparr>, [])
        | (Inr None, source') \<Rightarrow>
            (case idle_check K e (st\<lparr>lp_source := source'\<rparr>) of (res, st') \<Rightarrow> (res, st', []))
        | (Inr (Some r), source') \<Rightarrow> deliver K N e f r (st\<lparr>lp_source := source'\<rparr>)))"

fun run_loop ::
    "('s, 'e) sink_ops \<Rightarrow> ('src, 'd) source_ops \<Rightarrow> ('n, 'f) notifier_ops
      \<Rightarrow> ('e, 'd, 'f) loop_event list \<Rightarrow> ('s, 'src, 'n) loop_state
      \<Rightarrow> loop_result \<times> ('s, 'src, 'n) loop_state \<times> krecord list" where
  "run_loop K S N [] st = (Running, st, [])"
| "run_loop K S N (ev # evs) st = (case loop_step K S N ev st of
      (Running, st', rs) \<Rightarrow>
        (case run_loop K S N evs st' of (res, st'', rs') \<Rightarrow> (res, st'', rs @ rs'))
    | (res, st', rs) \<Rightarrow> (res, st', rs))"

text \<open>A result after which the destination and the loop still agree.\<close>

definition intact :: "loop_result \<Rightarrow> bool" where
  "intact res = (case res of Failed (MSink _) \<Rightarrow> False | Panicked \<Rightarrow> False | _ \<Rightarrow> True)"

lemma intactD: "intact res \<Longrightarrow> res \<noteq> Panicked \<and> (\<forall>x. res \<noteq> Failed (MSink x))"
  by (auto simp: intact_def)

section \<open>What a started mirror has checked\<close>

lemma start_mirror_Inr:
  assumes "start_mirror K S e source sink notifier = Inr st"
  obtains h sink1 low src1 high src2 f sink2 where
    "k_next_expected_offset K (ste_next e) sink = (Inr h, sink1)"
    "s_low_watermark S (ste_low e) source = (Inr low, src1)"
    "s_high_watermark S (ste_high e) src1 = (Inr high, src2)"
    "k_furthest_next_offset K (ste_furthest e) sink1 = (Inr f, sink2)"
    "unwrap_or f h \<le> high"
    "choose_start K (ste_align e) h low sink2 = Inr (lp_expected st, lp_sink st)"
    "s_seek S (ste_seek e) (lp_expected st) src2 = (Inr (), lp_source st)"
    "lp_notifier st = notifier" "lp_last_heartbeat_offset st = lp_expected st"
  using assms unfolding start_mirror_def Let_def
  by (auto split: prod.splits sum.splits if_splits simp: not_less intro: that)

section \<open>What the source was polled for\<close>

text \<open>
  The specification of what a run has to deliver: the records that the polls of the events return when
  the source is asked event by event, up to a shutdown or a failure of the source.  No other part of
  the loop occurs in it.
\<close>

fun polled :: "('src, 'd) source_ops \<Rightarrow> ('e, 'd, 'f) loop_event list \<Rightarrow> 'src \<Rightarrow> krecord list" where
  "polled S [] src = []"
| "polled S (Shutdown e f # evs) src = []"
| "polled S (Heartbeat # evs) src = polled S evs src"
| "polled S (Poll d e f # evs) src = (case s_poll_one S d src of
      (Inl x, src') \<Rightarrow> []
    | (Inr None, src') \<Rightarrow> polled S evs src'
    | (Inr (Some r), src') \<Rightarrow> r # polled S evs src')"

text \<open>One delivery: the record unless the run fails, and the source as the poll left it.\<close>

lemma deliver_polled:
  assumes "deliver K N e f r st = (res, st', rs)"
  shows "lp_source st' = lp_source st \<and> (rs = [r] \<or> rs = [] \<and> (\<exists>x. res = Failed x))
    \<and> res \<noteq> Finished"
  using assms
  by (auto simp: deliver_def Let_def split: if_splits prod.splits sum.splits option.splits)

lemma run_loop_polled:
  "run_loop K S N evs st = (res, st', rs) \<Longrightarrow>
     rs = take (length rs) (polled S evs (lp_source st))
     \<and> (res = Running \<or> res = Finished \<longrightarrow> rs = polled S evs (lp_source st))"
proof (induction evs arbitrary: st rs)
  case (Cons ev evs)
  obtain r1 st1 rs1 where s: "loop_step K S N ev st = (r1, st1, rs1)" by (metis prod_cases3)
  show ?case
  proof (cases ev)
    case (Shutdown e f)
    then show ?thesis using Cons.prems
      by (auto simp: loop_step_def finish_loop_def split: prod.splits sum.splits)
  next
    case Heartbeat
    then have "run_loop K S N evs (st\<lparr>lp_last_heartbeat_offset := lp_expected st\<rparr>) = (res, st', rs)"
      using Cons.prems by (auto simp: loop_step_def split: prod.splits)
    from Cons.IH [OF this] Heartbeat show ?thesis by simp
  next
    case (Poll d e f)
    obtain q src' where p: "s_poll_one S d (lp_source st) = (q, src')" by fastforce
    show ?thesis
    proof (cases "\<exists>r. q = Inr (Some r)")
      case False
      then have "rs1 = []" "r1 \<noteq> Finished" "r1 = Running \<longrightarrow> lp_source st1 = src' \<and> q = Inr None"
        using s Poll p
        by (auto simp: loop_step_def idle_check_def split: prod.splits sum.splits option.splits if_splits)
      then show ?thesis using Cons.prems Cons.IH [of st1] s Poll p
        by (auto split: loop_result.splits prod.splits)
    next
      case True
      then obtain r where r: "q = Inr (Some r)" by blast
      then have "deliver K N e f r (st\<lparr>lp_source := src'\<rparr>) = (r1, st1, rs1)"
        using s Poll p by (simp add: loop_step_def)
      note d = deliver_polled [OF this]
      show ?thesis
      proof (cases "r1 = Running")
        case True
        then obtain rs2 where rest: "run_loop K S N evs st1 = (res, st', rs2)" "rs = rs1 @ rs2"
          using Cons.prems s by (auto split: prod.splits)
        then show ?thesis using Cons.IH [OF rest(1)] d True Poll p r by auto
      next
        case False
        then have "res = r1" "rs = rs1" using Cons.prems s by (auto split: loop_result.splits)
        then show ?thesis using d False Poll p r by auto
      qed
    qed
  qed
qed simp

text \<open>The start seeks the source to the position the loop begins with, after reading both watermarks.\<close>

lemma start_mirror_seeks:
  assumes "start_mirror K S e source sink notifier = Inr st"
  shows "s_seek S (ste_seek e) (lp_expected st)
      (snd (s_high_watermark S (ste_high e) (snd (s_low_watermark S (ste_low e) source))))
    = (Inr (), lp_source st)"
  by (rule start_mirror_Inr [OF assms]) simp

section \<open>What a destination owes the loop\<close>

locale sink_contract =
  fixes K :: "('s, 'e) sink_ops"
    and accepts :: "'s \<Rightarrow> krecord list \<Rightarrow> bool"
    and head :: "'s \<Rightarrow> u64"
    and compacted :: bool
  assumes compacted_law: "accepts s log \<Longrightarrow> k_allows_compacted_source K s = compacted"
    and next_law: "accepts s log \<Longrightarrow> k_next_expected_offset K e s = (Inr h, s') \<Longrightarrow>
      accepts s' log \<and> h = head s' \<and> head s' = head s"
    and furthest_law: "accepts s log \<Longrightarrow> k_furthest_next_offset K e s = (Inr f, s') \<Longrightarrow>
      accepts s' log \<and> head s' = head s \<and> head s \<le> unwrap_or f (head s)"
    and write_law: "accepts s log \<Longrightarrow> head s \<le> r_offset r \<Longrightarrow> r_offset r \<noteq> u64_max \<Longrightarrow>
      k_write K e r s = (Inr u, s') \<Longrightarrow> accepts s' (log @ [r]) \<and> head s' = r_offset r + 1"
    and flush_law: "accepts s log \<Longrightarrow> k_flush K e s = (Inr u, s') \<Longrightarrow>
      accepts s' log \<and> head s' = head s"
    and align_law: "accepts s log \<Longrightarrow> k_allows_compacted_source K s \<Longrightarrow> head s \<le> low \<Longrightarrow>
      k_align K e low s = (Inr u, s') \<Longrightarrow> accepts s' log \<and> head s' = low"
begin

text \<open>The state between two turns: the destination continues at the offset the loop expects.\<close>

definition in_step :: "('s, 'src, 'n) loop_state \<Rightarrow> krecord list \<Rightarrow> bool" where
  "in_step st log = (accepts (lp_sink st) log \<and> head (lp_sink st) = lp_expected st)"

lemma start_in_step:
  assumes "accepts sink log" "start_mirror K S e source sink notifier = Inr st"
  shows "in_step st log \<and> head sink \<le> lp_expected st"
proof -
  obtain h sink1 low src1 high src2 f sink2 where
    n: "k_next_expected_offset K (ste_next e) sink = (Inr h, sink1)" and
    f: "k_furthest_next_offset K (ste_furthest e) sink1 = (Inr f, sink2)" and
    c: "choose_start K (ste_align e) h low sink2 = Inr (lp_expected st, lp_sink st)"
    by (rule start_mirror_Inr [OF assms(2)])
  have 1: "accepts sink1 log" "h = head sink" "head sink1 = head sink"
    using next_law [OF assms(1) n] by auto
  have 2: "accepts sink2 log" "head sink2 = head sink" using furthest_law [OF 1(1) f] 1(3) by auto
  show ?thesis
  proof (cases "h < low")
    case True
    then have "k_allows_compacted_source K sink2" "lp_expected st = low"
      "k_align K (ste_align e) low sink2 = (Inr (), lp_sink st)"
      using c by (auto simp: choose_start_def split: if_splits prod.splits sum.splits)
    then show ?thesis
      using align_law [OF 2(1), of low "ste_align e" "()" "lp_sink st"] 1(2) 2(2) True
      by (simp add: in_step_def)
  next
    case False
    then show ?thesis using c 1(2) 2 by (simp add: choose_start_def in_step_def)
  qed
qed

lemma deliver_in_step:
  assumes "in_step st log" "deliver K N e f r st = (res, st', rs)" "res \<noteq> Panicked"
    "\<forall>x. res \<noteq> Failed (MSink x)"
  shows "in_step st' (log @ rs)
    \<and> (rs = [] \<and> lp_expected st' = lp_expected st
       \<or> rs = [r] \<and> lp_expected st \<le> r_offset r \<and> r_offset r \<noteq> u64_max
          \<and> lp_expected st' = r_offset r + 1
          \<and> (k_allows_offset_holes K (lp_sink st) \<or> r_offset r = lp_expected st))"
proof (cases "r_offset r < lp_expected st \<or>
    lp_expected st < r_offset r \<and> \<not> k_allows_offset_holes K (lp_sink st)")
  case True
  then show ?thesis using assms by (auto simp: deliver_def Let_def split: if_splits)
next
  case False
  then have le: "lp_expected st \<le> r_offset r"
    and hole: "k_allows_offset_holes K (lp_sink st) \<or> r_offset r = lp_expected st" by auto
  define st1 where "st1 = (if lp_expected st < r_offset r then st\<lparr>lp_expected := r_offset r\<rparr> else st)"
  have st1: "lp_sink st1 = lp_sink st" "lp_expected st1 = r_offset r" "lp_notifier st1 = lp_notifier st"
    using le by (auto simp: st1_def)
  obtain w sink' where w: "k_write K e r (lp_sink st) = (w, sink')" by fastforce
  have run: "(res, st', rs) = (case w of
      Inl x \<Rightarrow> (Failed (MSink x), st1\<lparr>lp_sink := sink'\<rparr>, [])
    | Inr _ \<Rightarrow> (case checked_add (r_offset r) 1 of
         None \<Rightarrow> (Panicked, st1\<lparr>lp_sink := sink'\<rparr>, [r])
       | Some nxt \<Rightarrow> (case n_on_record N f r (lp_notifier st) of
           (Inl x, n') \<Rightarrow>
             (Failed (MNotify x), st1\<lparr>lp_sink := sink', lp_expected := nxt, lp_notifier := n'\<rparr>, [r])
         | (Inr _, n') \<Rightarrow>
             (Running, st1\<lparr>lp_sink := sink', lp_expected := nxt, lp_notifier := n'\<rparr>, [r]))))"
    using assms(2) [symmetric] False w st1
    by (simp add: deliver_def Let_def st1_def [symmetric] split: sum.splits option.splits prod.splits)
  show ?thesis
  proof (cases w)
    case (Inl x)
    then show ?thesis using run assms(4) by auto
  next
    case (Inr u)
    have max: "r_offset r \<noteq> u64_max" using run Inr assms(3) by (auto simp: checked_succ)
    have "accepts sink' (log @ [r])" "head sink' = r_offset r + 1"
      using write_law [of "lp_sink st" log r e u sink'] assms(1) le max w Inr
      by (auto simp: in_step_def)
    moreover have "lp_sink st' = sink' \<and> lp_expected st' = r_offset r + 1 \<and> rs = [r]"
      using run Inr max by (auto simp: checked_succ split: prod.splits sum.splits)
    ultimately show ?thesis using max le hole by (simp add: in_step_def)
  qed
qed

lemma loop_step_in_step:
  assumes "in_step st log" "loop_step K S N ev st = (res, st', rs)" "intact res"
  shows "in_step st' (log @ rs)
    \<and> (rs = [] \<and> lp_expected st' = lp_expected st
       \<or> (\<exists>r. rs = [r] \<and> lp_expected st \<le> r_offset r \<and> r_offset r \<noteq> u64_max
          \<and> lp_expected st' = r_offset r + 1
          \<and> (k_allows_offset_holes K (lp_sink st) \<or> r_offset r = lp_expected st)))"
proof (cases ev)
  case (Shutdown e f)
  then show ?thesis
    using assms flush_law [of "lp_sink st" log e]
    by (auto simp: loop_step_def finish_loop_def in_step_def intact_def
        split: prod.splits sum.splits loop_result.splits)
next
  case Heartbeat
  then show ?thesis using assms by (auto simp: loop_step_def in_step_def)
next
  case (Poll d e f)
  obtain p source' where p: "s_poll_one S d (lp_source st) = (p, source')" by fastforce
  have st1: "in_step (st\<lparr>lp_source := source'\<rparr>) log" using assms(1) by (simp add: in_step_def)
  show ?thesis
  proof (cases p)
    case (Inl x)
    then show ?thesis using assms Poll p by (auto simp: loop_step_def in_step_def)
  next
    case (Inr q)
    show ?thesis
    proof (cases q)
      case None
      then show ?thesis
        using assms Poll p Inr next_law [of "lp_sink st" log e]
        by (auto simp: loop_step_def idle_check_def in_step_def intact_def split: prod.splits sum.splits)
    next
      case (Some r)
      then have "deliver K N e f r (st\<lparr>lp_source := source'\<rparr>) = (res, st', rs)"
        using assms(2) Poll p Inr by (simp add: loop_step_def)
      from deliver_in_step [OF st1 this] intactD [OF assms(3)] show ?thesis by auto
    qed
  qed
qed

lemma loop_step_offset:
  assumes "loop_step K S N ev st = (res, st', rs)" "r \<in> set rs"
  shows "rs = [r] \<and> lp_expected st \<le> r_offset r
    \<and> (k_allows_offset_holes K (lp_sink st) \<or> r_offset r = lp_expected st)"
  using assms
  by (auto simp: loop_step_def deliver_def Let_def finish_loop_def idle_check_def
      split: loop_event.splits prod.splits sum.splits option.splits if_splits)

text \<open>Every record the loop hands over is at or above the position it started from, in order.\<close>

lemma run_loop_ascends:
  "in_step st log \<Longrightarrow> run_loop K S N evs st = (res, st', rs) \<Longrightarrow>
     increasing rs \<and> (\<forall>r \<in> set rs. lp_expected st \<le> r_offset r)
     \<and> (intact res \<longrightarrow> in_step st' (log @ rs) \<and> lp_expected st \<le> lp_expected st'
          \<and> (\<forall>r \<in> set rs. r_offset r < lp_expected st'))"
proof (induction evs arbitrary: st log rs)
  case (Cons ev evs)
  obtain r1 st1 rs1 where s: "loop_step K S N ev st = (r1, st1, rs1)" by (metis prod_cases3)
  have off: "\<forall>r \<in> set rs1. rs1 = [r] \<and> lp_expected st \<le> r_offset r"
    using loop_step_offset [OF s] by blast
  have inc1: "increasing rs1" using off by (cases rs1) (auto simp: increasing_def)
  note stp = loop_step_in_step [OF Cons.prems(1) s]
  have mono: "lp_expected st \<le> lp_expected st1 \<and> (\<forall>r \<in> set rs1. r_offset r < lp_expected st1)"
    if "intact r1"
    using stp [OF that] by (auto simp: lt_succ intro: order_trans [OF _ less_imp_le [OF lt_succ]])
  show ?case
  proof (cases "r1 = Running")
    case True
    then obtain rs2 where rest: "run_loop K S N evs st1 = (res, st', rs2)" "rs = rs1 @ rs2"
      using Cons.prems(2) s by (auto split: prod.splits)
    have i1: "intact r1" using True by (simp add: intact_def)
    have IH: "increasing rs2" "\<forall>r \<in> set rs2. lp_expected st1 \<le> r_offset r"
      "intact res \<longrightarrow> in_step st' ((log @ rs1) @ rs2) \<and> lp_expected st1 \<le> lp_expected st'
        \<and> (\<forall>r \<in> set rs2. r_offset r < lp_expected st')"
      using Cons.IH [of st1 "log @ rs1" rs2] stp [OF i1] rest(1) by auto
    have "increasing rs"
      using inc1 IH(1,2) mono [OF i1] rest(2)
      by (auto simp: increasing_append intro: less_le_trans)
    moreover have "\<forall>r \<in> set rs. lp_expected st \<le> r_offset r"
      using off IH(2) mono [OF i1] rest(2) by (auto intro: order_trans)
    moreover have "intact res \<longrightarrow> in_step st' (log @ rs) \<and> lp_expected st \<le> lp_expected st'
        \<and> (\<forall>r \<in> set rs. r_offset r < lp_expected st')"
      using IH(3) mono [OF i1] rest(2) by (auto intro: order_trans less_le_trans)
    ultimately show ?thesis by blast
  next
    case False
    then have "res = r1" "st' = st1" "rs = rs1"
      using Cons.prems(2) s by (auto split: loop_result.splits)
    then show ?thesis using inc1 off mono stp by blast
  qed
qed auto

text \<open>A whole run, from the start checks on.\<close>

lemma start_at_head:
  assumes "accepts sink log" "start_mirror K S e source sink notifier = Inr st" "\<not> compacted"
  shows "lp_expected st = head sink"
proof -
  obtain h sink1 low src1 high src2 f sink2 where
    n: "k_next_expected_offset K (ste_next e) sink = (Inr h, sink1)" and
    f: "k_furthest_next_offset K (ste_furthest e) sink1 = (Inr f, sink2)" and
    c: "choose_start K (ste_align e) h low sink2 = Inr (lp_expected st, lp_sink st)"
    by (rule start_mirror_Inr [OF assms(2)])
  have "accepts sink1 log" "h = head sink" using next_law [OF assms(1) n] by auto
  moreover from this have "accepts sink2 log" using furthest_law [OF _ f] by blast
  ultimately show ?thesis
    using c compacted_law assms(3) by (auto simp: choose_start_def split: if_splits)
qed

lemma mirror_run:
  assumes "accepts sink log" "start_mirror K S e source sink notifier = Inr st"
    "run_loop K S N evs st = (res, st', rs)"
  shows "increasing rs \<and> head sink \<le> lp_expected st \<and> (\<not> compacted \<longrightarrow> lp_expected st = head sink)
    \<and> (\<forall>r \<in> set rs. lp_expected st \<le> r_offset r)
    \<and> (intact res \<longrightarrow> accepts (lp_sink st') (log @ rs) \<and> head (lp_sink st') = lp_expected st'
         \<and> lp_expected st \<le> lp_expected st' \<and> (\<forall>r \<in> set rs. r_offset r < lp_expected st'))"
proof -
  have "in_step st log" "head sink \<le> lp_expected st"
    using start_in_step [OF assms(1,2)] by auto
  then show ?thesis
    using run_loop_ascends [OF _ assms(3), of log] start_at_head [OF assms(1,2)]
    by (auto simp: in_step_def)
qed

text \<open>A destination that refuses holes gets a contiguous sequence.\<close>

lemma run_loop_contiguous:
  assumes holes: "\<And>s. \<not> k_allows_offset_holes K s"
  shows "in_step st log \<Longrightarrow> run_loop K S N evs st = (res, st', rs) \<Longrightarrow>
     offsets rs = map (\<lambda>i. lp_expected st + of_nat i) [0..<length rs]"
proof (induction evs arbitrary: st log rs)
  case (Cons ev evs)
  obtain r1 st1 rs1 where s: "loop_step K S N ev st = (r1, st1, rs1)" by (metis prod_cases3)
  have off: "\<forall>r \<in> set rs1. rs1 = [r] \<and> r_offset r = lp_expected st"
    using loop_step_offset [OF s] holes by blast
  have one: "offsets rs1 = map (\<lambda>i. lp_expected st + of_nat i) [0..<length rs1]"
    using off by (cases rs1) auto
  show ?case
  proof (cases "r1 = Running")
    case True
    then obtain rs2 where rest: "run_loop K S N evs st1 = (res, st', rs2)" "rs = rs1 @ rs2"
      using Cons.prems(2) s by (auto split: prod.splits)
    have stp: "in_step st1 (log @ rs1) \<and> (rs1 = [] \<and> lp_expected st1 = lp_expected st \<or>
        (\<exists>r. rs1 = [r] \<and> lp_expected st1 = r_offset r + 1))"
      using loop_step_in_step [OF Cons.prems(1) s] True by (auto simp: intact_def)
    then have IH: "offsets rs2 = map (\<lambda>i. lp_expected st1 + of_nat i) [0..<length rs2]"
      using Cons.IH [of st1 "log @ rs1" rs2] rest(1) by blast
    show ?thesis
    proof (cases rs1)
      case Nil
      then show ?thesis using IH stp rest(2) by simp
    next
      case (Cons a as)
      then have "rs1 = [a]" "lp_expected st1 = lp_expected st + 1" "r_offset a = lp_expected st"
        using stp off by auto
      moreover have "map (\<lambda>i. x + of_nat i) [0..<Suc n] =
          x # map (\<lambda>i. x + 1 + of_nat i) [0..<n]" for x :: u64 and n
        by (simp add: upt_conv_Cons map_Suc_upt [symmetric] o_def add.assoc del: upt_Suc)
      ultimately show ?thesis using IH rest(2) by (simp del: upt_Suc)
    qed
  next
    case False
    then have "rs = rs1"
      using Cons.prems(2) s by (auto split: loop_result.splits)
    then show ?thesis using one by simp
  qed
qed auto

end

end
