(* ===== verification/Tee.thy ===== *)
theory Tee
  imports Run_Loop
begin

text \<open>
  The fan-out to several destinations (\<open>crates/mirror-core/src/tee.rs\<close>): \<open>TeeSink\<close> over inner sinks
  that are given by their operations, and the coordinator that turns the flushes of several sinks into
  one.  The inner sinks' calls run concurrently in the code and touch disjoint state, so here they run
  in index order; call \<open>i\<close> reads the environment \<open>e i\<close>.  A tee of destinations that each keep the
  loop's contract keeps it too (locale \<open>tee_of\<close>), and every inner sink receives exactly the records
  at or above the position it had at the start.
\<close>

section \<open>State\<close>

record 's inner_sink =
  in_name :: string
  in_sink :: 's
  in_head :: u64

record ('s, 'c) tee_sink =
  te_inners :: "'s inner_sink list"
  te_cache :: "'c option"
  te_resume_cursor :: "u64 option"

text \<open>\<open>join_all\<close>: every call runs; the first error in index order is reported.\<close>

fun run_all :: "(nat \<Rightarrow> 'x \<Rightarrow> 'err option \<times> 'x) \<Rightarrow> nat \<Rightarrow> 'x list \<Rightarrow> 'err option \<times> 'x list" where
  "run_all f i [] = (None, [])"
| "run_all f i (x # xs) =
     (let (o1, x') = f i x; (o2, xs') = run_all f (Suc i) xs
      in (case o1 of Some e \<Rightarrow> Some e | None \<Rightarrow> o2, x' # xs'))"

section \<open>Opening and the resume cursor\<close>

fun query_heads ::
    "('s, 'e) sink_ops \<Rightarrow> (nat \<Rightarrow> 'e) \<Rightarrow> nat \<Rightarrow> (string \<times> 's) list \<Rightarrow> sink_error + 's inner_sink list" where
  "query_heads K e i [] = Ok []"
| "query_heads K e i ((name, sink) # xs) = (case k_next_expected_offset K (e i) sink of
      (Inl x, _) \<Rightarrow> Inl x
    | (Inr h, sink') \<Rightarrow> (case query_heads K e (Suc i) xs of
          Inl x \<Rightarrow> Inl x
        | Inr ys \<Rightarrow> Ok (\<lparr>in_name = name, in_sink = sink', in_head = h\<rparr> # ys)))"

definition tee_open ::
    "('s, 'e) sink_ops \<Rightarrow> (nat \<Rightarrow> 'e) \<Rightarrow> (string \<times> 's) list \<Rightarrow> 'c option
      \<Rightarrow> sink_error + ('s, 'c) tee_sink" where
  "tee_open K e sinks cache =
     (if sinks = [] then Err SnkTransport
      else (case query_heads K e 0 sinks of
          Inl x \<Rightarrow> Inl x
        | Inr inners \<Rightarrow> Ok \<lparr>te_inners = inners, te_cache = cache, te_resume_cursor = None\<rparr>))"

definition set_resume_floor :: "u64 \<Rightarrow> ('s, 'c) tee_sink \<Rightarrow> ('s, 'c) tee_sink" where
  "set_resume_floor fl t = t\<lparr>te_resume_cursor := Some fl\<rparr>"

definition advance_resume_cursor :: "u64 \<Rightarrow> ('s, 'c) tee_sink \<Rightarrow> ('s, 'c) tee_sink" where
  "advance_resume_cursor off t = (case te_resume_cursor t of
      None \<Rightarrow> t
    | Some cursor \<Rightarrow> t\<lparr>te_resume_cursor := Some (max cursor (off + 1))\<rparr>)"

definition heads :: "('s, 'c) tee_sink \<Rightarrow> (string \<times> u64) list" where
  "heads t = map (\<lambda>x. (in_name x, in_head x)) (te_inners t)"

section \<open>The sink operations\<close>

fun requery ::
    "('s, 'e) sink_ops \<Rightarrow> (nat \<Rightarrow> 'e) \<Rightarrow> nat \<Rightarrow> 's inner_sink list
      \<Rightarrow> (sink_error + unit) \<times> 's inner_sink list" where
  "requery K e i [] = (Ok (), [])"
| "requery K e i (x # xs) = (case k_next_expected_offset K (e i) (in_sink x) of
      (Inl err, sink') \<Rightarrow> (Inl err, x\<lparr>in_sink := sink'\<rparr> # xs)
    | (Inr h, sink') \<Rightarrow>
        if h < in_head x then (Err SnkInconsistent, x\<lparr>in_sink := sink'\<rparr> # xs)
        else (let (res, xs') = requery K e (Suc i) xs
              in (res, x\<lparr>in_sink := sink', in_head := h\<rparr> # xs')))"

text \<open>The smallest head; there is at least one inner sink.\<close>

definition min_head :: "'s inner_sink list \<Rightarrow> u64" where
  "min_head xs = Min (set (map in_head xs))"

definition tee_position :: "('s, 'c) tee_sink \<Rightarrow> u64" where
  "tee_position t = (case te_resume_cursor t of
      Some cursor \<Rightarrow> min (min_head (te_inners t)) cursor
    | None \<Rightarrow> min_head (te_inners t))"

definition tee_next_expected_offset ::
    "('s, 'e) sink_ops \<Rightarrow> (nat \<Rightarrow> 'e) \<Rightarrow> ('s, 'c) tee_sink \<Rightarrow> (sink_error + u64) \<times> ('s, 'c) tee_sink" where
  "tee_next_expected_offset K e t =
     (case requery K e 0 (te_inners t) of
        (Inl x, inners) \<Rightarrow> (Inl x, t\<lparr>te_inners := inners\<rparr>)
      | (Inr _, inners) \<Rightarrow>
          (let t' = t\<lparr>te_inners := inners\<rparr> in (Ok (tee_position t'), t')))"

fun furthest_of ::
    "('s, 'e) sink_ops \<Rightarrow> (nat \<Rightarrow> 'e) \<Rightarrow> nat \<Rightarrow> u64 \<Rightarrow> 's inner_sink list
      \<Rightarrow> (sink_error + u64) \<times> 's inner_sink list" where
  "furthest_of K e i acc [] = (Ok acc, [])"
| "furthest_of K e i acc (x # xs) = (case k_furthest_next_offset K (e i) (in_sink x) of
      (Inl err, sink') \<Rightarrow> (Inl err, x\<lparr>in_sink := sink'\<rparr> # xs)
    | (Inr f, sink') \<Rightarrow>
        (let (res, xs') = furthest_of K e (Suc i) (max acc (unwrap_or f (in_head x))) xs
         in (res, x\<lparr>in_sink := sink'\<rparr> # xs')))"

definition tee_furthest_next_offset ::
    "('s, 'e) sink_ops \<Rightarrow> (nat \<Rightarrow> 'e) \<Rightarrow> ('s, 'c) tee_sink
      \<Rightarrow> (sink_error + u64 option) \<times> ('s, 'c) tee_sink" where
  "tee_furthest_next_offset K e t =
     (case furthest_of K e 0 0 (te_inners t) of
        (Inl x, inners) \<Rightarrow> (Inl x, t\<lparr>te_inners := inners\<rparr>)
      | (Inr f, inners) \<Rightarrow> (Ok (Some f), t\<lparr>te_inners := inners\<rparr>))"

text \<open>One inner sink's part of a write: it writes when it is not past the record.\<close>

definition write_inner ::
    "('s, 'e) sink_ops \<Rightarrow> (nat \<Rightarrow> 'e) \<Rightarrow> krecord \<Rightarrow> nat \<Rightarrow> 's inner_sink
      \<Rightarrow> sink_error option \<times> 's inner_sink" where
  "write_inner K e r i x =
     (if in_head x \<le> r_offset r then
        (case k_write K (e i) r (in_sink x) of
           (Inl err, sink') \<Rightarrow> (Some err, x\<lparr>in_sink := sink'\<rparr>)
         | (Inr _, sink') \<Rightarrow> (None, x\<lparr>in_sink := sink', in_head := r_offset r + 1\<rparr>))
      else (None, x))"

text \<open>\<open>apply_cache\<close> is the binding's \<open>apply_record\<close>.\<close>

definition tee_write ::
    "('s, 'e) sink_ops \<Rightarrow> (krecord \<Rightarrow> 'c \<Rightarrow> 'c) \<Rightarrow> (nat \<Rightarrow> 'e) \<Rightarrow> krecord \<Rightarrow> ('s, 'c) tee_sink
      \<Rightarrow> (sink_error + unit) \<times> ('s, 'c) tee_sink" where
  "tee_write K apply_cache e r t =
     (let t1 = t\<lparr>te_cache := map_option (apply_cache r) (te_cache t)\<rparr> in
      if \<not> list_ex (\<lambda>x. in_head x \<le> r_offset r) (te_inners t1)
      then (Ok (), advance_resume_cursor (r_offset r) t1)
      else (case run_all (write_inner K e r) 0 (te_inners t1) of
          (Some err, inners) \<Rightarrow> (Err (sink_context err), t1\<lparr>te_inners := inners\<rparr>)
        | (None, inners) \<Rightarrow>
            (Ok (), advance_resume_cursor (r_offset r) (t1\<lparr>te_inners := inners\<rparr>))))"

definition flush_inner ::
    "('s, 'e) sink_ops \<Rightarrow> (nat \<Rightarrow> 'e) \<Rightarrow> nat \<Rightarrow> 's inner_sink \<Rightarrow> sink_error option \<times> 's inner_sink" where
  "flush_inner K e i x = (case k_flush K (e i) (in_sink x) of
      (Inl err, sink') \<Rightarrow> (Some err, x\<lparr>in_sink := sink'\<rparr>)
    | (Inr _, sink') \<Rightarrow> (None, x\<lparr>in_sink := sink'\<rparr>))"

definition tee_flush ::
    "('s, 'e) sink_ops \<Rightarrow> (nat \<Rightarrow> 'e) \<Rightarrow> ('s, 'c) tee_sink \<Rightarrow> (sink_error + unit) \<times> ('s, 'c) tee_sink" where
  "tee_flush K e t = (case run_all (flush_inner K e) 0 (te_inners t) of
      (Some err, inners) \<Rightarrow> (Err (sink_context err), t\<lparr>te_inners := inners\<rparr>)
    | (None, inners) \<Rightarrow> (Ok (), t\<lparr>te_inners := inners\<rparr>))"

definition tee_allows_compacted_source :: "('s, 'e) sink_ops \<Rightarrow> ('s, 'c) tee_sink \<Rightarrow> bool" where
  "tee_allows_compacted_source K t =
     list_all (\<lambda>x. k_allows_compacted_source K (in_sink x)) (te_inners t)"

definition tee_allows_offset_holes :: "('s, 'e) sink_ops \<Rightarrow> ('s, 'c) tee_sink \<Rightarrow> bool" where
  "tee_allows_offset_holes K t =
     list_all (\<lambda>x. k_allows_offset_holes K (in_sink x)) (te_inners t)"

definition align_inner ::
    "('s, 'e) sink_ops \<Rightarrow> (nat \<Rightarrow> 'e) \<Rightarrow> u64 \<Rightarrow> nat \<Rightarrow> 's inner_sink
      \<Rightarrow> sink_error option \<times> 's inner_sink" where
  "align_inner K e low i x = (case k_align K (e i) low (in_sink x) of
      (Inl err, sink') \<Rightarrow> (Some err, x\<lparr>in_sink := sink'\<rparr>)
    | (Inr _, sink') \<Rightarrow> (None, x\<lparr>in_sink := sink'\<rparr>))"

definition tee_align ::
    "('s, 'e) sink_ops \<Rightarrow> (nat \<Rightarrow> 'e) \<Rightarrow> u64 \<Rightarrow> ('s, 'c) tee_sink
      \<Rightarrow> (sink_error + unit) \<times> ('s, 'c) tee_sink" where
  "tee_align K e low t = (case run_all (align_inner K e low) 0 (te_inners t) of
      (Some err, inners) \<Rightarrow> (Err (sink_context err), t\<lparr>te_inners := inners\<rparr>)
    | (None, inners) \<Rightarrow>
        (Ok (), t\<lparr>te_inners := map (\<lambda>x. x\<lparr>in_head := low\<rparr>) inners\<rparr>))"

definition tee_ops ::
    "('s, 'e) sink_ops \<Rightarrow> (krecord \<Rightarrow> 'c \<Rightarrow> 'c) \<Rightarrow> (('s, 'c) tee_sink, nat \<Rightarrow> 'e) sink_ops" where
  "tee_ops K apply_cache = \<lparr>
     k_next_expected_offset = tee_next_expected_offset K,
     k_furthest_next_offset = tee_furthest_next_offset K,
     k_write = tee_write K apply_cache,
     k_flush = tee_flush K,
     k_align = tee_align K,
     k_allows_compacted_source = tee_allows_compacted_source K,
     k_allows_offset_holes = tee_allows_offset_holes K\<rparr>"

section \<open>Flush events of several sinks\<close>

text \<open>Which observer each inner sink gets: none, the outer one, or a relay to the coordinator.\<close>

datatype observer_wiring = NoObserver | Forward nat | Coordinate "nat list"

definition wire_flush_observer :: "('s \<Rightarrow> bool) \<Rightarrow> ('s, 'c) tee_sink \<Rightarrow> observer_wiring" where
  "wire_flush_observer supports t =
     (let supporting = map fst (filter (\<lambda>(i, x). supports (in_sink x))
            (zip [0..<length (te_inners t)] (te_inners t)))
      in case supporting of
          [] \<Rightarrow> NoObserver
        | [i] \<Rightarrow> Forward i
        | is \<Rightarrow> Coordinate is)"

definition tee_supports_flush_observer :: "('s \<Rightarrow> bool) \<Rightarrow> ('s, 'c) tee_sink \<Rightarrow> bool" where
  "tee_supports_flush_observer supports t = list_ex (\<lambda>x. supports (in_sink x)) (te_inners t)"

record coordinator =
  mf_per_sink_flushed_to :: "u64 list"
  mf_last_fired_to :: "u64 option"
  mf_outer :: "(u64 \<times> u64) list"

definition coordinator_new :: "nat \<Rightarrow> coordinator" where
  "coordinator_new n = \<lparr>mf_per_sink_flushed_to = replicate n 0, mf_last_fired_to = None, mf_outer = []\<rparr>"

definition note_flush :: "nat \<Rightarrow> u64 \<Rightarrow> coordinator \<Rightarrow> coordinator" where
  "note_flush i to c =
     (let per = mf_per_sink_flushed_to c;
          per' = (if per ! i < to then per[i := to] else per);
          new_min = Min (set per');
          c1 = c\<lparr>mf_per_sink_flushed_to := per'\<rparr>
      in case mf_last_fired_to c of
          Some prev \<Rightarrow>
            if prev < new_min
            then c1\<lparr>mf_last_fired_to := Some new_min, mf_outer := mf_outer c @ [(prev, new_min)]\<rparr>
            else c1
        | None \<Rightarrow>
            if 0 < new_min
            then c1\<lparr>mf_last_fired_to := Some new_min, mf_outer := mf_outer c @ [(0, new_min)]\<rparr>
            else c1)"

text \<open>\<open>PerSinkRelay::on_flushed\<close>: the sink's own \<open>from\<close> is dropped.\<close>

definition relay_on_flushed :: "nat \<Rightarrow> u64 \<times> u64 \<Rightarrow> coordinator \<Rightarrow> coordinator" where
  "relay_on_flushed i ev c = note_flush i (snd ev) c"

definition relay_all :: "(nat \<times> u64 \<times> u64) list \<Rightarrow> coordinator \<Rightarrow> coordinator" where
  "relay_all evs c = fold (\<lambda>(i, ev). relay_on_flushed i ev) evs c"

end
