(* ===== verification/Naming.thy ===== *)
theory Naming
  imports Core_Types
begin

text \<open>
  The names of blob objects (\<open>crates/mirror-fs/src/naming.rs\<close>), the formats that give their
  extension (\<open>crates/mirror-envelope/src/lib.rs\<close>) and the key ids that encrypted blobs carry
  (\<open>crates/mirror-envelope/src/keys.rs\<close>).  The lemmas show that printing and parsing are inverse, and
  that the order of the names, which listings and \<open>list_after\<close> use, is the order of the offsets.
\<close>

section \<open>Formats and key ids\<close>

datatype format = Parquet | Ndjson

definition extension :: "format \<Rightarrow> string" where
  "extension f = (case f of Parquet \<Rightarrow> ''parquet'' | Ndjson \<Rightarrow> ''ndjson'')"

definition is_key_id :: "string \<Rightarrow> bool" where
  "is_key_id b = (b \<noteq> [] \<and> length b \<le> 32
     \<and> (is_ascii_lowercase (b ! 0) \<or> is_ascii_digit (b ! 0))
     \<and> list_all (\<lambda>c. is_ascii_lowercase c \<or> is_ascii_digit c \<or> c = CHR ''-'') b)"

lemma dot_not_in_key_id: "is_key_id b \<Longrightarrow> CHR ''.'' \<notin> set b"
  by (auto simp: is_key_id_def list_all_iff is_ascii_lowercase_def is_ascii_digit_def)

lemma dot_not_in_extension [simp]: "CHR ''.'' \<notin> set (extension f)"
  by (cases f) (simp_all add: extension_def)

section \<open>Names\<close>

definition offset_width :: nat where
  "offset_width = 20"

definition batch_filename :: "u64 \<Rightarrow> u64 \<Rightarrow> string \<Rightarrow> string" where
  "batch_filename frm to ext =
     pad_dec offset_width (unat frm) @ ''-'' @ pad_dec offset_width (unat to) @ ''.'' @ ext"

definition parse_filename :: "string \<Rightarrow> string \<Rightarrow> (u64 \<times> u64) option" where
  "parse_filename name ext =
     Option.bind (strip_suffix (''.'' @ ext) name) (\<lambda>stem.
     Option.bind (split_once ''-'' stem) (\<lambda>(frm, to).
     Option.bind (parse_u64 frm) (\<lambda>f.
     Option.bind (parse_u64 to) (\<lambda>t. Some (f, t)))))"

record blob_name =
  bn_from :: u64
  bn_to :: u64
  bn_key_id :: "string option"

definition blob_filename :: "u64 \<Rightarrow> u64 \<Rightarrow> string option \<Rightarrow> string \<Rightarrow> string" where
  "blob_filename frm to key_id ext = (case key_id of
      None \<Rightarrow> batch_filename frm to ext
    | Some kid \<Rightarrow> pad_dec offset_width (unat frm) @ ''-'' @ pad_dec offset_width (unat to)
        @ ''.k-'' @ kid @ ''.'' @ ext)"

definition parse_blob_name :: "string \<Rightarrow> string \<Rightarrow> blob_name option" where
  "parse_blob_name name ext =
     Option.bind (strip_suffix (''.'' @ ext) name) (\<lambda>stem.
     Option.bind
       (case split_once ''.k-'' stem of
          Some (rng, kid) \<Rightarrow> if is_key_id kid then Some (rng, Some kid) else None
        | None \<Rightarrow> Some (stem, None))
       (\<lambda>(rng, key_id).
     Option.bind (split_once ''-'' rng) (\<lambda>(frm, to).
     Option.bind (parse_u64 frm) (\<lambda>f.
     Option.bind (parse_u64 to) (\<lambda>t.
       Some \<lparr>bn_from = f, bn_to = t, bn_key_id = key_id\<rparr>)))))"

text \<open>\<open>partition_dir\<close>: \<open>Path::join\<close> of a relative component, as a list of components.\<close>

definition partition_dir :: "string list \<Rightarrow> string \<Rightarrow> u32 \<Rightarrow> string list" where
  "partition_dir root destination_name part = root @ [destination_name, dec_of (unat part)]"

section \<open>Printing and parsing\<close>

lemma pad_no_char:
  "\<not> is_ascii_digit c \<Longrightarrow> c \<notin> set (pad_dec w n)"
  by (rule digits_no_char) (simp_all add: str_simps)

lemma length_pad_offset [str_simps]: "length (pad_dec offset_width (unat (x :: u64))) = 20"
  using length_pad_dec [of "unat x" 20] unat_lt_2p64 [of x]
  by (simp add: offset_width_def)

lemma split_dash [str_simps]:
  "split_once ''-'' (pad_dec w a @ CHR ''-'' # b) = Some (pad_dec w a, b)"
  using split_once_at [of "''-''" "pad_dec w a" b] by (simp add: pad_no_char)

lemma split_key [str_simps]:
  "CHR ''.'' \<notin> set a \<Longrightarrow> split_once ''.k-'' (a @ CHR ''.'' # CHR ''k'' # CHR ''-'' # b) = Some (a, b)"
  using split_once_at [of "''.k-''" a b] by simp

lemma parse_filename_batch [str_simps]:
  "parse_filename (batch_filename f t ext) ext = Some (f, t)"
proof -
  have "strip_suffix (''.'' @ ext) (batch_filename f t ext) =
      Some (pad_dec offset_width (unat f) @ CHR ''-'' # pad_dec offset_width (unat t))"
    using strip_suffix_append [of "''.'' @ ext"
        "pad_dec offset_width (unat f) @ CHR ''-'' # pad_dec offset_width (unat t)"]
    by (simp add: batch_filename_def)
  then show ?thesis by (simp add: parse_filename_def str_simps)
qed

lemma blob_stem:
  "strip_suffix (''.'' @ ext) (blob_filename f t k ext) =
     Some (pad_dec offset_width (unat f) @ CHR ''-'' # pad_dec offset_width (unat t)
       @ (case k of None \<Rightarrow> [] | Some kid \<Rightarrow> ''.k-'' @ kid))"
  using strip_suffix_append [of "''.'' @ ext"
      "pad_dec offset_width (unat f) @ CHR ''-'' # pad_dec offset_width (unat t)
        @ (case k of None \<Rightarrow> [] | Some kid \<Rightarrow> ''.k-'' @ kid)"]
  by (simp add: blob_filename_def batch_filename_def split: option.splits)

lemma parse_blob_filename:
  assumes "\<And>kid. k = Some kid \<Longrightarrow> is_key_id kid"
  shows "parse_blob_name (blob_filename f t k ext) ext =
    Some \<lparr>bn_from = f, bn_to = t, bn_key_id = k\<rparr>"
proof -
  let ?range = "pad_dec offset_width (unat f) @ CHR ''-'' # pad_dec offset_width (unat t)"
  have dot: "CHR ''.'' \<notin> set ?range" by (simp add: pad_no_char)
  show ?thesis
  proof (cases k)
    case None
    have "split_once ''.k-'' ?range = None"
      by (rule split_once_none) (use dot in auto)
    then show ?thesis
      using None blob_stem [of ext f t k] by (simp add: parse_blob_name_def str_simps)
  next
    case (Some kid)
    have "split_once ''.k-'' (?range @ CHR ''.'' # CHR ''k'' # CHR ''-'' # kid) = Some (?range, kid)"
      by (rule split_key) (rule dot)
    then show ?thesis
      using Some assms blob_stem [of ext f t k] by (simp add: parse_blob_name_def str_simps)
  qed
qed

lemma blob_filename_inject:
  assumes "blob_filename f t k ext = blob_filename f' t' k' ext"
    and "\<And>kid. k = Some kid \<Longrightarrow> is_key_id kid" and "\<And>kid. k' = Some kid \<Longrightarrow> is_key_id kid"
  shows "f = f' \<and> t = t' \<and> k = k'"
proof -
  have a: "parse_blob_name (blob_filename f t k ext) ext =
      Some \<lparr>bn_from = f, bn_to = t, bn_key_id = k\<rparr>"
    by (rule parse_blob_filename) (rule assms(2))
  have b: "parse_blob_name (blob_filename f' t' k' ext) ext =
      Some \<lparr>bn_from = f', bn_to = t', bn_key_id = k'\<rparr>"
    by (rule parse_blob_filename) (rule assms(3))
  have "Some \<lparr>bn_from = f, bn_to = t, bn_key_id = k\<rparr> =
      Some \<lparr>bn_from = f', bn_to = t', bn_key_id = k'\<rparr>"
    unfolding a [symmetric] b [symmetric] assms(1) by (rule refl)
  then show ?thesis by simp
qed

section \<open>The order of names is the order of offsets\<close>

lemma pad_offset_less [str_simps]:
  "(pad_dec offset_width (unat (a :: u64)) < pad_dec offset_width (unat b)) = (a < b)"
  using digits_less_iff [of "pad_dec offset_width (unat a)" "pad_dec offset_width (unat b)"]
  by (simp add: str_simps word_less_nat_alt)

lemma pad_offset_eq [str_simps]:
  "(pad_dec offset_width (unat (a :: u64)) = pad_dec offset_width (unat b)) = (a = b)"
  using digits_less_iff [of "pad_dec offset_width (unat a)" "pad_dec offset_width (unat b)"]
  by (simp add: str_simps word_unat_eq_iff)

lemma blob_filename_less_from:
  "f < f' \<Longrightarrow> blob_filename f t k ext < blob_filename f' t' k' ext'"
  by (simp add: blob_filename_def batch_filename_def less_append_same_length str_simps
      split: option.splits)

lemma batch_filename_less:
  "(batch_filename f t ext < batch_filename f' t' ext) = (f < f' \<or> f = f' \<and> t < t')"
  by (auto simp: batch_filename_def less_append_same_length str_simps)

end
