(* ===== verification/Chain.thy ===== *)
theory Chain
  imports Naming "HOL-Library.Multiset"
begin

text \<open>
  What a listing of a blob destination says (\<open>validate_chain\<close> in \<open>crates/mirror-fs/src/blob.rs\<close>):
  the names are the destination's whole resume state.  The lemmas show that an accepted append
  listing covers every position below the durable one by exactly one object and nothing above it,
  that the listing of any contiguous chain is accepted whatever order the store returns it in, and
  what a compaction listing guarantees.
\<close>

section \<open>Definitions\<close>

datatype blob_error = BStore | CorruptChain | AlreadyExists

datatype compaction_mode = CLog

record chain =
  ch_durable :: u64
  ch_latest :: "string option"
  ch_tail :: "string list"

type_synonym chain_entry = "u64 \<times> u64 \<times> string"

abbreviation en_to :: "chain_entry \<Rightarrow> u64" where
  "en_to e \<equiv> fst (snd e)"

abbreviation en_name :: "chain_entry \<Rightarrow> string" where
  "en_name e \<equiv> snd (snd e)"

definition file_extension :: "string \<Rightarrow> string option" where
  "file_extension name = after_last (CHR ''.'') name"

definition tail_of :: "chain_entry list \<Rightarrow> string list" where
  "tail_of entries = map en_name (drop (length entries - 2) entries)"

text \<open>One turn of the loop over the listed names.\<close>

definition chain_entry_of :: "format \<Rightarrow> string \<Rightarrow> blob_error + chain_entry" where
  "chain_entry_of fmt name =
    (if (case file_extension name of
           Some other \<Rightarrow> other \<noteq> extension fmt \<and> parse_blob_name name other \<noteq> None
         | None \<Rightarrow> False)
     then Err CorruptChain
     else case parse_blob_name name (extension fmt) of
        None \<Rightarrow> Err CorruptChain
      | Some b \<Rightarrow> if bn_to b < bn_from b then Err CorruptChain
          else Ok (bn_from b, bn_to b, name))"

fun append_walk :: "u64 \<Rightarrow> chain_entry list \<Rightarrow> blob_error + u64" where
  "append_walk expected_next [] = Ok expected_next"
| "append_walk expected_next ((frm, to, _) # es) =
     (if frm \<noteq> expected_next then Err CorruptChain else append_walk (to + 1) es)"

fun log_walk :: "u64 option \<Rightarrow> chain_entry list \<Rightarrow> blob_error + u64 option" where
  "log_walk prev_to [] = Ok prev_to"
| "log_walk prev_to ((frm, to, _) # es) =
     (if (case prev_to of Some p \<Rightarrow> frm \<le> p | None \<Rightarrow> False) then Err CorruptChain
      else log_walk (Some to) es)"

definition validate_chain ::
    "string list \<Rightarrow> format \<Rightarrow> compaction_mode option \<Rightarrow> blob_error + chain" where
  "validate_chain names fmt compaction =
     res_bind (try_map (chain_entry_of fmt) names) (\<lambda>entries.
       (case compaction of
          None \<Rightarrow>
            (let es = sort entries in
             res_bind (append_walk 0 es) (\<lambda>next.
               Ok \<lparr>ch_durable = next, ch_latest = None, ch_tail = tail_of es\<rparr>))
        | Some CLog \<Rightarrow>
            (let es = sort_key en_to entries in
             res_bind (log_walk None es) (\<lambda>prev_to.
               Ok \<lparr>ch_durable = (case prev_to of Some t \<Rightarrow> t + 1 | None \<Rightarrow> 0),
                   ch_latest = (if es = [] then None else Some (en_name (last es))),
                   ch_tail = tail_of es\<rparr>))))"

section \<open>Contiguous ranges\<close>

text \<open>\<open>chain_from s rs e\<close>: the ranges cover the positions from \<open>s\<close> to \<open>e\<close> in order, without a gap.\<close>

fun chain_from :: "u64 \<Rightarrow> (u64 \<times> u64) list \<Rightarrow> u64 \<Rightarrow> bool" where
  "chain_from s [] e = (s = e)"
| "chain_from s ((f, t) # rs) e = (f = s \<and> f \<le> t \<and> t \<noteq> u64_max \<and> chain_from (t + 1) rs e)"

definition covers :: "u64 \<times> u64 \<Rightarrow> u64 \<Rightarrow> bool" where
  "covers r x = (fst r \<le> x \<and> x \<le> snd r)"

lemma chain_from_append:
  "chain_from s (xs @ ys) e = (\<exists>m. chain_from s xs m \<and> chain_from m ys e)"
  by (induction s xs e rule: chain_from.induct) auto

lemma chain_from_snoc:
  "chain_from s (rs @ [(f, t)]) e = (chain_from s rs f \<and> f \<le> t \<and> t \<noteq> u64_max \<and> e = t + 1)"
  by (auto simp: chain_from_append)

lemma chain_from_le: "chain_from s rs e \<Longrightarrow> s \<le> e"
proof (induction s rs e rule: chain_from.induct)
  case (2 s f t rs e)
  then have "t < t + 1" "t + 1 \<le> e" by (auto simp: word_arith)
  then show ?case using 2 by auto
qed auto

lemma chain_from_bounds:
  "chain_from s rs e \<Longrightarrow> r \<in> set rs \<Longrightarrow> s \<le> fst r \<and> fst r \<le> snd r \<and> snd r < e"
proof (induction s rs e rule: chain_from.induct)
  case (2 s f t rs e)
  then have t: "t < t + 1" and e: "t + 1 \<le> e" by (auto simp: word_arith dest: chain_from_le)
  show ?case
  proof (cases "r = (f, t)")
    case True
    then show ?thesis using 2 t e by (auto intro: less_le_trans)
  next
    case False
    then have "t + 1 \<le> fst r \<and> fst r \<le> snd r \<and> snd r < e" using 2 by auto
    moreover have "s \<le> t + 1" using 2(2) t by auto
    ultimately show ?thesis by auto
  qed
qed auto

lemma chain_from_sorted: "chain_from s rs e \<Longrightarrow> sorted_wrt (\<lambda>a b. snd a < fst b) rs"
proof (induction s rs e rule: chain_from.induct)
  case (2 s f t rs e)
  then have "chain_from (t + 1) rs e" "t < t + 1" by (auto simp: word_arith)
  then have "\<forall>r \<in> set rs. t < fst r" by (auto dest!: chain_from_bounds intro: less_le_trans)
  then show ?case using 2 by auto
qed auto

lemma chain_from_cover:
  "chain_from s rs e \<Longrightarrow> (s \<le> x \<and> x < e) = (\<exists>r \<in> set rs. covers r x)"
proof (induction s rs e rule: chain_from.induct)
  case (2 s f t rs e)
  then have t: "\<And>y. (y < t + 1) = (y \<le> t)" and e: "t + 1 \<le> e"
    by (auto simp: word_arith dest: chain_from_le)
  have IH: "(t + 1 \<le> x \<and> x < e) = (\<exists>r \<in> set rs. covers r x)" using 2 by simp
  show ?case
  proof (cases "x \<le> t")
    case True
    then have "x < t + 1" using t by simp
    then have "\<not> (\<exists>r \<in> set rs. covers r x)" "x < e" using IH e by (auto simp: not_less)
    then show ?thesis using 2 True by (auto simp: covers_def)
  next
    case False
    then have "t + 1 \<le> x" using t by (simp add: not_less [symmetric])
    moreover have "s \<le> t" using 2(2) by auto
    ultimately show ?thesis using IH False by (auto simp: covers_def)
  qed
qed auto

lemma sorted_ranges_unique:
  assumes "sorted_wrt (\<lambda>a b. snd a < fst b) rs" "i < length rs" "j < length rs"
    "covers (rs ! i) x" "covers (rs ! j) x"
  shows "i = j"
proof (rule ccontr)
  assume "i \<noteq> j"
  then consider "i < j" | "j < i" by linarith
  then show False
    using assms by cases (fastforce simp: sorted_wrt_iff_nth_less covers_def)+
qed

section \<open>The walks\<close>

lemma append_walk_chain:
  assumes "append_walk s es = Inr e" "\<forall>x \<in> set es. fst x \<le> en_to x \<and> en_to x \<noteq> u64_max"
  shows "chain_from s (map (\<lambda>x. (fst x, en_to x)) es) e"
  using assms by (induction s es rule: append_walk.induct) (auto split: if_splits)

lemma chain_append_walk:
  "chain_from s (map (\<lambda>x. (fst x, en_to x)) es) e \<Longrightarrow> append_walk s es = Inr e"
  by (induction s es rule: append_walk.induct) auto

lemma log_walk_sorted:
  "log_walk p es = Inr q \<Longrightarrow> (\<forall>x \<in> set es. fst x \<le> en_to x) \<Longrightarrow>
     sorted_wrt (\<lambda>a b. snd a < fst b) (map (\<lambda>x. (fst x, en_to x)) es)
     \<and> (\<forall>x \<in> set es. \<forall>t. p = Some t \<longrightarrow> t < fst x)
     \<and> q = (if es = [] then p else Some (en_to (last es)))"
proof (induction p es rule: log_walk.induct)
  case (2 p f t n es)
  then have IH: "sorted_wrt (\<lambda>a b. snd a < fst b) (map (\<lambda>x. (fst x, en_to x)) es)
     \<and> (\<forall>x \<in> set es. t < fst x) \<and> q = (if es = [] then Some t else Some (en_to (last es)))"
    and p: "\<forall>u. p = Some u \<longrightarrow> u < f" and ft: "f \<le> t"
    by (auto split: if_splits option.splits)
  have "\<forall>x \<in> set es. \<forall>u. p = Some u \<longrightarrow> u < fst x"
    using IH p ft by (meson le_less_trans less_trans)
  then show ?case using IH p by auto
qed auto

lemma sorted_log_walk:
  "sorted_wrt (\<lambda>a b. snd a < fst b) (map (\<lambda>x. (fst x, en_to x)) es) \<Longrightarrow>
   (\<forall>x \<in> set es. \<forall>t. p = Some t \<longrightarrow> t < fst x) \<Longrightarrow>
   log_walk p es = Inr (if es = [] then p else Some (en_to (last es)))"
  by (induction p es rule: log_walk.induct) (auto split: option.splits)

section \<open>Listings\<close>

lemma chain_entry_of_Ok:
  "chain_entry_of fmt n = Inr x \<Longrightarrow>
     parse_blob_name n (extension fmt) \<noteq> None \<and> en_name x = n \<and> fst x \<le> en_to x
     \<and> x = (bn_from (the (parse_blob_name n (extension fmt))),
            bn_to (the (parse_blob_name n (extension fmt))), n)"
  by (auto simp: chain_entry_of_def split: option.splits if_splits)

lemma file_extension_blob [simp]:
  "file_extension (blob_filename f t k (extension fmt)) = Some (extension fmt)"
proof -
  have "after_last (CHR ''.'') (p @ CHR ''.'' # extension fmt) = Some (extension fmt)" for p
    by (simp add: str_simps)
  from this [of "pad_dec offset_width (unat f) @ ''-'' @ pad_dec offset_width (unat t)
      @ (case k of None \<Rightarrow> [] | Some kid \<Rightarrow> ''.k-'' @ kid)"]
  show ?thesis
    by (simp add: file_extension_def blob_filename_def batch_filename_def split: option.splits)
qed

lemma chain_entry_of_blob:
  assumes "f \<le> t" "\<And>kid. k = Some kid \<Longrightarrow> is_key_id kid"
  shows "chain_entry_of fmt (blob_filename f t k (extension fmt)) =
    Inr (f, t, blob_filename f t k (extension fmt))"
proof -
  have "parse_blob_name (blob_filename f t k (extension fmt)) (extension fmt) =
      Some \<lparr>bn_from = f, bn_to = t, bn_key_id = k\<rparr>"
    by (rule parse_blob_filename) (rule assms(2))
  then show ?thesis using assms(1) by (simp add: chain_entry_of_def)
qed

lemma try_map_entries:
  assumes "try_map (chain_entry_of fmt) names = Inr es"
  shows "map en_name es = names \<and> (\<forall>x \<in> set es. fst x \<le> en_to x)"
  using assms unfolding try_map_ok
  by (induction rule: list_all2_induct) (auto dest: chain_entry_of_Ok)

lemma validate_append_entries:
  assumes "validate_chain names fmt None = Inr c"
  obtains es where "try_map (chain_entry_of fmt) names = Inr es"
    "append_walk 0 (sort es) = Inr (ch_durable c)" "ch_tail c = tail_of (sort es)"
  using assms by (auto simp: validate_chain_def Let_def)

lemma sort_key_empty: "(sort_key k xs = []) = (xs = [])"
  by (simp flip: length_0_conv)

lemma validate_log_entries:
  assumes "validate_chain names fmt (Some CLog) = Inr c"
  obtains es p where "try_map (chain_entry_of fmt) names = Inr es"
    "log_walk None (sort_key en_to es) = Inr p"
    "ch_durable c = (case p of Some t \<Rightarrow> t + 1 | None \<Rightarrow> 0)"
    "ch_latest c = (if es = [] then None else Some (en_name (last (sort_key en_to es))))"
  using assms that by (auto simp: validate_chain_def Let_def sort_key_empty split: if_splits)

text \<open>The range a name covers, when it is one of this format's names.\<close>

definition name_range :: "format \<Rightarrow> string \<Rightarrow> (u64 \<times> u64) option" where
  "name_range fmt n = map_option (\<lambda>b. (bn_from b, bn_to b)) (parse_blob_name n (extension fmt))"

lemma entry_range:
  "chain_entry_of fmt n = Inr x \<Longrightarrow> name_range fmt n = Some (fst x, en_to x)"
  by (auto simp: name_range_def chain_entry_of_def split: option.splits if_splits)

lemma try_map_ranges:
  assumes "try_map (chain_entry_of fmt) names = Inr es"
  shows "\<forall>x \<in> set es. name_range fmt (en_name x) = Some (fst x, en_to x)"
  using assms unfolding try_map_ok
  by (induction rule: list_all2_induct) (auto dest: entry_range chain_entry_of_Ok)

lemma sort_strict:
  fixes xs :: "'a :: linorder list"
  assumes "mset xs = mset ys" "sorted_wrt (<) ys"
  shows "sort xs = ys"
proof -
  have "sorted ys" using assms(2) by (simp add: strict_sorted_iff)
  then show ?thesis using assms(1) by (simp add: properties_for_sort)
qed

lemma chain_entries_sorted:
  assumes "chain_from s (map (\<lambda>x. (fst x, en_to x)) es) e"
  shows "sorted_wrt (<) es"
proof -
  have "sorted_wrt (\<lambda>a b. en_to a < fst b) es"
    using chain_from_sorted [OF assms] by (simp add: sorted_wrt_map)
  moreover have "\<forall>x \<in> set es. fst x \<le> en_to x"
    using chain_from_bounds [OF assms] by fastforce
  ultimately show ?thesis
    by (induction es) (auto simp: less_prod_def intro: le_less_trans)
qed


section \<open>What an accepted listing means\<close>

definition name_covers :: "format \<Rightarrow> string \<Rightarrow> u64 \<Rightarrow> bool" where
  "name_covers fmt n x = (case name_range fmt n of Some r \<Rightarrow> covers r x | None \<Rightarrow> False)"

lemma chain_count:
  "chain_from s rs e \<Longrightarrow>
     length (filter (\<lambda>r. covers r x) rs) = (if s \<le> x \<and> x < e then 1 else 0)"
proof (induction s rs e rule: chain_from.induct)
  case (2 s f t rs e)
  then have t: "\<And>y. (y < t + 1) = (y \<le> t)" and e: "t + 1 \<le> e"
    by (auto simp: word_arith dest: chain_from_le)
  have IH: "length (filter (\<lambda>r. covers r x) rs) = (if t + 1 \<le> x \<and> x < e then 1 else 0)"
    using 2 by simp
  have fs: "f = s" "f \<le> t" using 2(2) by auto
  show ?case
  proof (cases "x \<le> t")
    case True
    then have "x < t + 1" using t by simp
    then have "\<not> t + 1 \<le> x" "x < e" using e by auto
    then show ?thesis using IH True fs by (simp add: covers_def)
  next
    case False
    then have "t + 1 \<le> x" using t by (simp add: not_less [symmetric])
    then show ?thesis using IH False fs by (auto simp: covers_def)
  qed
qed auto

lemma length_filter_sort: "length (filter P (sort_key k xs)) = length (filter P xs)"
proof -
  have "mset (filter P (sort_key k xs)) = mset (filter P xs)" by simp
  then show ?thesis by (rule mset_eq_length)
qed

lemma filter_entries:
  assumes "try_map (chain_entry_of fmt) names = Inr es"
  shows "length (filter (\<lambda>n. name_covers fmt n x) names) =
    length (filter (\<lambda>e. covers (fst e, en_to e) x) es)"
  using assms unfolding try_map_ok
proof (induction rule: list_all2_induct)
  case (Cons n ns e es)
  then have "name_range fmt n = Some (fst e, en_to e)" by (auto dest: entry_range)
  then show ?case using Cons by (simp add: name_covers_def)
qed simp

lemma append_listing_chain:
  assumes "validate_chain names fmt None = Inr c"
    "\<forall>n \<in> set names. \<forall>r. name_range fmt n = Some r \<longrightarrow> snd r \<noteq> u64_max"
    "try_map (chain_entry_of fmt) names = Inr es" "append_walk 0 (sort es) = Inr d"
  shows "chain_from 0 (map (\<lambda>x. (fst x, en_to x)) (sort es)) d"
proof (rule append_walk_chain [OF assms(4)])
  have names: "map en_name es = names" and le: "\<forall>x \<in> set es. fst x \<le> en_to x"
    using try_map_entries [OF assms(3)] by auto
  have "\<forall>x \<in> set es. name_range fmt (en_name x) = Some (fst x, en_to x)"
    by (rule try_map_ranges [OF assms(3)])
  then show "\<forall>x \<in> set (sort es). fst x \<le> en_to x \<and> en_to x \<noteq> u64_max"
    using assms(2) names le by fastforce
qed

lemma validate_append_cover:
  assumes "validate_chain names fmt None = Inr c"
    "\<forall>n \<in> set names. \<forall>r. name_range fmt n = Some r \<longrightarrow> snd r \<noteq> u64_max"
  shows "length (filter (\<lambda>n. name_covers fmt n x) names) = (if x < ch_durable c then 1 else 0)"
proof -
  obtain es where es: "try_map (chain_entry_of fmt) names = Inr es"
    "append_walk 0 (sort es) = Inr (ch_durable c)"
    using validate_append_entries [OF assms(1)] by metis
  have "chain_from 0 (map (\<lambda>x. (fst x, en_to x)) (sort es)) (ch_durable c)"
    by (rule append_listing_chain [OF assms es])
  from chain_count [OF this, of x] show ?thesis
    by (simp add: filter_entries [OF es(1)] filter_map o_def length_filter_sort)
qed

section \<open>Which listings are accepted\<close>

type_synonym blob_id = "(u64 \<times> u64) \<times> string option"

abbreviation id_name :: "format \<Rightarrow> blob_id \<Rightarrow> string" where
  "id_name fmt b \<equiv> blob_filename (fst (fst b)) (snd (fst b)) (snd b) (extension fmt)"

definition ids_ok :: "blob_id list \<Rightarrow> bool" where
  "ids_ok bs = list_all (\<lambda>b. fst (fst b) \<le> snd (fst b) \<and> snd (fst b) \<noteq> u64_max
     \<and> (case snd b of None \<Rightarrow> True | Some kid \<Rightarrow> is_key_id kid)) bs"

abbreviation id_entry :: "format \<Rightarrow> blob_id \<Rightarrow> chain_entry" where
  "id_entry fmt b \<equiv> (fst (fst b), snd (fst b), id_name fmt b)"

definition last_two :: "'a list \<Rightarrow> 'a list" where
  "last_two xs = drop (length xs - 2) xs"

lemma tail_of_map: "tail_of (map (id_entry fmt) bs) = last_two (map (id_name fmt) bs)"
  by (simp add: tail_of_def last_two_def drop_map)

lemma entries_of_ids:
  "ids_ok bs \<Longrightarrow> try_map (chain_entry_of fmt) (map (id_name fmt) bs) = Inr (map (id_entry fmt) bs)"
proof (induction bs)
  case (Cons b bs)
  then have "chain_entry_of fmt (id_name fmt b) = Inr (id_entry fmt b)"
    by (intro chain_entry_of_blob) (auto simp: ids_ok_def)
  then show ?case using Cons by (auto simp: ids_ok_def)
qed simp

lemma permuted_map:
  "mset names = mset (map g bs) \<Longrightarrow> \<exists>cs. names = map g cs \<and> mset cs = mset bs"
proof (induction names arbitrary: bs)
  case (Cons n ns)
  then have "n \<in> set (map g bs)" by (metis list.set_intros(1) set_mset_mset)
  then obtain b where b: "b \<in> set bs" "n = g b" by auto
  then obtain bs1 bs2 where bs: "bs = bs1 @ b # bs2" by (meson split_list)
  then have "mset ns = mset (map g (bs1 @ bs2))" using Cons.prems b by simp
  then obtain cs where "ns = map g cs" "mset cs = mset (bs1 @ bs2)" using Cons.IH by blast
  then have "n # ns = map g (b # cs) \<and> mset (b # cs) = mset bs" using b bs by simp
  then show ?case by (rule exI)
qed auto

lemma permuted_ids:
  assumes "mset names = mset (map (id_name fmt) bs)" "ids_ok bs"
  obtains cs where "names = map (id_name fmt) cs" "mset cs = mset bs" "ids_ok cs"
proof -
  from permuted_map [OF assms(1)] obtain cs
    where cs: "names = map (id_name fmt) cs" "mset cs = mset bs" by (elim exE conjE)
  have "ids_ok cs"
    using assms(2) mset_eq_setD [OF cs(2)] by (simp add: ids_ok_def list_all_iff)
  with cs show thesis by (rule that)
qed


lemma id_entry_ranges:
  "map (\<lambda>x. (fst x, en_to x)) (map (id_entry fmt) bs) = map fst bs"
  by (simp add: o_def)

lemma validate_append_accepts:
  assumes "mset names = mset (map (id_name fmt) bs)" "ids_ok bs" "chain_from 0 (map fst bs) e"
  shows "validate_chain names fmt None =
    Inr \<lparr>ch_durable = e, ch_latest = None, ch_tail = last_two (map (id_name fmt) bs)\<rparr>"
proof -
  obtain cs where cs: "names = map (id_name fmt) cs" "mset cs = mset bs" "ids_ok cs"
    using permuted_ids [OF assms(1,2)] .
  have chain: "chain_from 0 (map (\<lambda>x. (fst x, en_to x)) (map (id_entry fmt) bs)) e"
    using assms(3) by (simp only: id_entry_ranges)
  have "mset (map (id_entry fmt) cs) = mset (map (id_entry fmt) bs)" using cs(2) by simp
  then have "sort (map (id_entry fmt) cs) = map (id_entry fmt) bs"
    using chain_entries_sorted [OF chain] by (rule sort_strict)
  moreover have "append_walk 0 (map (id_entry fmt) bs) = Inr e"
    by (rule chain_append_walk [OF chain])
  ultimately show ?thesis
    by (simp add: validate_chain_def cs(1) entries_of_ids [OF cs(3)] tail_of_map del: map_map)
qed

text \<open>A compaction chain: snapshots whose ranges are disjoint and in order; gaps are allowed.\<close>

definition separated :: "(u64 \<times> u64) list \<Rightarrow> bool" where
  "separated rs = sorted_wrt (\<lambda>a b. snd a < fst b) rs"

lemma chain_from_separated: "chain_from s rs e \<Longrightarrow> separated rs"
  by (simp add: separated_def chain_from_sorted)

lemma separated_snoc:
  "separated (rs @ [r]) = (separated rs \<and> (\<forall>x \<in> set rs. snd x < fst r))"
  by (auto simp: separated_def sorted_wrt_append)

lemma separated_tos:
  "separated rs \<Longrightarrow> \<forall>r \<in> set rs. fst r \<le> snd r \<Longrightarrow> sorted_wrt (<) (map snd rs)"
  by (induction rs) (auto simp: separated_def intro: less_le_trans)

lemma validate_log_accepts:
  assumes "mset names = mset (map (id_name fmt) bs)" "ids_ok bs" "separated (map fst bs)"
  shows "validate_chain names fmt (Some CLog) =
    Inr \<lparr>ch_durable = (if bs = [] then 0 else snd (fst (last bs)) + 1),
         ch_latest = (if bs = [] then None else Some (id_name fmt (last bs))),
         ch_tail = last_two (map (id_name fmt) bs)\<rparr>"
proof -
  let ?es = "map (id_entry fmt) bs"
  obtain cs where cs: "names = map (id_name fmt) cs" "mset cs = mset bs" "ids_ok cs"
    using permuted_ids [OF assms(1,2)] .
  have "\<forall>r \<in> set (map fst bs). fst r \<le> snd r"
    using assms(2) by (auto simp: ids_ok_def list_all_iff)
  from separated_tos [OF assms(3) this] have tos: "sorted_wrt (<) (map en_to ?es)"
    by (simp add: o_def)
  then have "inj_on en_to (set ?es)" "sorted (map en_to ?es)"
    unfolding strict_sorted_iff distinct_map by simp_all
  moreover have ms: "mset (map (id_entry fmt) cs) = mset ?es" using cs(2) by simp
  moreover have "set (map (id_entry fmt) cs) = set ?es" by (rule mset_eq_setD [OF ms])
  ultimately have srt: "sort_key en_to (map (id_entry fmt) cs) = ?es"
    by (intro sort_key_inj_key_eq) simp_all
  have "log_walk None ?es = Inr (if ?es = [] then None else Some (en_to (last ?es)))"
    by (rule sorted_log_walk)
      (use assms(3) in \<open>simp_all only: separated_def id_entry_ranges, simp\<close>)
  then have walk: "log_walk None ?es = Inr (if bs = [] then None else Some (snd (fst (last bs))))"
    by (simp add: last_map)
  show ?thesis
    by (simp add: validate_chain_def cs(1) entries_of_ids [OF cs(3)] srt walk tail_of_map Let_def
        last_map del: map_map)
qed

lemma sorted_le_last: "sorted xs \<Longrightarrow> x \<in> set xs \<Longrightarrow> x \<le> last xs"
  by (induction xs) auto

lemma validate_log_newest:
  assumes "validate_chain names fmt (Some CLog) = Inr c" "n \<in> set names"
    "\<forall>n \<in> set names. \<forall>r. name_range fmt n = Some r \<longrightarrow> snd r \<noteq> u64_max"
  shows "\<exists>l rl r. ch_latest c = Some l \<and> l \<in> set names \<and> name_range fmt l = Some rl
    \<and> ch_durable c = snd rl + 1 \<and> name_range fmt n = Some r \<and> snd r \<le> snd rl
    \<and> snd r < ch_durable c"
proof -
  obtain es p where es: "try_map (chain_entry_of fmt) names = Inr es"
    and w: "log_walk None (sort_key en_to es) = Inr p"
    and d: "ch_durable c = (case p of Some t \<Rightarrow> t + 1 | None \<Rightarrow> 0)"
    and l: "ch_latest c = (if es = [] then None else Some (en_name (last (sort_key en_to es))))"
    using validate_log_entries [OF assms(1)] .
  have names: "map en_name es = names" and le: "\<forall>x \<in> set es. fst x \<le> en_to x"
    using try_map_entries [OF es] by auto
  have rng: "\<forall>x \<in> set es. name_range fmt (en_name x) = Some (fst x, en_to x)"
    by (rule try_map_ranges [OF es])
  obtain x where x: "x \<in> set es" "en_name x = n" using names assms(2) by auto
  have ne: "es \<noteq> []" "sort_key en_to es \<noteq> []" using x(1) by (auto simp: sort_key_empty)
  define m where "m = last (sort_key en_to es)"
  have m: "m \<in> set es" using last_in_set [OF ne(2)] by (simp add: m_def)
  have p: "p = Some (en_to m)"
    using log_walk_sorted [OF w] le ne by (simp add: m_def)
  have "sorted (map en_to (sort_key en_to es))" by simp
  then have "en_to x \<le> en_to m"
    using sorted_le_last [of "map en_to (sort_key en_to es)" "en_to x"] x(1) ne
    by (simp add: m_def last_map)
  moreover have "en_to m \<noteq> u64_max" using assms(3) m rng names by fastforce
  ultimately show ?thesis
    using p d l ne m rng x names by (auto simp: m_def [symmetric] word_arith)
qed

end
