(* ===== verification/Std_Maps.thy ===== *)
theory Std_Maps
  imports Prelude
begin

text \<open>
  The maps of the program and what they have in common.  \<open>BTreeMap\<close> is an association list in the
  order of its keys; \<open>IndexMap\<close> keeps the order in which keys were first inserted, replaces a value in
  place and closes the gap on \<open>shift_remove\<close>.  The locale \<open>dict\<close> is what a client of either relies
  on; inside it, a sequence of upserts and tombstones is shown to leave the last write of every key,
  whatever the map.
\<close>

section \<open>The interface\<close>

text \<open>The reference: after a sequence of updates a key holds its last write, if that was a value.\<close>

fun latest :: "('k \<times> 'v option) list \<Rightarrow> 'k \<Rightarrow> 'v option" where
  "latest [] k = None"
| "latest ((k', v) # us) k =
     (if k \<in> fst ` set us then latest us k else if k' = k then v else None)"

lemma latest_snoc: "latest (us @ [(k', v)]) k = (if k' = k then v else latest us k)"
proof (induction us)
  case (Cons u us)
  then show ?case by (cases u) auto
qed simp

locale dict =
  fixes empty :: "'m"
    and insert :: "'k \<Rightarrow> 'v \<Rightarrow> 'm \<Rightarrow> 'm"
    and remove :: "'k \<Rightarrow> 'm \<Rightarrow> 'm"
    and lookup :: "'m \<Rightarrow> 'k \<Rightarrow> 'v option"
    and invar :: "'m \<Rightarrow> bool"
  assumes lookup_empty: "lookup empty k = None"
    and lookup_insert: "invar m \<Longrightarrow> lookup (insert k v m) k' = (if k' = k then Some v else lookup m k')"
    and lookup_remove: "invar m \<Longrightarrow> lookup (remove k m) k' = (if k' = k then None else lookup m k')"
    and invar_empty: "invar empty"
    and invar_insert: "invar m \<Longrightarrow> invar (insert k v m)"
    and invar_remove: "invar m \<Longrightarrow> invar (remove k m)"
begin

definition put :: "'k \<times> 'v option \<Rightarrow> 'm \<Rightarrow> 'm" where
  "put u m = (case snd u of None \<Rightarrow> remove (fst u) m | Some v \<Rightarrow> insert (fst u) v m)"

lemma invar_put: "invar m \<Longrightarrow> invar (put u m)"
  by (auto simp: put_def invar_insert invar_remove split: option.splits)

lemma lookup_put: "invar m \<Longrightarrow> lookup (put (k', v) m) k = (if k' = k then v else lookup m k)"
  by (auto simp: put_def lookup_insert lookup_remove split: option.splits)

lemma lookup_fold_put:
  "invar (fold put us empty) \<and> lookup (fold put us empty) k = latest us k"
proof (induction us rule: rev_induct)
  case Nil
  show ?case by (simp add: invar_empty lookup_empty)
next
  case (snoc u us)
  then show ?case by (cases u) (simp add: invar_put lookup_put latest_snoc)
qed

end

section \<open>\<open>BTreeMap\<close>\<close>

fun bt_insert :: "'k :: linorder \<Rightarrow> 'v \<Rightarrow> ('k \<times> 'v) list \<Rightarrow> ('k \<times> 'v) list" where
  "bt_insert k v [] = [(k, v)]"
| "bt_insert k v ((k', v') # m) =
     (if k < k' then (k, v) # (k', v') # m
      else if k = k' then (k, v) # m
      else (k', v') # bt_insert k v m)"

definition bt_remove :: "'k \<Rightarrow> ('k \<times> 'v) list \<Rightarrow> ('k \<times> 'v) list" where
  "bt_remove k m = filter (\<lambda>e. fst e \<noteq> k) m"

definition bt_ok :: "('k :: linorder \<times> 'v) list \<Rightarrow> bool" where
  "bt_ok m = sorted_wrt (<) (map fst m)"

lemma keys_bt_insert [simp]: "fst ` set (bt_insert k v m) = {k} \<union> fst ` set m"
  by (induction k v m rule: bt_insert.induct) auto

lemma map_of_bt_insert: "map_of (bt_insert k v m) k' = (if k' = k then Some v else map_of m k')"
  if "bt_ok m"
  using that
proof (induction k v m rule: bt_insert.induct)
  case (2 k v a b m)
  then have "k < a \<Longrightarrow> k \<notin> fst ` set m" by (auto simp: bt_ok_def)
  then show ?case using 2 by (auto simp: bt_ok_def map_of_eq_None_iff)
qed simp

lemma bt_ok_insert: "bt_ok m \<Longrightarrow> bt_ok (bt_insert k v m)"
proof (induction k v m rule: bt_insert.induct)
  case (2 k v a b m)
  have "x \<in> {k} \<union> fst ` set m" if "x \<in> set (map fst (bt_insert k v m))" for x
    using that keys_bt_insert [of k v m] by auto
  then show ?case using 2 by (fastforce simp: bt_ok_def)
qed (simp add: bt_ok_def)

lemma map_of_bt_remove: "map_of (bt_remove k m) k' = (if k' = k then None else map_of m k')"
  by (induction m) (auto simp: bt_remove_def)

lemma bt_ok_remove: "bt_ok m \<Longrightarrow> bt_ok (bt_remove k m)"
  by (induction m) (auto simp: bt_ok_def bt_remove_def)

interpretation btree: dict "[]" bt_insert bt_remove map_of bt_ok
  by unfold_locales
    (auto simp: map_of_bt_insert map_of_bt_remove bt_ok_insert bt_ok_remove, simp add: bt_ok_def)

section \<open>\<open>IndexMap\<close>\<close>

fun im_insert :: "'k \<Rightarrow> 'v \<Rightarrow> ('k \<times> 'v) list \<Rightarrow> ('k \<times> 'v) list" where
  "im_insert k v [] = [(k, v)]"
| "im_insert k v ((k', v') # m) =
     (if k = k' then (k', v) # m else (k', v') # im_insert k v m)"

definition im_shift_remove :: "'k \<Rightarrow> ('k \<times> 'v) list \<Rightarrow> ('k \<times> 'v) list" where
  "im_shift_remove k m = filter (\<lambda>e. fst e \<noteq> k) m"

definition im_ok :: "('k \<times> 'v) list \<Rightarrow> bool" where
  "im_ok m = distinct (map fst m)"

lemma map_of_im_insert: "map_of (im_insert k v m) k' = (if k' = k then Some v else map_of m k')"
  by (induction k v m rule: im_insert.induct) auto

lemma keys_im_insert: "fst ` set (im_insert k v m) = {k} \<union> fst ` set m"
  by (induction k v m rule: im_insert.induct) auto

lemma im_ok_insert: "im_ok m \<Longrightarrow> im_ok (im_insert k v m)"
proof (induction k v m rule: im_insert.induct)
  case (2 k v a b m)
  have "set (map fst (im_insert k v m)) = {k} \<union> fst ` set m" by (simp add: keys_im_insert)
  then show ?case using 2 by (auto simp: im_ok_def)
qed (simp add: im_ok_def)

lemma map_of_im_remove: "map_of (im_shift_remove k m) k' = (if k' = k then None else map_of m k')"
  by (induction m) (auto simp: im_shift_remove_def)

lemma im_ok_remove: "im_ok m \<Longrightarrow> im_ok (im_shift_remove k m)"
  by (induction m) (auto simp: im_ok_def im_shift_remove_def)

interpretation imap: dict "[]" im_insert im_shift_remove map_of im_ok
  by unfold_locales
    (auto simp: map_of_im_insert map_of_im_remove im_ok_insert im_ok_remove, simp add: im_ok_def)

text \<open>The order of an \<open>IndexMap\<close>: an upsert of a present key moves nothing, a new key goes last.\<close>

lemma im_insert_keys:
  "map fst (im_insert k v m) = (if k \<in> fst ` set m then map fst m else map fst m @ [k])"
  by (induction k v m rule: im_insert.induct) auto

lemma im_remove_keys: "map fst (im_shift_remove k m) = filter (\<lambda>k'. k' \<noteq> k) (map fst m)"
  by (simp add: im_shift_remove_def filter_map o_def)

end
