(* ===== verification/Blob_Store.thy ===== *)
theory Blob_Store
  imports Chain Std_Maps
begin

text \<open>
  The store under a blob destination: the interface that \<open>BlobSink\<close> relies on (the trait \<open>BlobStore\<close>
  in \<open>crates/mirror-fs/src/blob.rs\<close>, as a locale) and its filesystem implementation (\<open>FsStore\<close> in
  \<open>crates/mirror-fs/src/lib.rs\<close>), which interprets it.  A directory is the association list of its
  entries; the outcomes of the system calls of one operation are an argument of the operation, so
  every failure point is a branch.
\<close>

section \<open>The interface\<close>

record ('st, 'e) store_ops =
  st_list :: "'e \<Rightarrow> 'st \<Rightarrow> blob_error + string list"
  st_put_new :: "'e \<Rightarrow> 'st \<Rightarrow> string \<Rightarrow> bytes \<Rightarrow> (blob_error + unit) \<times> 'st"
  st_get :: "'e \<Rightarrow> 'st \<Rightarrow> string \<Rightarrow> blob_error + bytes"
  st_list_after :: "'e \<Rightarrow> 'st \<Rightarrow> string option \<Rightarrow> blob_error + string list"

text \<open>
  \<open>objects\<close> is what the store holds.  A failed write either left it alone or had landed already.
  The laws are asked of the names \<open>ok_name\<close>, which include every blob name.
\<close>

locale blob_store =
  fixes ops :: "('st, 'e) store_ops"
    and objects :: "'st \<Rightarrow> string \<rightharpoonup> bytes"
    and invar :: "'st \<Rightarrow> bool"
    and ok_name :: "string \<Rightarrow> bool"
  assumes put_ok: "invar st \<Longrightarrow> ok_name n \<Longrightarrow> st_put_new ops e st n b = (Inr u, st') \<Longrightarrow>
      invar st' \<and> objects st' = (objects st)(n \<mapsto> b)"
    and put_err: "invar st \<Longrightarrow> ok_name n \<Longrightarrow> st_put_new ops e st n b = (Inl x, st') \<Longrightarrow>
      invar st' \<and> (objects st' = objects st \<or> objects st' = (objects st)(n \<mapsto> b))"
    and list_ok: "invar st \<Longrightarrow> st_list ops e st = Inr ns \<Longrightarrow>
      distinct ns \<and> set ns = dom (objects st)"
    and list_after_ok: "invar st \<Longrightarrow> (\<And>a. after = Some a \<Longrightarrow> ok_name a) \<Longrightarrow> st_list_after ops e st after = Inr ns \<Longrightarrow>
      set ns = {n \<in> dom (objects st). \<forall>a. after = Some a \<longrightarrow> a < n}"
    and get_ok: "invar st \<Longrightarrow> st_get ops e st n = Inr b \<Longrightarrow> ok_name n \<Longrightarrow> objects st n = Some b"
    and blob_name_ok: "(\<And>kid. k = Some kid \<Longrightarrow> is_key_id kid) \<Longrightarrow>
      ok_name (blob_filename f t k (extension fmt))"
begin

lemma put_new_name: "invar st \<Longrightarrow> ok_name n \<Longrightarrow> st_put_new ops e st n b = (r, st') \<Longrightarrow>
    invar st' \<and> (\<forall>m. m \<noteq> n \<longrightarrow> objects st' m = objects st m)"
  by (cases r) (auto dest: put_ok put_err)

lemma list_fresh:
  assumes "invar st" "ok_name n" "objects st n = None" "st_put_new ops e st n b = (Inr u, st')"
    "st_list ops e' st = Inr ns" "st_list ops e'' st' = Inr ns'"
  shows "set ns' = insert n (set ns)"
  using put_ok [OF assms(1,2,4)] list_ok [OF assms(1,5)] list_ok [of st' e'' ns'] assms(6)
  by auto

end

section \<open>The filesystem store\<close>

text \<open>What the system calls of one operation do: whether each succeeds, and what a torn write left.\<close>

record fs_env =
  fs_read_dir_ok :: bool
  fs_entry_ok :: bool
  fs_read_ok :: bool
  fs_uuid :: string
  fs_create_ok :: bool
  fs_write_ok :: bool
  fs_written :: nat
  fs_sync_ok :: bool
  fs_rename_ok :: bool
  fs_remove_ok :: bool

text \<open>A directory is its entries, or \<open>None\<close> when it does not exist.\<close>

type_synonym fs_dir = "(string \<times> bytes) list option"

fun contains :: "string \<Rightarrow> string \<Rightarrow> bool" where
  "contains sep [] = (sep = [])"
| "contains sep (c # s) = (take (length sep) (c # s) = sep \<or> contains sep s)"

definition list_sync :: "fs_env \<Rightarrow> fs_dir \<Rightarrow> blob_error + string list" where
  "list_sync e dir = (case dir of
      None \<Rightarrow> Ok []
    | Some entries \<Rightarrow>
        if \<not> fs_read_dir_ok e then Err BStore
        else if \<not> fs_entry_ok e then Err BStore
        else Ok (filter (\<lambda>n. \<not> contains ''.tmp.'' n) (map fst entries)))"

definition get_sync :: "fs_env \<Rightarrow> fs_dir \<Rightarrow> string \<Rightarrow> blob_error + bytes" where
  "get_sync e dir name =
     (if \<not> fs_read_ok e then Err BStore
      else case dir of None \<Rightarrow> Err BStore
        | Some entries \<Rightarrow> (case map_of entries name of None \<Rightarrow> Err BStore | Some b \<Rightarrow> Ok b))"

definition fs_rename :: "string \<Rightarrow> string \<Rightarrow> (string \<times> bytes) list \<Rightarrow> (string \<times> bytes) list" where
  "fs_rename tmp final dir = (case map_of dir tmp of
      None \<Rightarrow> dir
    | Some b \<Rightarrow> im_insert final b (im_shift_remove tmp dir))"

definition tmp_name :: "string \<Rightarrow> string \<Rightarrow> string" where
  "tmp_name name uuid = name @ ''.tmp.'' @ uuid"

text \<open>
  \<open>put_new\<close>: create a temporary file, write, sync, rename over the final name; a failed rename
  removes the temporary file and ignores how that went.
\<close>

definition fs_put_new ::
    "fs_env \<Rightarrow> fs_dir \<Rightarrow> string \<Rightarrow> bytes \<Rightarrow> (blob_error + unit) \<times> fs_dir" where
  "fs_put_new e dir name b = (case dir of
      None \<Rightarrow> (Err BStore, None)
    | Some entries \<Rightarrow>
       (let tmp = tmp_name name (fs_uuid e) in
        if \<not> fs_create_ok e then (Err BStore, dir)
        else if \<not> fs_write_ok e then
          (Err BStore, Some (im_insert tmp (take (fs_written e) b) entries))
        else let entries1 = im_insert tmp b entries in
          if \<not> fs_sync_ok e then (Err BStore, Some entries1)
          else if \<not> fs_rename_ok e then
            (Err BStore, Some (if fs_remove_ok e then im_shift_remove tmp entries1 else entries1))
          else (Ok (), Some (fs_rename tmp name entries1))))"

definition fs_list_after ::
    "fs_env \<Rightarrow> fs_dir \<Rightarrow> string option \<Rightarrow> blob_error + string list" where
  "fs_list_after e dir after = (case list_sync e dir of
      Inl x \<Rightarrow> Inl x
    | Inr names \<Rightarrow> Ok (case after of None \<Rightarrow> names | Some a \<Rightarrow> filter (\<lambda>n. a < n) names))"

definition fs_store :: "(fs_dir, fs_env) store_ops" where
  "fs_store = \<lparr>st_list = list_sync, st_put_new = fs_put_new, st_get = get_sync,
     st_list_after = fs_list_after\<rparr>"

section \<open>The filesystem store keeps the contract\<close>

lemma contains_append: "contains sep (a @ sep @ b)"
proof (induction a)
  case Nil
  have "contains sep s" if "take (length sep) s = sep" for s
    using that by (cases s) auto
  then show ?case by simp
qed auto

text \<open>The objects of a directory are its entries that are not temporary files.\<close>

definition entry_objects :: "(string \<times> bytes) list \<Rightarrow> string \<rightharpoonup> bytes" where
  "entry_objects dir = (\<lambda>n. if contains ''.tmp.'' n then None else map_of dir n)"

definition fs_objects :: "fs_dir \<Rightarrow> string \<rightharpoonup> bytes" where
  "fs_objects dir = (case dir of None \<Rightarrow> Map.empty | Some entries \<Rightarrow> entry_objects entries)"

definition fs_ok :: "fs_dir \<Rightarrow> bool" where
  "fs_ok dir = (case dir of None \<Rightarrow> True | Some entries \<Rightarrow> im_ok entries)"

lemma entry_objects_tmp:
  assumes "contains ''.tmp.'' t"
  shows "entry_objects (im_insert t b dir) = entry_objects dir"
    and "entry_objects (im_shift_remove t dir) = entry_objects dir"
  using assms by (auto simp: entry_objects_def map_of_im_insert map_of_im_remove)

lemma entry_objects_insert:
  "\<not> contains ''.tmp.'' n \<Longrightarrow> entry_objects (im_insert n b dir) = (entry_objects dir)(n \<mapsto> b)"
  by (auto simp: entry_objects_def map_of_im_insert)

lemma dom_entry_objects:
  "dom (entry_objects dir) = set (filter (\<lambda>n. \<not> contains ''.tmp.'' n) (map fst dir))"
proof -
  have "dom (entry_objects dir) = {n \<in> dom (map_of dir). \<not> contains ''.tmp.'' n}"
    by (auto simp: entry_objects_def split: if_splits)
  then show ?thesis by (auto simp: dom_map_of_conv_image_fst)
qed

lemma fs_rename_objects:
  assumes "contains ''.tmp.'' t" "\<not> contains ''.tmp.'' n"
  shows "entry_objects (fs_rename t n (im_insert t b dir)) = (entry_objects dir)(n \<mapsto> b)"
  using assms by (simp add: fs_rename_def map_of_im_insert entry_objects_insert entry_objects_tmp)

lemma fs_rename_ok_entries: "im_ok d \<Longrightarrow> im_ok (fs_rename t n d)"
  by (simp add: fs_rename_def im_ok_insert im_ok_remove split: option.splits)

lemma fs_put_new_objects:
  assumes "fs_put_new e dir n b = (r, dir')" "\<not> contains ''.tmp.'' n" "fs_ok dir"
  shows "fs_ok dir' \<and> fs_objects dir' =
    (if is_ok r then (fs_objects dir)(n \<mapsto> b) else fs_objects dir)"
proof -
  have t: "contains ''.tmp.'' (tmp_name n (fs_uuid e))"
    unfolding tmp_name_def by (rule contains_append)
  note objs = entry_objects_tmp [OF t] fs_rename_objects [OF t assms(2)]
  note oks = im_ok_insert im_ok_remove fs_rename_ok_entries
  show ?thesis
    using assms(1,3)
    by (auto simp: fs_put_new_def fs_objects_def fs_ok_def Let_def objs oks
        split: if_splits option.splits)
qed

lemma list_sync_objects:
  assumes "list_sync e dir = Inr ns" "fs_ok dir"
  shows "distinct ns \<and> set ns = dom (fs_objects dir)"
  using assms
  by (auto simp: list_sync_def fs_ok_def fs_objects_def dom_entry_objects im_ok_def
      simp del: set_filter split: option.splits if_splits)

lemma contains_split: "contains sep s \<Longrightarrow> \<exists>a b. s = a @ sep @ b"
proof (induction s)
  case (Cons c s)
  show ?case
  proof (cases "take (length sep) (c # s) = sep")
    case True
    then have "c # s = [] @ sep @ drop (length sep) (c # s)"
      by (metis append_Nil append_take_drop_id)
    then show ?thesis by blast
  next
    case False
    then obtain a b where "s = a @ sep @ b" using Cons by auto
    then have "c # s = (c # a) @ sep @ b" by simp
    then show ?thesis by blast
  qed
qed simp

text \<open>A blob name has no temporary file's mark: what follows its first dot is an extension or a key.\<close>

lemma blob_name_not_tmp:
  assumes "\<And>kid. k = Some kid \<Longrightarrow> is_key_id kid"
  shows "\<not> contains ''.tmp.'' (blob_filename f t k (extension fmt))"
proof
  define d where "d = pad_dec offset_width (unat f) @ CHR ''-'' # pad_dec offset_width (unat t)"
  define tl where "tl = (case k of None \<Rightarrow> [] | Some kid \<Rightarrow> ''k-'' @ kid @ ''.'') @ extension fmt"
  have d: "CHR ''.'' \<notin> set d" by (simp add: d_def pad_no_char)
  have name: "blob_filename f t k (extension fmt) = d @ ''.'' @ tl"
    by (simp add: blob_filename_def batch_filename_def d_def tl_def split: option.splits)
  have few: "count_list tl (CHR ''.'') \<le> 1"
    using assms dot_not_in_key_id
    by (auto simp: tl_def count_list_append count_list_0_iff split: option.splits)
  assume "contains ''.tmp.'' (blob_filename f t k (extension fmt))"
  then obtain a b where "d @ ''.'' @ tl = a @ ''.tmp.'' @ b"
    using contains_split name by metis
  then have ab: "d @ CHR ''.'' # tl = a @ CHR ''.'' # (''tmp.'' @ b)" by simp
  show False
  proof (cases "CHR ''.'' \<in> set a")
    case False
    have "tl = ''tmp.'' @ b"
      using split_once_at [of "''.''" d tl] split_once_at [of "''.''" a "''tmp.'' @ b"] d False ab
      by simp
    then show False
      by (cases fmt) (auto simp: tl_def extension_def split: option.splits)
  next
    case True
    then have "count_list a (CHR ''.'') \<ge> 1"
      by (metis count_list_0_iff less_one not_less)
    moreover have "count_list (d @ CHR ''.'' # tl) (CHR ''.'') =
        count_list (a @ CHR ''.'' # (''tmp.'' @ b)) (CHR ''.'')" using ab by simp
    moreover have "count_list d (CHR ''.'') = 0" using d by (simp add: count_list_0_iff)
    ultimately show False using few by (simp add: count_list_append)
  qed
qed

lemma fs_list_after_objects:
  "fs_ok st \<Longrightarrow> st_list_after fs_store e st after = Inr ns \<Longrightarrow>
     set ns = {n \<in> dom (fs_objects st). \<forall>a. after = Some a \<longrightarrow> a < n}"
  using list_sync_objects [of e st]
  by (auto simp: fs_store_def fs_list_after_def split: sum.splits option.splits)

interpretation fs: blob_store fs_store fs_objects fs_ok "\<lambda>n. \<not> contains ''.tmp.'' n"
proof
  fix st :: fs_dir and n :: string and b st' k f t fmt and u :: unit and x and e :: fs_env and ns after
  show "fs_ok st \<Longrightarrow> \<not> contains ''.tmp.'' n \<Longrightarrow> st_put_new fs_store e st n b = (Inr u, st') \<Longrightarrow>
      fs_ok st' \<and> fs_objects st' = (fs_objects st)(n \<mapsto> b)"
    using fs_put_new_objects [of e st n b "Inr u" st'] by (simp add: fs_store_def)
  show "fs_ok st \<Longrightarrow> \<not> contains ''.tmp.'' n \<Longrightarrow> st_put_new fs_store e st n b = (Inl x, st') \<Longrightarrow>
      fs_ok st' \<and> (fs_objects st' = fs_objects st \<or> fs_objects st' = (fs_objects st)(n \<mapsto> b))"
    using fs_put_new_objects [of e st n b "Inl x" st'] by (simp add: fs_store_def)
  show "fs_ok st \<Longrightarrow> st_list fs_store e st = Inr ns \<Longrightarrow>
      distinct ns \<and> set ns = dom (fs_objects st)"
    using list_sync_objects [of e st ns] by (simp add: fs_store_def)
  show "fs_ok st \<Longrightarrow> st_list_after fs_store e st after = Inr ns \<Longrightarrow>
      set ns = {n \<in> dom (fs_objects st). \<forall>a. after = Some a \<longrightarrow> a < n}"
    by (rule fs_list_after_objects)
  show "fs_ok st \<Longrightarrow> st_get fs_store e st n = Inr b \<Longrightarrow> \<not> contains ''.tmp.'' n \<Longrightarrow>
      fs_objects st n = Some b"
    by (auto simp: fs_store_def get_sync_def fs_objects_def entry_objects_def
        split: if_splits option.splits)
  show "(\<And>kid. k = Some kid \<Longrightarrow> is_key_id kid) \<Longrightarrow>
      \<not> contains ''.tmp.'' (blob_filename f t k (extension fmt))"
    by (rule blob_name_not_tmp)
qed

end
