(* ===== verification/Blob_Sink.thy ===== *)
theory Blob_Sink
  imports Blob_Store
begin

text \<open>
  The blob destination (\<open>BlobSink\<close> in \<open>crates/mirror-fs/src/blob.rs\<close>): the buffer and its flush
  triggers, the compaction view, the offset gate, the flush bookkeeping and the drift check.  The
  store is a record of operations (theory Blob_Store), the codec a record of functions; the clock
  readings and system call outcomes of one operation are its first argument.  Instants and
  durations are nanoseconds, Unix times are seconds, both as \<open>nat\<close>.  A step that cannot
  be reached in the code (\<open>expect\<close>, \<open>unreachable!\<close>) is left unspecified, and the invariant excludes it.
\<close>

section \<open>Specification, codec and state\<close>

datatype parquet_compression = Zstd1 | Zstd3 | Snappy | Lz4 | Uncompressed

record flush_triggers =
  ft_max_time :: nat
  ft_max_bytes :: u64
  ft_max_offsets :: u64
  ft_daily_at_utc_seconds :: "u32 option"

record blob_encryption =
  be_key_id :: string
  be_keyring :: "(string \<times> bytes) list"

record blob_spec =
  bs_format :: format
  bs_compression :: parquet_compression
  bs_keys :: column_type
  bs_values :: column_type
  bs_compaction :: "compaction_mode option"
  bs_flush :: flush_triggers
  bs_encryption :: "blob_encryption option"

text \<open>The codec (\<open>mirror_envelope\<close> over serde and Parquet): encoding may refuse a record.\<close>

record codec =
  cd_encode :: "format \<Rightarrow> parquet_compression \<Rightarrow> column_type \<Rightarrow> column_type \<Rightarrow> krecord list \<Rightarrow> unit + bytes"
  cd_encode_encrypted ::
    "krecord list \<Rightarrow> parquet_compression \<Rightarrow> column_type \<Rightarrow> column_type \<Rightarrow> bytes \<Rightarrow> unit + bytes"
  cd_decode :: "format \<Rightarrow> bytes \<Rightarrow> unit + krecord list"
  cd_decode_encrypted :: "bytes \<Rightarrow> bytes \<Rightarrow> unit + krecord list"

record 'st blob_sink =
  sk_store :: 'st
  sk_spec :: blob_spec
  sk_durable_position :: u64
  sk_buffer :: "krecord list"
  sk_buffer_bytes :: u64
  sk_buffer_started :: "nat option"
  sk_view :: "(string \<times> krecord) list option"
  sk_next_daily_unix :: "nat option"
  sk_flush_observer :: "(u64 \<times> u64) list option"
  sk_tail :: "string list"
  sk_last_drift_check :: nat
  sk_drift_check_interval :: nat

text \<open>
  What one operation reads: the Unix clock (before and after a daily flush), the monotonic clock at
  each place the code reads it, and the outcomes of its store calls.
\<close>

record 'e sink_env =
  se_unix1 :: nat
  se_unix2 :: nat
  se_now_push :: nat
  se_now_flush :: nat
  se_now_drift :: nat
  se_now_checked :: nat
  se_daily_put :: 'e
  se_flush_put :: 'e
  se_drift_list :: 'e

section \<open>Decoding\<close>

definition decode_blob ::
    "codec \<Rightarrow> string \<Rightarrow> bytes \<Rightarrow> format \<Rightarrow> (string \<times> bytes) list option \<Rightarrow> blob_error + krecord list" where
  "decode_blob cd name b fmt keyring =
     (let decoded = (case Option.bind (parse_blob_name name (extension fmt)) bn_key_id of
          None \<Rightarrow> Ok (cd_decode cd fmt b)
        | Some kid \<Rightarrow> (case keyring of
              None \<Rightarrow> Err BStore
            | Some ring \<Rightarrow> (case map_of ring kid of
                  None \<Rightarrow> Err BStore
                | Some k \<Rightarrow> Ok (cd_decode_encrypted cd b k))))
      in case decoded of
          Inl x \<Rightarrow> Inl x
        | Inr (Inl _) \<Rightarrow> Err CorruptChain
        | Inr (Inr rs) \<Rightarrow> Ok rs)"

fun view_of :: "krecord list \<Rightarrow> (string \<times> krecord) list \<Rightarrow> blob_error + (string \<times> krecord) list" where
  "view_of [] v = Ok v"
| "view_of (r # rs) v = (case r_key r of
      None \<Rightarrow> Err CorruptChain
    | Some kb \<Rightarrow> (case from_utf8 kb of
          None \<Rightarrow> Err CorruptChain
        | Some k \<Rightarrow> view_of rs (bt_insert k r v)))"

definition decode_view ::
    "codec \<Rightarrow> string \<Rightarrow> bytes \<Rightarrow> format \<Rightarrow> blob_encryption option
      \<Rightarrow> blob_error + (string \<times> krecord) list" where
  "decode_view cd name b fmt encryption =
     res_bind (decode_blob cd name b fmt (map_option be_keyring encryption)) (\<lambda>rs. view_of rs [])"

section \<open>Daily boundary, sizes and triggers\<close>

definition schedule_next_daily :: "u32 \<Rightarrow> nat \<Rightarrow> nat" where
  "schedule_next_daily target now_unix =
     (let midnight = (now_unix div 86400) * 86400;
          today_target = midnight + unat target
      in if now_unix < today_target then today_target else today_target + 86400)"

text \<open>The loop that moves the boundary past \<open>now\<close>.\<close>

function advance_daily :: "nat \<Rightarrow> nat \<Rightarrow> nat" where
  "advance_daily now t = (if t \<le> now then advance_daily now (t + 86400) else t)"
  by pat_completeness auto
termination by (relation "measure (\<lambda>(now, t). Suc now - t)") auto

declare advance_daily.simps [simp del]

definition opt_len :: "bytes option \<Rightarrow> nat" where
  "opt_len b = (case b of None \<Rightarrow> 0 | Some x \<Rightarrow> length x)"

definition record_byte_size :: "krecord \<Rightarrow> u64" where
  "record_byte_size r = of_nat (opt_len (r_key r)) + of_nat (opt_len (r_value r))
     + of_nat (sum_list (map (\<lambda>h. length (h_key h) + opt_len (h_value h)) (r_headers r)))"

definition buffered_head :: "'st blob_sink \<Rightarrow> u64" where
  "buffered_head s = (if sk_buffer s = [] then sk_durable_position s
     else r_offset (last (sk_buffer s)) + 1)"

definition should_flush :: "nat \<Rightarrow> 'st blob_sink \<Rightarrow> flush_trigger option" where
  "should_flush now s =
     (let f = bs_flush (sk_spec s) in
      if sk_buffer s = [] then None
      else if ft_max_offsets f \<le> of_nat (length (sk_buffer s)) then Some MaxOffsets
      else if ft_max_bytes f \<le> sk_buffer_bytes s then Some MaxBytes
      else if (case sk_buffer_started s of Some t \<Rightarrow> ft_max_time f \<le> now - t | None \<Rightarrow> False)
        then Some MaxTime
      else None)"

section \<open>Flushing\<close>

definition push_tail :: "string list \<Rightarrow> string \<Rightarrow> string list" where
  "push_tail names name =
     (let t = names @ [name] in if 2 < length t then drop 1 t else t)"

definition encode_for :: "codec \<Rightarrow> blob_spec \<Rightarrow> krecord list \<Rightarrow> unit + bytes" where
  "encode_for cd spec rs = (case bs_encryption spec of
      None \<Rightarrow> cd_encode cd (bs_format spec) (bs_compression spec) (bs_keys spec) (bs_values spec) rs
    | Some enc \<Rightarrow> cd_encode_encrypted cd rs (bs_compression spec) (bs_keys spec) (bs_values spec)
        (the (map_of (be_keyring enc) (be_key_id enc))))"

definition flush_locked ::
    "('st, 'e) store_ops \<Rightarrow> codec \<Rightarrow> 'e \<Rightarrow> 'st blob_sink \<Rightarrow> (sink_error + unit) \<times> 'st blob_sink" where
  "flush_locked ops cd e s =
     (let spec = sk_spec s;
          frm = sk_durable_position s;
          to = r_offset (last (sk_buffer s));
          name = blob_filename frm to (map_option be_key_id (bs_encryption spec))
                   (extension (bs_format spec));
          (to_encode, s1) = (case (bs_compaction spec, sk_view s) of
              (Some CLog, Some view) \<Rightarrow> (map snd view, s)
            | _ \<Rightarrow> (sk_buffer s, s\<lparr>sk_buffer := []\<rparr>))
      in case encode_for cd spec to_encode of
          Inl _ \<Rightarrow> (Err SnkRejected, s1)
        | Inr b \<Rightarrow>
           (let (res, st') = st_put_new ops e (sk_store s1) name b;
                s2 = s1\<lparr>sk_store := st'\<rparr>
            in case res of
                Inl AlreadyExists \<Rightarrow> (Err SnkInconsistent, s2)
              | Inl _ \<Rightarrow> (Err SnkTransport, s2)
              | Inr _ \<Rightarrow> (Ok (), s2\<lparr>sk_durable_position := to + 1,
                  sk_tail := push_tail (sk_tail s) name,
                  sk_buffer := [], sk_buffer_bytes := 0, sk_buffer_started := None,
                  sk_flush_observer := map_option (\<lambda>evs. evs @ [(frm, to)]) (sk_flush_observer s)\<rparr>)))"

definition tick_daily ::
    "('st, 'e) store_ops \<Rightarrow> codec \<Rightarrow> 'e sink_env \<Rightarrow> 'st blob_sink
      \<Rightarrow> (sink_error + unit) \<times> 'st blob_sink" where
  "tick_daily ops cd e s = (case sk_next_daily_unix s of
      None \<Rightarrow> (Ok (), s)
    | Some nxt \<Rightarrow>
        if se_unix1 e < nxt then (Ok (), s)
        else (let (res, s1) = (if sk_buffer s = [] then (Ok (), s)
                               else flush_locked ops cd (se_daily_put e) s)
              in case res of
                  Inl x \<Rightarrow> (Inl x, s1)
                | Inr _ \<Rightarrow>
                    (Ok (), s1\<lparr>sk_next_daily_unix := Some (advance_daily (se_unix2 e) nxt)\<rparr>)))"

definition flush_now ::
    "('st, 'e) store_ops \<Rightarrow> codec \<Rightarrow> 'e sink_env \<Rightarrow> 'st blob_sink
      \<Rightarrow> (sink_error + unit) \<times> 'st blob_sink" where
  "flush_now ops cd e s =
     (if sk_buffer s = [] then (Ok (), s) else flush_locked ops cd (se_flush_put e) s)"

section \<open>The drift check\<close>

fun drift_window :: "string list \<Rightarrow> string option \<times> string option" where
  "drift_window [] = (None, None)"
| "drift_window [l] = (None, Some l)"
| "drift_window [b, l] = (Some b, Some l)"

definition check_drift ::
    "('st, 'e) store_ops \<Rightarrow> 'e sink_env \<Rightarrow> 'st blob_sink
      \<Rightarrow> (sink_error + unit) \<times> 'st blob_sink" where
  "check_drift ops e s =
     (let (after, expected) = drift_window (sk_tail s) in
      case st_list_after ops (se_drift_list e) (sk_store s) after of
        Inl _ \<Rightarrow> (Err SnkTransport, s)
      | Inr listed \<Rightarrow>
          if (case expected of Some l \<Rightarrow> l \<notin> set listed | None \<Rightarrow> False)
          then (Err SnkInconsistent, s)
          else if list_ex (\<lambda>n. Some n \<noteq> expected) listed then (Err SnkInconsistent, s)
          else (Ok (), s\<lparr>sk_last_drift_check := se_now_checked e\<rparr>))"

section \<open>The sink operations\<close>

definition sink_next_expected_offset ::
    "('st, 'e) store_ops \<Rightarrow> codec \<Rightarrow> 'e sink_env \<Rightarrow> 'st blob_sink
      \<Rightarrow> (sink_error + u64) \<times> 'st blob_sink" where
  "sink_next_expected_offset ops cd e s =
     (case tick_daily ops cd e s of
        (Inl x, s1) \<Rightarrow> (Inl x, s1)
      | (Inr _, s1) \<Rightarrow>
         (case (if should_flush (se_now_flush e) s1 = Some MaxTime
                then flush_locked ops cd (se_flush_put e) s1 else (Ok (), s1)) of
            (Inl x, s2) \<Rightarrow> (Inl x, s2)
          | (Inr _, s2) \<Rightarrow>
             (case (if sk_drift_check_interval s2 \<le> se_now_drift e - sk_last_drift_check s2
                    then check_drift ops e s2 else (Ok (), s2)) of
                (Inl x, s3) \<Rightarrow> (Inl x, s3)
              | (Inr _, s3) \<Rightarrow> (Ok (buffered_head s3), s3))))"

definition view_update :: "krecord \<Rightarrow> (string \<times> krecord) list \<Rightarrow> (string \<times> krecord) list" where
  "view_update r view =
     (let k = the (from_utf8 (the (r_key r))) in
      if r_value r = None then bt_remove k view else bt_insert k r view)"

text \<open>Take the record: update the view, count its bytes, buffer it and start the buffer's clock.\<close>

definition push_record :: "'e sink_env \<Rightarrow> krecord \<Rightarrow> 'st blob_sink \<Rightarrow> 'st blob_sink" where
  "push_record e r s = s\<lparr>sk_view := map_option (view_update r) (sk_view s),
     sk_buffer_bytes := sk_buffer_bytes s + record_byte_size r,
     sk_buffer := sk_buffer s @ [r],
     sk_buffer_started := (case sk_buffer_started s of
         None \<Rightarrow> Some (se_now_push e) | Some t \<Rightarrow> Some t)\<rparr>"

definition sink_write ::
    "('st, 'e) store_ops \<Rightarrow> codec \<Rightarrow> 'e sink_env \<Rightarrow> krecord \<Rightarrow> 'st blob_sink
      \<Rightarrow> (sink_error + unit) \<times> 'st blob_sink" where
  "sink_write ops cd e r s =
     (case tick_daily ops cd e s of
        (Inl x, s1) \<Rightarrow> (Inl x, s1)
      | (Inr _, s1) \<Rightarrow>
         (let expected = buffered_head s1 in
          if r_offset r < expected then (Err (UnexpectedPosition expected (r_offset r)), s1)
          else if bs_compaction (sk_spec s1) = Some CLog
            \<and> (case r_key r of None \<Rightarrow> True | Some k \<Rightarrow> from_utf8 k = None)
          then (Err SnkRejected, s1)
          else (let s2 = push_record e r s1
                in if should_flush (se_now_flush e) s2 = None then (Ok (), s2)
                   else flush_locked ops cd (se_flush_put e) s2)))"

definition sink_allows_compacted_source :: "'st blob_sink \<Rightarrow> bool" where
  "sink_allows_compacted_source s = (bs_compaction (sk_spec s) = Some CLog)"

definition sink_align :: "u64 \<Rightarrow> 'st blob_sink \<Rightarrow> (sink_error + unit) \<times> 'st blob_sink" where
  "sink_align low_watermark s =
     (if bs_compaction (sk_spec s) \<noteq> Some CLog then (Err SnkInconsistent, s)
      else if sk_buffer s \<noteq> [] \<or> low_watermark < sk_durable_position s then (Err SnkInconsistent, s)
      else (Ok (), s\<lparr>sk_durable_position := low_watermark\<rparr>))"

definition sink_set_flush_observer :: "'st blob_sink \<Rightarrow> 'st blob_sink" where
  "sink_set_flush_observer s = s\<lparr>sk_flush_observer := Some []\<rparr>"

section \<open>Opening\<close>

definition drift_check_interval :: nat where
  "drift_check_interval = 60 * 1000000000"

definition sink_new ::
    "codec \<Rightarrow> 'st \<Rightarrow> blob_spec \<Rightarrow> chain \<Rightarrow> bytes option \<Rightarrow> nat \<Rightarrow> nat \<Rightarrow> blob_error + 'st blob_sink" where
  "sink_new cd st spec ch snapshot now_unix now =
     (if (case bs_encryption spec of
            None \<Rightarrow> False
          | Some enc \<Rightarrow> bs_format spec \<noteq> Parquet \<or> map_of (be_keyring enc) (be_key_id enc) = None)
      then Err BStore
      else res_bind
       (case bs_compaction spec of
          None \<Rightarrow> Ok None
        | Some CLog \<Rightarrow> (case (ch_latest ch, snapshot) of
              (Some name, Some b) \<Rightarrow>
                res_bind (decode_view cd name b (bs_format spec) (bs_encryption spec)) (\<lambda>v. Ok (Some v))
            | (None, _) \<Rightarrow> Ok (Some [])
            | (Some name, None) \<Rightarrow> Err BStore))
       (\<lambda>view. Ok \<lparr>sk_store = st, sk_spec = spec, sk_durable_position = ch_durable ch,
          sk_buffer = [], sk_buffer_bytes = 0, sk_buffer_started = None, sk_view = view,
          sk_next_daily_unix = map_option (\<lambda>t. schedule_next_daily t now_unix)
            (ft_daily_at_utc_seconds (bs_flush spec)),
          sk_flush_observer = None, sk_tail = ch_tail ch, sk_last_drift_check = now,
          sk_drift_check_interval = drift_check_interval\<rparr>))"

definition open_store ::
    "('st, 'e) store_ops \<Rightarrow> codec \<Rightarrow> 'e \<Rightarrow> 'e \<Rightarrow> nat \<Rightarrow> nat \<Rightarrow> 'st \<Rightarrow> blob_spec
      \<Rightarrow> blob_error + 'st blob_sink" where
  "open_store ops cd e_list e_get now_unix now st spec =
     res_bind (st_list ops e_list st) (\<lambda>names.
     res_bind (validate_chain names (bs_format spec) (bs_compaction spec)) (\<lambda>ch.
     res_bind (case ch_latest ch of
          None \<Rightarrow> Ok None
        | Some name \<Rightarrow> res_bind (st_get ops e_get st name) (\<lambda>b. Ok (Some b))) (\<lambda>snapshot.
       sink_new cd st spec ch snapshot now_unix now)))"

end
