(* ===== verification/Sink_Mode.thy ===== *)
theory Sink_Mode
  imports Blob_Sink
begin

text \<open>
  The operations of the blob sink (\<open>crates/mirror-fs/src/blob.rs\<close>) over an invariant.  The locale
  \<open>sink_mode\<close> asks what one flush and one pushed record do to a relation between the sink and the
  records it accepted, and to what the store is left with; inside it the daily tick, the idle check,
  the write, the explicit flush and any sequence of them are shown to keep both.  Append mode
  (Blob_Restart) and compaction mode (Log_Restart) are its two instances.
\<close>

section \<open>Sequences of operations\<close>

datatype 'e sink_op =
    OpNext "'e sink_env"
  | OpWrite "'e sink_env" krecord
  | OpFlush "'e sink_env"

text \<open>
  The operations that a mirror calls on its sink, up to the first error; the result also lists the
  records whose write returned.
\<close>

fun run_ops ::
    "('st, 'e) store_ops \<Rightarrow> codec \<Rightarrow> 'e sink_op list \<Rightarrow> 'st blob_sink
      \<Rightarrow> (sink_error + unit) \<times> 'st blob_sink \<times> krecord list" where
  "run_ops ops cd [] s = (Ok (), s, [])"
| "run_ops ops cd (OpNext e # os) s = (case sink_next_expected_offset ops cd e s of
      (Inl x, s') \<Rightarrow> (Inl x, s', [])
    | (Inr _, s') \<Rightarrow> run_ops ops cd os s')"
| "run_ops ops cd (OpWrite e r # os) s = (case sink_write ops cd e r s of
      (Inl x, s') \<Rightarrow> (Inl x, s', [])
    | (Inr _, s') \<Rightarrow> (case run_ops ops cd os s' of (res, s'', rs) \<Rightarrow> (res, s'', r # rs)))"
| "run_ops ops cd (OpFlush e # os) s = (case flush_now ops cd e s of
      (Inl x, s') \<Rightarrow> (Inl x, s', [])
    | (Inr _, s') \<Rightarrow> run_ops ops cd os s')"

text \<open>The record whose write a run may have been in the middle of when it failed.\<close>

definition op_records :: "'e sink_op list \<Rightarrow> krecord list" where
  "op_records os = concat (map (\<lambda>op. case op of OpWrite _ r \<Rightarrow> [r] | _ \<Rightarrow> []) os)"

lemma op_records_simps [simp]:
  "op_records [] = []" "op_records (OpNext e # os) = op_records os"
  "op_records (OpWrite e r # os) = r # op_records os" "op_records (OpFlush e # os) = op_records os"
  by (simp_all add: op_records_def)

section \<open>The sink over an invariant\<close>

locale sink_mode =
  fixes ops :: "('st, 'e) store_ops"
    and cd :: codec
    and inv :: "'st blob_sink \<Rightarrow> krecord list \<Rightarrow> bool"
    and left :: "blob_spec \<Rightarrow> 'st \<Rightarrow> krecord list \<Rightarrow> bool"
  assumes left_law: "inv s log \<Longrightarrow> left (sk_spec s) (sk_store s) log"
    and cong_law: "inv s log \<Longrightarrow> sk_store s' = sk_store s \<Longrightarrow> sk_spec s' = sk_spec s \<Longrightarrow>
      sk_view s' = sk_view s \<Longrightarrow> sk_durable_position s' = sk_durable_position s \<Longrightarrow>
      sk_tail s' = sk_tail s \<Longrightarrow> sk_buffer s' = sk_buffer s \<Longrightarrow> inv s' log"
    and push_law: "inv s log \<Longrightarrow> buffered_head s \<le> r_offset r \<Longrightarrow> r_offset r \<noteq> u64_max \<Longrightarrow>
      (bs_compaction (sk_spec s) = Some CLog \<longrightarrow> (\<exists>k. r_key r = Some k \<and> from_utf8 k \<noteq> None)) \<Longrightarrow>
      inv (push_record (e' :: 'e sink_env) r s) (log @ [r])"
    and flush_law: "inv s log \<Longrightarrow> sk_buffer s \<noteq> [] \<Longrightarrow> flush_locked ops cd e s = (res, s') \<Longrightarrow>
      left (sk_spec s) (sk_store s') log \<and> sk_spec s' = sk_spec s
      \<and> (is_ok res \<longrightarrow> inv s' log \<and> sk_buffer s' = [])"
begin

lemma tick_daily_keeps:
  assumes "inv s log" "tick_daily ops cd e s = (res, s')"
  shows "left (sk_spec s) (sk_store s') log \<and> sk_spec s' = sk_spec s \<and> (is_ok res \<longrightarrow> inv s' log)"
proof (cases "sk_next_daily_unix s")
  case None
  then show ?thesis using assms left_law [OF assms(1)] by (auto simp: tick_daily_def)
next
  case (Some t)
  show ?thesis
  proof (cases "se_unix1 e < t \<or> sk_buffer s = []")
    case True
    then have "is_ok res \<and> sk_spec s' = sk_spec s \<and> sk_store s' = sk_store s \<and> inv s' log"
      using assms Some by (auto simp: tick_daily_def intro: cong_law split: if_splits)
    then show ?thesis using left_law [OF assms(1)] by simp
  next
    case False
    obtain r1 s1 where f: "flush_locked ops cd (se_daily_put e) s = (r1, s1)" by fastforce
    note fl = flush_law [OF assms(1) _ f]
    have run: "(res, s') = (case r1 of Inl x \<Rightarrow> (Inl x, s1) | Inr _ \<Rightarrow>
        (Ok (), s1\<lparr>sk_next_daily_unix := Some (advance_daily (se_unix2 e) t)\<rparr>))"
      using assms(2) Some False f by (simp add: tick_daily_def)
    show ?thesis
    proof (cases r1)
      case (Inl x)
      then show ?thesis using run fl False by simp
    next
      case (Inr u)
      then have s': "res = Ok ()" "s' = s1\<lparr>sk_next_daily_unix := Some (advance_daily (se_unix2 e) t)\<rparr>"
        using run by simp_all
      have "inv s1 log" using fl False Inr by simp
      then have "inv s' log" by (rule cong_law) (simp_all add: s')
      then show ?thesis using fl False s' by simp
    qed
  qed
qed

lemma check_drift_keeps:
  assumes "inv s log" "check_drift ops e s = (res, s')"
  shows "inv s' log \<and> sk_spec s' = sk_spec s \<and> sk_store s' = sk_store s"
proof -
  have "s' = s \<or> s' = s\<lparr>sk_last_drift_check := se_now_checked e\<rparr>"
    using assms(2) by (auto simp: check_drift_def Let_def split: prod.splits sum.splits if_splits)
  then show ?thesis using assms(1) by (auto intro: cong_law)
qed

lemma next_keeps:
  assumes "inv s log" "sink_next_expected_offset ops cd e s = (res, s')"
  shows "left (sk_spec s) (sk_store s') log \<and> sk_spec s' = sk_spec s
    \<and> (\<forall>h. res = Inr h \<longrightarrow> inv s' log \<and> h = buffered_head s')"
proof -
  obtain r1 s1 where t: "tick_daily ops cd e s = (r1, s1)" by fastforce
  note tk = tick_daily_keeps [OF assms(1) t]
  show ?thesis
  proof (cases r1)
    case (Inl x)
    then show ?thesis using assms(2) t tk by (auto simp: sink_next_expected_offset_def)
  next
    case (Inr u)
    define f where "f = (if should_flush (se_now_flush e) s1 = Some MaxTime
        then flush_locked ops cd (se_flush_put e) s1 else (Ok (), s1))"
    obtain r2 s2 where f2: "f = (r2, s2)" by fastforce
    have inv1: "inv s1 log" "sk_spec s1 = sk_spec s" using tk Inr by auto
    have st2: "left (sk_spec s) (sk_store s2) log \<and> sk_spec s2 = sk_spec s \<and> (is_ok r2 \<longrightarrow> inv s2 log)"
    proof (cases "should_flush (se_now_flush e) s1 = Some MaxTime")
      case True
      then have "sk_buffer s1 \<noteq> []" by (auto simp: should_flush_def)
      then show ?thesis
        using flush_law [OF inv1(1), of "se_flush_put e" r2 s2] True f2 inv1(2) by (simp add: f_def)
    next
      case False
      then show ?thesis using f2 inv1 left_law [OF inv1(1)] by (auto simp: f_def)
    qed
    have run: "(res, s') = (case r2 of Inl x \<Rightarrow> (Inl x, s2) | Inr _ \<Rightarrow>
        (case (if sk_drift_check_interval s2 \<le> se_now_drift e - sk_last_drift_check s2
               then check_drift ops e s2 else (Ok (), s2)) of
           (Inl x, s3) \<Rightarrow> (Inl x, s3) | (Inr _, s3) \<Rightarrow> (Ok (buffered_head s3), s3)))"
      using assms(2) t Inr f2 [unfolded f_def]
      by (simp add: sink_next_expected_offset_def split: sum.splits)
    show ?thesis
    proof (cases r2)
      case (Inl x)
      then show ?thesis using run st2 by simp
    next
      case (Inr v)
      define d where "d = (if sk_drift_check_interval s2 \<le> se_now_drift e - sk_last_drift_check s2
          then check_drift ops e s2 else (Ok (), s2))"
      obtain r3 s3 where d3: "d = (r3, s3)" by fastforce
      have inv2: "inv s2 log" using st2 Inr by simp
      have inv3: "inv s3 log \<and> sk_spec s3 = sk_spec s2 \<and> sk_store s3 = sk_store s2"
        using d3 check_drift_keeps [OF inv2, of e r3 s3] inv2 by (auto simp: d_def split: if_splits)
      have "(res, s') = (case r3 of Inl x \<Rightarrow> (Inl x, s3) | Inr _ \<Rightarrow> (Ok (buffered_head s3), s3))"
        using run Inr d3 by (simp add: d_def split: sum.splits)
      then show ?thesis using inv3 st2 by (cases r3) auto
    qed
  qed
qed

lemma write_keeps:
  assumes "inv s log" "r_offset r \<noteq> u64_max" "sink_write ops cd e r s = (res, s')"
  shows "sk_spec s' = sk_spec s
    \<and> (\<exists>log' \<in> {log, log @ [r]}. left (sk_spec s) (sk_store s') log')
    \<and> (is_ok res \<longrightarrow> inv s' (log @ [r]))"
proof -
  obtain r1 s1 where t: "tick_daily ops cd e s = (r1, s1)" by fastforce
  note tk = tick_daily_keeps [OF assms(1) t]
  show ?thesis
  proof (cases r1)
    case (Inl x)
    then show ?thesis using assms(3) t tk by (auto simp: sink_write_def)
  next
    case (Inr u)
    have inv1: "inv s1 log" "sk_spec s1 = sk_spec s" using tk Inr by auto
    show ?thesis
    proof (cases "r_offset r < buffered_head s1 \<or> bs_compaction (sk_spec s1) = Some CLog
        \<and> (case r_key r of None \<Rightarrow> True | Some k \<Rightarrow> from_utf8 k = None)")
      case True
      then show ?thesis
        using assms(3) t tk Inr by (auto simp: sink_write_def Let_def split: if_splits)
    next
      case False
      define s2 where "s2 = push_record e r s1"
      have "bs_compaction (sk_spec s1) = Some CLog \<longrightarrow> (\<exists>k. r_key r = Some k \<and> from_utf8 k \<noteq> None)"
        using False by (auto split: option.splits)
      then have inv2: "inv s2 (log @ [r])"
        unfolding s2_def using push_law [OF inv1(1) _ assms(2)] False by (simp add: not_less)
      have s2: "sk_spec s2 = sk_spec s" "sk_buffer s2 \<noteq> []"
        using inv1(2) by (simp_all add: s2_def push_record_def)
      have "sink_write ops cd e r s = (if should_flush (se_now_flush e) s2 = None then (Ok (), s2)
          else flush_locked ops cd (se_flush_put e) s2)"
        using t Inr False unfolding sink_write_def Let_def s2_def by auto
      note run = this [unfolded assms(3)]
      show ?thesis
      proof (cases "should_flush (se_now_flush e) s2 = None")
        case True
        then show ?thesis using run inv2 s2 left_law [OF inv2] by auto
      next
        case False
        then show ?thesis
          using run s2 flush_law [OF inv2 s2(2), of "se_flush_put e" res s'] by auto
      qed
    qed
  qed
qed

lemma flush_keeps:
  assumes "inv s log" "flush_now ops cd e s = (res, s')"
  shows "left (sk_spec s) (sk_store s') log \<and> sk_spec s' = sk_spec s
    \<and> (is_ok res \<longrightarrow> inv s' log \<and> sk_buffer s' = [])"
  using assms flush_law [OF assms(1), of "se_flush_put e" res s'] left_law [OF assms(1)]
  by (auto simp: flush_now_def split: if_splits)

lemma run_ops_keeps:
  assumes "\<forall>r \<in> set (op_records os). r_offset r \<noteq> u64_max"
  shows "inv s log \<Longrightarrow> run_ops ops cd os s = (res, s', rs) \<Longrightarrow>
    sk_spec s' = sk_spec s
    \<and> (\<exists>more. (more = [] \<or> (\<exists>r. more = [r] \<and> r \<in> set (op_records os)))
        \<and> left (sk_spec s) (sk_store s') (log @ rs @ more))
    \<and> (is_ok res \<longrightarrow> inv s' (log @ rs))"
  using assms
proof (induction os arbitrary: s log rs)
  case Nil
  then show ?case using left_law by fastforce
next
  case (Cons op os)
  show ?case
  proof (cases op)
    case (OpNext e)
    obtain r1 s1 where f: "sink_next_expected_offset ops cd e s = (r1, s1)" by fastforce
    note st = next_keeps [OF Cons.prems(1) f]
    show ?thesis
    proof (cases r1)
      case (Inl x)
      then show ?thesis using Cons.prems OpNext f st by auto
    next
      case (Inr h)
      then show ?thesis using Cons.IH [of s1 log rs] Cons.prems OpNext f st by auto
    qed
  next
    case (OpFlush e)
    obtain r1 s1 where f: "flush_now ops cd e s = (r1, s1)" by fastforce
    note st = flush_keeps [OF Cons.prems(1) f]
    show ?thesis
    proof (cases r1)
      case (Inl x)
      then show ?thesis using Cons.prems OpFlush f st by auto
    next
      case (Inr h)
      then show ?thesis using Cons.IH [of s1 log rs] Cons.prems OpFlush f st by auto
    qed
  next
    case (OpWrite e r)
    obtain r1 s1 where f: "sink_write ops cd e r s = (r1, s1)" by fastforce
    have max: "r_offset r \<noteq> u64_max" "\<forall>r \<in> set (op_records os). r_offset r \<noteq> u64_max"
      using Cons.prems(3) OpWrite by auto
    note st = write_keeps [OF Cons.prems(1) max(1) f]
    show ?thesis
    proof (cases r1)
      case (Inl x)
      then show ?thesis using Cons.prems OpWrite f st by auto
    next
      case (Inr h)
      obtain rs' where rest: "run_ops ops cd os s1 = (res, s', rs')" "rs = r # rs'"
        using Cons.prems(2) OpWrite f Inr by (auto split: prod.splits)
      have "inv s1 (log @ [r])" using st Inr by simp
      from Cons.IH [OF this rest(1) max(2)] show ?thesis using rest(2) OpWrite st by auto
    qed
  qed
qed

end

end
