(* ===== verification/Blob_Restart.thy ===== *)
theory Blob_Restart
  imports Sink_Mode
begin

text \<open>
  What the blob sink promises across restarts.  \<open>chain_state\<close> is the abstract destination: a
  contiguous chain of objects that decode to the records below the durable position.  Every operation
  of an append-mode sink keeps it over any store that satisfies \<open>blob_store\<close>, whether it succeeds or
  fails, so a sink that is opened again on what is left continues at the first record the destination
  does not hold.
\<close>

section \<open>The abstract destination\<close>

text \<open>What the code relies on of the codec: what it encodes, it decodes.\<close>

definition codec_ok :: "codec \<Rightarrow> bool" where
  "codec_ok cd = ((\<forall>fmt c k v rs b. cd_encode cd fmt c k v rs = Inr b \<longrightarrow> cd_decode cd fmt b = Inr rs)
     \<and> (\<forall>rs c k v key b. cd_encode_encrypted cd rs c k v key = Inr b \<longrightarrow>
          cd_decode_encrypted cd b key = Inr rs))"

definition spec_key :: "blob_spec \<Rightarrow> string option" where
  "spec_key spec = map_option be_key_id (bs_encryption spec)"

text \<open>The active key, if any, is one of the keyring's, and the format supports it.\<close>

definition keys_ok :: "blob_spec \<Rightarrow> bool" where
  "keys_ok spec = (case bs_encryption spec of None \<Rightarrow> True
      | Some enc \<Rightarrow> bs_format spec = Parquet \<and> is_key_id (be_key_id enc)
          \<and> map_of (be_keyring enc) (be_key_id enc) \<noteq> None)"

definition append_spec :: "blob_spec \<Rightarrow> bool" where
  "append_spec spec = (bs_compaction spec = None \<and> keys_ok spec)"

definition content ::
    "codec \<Rightarrow> blob_spec \<Rightarrow> (string \<rightharpoonup> bytes) \<Rightarrow> string \<Rightarrow> krecord list option" where
  "content cd spec objs name = (case objs name of
      None \<Rightarrow> None
    | Some b \<Rightarrow> (case decode_blob cd name b (bs_format spec)
          (map_option be_keyring (bs_encryption spec)) of
        Inl _ \<Rightarrow> None | Inr rs \<Rightarrow> Some rs))"

fun contents :: "(string \<Rightarrow> krecord list option) \<Rightarrow> string list \<Rightarrow> krecord list option" where
  "contents f [] = Some []"
| "contents f (n # ns) = (case f n of None \<Rightarrow> None
     | Some rs \<Rightarrow> map_option (\<lambda>r. rs @ r) (contents f ns))"

abbreviation names_of :: "blob_spec \<Rightarrow> blob_id list \<Rightarrow> string list" where
  "names_of spec bs \<equiv> map (id_name (bs_format spec)) bs"

text \<open>An object holds records of its own range, the last one at its end.\<close>

definition object_exact :: "blob_id \<Rightarrow> krecord list \<Rightarrow> bool" where
  "object_exact b rs = (rs \<noteq> [] \<and> r_offset (last rs) = snd (fst b)
     \<and> (\<forall>r \<in> set rs. fst (fst b) \<le> r_offset r))"

definition objects_exact ::
    "codec \<Rightarrow> blob_spec \<Rightarrow> (string \<rightharpoonup> bytes) \<Rightarrow> blob_id list \<Rightarrow> bool" where
  "objects_exact cd spec objs bs =
     (\<forall>b \<in> set bs. \<exists>rs. content cd spec objs (id_name (bs_format spec) b) = Some rs \<and> object_exact b rs)"

definition chain_state ::
    "codec \<Rightarrow> blob_spec \<Rightarrow> (string \<rightharpoonup> bytes) \<Rightarrow> blob_id list \<Rightarrow> krecord list \<Rightarrow> u64 \<Rightarrow> bool" where
  "chain_state cd spec objs bs rs d =
     (ids_ok bs \<and> chain_from 0 (map fst bs) d \<and> dom objs = set (names_of spec bs)
      \<and> contents (content cd spec objs) (names_of spec bs) = Some rs
      \<and> objects_exact cd spec objs bs \<and> increasing rs \<and> (\<forall>r \<in> set rs. r_offset r < d))"

text \<open>
  What a destination must satisfy for a restart to lose and repeat nothing: it holds the first \<open>n\<close> of
  the accepted records, and every other one is at or above the durable position.
\<close>

definition holds_prefix ::
    "codec \<Rightarrow> blob_spec \<Rightarrow> (string \<rightharpoonup> bytes) \<Rightarrow> krecord list \<Rightarrow> u64 \<Rightarrow> bool" where
  "holds_prefix cd spec objs log d =
     (\<exists>bs n. chain_state cd spec objs bs (take n log) d \<and> (\<forall>r \<in> set (drop n log). d \<le> r_offset r))"

definition sink_inv ::
    "codec \<Rightarrow> ('st \<Rightarrow> string \<rightharpoonup> bytes) \<Rightarrow> ('st \<Rightarrow> bool) \<Rightarrow> 'st blob_sink \<Rightarrow> krecord list \<Rightarrow> bool" where
  "sink_inv cd objects invar s log =
     (invar (sk_store s) \<and> append_spec (sk_spec s) \<and> sk_view s = None \<and>
      (\<exists>bs rs. chain_state cd (sk_spec s) (objects (sk_store s)) bs rs (sk_durable_position s)
        \<and> sk_tail s = last_two (names_of (sk_spec s) bs)
        \<and> log = rs @ sk_buffer s \<and> increasing log
        \<and> (\<forall>r \<in> set (sk_buffer s). sk_durable_position s \<le> r_offset r \<and> r_offset r \<noteq> u64_max)))"

lemma sink_invI:
  assumes "invar (sk_store s)" "append_spec (sk_spec s)" "sk_view s = None"
    "chain_state cd (sk_spec s) (objects (sk_store s)) bs rs (sk_durable_position s)"
    "sk_tail s = last_two (names_of (sk_spec s) bs)" "log = rs @ sk_buffer s" "increasing log"
    "\<forall>r \<in> set (sk_buffer s). sk_durable_position s \<le> r_offset r \<and> r_offset r \<noteq> u64_max"
  shows "sink_inv cd objects invar s log"
  unfolding sink_inv_def using assms by blast

lemma increasing_split:
  "increasing (a @ b) \<Longrightarrow> r \<in> set a \<Longrightarrow> r' \<in> set b \<Longrightarrow> r_offset r < r_offset r'"
  by (simp add: increasing_append)

lemma increasing_le_last: "increasing rs \<Longrightarrow> r \<in> set rs \<Longrightarrow> r_offset r \<le> r_offset (last rs)"
  by (cases rs rule: rev_cases) (auto simp: increasing_snoc)

lemma contents_append:
  "contents f (xs @ ys) = (case contents f xs of None \<Rightarrow> None
     | Some a \<Rightarrow> map_option (\<lambda>b. a @ b) (contents f ys))"
  by (induction xs; cases "contents f ys") (auto split: option.splits)

lemma contents_cong: "(\<And>n. n \<in> set ns \<Longrightarrow> f n = g n) \<Longrightarrow> contents f ns = contents g ns"
  by (induction ns) (auto split: option.splits)

lemma last_two_snoc: "push_tail (last_two xs) x = last_two (xs @ [x])"
proof -
  have "length xs < 2 \<or> (\<exists>zs a b. xs = zs @ [a, b])"
    by (cases xs rule: rev_cases; cases "butlast xs" rule: rev_cases) auto
  then show ?thesis by (auto simp: push_tail_def last_two_def Let_def)
qed

lemma push_tail_length: "length t \<le> 2 \<Longrightarrow> length (push_tail t n) \<le> 2"
  by (auto simp: push_tail_def Let_def)

section \<open>Adding an object to a chain\<close>

text \<open>The object a flush adds.\<close>

definition new_id :: "blob_spec \<Rightarrow> u64 \<Rightarrow> u64 \<Rightarrow> blob_id" where
  "new_id spec d to = ((d, to), spec_key spec)"

lemma append_keys_ok: "append_spec spec \<Longrightarrow> keys_ok spec"
  by (simp add: append_spec_def)

lemma spec_key_ok: "keys_ok spec \<Longrightarrow> spec_key spec = Some kid \<Longrightarrow> is_key_id kid"
  by (auto simp: keys_ok_def spec_key_def split: option.splits)

lemma ids_ok_snoc:
  "keys_ok spec \<Longrightarrow> d \<le> to \<Longrightarrow> to \<noteq> u64_max \<Longrightarrow> ids_ok bs \<Longrightarrow> ids_ok (bs @ [new_id spec d to])"
  by (auto simp: ids_ok_def new_id_def dest: spec_key_ok split: option.splits)

lemma new_name_fresh:
  assumes "keys_ok spec" "ids_ok bs" "\<forall>b \<in> set bs. snd (fst b) < d" "d \<le> to"
  shows "id_name fmt (new_id spec d to) \<notin> id_name fmt ` set bs"
proof
  assume "id_name fmt (new_id spec d to) \<in> id_name fmt ` set bs"
  then obtain b where b: "b \<in> set bs" "id_name fmt (new_id spec d to) = id_name fmt b" by auto
  have "d = fst (fst b) \<and> to = snd (fst b) \<and> spec_key spec = snd b"
  proof (rule blob_filename_inject)
    show "blob_filename d to (spec_key spec) (extension fmt) = id_name fmt b"
      using b(2) by (simp add: new_id_def)
    show "\<And>kid. spec_key spec = Some kid \<Longrightarrow> is_key_id kid"
      using assms(1) by (rule spec_key_ok)
    show "\<And>kid. snd b = Some kid \<Longrightarrow> is_key_id kid"
      using assms(2) b(1) by (auto simp: ids_ok_def list_all_iff)
  qed
  then show False using assms(3,4) b(1) by (auto simp: not_less [symmetric])
qed

text \<open>The names of separated ranges are distinct, so a listing holds each of them once.\<close>

lemma distinct_names:
  assumes "ids_ok bs" "separated (map fst bs)"
  shows "distinct (map (id_name fmt) bs)"
proof -
  have "\<forall>r \<in> set (map fst bs). fst r \<le> snd r"
    using assms(1) by (auto simp: ids_ok_def list_all_iff)
  from separated_tos [OF assms(2) this] have "distinct (map snd (map fst bs))"
    by (simp add: strict_sorted_iff del: map_map)
  then have "distinct bs" by (simp add: distinct_map comp_inj_on_iff)
  moreover have "inj_on (id_name fmt) (set bs)"
  proof (rule inj_onI)
    fix a b assume ab: "a \<in> set bs" "b \<in> set bs" "id_name fmt a = id_name fmt b"
    have "fst (fst a) = fst (fst b) \<and> snd (fst a) = snd (fst b) \<and> snd a = snd b"
      by (rule blob_filename_inject [OF ab(3)])
        (use ab assms(1) in \<open>auto simp: ids_ok_def list_all_iff\<close>)
    then show "a = b" by (simp add: prod_eq_iff)
  qed
  ultimately show ?thesis by (simp add: distinct_map)
qed

lemma listing_mset:
  assumes "ids_ok bs" "separated (map fst bs)" "distinct names" "set names = set (map (id_name fmt) bs)"
  shows "mset names = mset (map (id_name fmt) bs)"
  using iffD1 [OF set_eq_iff_mset_eq_distinct [OF assms(3) distinct_names [OF assms(1,2)]] assms(4)] .

lemma decode_new:
  assumes "codec_ok cd" "keys_ok spec" "encode_for cd spec rs = Inr b"
  shows "decode_blob cd (id_name (bs_format spec) (new_id spec d to)) b (bs_format spec)
    (map_option be_keyring (bs_encryption spec)) = Inr rs"
proof -
  have "parse_blob_name (blob_filename d to (spec_key spec) (extension (bs_format spec)))
      (extension (bs_format spec)) = Some \<lparr>bn_from = d, bn_to = to, bn_key_id = spec_key spec\<rparr>"
    by (rule parse_blob_filename) (rule spec_key_ok [OF assms(2)])
  then show ?thesis
    using assms
    by (auto simp: decode_blob_def new_id_def encode_for_def codec_ok_def spec_key_def keys_ok_def
        split: option.splits)
qed

lemma content_fresh:
  assumes "n \<notin> set ns"
  shows "contents (content cd spec (objs(n \<mapsto> b))) ns = contents (content cd spec objs) ns"
proof (rule contents_cong)
  fix m assume "m \<in> set ns"
  then have "m \<noteq> n" using assms by auto
  then show "content cd spec (objs(n \<mapsto> b)) m = content cd spec objs m"
    by (simp add: content_def)
qed

lemma chain_state_add:
  assumes "codec_ok cd" "keys_ok spec" "chain_state cd spec objs bs rs d"
    "increasing (rs @ buf)" "buf \<noteq> []" "\<forall>r \<in> set buf. d \<le> r_offset r \<and> r_offset r \<noteq> u64_max"
    "encode_for cd spec buf = Inr b" "to = r_offset (last buf)"
  shows "chain_state cd spec (objs(id_name (bs_format spec) (new_id spec d to) \<mapsto> b))
    (bs @ [new_id spec d to]) (rs @ buf) (to + 1)"
proof -
  let ?n = "id_name (bs_format spec) (new_id spec d to)"
  let ?objs = "objs(?n \<mapsto> b)"
  have old: "ids_ok bs" "chain_from 0 (map fst bs) d" "dom objs = set (names_of spec bs)"
    "contents (content cd spec objs) (names_of spec bs) = Some rs" "\<forall>r \<in> set rs. r_offset r < d"
    "objects_exact cd spec objs bs"
    using assms(3) by (auto simp: chain_state_def)
  have "last buf \<in> set buf" using assms(5) by simp
  then have to: "d \<le> to" "to \<noteq> u64_max" using assms(6,8) by auto
  have fresh: "?n \<notin> set (names_of spec bs)"
    using new_name_fresh [OF assms(2) old(1) _ to(1)] chain_from_bounds [OF old(2)] by auto
  have "contents (content cd spec ?objs) (names_of spec bs) =
      contents (content cd spec objs) (names_of spec bs)"
    by (rule content_fresh [OF fresh])
  moreover have new: "content cd spec ?objs ?n = Some buf"
    by (simp add: content_def decode_new [OF assms(1,2,7)])
  ultimately have "contents (content cd spec ?objs) (names_of spec (bs @ [new_id spec d to])) =
      Some (rs @ buf)"
    using old(4) by (simp add: contents_append)
  moreover have "chain_from 0 (map fst (bs @ [new_id spec d to])) (to + 1)"
    using old(2) to by (simp add: chain_from_snoc new_id_def)
  moreover have "objects_exact cd spec ?objs (bs @ [new_id spec d to])"
  proof -
    have "id_name (bs_format spec) b' \<noteq> ?n" if "b' \<in> set bs" for b'
      using fresh imageI [OF that, of "id_name (bs_format spec)"] by (metis list.set_map)
    then show ?thesis
      using old(6) new assms(5,6,8)
      by (auto simp: objects_exact_def object_exact_def new_id_def content_def)
  qed
  moreover have "\<forall>r \<in> set (rs @ buf). r_offset r < to + 1"
  proof
    fix r assume "r \<in> set (rs @ buf)"
    then have "r_offset r \<le> r_offset (last (rs @ buf))"
      by (rule increasing_le_last [OF assms(4)])
    then show "r_offset r < to + 1" using assms(5,8) to by (simp add: lt_succ_iff)
  qed
  ultimately show ?thesis
    using ids_ok_snoc [OF assms(2) to old(1)] old(3) assms(4)
    by (simp add: chain_state_def)
qed


section \<open>The operations keep the destination\<close>

text \<open>What is left behind when an operation ends, by success or by an error.\<close>

definition left_behind ::
    "codec \<Rightarrow> ('st \<Rightarrow> string \<rightharpoonup> bytes) \<Rightarrow> ('st \<Rightarrow> bool) \<Rightarrow> blob_spec \<Rightarrow> 'st \<Rightarrow> krecord list \<Rightarrow> bool" where
  "left_behind cd objects invar spec st log =
     (invar st \<and> (\<exists>d. holds_prefix cd spec (objects st) log d))"

lemma sink_inv_left:
  assumes "sink_inv cd objects invar s log"
  shows "left_behind cd objects invar (sk_spec s) (sk_store s) log"
proof -
  obtain bs rs where "chain_state cd (sk_spec s) (objects (sk_store s)) bs rs (sk_durable_position s)"
    "log = rs @ sk_buffer s" "\<forall>r \<in> set (sk_buffer s). sk_durable_position s \<le> r_offset r"
    "invar (sk_store s)"
    using assms by (auto simp: sink_inv_def)
  then have "invar (sk_store s) \<and> chain_state cd (sk_spec s) (objects (sk_store s)) bs
      (take (length rs) log) (sk_durable_position s)
      \<and> (\<forall>r \<in> set (drop (length rs) log). sk_durable_position s \<le> r_offset r)" by simp
  then show ?thesis unfolding left_behind_def holds_prefix_def by blast
qed

lemma holds_prefix_all:
  assumes "chain_state cd spec objs bs log d"
  shows "holds_prefix cd spec objs log d"
proof -
  have "chain_state cd spec objs bs (take (length log) log) d
      \<and> (\<forall>r \<in> set (drop (length log) log). d \<le> r_offset r)" using assms by simp
  then show ?thesis unfolding holds_prefix_def by blast
qed

lemma head_above:
  assumes "sink_inv cd objects invar s log" "buffered_head s \<le> r_offset r" "x \<in> set log"
  shows "r_offset x < r_offset r"
proof -
  let ?buf = "sk_buffer s"
  obtain rs where *: "\<forall>r \<in> set rs. r_offset r < sk_durable_position s"
    "log = rs @ ?buf" "increasing log" "\<forall>r \<in> set ?buf. r_offset r \<noteq> u64_max"
    using assms(1) by (auto simp: sink_inv_def chain_state_def)
  show ?thesis
  proof (cases "?buf = []")
    case True
    then show ?thesis using * assms(2,3) by (auto simp: buffered_head_def intro: less_le_trans)
  next
    case False
    then have "r_offset x \<le> r_offset (last ?buf)"
      using increasing_le_last [OF *(3) assms(3)] *(2) by simp
    moreover have "r_offset (last ?buf) < r_offset r"
      using False *(4) assms(2) by (simp add: buffered_head_def succ_le_iff)
    ultimately show ?thesis by simp
  qed
qed

lemma durable_le_head: "sink_inv cd objects invar s log \<Longrightarrow> sk_durable_position s \<le> buffered_head s"
proof -
  assume inv: "sink_inv cd objects invar s log"
  show ?thesis
  proof (cases "sk_buffer s = []")
    case False
    then have "last (sk_buffer s) \<in> set (sk_buffer s)" by simp
    then have "sk_durable_position s \<le> r_offset (last (sk_buffer s))"
        "r_offset (last (sk_buffer s)) \<noteq> u64_max"
      using inv by (auto simp: sink_inv_def)
    then show ?thesis using False by (simp add: buffered_head_def) (meson lt_succ less_imp_le order_trans)
  qed (simp add: buffered_head_def)
qed

lemma sink_inv_increasing: "sink_inv cd objects invar s log \<Longrightarrow> increasing log"
  unfolding sink_inv_def by blast

text \<open>A record at or above the head may be pushed on the buffer.\<close>

lemma sink_inv_push:
  assumes "sink_inv cd objects invar s log" "buffered_head s \<le> r_offset r" "r_offset r \<noteq> u64_max"
    "sk_store s' = sk_store s" "sk_spec s' = sk_spec s" "sk_view s' = sk_view s"
    "sk_durable_position s' = sk_durable_position s" "sk_tail s' = sk_tail s"
    "sk_buffer s' = sk_buffer s @ [r]"
  shows "sink_inv cd objects invar s' (log @ [r])"
proof -
  have "increasing (log @ [r])"
    using sink_inv_increasing [OF assms(1)] head_above [OF assms(1,2)] by (simp add: increasing_snoc)
  moreover have "sk_durable_position s \<le> r_offset r"
    using durable_le_head [OF assms(1)] assms(2) by simp
  ultimately show ?thesis
    using assms by (auto simp: sink_inv_def)
qed

lemma sink_inv_cong:
  assumes "sink_inv cd objects invar s log"
    "sk_store s' = sk_store s" "sk_spec s' = sk_spec s" "sk_view s' = sk_view s"
    "sk_durable_position s' = sk_durable_position s" "sk_tail s' = sk_tail s"
    "sk_buffer s' = sk_buffer s"
  shows "sink_inv cd objects invar s' log"
  using assms by (simp add: sink_inv_def)

context blob_store
begin

lemma flush_locked_append:
  assumes "codec_ok cd" "sink_inv cd objects invar s log" "sk_buffer s \<noteq> []"
    "flush_locked ops cd e s = (res, s')"
  shows "left_behind cd objects invar (sk_spec s) (sk_store s') log \<and> sk_spec s' = sk_spec s
    \<and> (is_ok res \<longrightarrow> sink_inv cd objects invar s' log \<and> sk_buffer s' = []
        \<and> sk_durable_position s' = r_offset (last (sk_buffer s)) + 1
        \<and> sk_next_daily_unix s' = sk_next_daily_unix s)"
proof -
  let ?spec = "sk_spec s" and ?d = "sk_durable_position s" and ?buf = "sk_buffer s"
  define to where "to = r_offset (last ?buf)"
  define n where "n = id_name (bs_format ?spec) (new_id ?spec ?d to)"
  have spec: "keys_ok ?spec" "sk_view s = None" "invar (sk_store s)" "append_spec ?spec"
    using assms(2) by (auto simp: sink_inv_def append_spec_def)
  obtain bs rs where chain: "chain_state cd ?spec (objects (sk_store s)) bs rs ?d"
    and tail: "sk_tail s = last_two (names_of ?spec bs)"
    and log: "log = rs @ ?buf" and inc: "increasing (rs @ ?buf)"
    and buf: "\<forall>r \<in> set ?buf. ?d \<le> r_offset r \<and> r_offset r \<noteq> u64_max"
    using assms(2) by (auto simp: sink_inv_def)
  have okn: "ok_name n"
    unfolding n_def new_id_def by (simp, rule blob_name_ok) (rule spec_key_ok [OF spec(1)])
  have name: "blob_filename ?d to (map_option be_key_id (bs_encryption ?spec))
      (extension (bs_format ?spec)) = n"
    by (simp add: n_def new_id_def spec_key_def)
  have old: "left_behind cd objects invar ?spec (sk_store s) log"
    by (rule sink_inv_left [OF assms(2)])
  have view: "bs_compaction ?spec = None" using spec by (simp add: append_spec_def)
  show ?thesis
  proof (cases "encode_for cd ?spec ?buf")
    case (Inl x)
    then have "res = Inl SnkRejected \<and> s' = s\<lparr>sk_buffer := []\<rparr>"
      using assms(4) by (simp add: flush_locked_def view)
    then show ?thesis using old by simp
  next
    case (Inr b)
    obtain pr st' where put: "st_put_new ops e (sk_store s) n b = (pr, st')" by fastforce
    have new: "chain_state cd ?spec ((objects (sk_store s))(n \<mapsto> b)) (bs @ [new_id ?spec ?d to]) log
        (to + 1)"
      using chain_state_add [OF assms(1) spec(1) chain inc assms(3) buf Inr to_def]
      by (simp add: log n_def)
    have run: "flush_locked ops cd e s = (case pr of
        Inl AlreadyExists \<Rightarrow> (Err SnkInconsistent, s\<lparr>sk_buffer := [], sk_store := st'\<rparr>)
      | Inl _ \<Rightarrow> (Err SnkTransport, s\<lparr>sk_buffer := [], sk_store := st'\<rparr>)
      | Inr _ \<Rightarrow> (Ok (), s\<lparr>sk_buffer := [], sk_store := st', sk_durable_position := to + 1,
          sk_tail := push_tail (sk_tail s) n, sk_buffer := [], sk_buffer_bytes := 0,
          sk_buffer_started := None,
          sk_flush_observer := map_option (\<lambda>evs. evs @ [(?d, to)]) (sk_flush_observer s)\<rparr>))"
      by (cases pr; simp add: flush_locked_def view Inr name to_def [symmetric] put Let_def
          split: blob_error.split)
    note run = run [unfolded assms(4)]
    show ?thesis
    proof (cases pr)
      case (Inl x)
      then have "invar st' \<and> (objects st' = objects (sk_store s)
          \<or> objects st' = (objects (sk_store s))(n \<mapsto> b))"
        using put_err [OF spec(3) okn] put by metis
      then have "left_behind cd objects invar ?spec st' log"
        using old holds_prefix_all [OF new] by (auto simp: left_behind_def)
      moreover have "\<not> is_ok res \<and> sk_store s' = st' \<and> sk_spec s' = ?spec"
        using run Inl by (cases x) auto
      ultimately show ?thesis by simp
    next
      case (Inr u)
      then have st': "invar st'" "objects st' = (objects (sk_store s))(n \<mapsto> b)"
        using put_ok [OF spec(3) okn] put by metis+
      have s': "sk_store s' = st'" "sk_spec s' = ?spec" "sk_buffer s' = []" "sk_view s' = None"
        "sk_durable_position s' = to + 1" "sk_tail s' = push_tail (sk_tail s) n"
        "sk_next_daily_unix s' = sk_next_daily_unix s"
        using run Inr spec by simp_all
      have "sk_tail s' = last_two (names_of ?spec (bs @ [new_id ?spec ?d to]))"
        by (simp add: s' tail last_two_snoc n_def)
      moreover have "increasing log" using inc log by simp
      ultimately have "sink_inv cd objects invar s' log"
        using new st' s' spec
        by (intro sink_invI [where bs = "bs @ [new_id ?spec ?d to]" and rs = log]) simp_all
      moreover from this have "left_behind cd objects invar ?spec (sk_store s') log"
        using sink_inv_left s'(2) by metis
      ultimately show ?thesis using s' by (simp add: to_def)
    qed
  qed
qed

section \<open>Opening again\<close>

text \<open>What a listing of a destination in \<open>chain_state\<close> opens as.\<close>

lemma open_append:
  assumes "invar st" "append_spec spec" "chain_state cd spec (objects st) bs rs d"
    "st_list ops e st = Inr names"
  shows "\<exists>s. open_store ops cd e e' now_unix now st spec = Inr s \<and> sink_inv cd objects invar s rs
    \<and> sk_durable_position s = d \<and> sk_buffer s = [] \<and> sk_store s = st \<and> sk_spec s = spec"
proof -
  have chain: "ids_ok bs" "chain_from 0 (map fst bs) d" "dom (objects st) = set (names_of spec bs)"
    "increasing rs"
    using assms(3) by (auto simp: chain_state_def)
  have names: "distinct names" "set names = set (names_of spec bs)"
    using list_ok [OF assms(1,4)] chain(3) by auto
  have "mset names = mset (names_of spec bs)"
    by (rule listing_mset [OF chain(1) chain_from_separated [OF chain(2)] names])
  then have v: "validate_chain names (bs_format spec) None = Inr \<lparr>ch_durable = d, ch_latest = None,
      ch_tail = last_two (names_of spec bs)\<rparr>"
    using validate_append_accepts [OF _ chain(1,2)] by blast
  have comp: "bs_compaction spec = None" using assms(2) by (simp add: append_spec_def)
  have enc: "\<not> (case bs_encryption spec of None \<Rightarrow> False
      | Some enc \<Rightarrow> bs_format spec \<noteq> Parquet \<or> map_of (be_keyring enc) (be_key_id enc) = None)"
    using assms(2) by (auto simp: append_spec_def keys_ok_def split: option.splits)
  obtain s where s: "open_store ops cd e e' now_unix now st spec = Inr s"
    "sk_store s = st" "sk_spec s = spec" "sk_durable_position s = d" "sk_buffer s = []"
    "sk_view s = None" "sk_tail s = last_two (names_of spec bs)"
    using enc by (simp add: open_store_def assms(4) v comp sink_new_def)
  have "sink_inv cd objects invar s rs"
    by (rule sink_invI [where bs = bs and rs = rs])
      (use s assms chain in simp_all)
  then show ?thesis using s by blast
qed

end

section \<open>The drift check\<close>

lemma names_sorted:
  assumes "ids_ok bs" "separated (map fst bs)"
  shows "sorted_wrt (<) (map (id_name fmt) bs)"
proof -
  have "sorted_wrt (\<lambda>a b. snd (fst a) < fst (fst b)) bs"
    using assms(2) by (simp add: separated_def sorted_wrt_map)
  then have "sorted_wrt (\<lambda>a b. id_name fmt a < id_name fmt b) bs"
    by (rule sorted_wrt_mono_rel [rotated])
      (use assms(1) in \<open>auto simp: ids_ok_def list_all_iff intro: blob_filename_less_from le_less_trans\<close>)
  then show ?thesis by (simp add: sorted_wrt_map)
qed

lemma drift_window_last_two:
  "sorted_wrt (<) ns \<Longrightarrow> drift_window (last_two ns) = (after, expected) \<Longrightarrow>
     {n \<in> set ns. \<forall>a. after = Some a \<longrightarrow> a < n} = set_option expected
     \<and> (ns \<noteq> [] \<longrightarrow> expected = Some (last ns))"
proof -
  assume ns: "sorted_wrt (<) ns" "drift_window (last_two ns) = (after, expected)"
  have "ns = [] \<or> (\<exists>l. ns = [l]) \<or> (\<exists>zs b l. ns = zs @ [b, l])"
    by (cases ns rule: rev_cases; cases "butlast ns" rule: rev_cases) auto
  then show ?thesis
    using ns by (fastforce simp: last_two_def sorted_wrt_append)
qed

lemma drift_window_mem: "drift_window (last_two ns) = (Some a, expected) \<Longrightarrow> a \<in> set ns"
proof -
  have "ns = [] \<or> (\<exists>l. ns = [l]) \<or> (\<exists>zs b l. ns = zs @ [b, l])"
    by (cases ns rule: rev_cases; cases "butlast ns" rule: rev_cases) auto
  then show "drift_window (last_two ns) = (Some a, expected) \<Longrightarrow> a \<in> set ns"
    by (auto simp: last_two_def)
qed

text \<open>What the drift check answers: nothing after the second-to-last object but the last one.\<close>

lemma check_drift_exact:
  assumes "drift_window (sk_tail s) = (after, expected)"
    "st_list_after ops (se_drift_list e) (sk_store s) after = Inr listed"
  shows "fst (check_drift ops e s) = (if set listed = set_option expected then Ok () else Err SnkInconsistent)"
proof (cases expected)
  case None
  have "(list_ex (\<lambda>n. Some n \<noteq> None) listed) = (set listed \<noteq> {})" by (cases listed) auto
  then show ?thesis using assms None by (simp add: check_drift_def)
next
  case (Some x)
  have "(x \<notin> set listed \<or> list_ex (\<lambda>n. Some n \<noteq> Some x) listed) = (set listed \<noteq> {x})"
    by (auto simp: list_ex_iff)
  then show ?thesis using assms Some
    by (cases "x \<in> set listed"; cases "list_ex (\<lambda>n. Some n \<noteq> Some x) listed")
      (simp_all add: check_drift_def)
qed

context blob_store
begin

lemma id_name_ok: "ids_ok bs \<Longrightarrow> b \<in> set bs \<Longrightarrow> ok_name (id_name fmt b)"
  by (rule blob_name_ok) (auto simp: ids_ok_def list_all_iff)

lemma check_drift_quiet:
  assumes "invar (sk_store s)" "sorted_wrt (<) ns" "sk_tail s = last_two ns"
    "dom (objects (sk_store s)) = set ns" "\<And>n. n \<in> set ns \<Longrightarrow> ok_name n"
    "\<And>after. is_ok (st_list_after ops (se_drift_list e) (sk_store s) after)"
  shows "fst (check_drift ops e s) = Ok ()"
proof -
  obtain after expected where w: "drift_window (sk_tail s) = (after, expected)" by fastforce
  obtain listed where l: "st_list_after ops (se_drift_list e) (sk_store s) after = Inr listed"
    using assms(6) [of after] by (cases "st_list_after ops (se_drift_list e) (sk_store s) after") auto
  have "after = Some a \<Longrightarrow> ok_name a" for a using drift_window_mem [of ns a expected] w assms(3,5) by simp
  from list_after_ok [OF assms(1) this l] check_drift_exact [OF w l] show ?thesis
    using drift_window_last_two [OF assms(2)] w assms(3,4) by simp
qed

end

section \<open>The append mode of the sink\<close>

text \<open>A store together with a codec.\<close>

locale blob_codec = blob_store +
  fixes cd :: codec

definition append_inv ::
    "codec \<Rightarrow> ('st \<Rightarrow> string \<rightharpoonup> bytes) \<Rightarrow> ('st \<Rightarrow> bool) \<Rightarrow> 'st blob_sink \<Rightarrow> krecord list \<Rightarrow> bool" where
  "append_inv cd objects invar s log = (codec_ok cd \<and> sink_inv cd objects invar s log)"

sublocale blob_codec \<subseteq> append: sink_mode ops cd "append_inv cd objects invar" "left_behind cd objects invar"
proof
  fix s s' :: "'a blob_sink" and log r e' e res
  show "append_inv cd objects invar s log \<Longrightarrow> left_behind cd objects invar (sk_spec s) (sk_store s) log"
    by (simp add: append_inv_def sink_inv_left)
  show "append_inv cd objects invar s log \<Longrightarrow> sk_store s' = sk_store s \<Longrightarrow> sk_spec s' = sk_spec s \<Longrightarrow>
      sk_view s' = sk_view s \<Longrightarrow> sk_durable_position s' = sk_durable_position s \<Longrightarrow>
      sk_tail s' = sk_tail s \<Longrightarrow> sk_buffer s' = sk_buffer s \<Longrightarrow> append_inv cd objects invar s' log"
    using sink_inv_cong [of cd objects invar s log s'] by (simp add: append_inv_def)
  show "append_inv cd objects invar s log \<Longrightarrow> buffered_head s \<le> r_offset r \<Longrightarrow> r_offset r \<noteq> u64_max \<Longrightarrow>
      (bs_compaction (sk_spec s) = Some CLog \<longrightarrow> (\<exists>k. r_key r = Some k \<and> from_utf8 k \<noteq> None)) \<Longrightarrow>
      append_inv cd objects invar (push_record e' r s) (log @ [r])"
    using sink_inv_push [of cd objects invar s log r "push_record e' r s"]
    by (simp add: append_inv_def push_record_def sink_inv_def)
  show "append_inv cd objects invar s log \<Longrightarrow> sk_buffer s \<noteq> [] \<Longrightarrow>
      flush_locked ops cd e s = (res, s') \<Longrightarrow>
      left_behind cd objects invar (sk_spec s) (sk_store s') log \<and> sk_spec s' = sk_spec s
      \<and> (is_ok res \<longrightarrow> append_inv cd objects invar s' log \<and> sk_buffer s' = [])"
    using flush_locked_append [of cd s log e res s'] by (simp add: append_inv_def)
qed

context blob_codec
begin

lemma reopen_left_behind:
  assumes "left_behind cd objects invar spec st log" "append_spec spec" "st_list ops e st = Inr names"
  shows "\<exists>s2 n. open_store ops cd e e' now_unix now st spec = Inr s2
    \<and> sink_inv cd objects invar s2 (take n log) \<and> sk_buffer s2 = []
    \<and> (\<forall>r \<in> set (take n log). r_offset r < buffered_head s2)
    \<and> (\<forall>r \<in> set (drop n log). buffered_head s2 \<le> r_offset r)"
proof -
  obtain d bs n where *: "invar st" "chain_state cd spec (objects st) bs (take n log) d"
    "\<forall>r \<in> set (drop n log). d \<le> r_offset r"
    using assms(1) by (auto simp: left_behind_def holds_prefix_def)
  obtain s2 where s2: "open_store ops cd e e' now_unix now st spec = Inr s2"
    "sink_inv cd objects invar s2 (take n log)" "sk_durable_position s2 = d" "sk_buffer s2 = []"
    using open_append [OF *(1) assms(2) *(2) assms(3)] by blast
  have "\<forall>r \<in> set (take n log). r_offset r < d" using *(2) by (simp add: chain_state_def)
  moreover have "buffered_head s2 = d" using s2 by (simp add: buffered_head_def)
  ultimately show ?thesis using s2 *(3) by blast
qed

lemma run_and_reopen:
  assumes "append_inv cd objects invar s log"
    "\<forall>r \<in> set (op_records os). r_offset r \<noteq> u64_max"
    "run_ops ops cd os s = (res, s', rs)" "st_list ops e (sk_store s') = Inr names"
  shows "\<exists>s2 n more. open_store ops cd e e' now_unix now (sk_store s') (sk_spec s) = Inr s2
    \<and> (more = [] \<or> (\<exists>r \<in> set (op_records os). more = [r]))
    \<and> sink_inv cd objects invar s2 (take n (log @ rs @ more)) \<and> sk_buffer s2 = []
    \<and> (\<forall>r \<in> set (take n (log @ rs @ more)). r_offset r < buffered_head s2)
    \<and> (\<forall>r \<in> set (drop n (log @ rs @ more)). buffered_head s2 \<le> r_offset r)"
proof -
  obtain more where more: "more = [] \<or> (\<exists>r. more = [r] \<and> r \<in> set (op_records os))"
    "left_behind cd objects invar (sk_spec s) (sk_store s') (log @ rs @ more)"
    using append.run_ops_keeps [OF assms(2,1,3)] by blast
  have "append_spec (sk_spec s)" using assms(1) by (simp add: append_inv_def sink_inv_def)
  from reopen_left_behind [OF more(2) this assms(4)] show ?thesis using more(1) by blast
qed

text \<open>The same with the objects the reopened sink finds.\<close>

lemma run_and_reopen_chain:
  assumes "append_inv cd objects invar s log"
    "\<forall>r \<in> set (op_records os). r_offset r \<noteq> u64_max"
    "run_ops ops cd os s = (res, s', rs)" "st_list ops e (sk_store s') = Inr names"
  shows "\<exists>s2 n more bs. open_store ops cd e e' now_unix now (sk_store s') (sk_spec s) = Inr s2
    \<and> (more = [] \<or> (\<exists>r \<in> set (op_records os). more = [r]))
    \<and> chain_state cd (sk_spec s2) (objects (sk_store s2)) bs (take n (log @ rs @ more)) (buffered_head s2)
    \<and> (\<forall>r \<in> set (drop n (log @ rs @ more)). buffered_head s2 \<le> r_offset r)"
proof -
  obtain s2 n more where *: "open_store ops cd e e' now_unix now (sk_store s') (sk_spec s) = Inr s2"
    "more = [] \<or> (\<exists>r \<in> set (op_records os). more = [r])"
    "sink_inv cd objects invar s2 (take n (log @ rs @ more))" "sk_buffer s2 = []"
    "\<forall>r \<in> set (drop n (log @ rs @ more)). buffered_head s2 \<le> r_offset r"
    using run_and_reopen [OF assms, of e' now_unix now] by (elim exE conjE)
  obtain bs where "chain_state cd (sk_spec s2) (objects (sk_store s2)) bs
      (take n (log @ rs @ more)) (buffered_head s2)"
    using *(3,4) by (auto simp: sink_inv_def buffered_head_def)
  then show ?thesis using *(1,2,5) by (intro exI conjI)
qed

lemma flush_and_reopen:
  assumes "append_inv cd objects invar s log" "flush_now ops cd e s = (Inr u, s')"
    "st_list ops e1 (sk_store s') = Inr names"
  shows "\<exists>s2. open_store ops cd e1 e2 now_unix now (sk_store s') (sk_spec s) = Inr s2
    \<and> sink_inv cd objects invar s2 log \<and> buffered_head s2 = buffered_head s'"
proof -
  have inv: "sink_inv cd objects invar s' log" "sk_buffer s' = []" "sk_spec s' = sk_spec s"
    using append.flush_keeps [OF assms(1,2)] by (auto simp: append_inv_def)
  then obtain bs rs where *: "chain_state cd (sk_spec s) (objects (sk_store s')) bs rs
      (sk_durable_position s')" "log = rs" "invar (sk_store s')" "append_spec (sk_spec s)"
    by (auto simp: sink_inv_def)
  from open_append [OF *(3,4,1) assms(3)] show ?thesis
    using inv *(2) by (fastforce simp: buffered_head_def)
qed

lemma open_empty:
  assumes "invar st" "append_spec spec" "objects st = Map.empty" "st_list ops e st = Inr names"
  shows "\<exists>s. open_store ops cd e e' now_unix now st spec = Inr s
    \<and> sink_inv cd objects invar s [] \<and> buffered_head s = 0"
proof -
  have "chain_state cd spec (objects st) [] [] 0"
    using assms(3) by (simp add: chain_state_def ids_ok_def objects_exact_def)
  from open_append [OF assms(1,2) this assms(4)] show ?thesis
    by (fastforce simp: buffered_head_def)
qed

end

interpretation fsc: blob_codec fs_store fs_objects fs_ok "\<lambda>n. \<not> contains ''.tmp.'' n" cd for cd
  by unfold_locales

end
