(* ===== verification/Log_Restart.thy ===== *)
theory Log_Restart
  imports Blob_Restart
begin

text \<open>
  Compaction mode across restarts.  Every flush writes the whole view, so the newest object alone is
  the state of the destination: it decodes to the latest value of every key over the records flushed
  so far.  The sink keeps that (an instance of \<open>sink_mode\<close>), and opening the destination again
  rebuilds the view of exactly the records below the position at which the sink resumes.
\<close>

section \<open>Views\<close>

text \<open>What a record does to a compaction view: it sets or deletes its key.\<close>

definition key_update :: "krecord \<Rightarrow> string \<times> krecord option" where
  "key_update r = (the (from_utf8 (the (r_key r))), if r_value r = None then None else Some r)"

lemma view_update_put: "view_update r v = btree.put (key_update r) v"
  by (simp add: view_update_def key_update_def btree.put_def Let_def)

text \<open>Every entry is filed under its record's own key.\<close>

definition keyed :: "(string \<times> krecord) list \<Rightarrow> bool" where
  "keyed v = (\<forall>e \<in> set v. \<exists>kb. r_key (snd e) = Some kb \<and> from_utf8 kb = Some (fst e))"

definition view_log :: "(string \<times> krecord) list \<Rightarrow> krecord list \<Rightarrow> bool" where
  "view_log v log = (bt_ok v \<and> keyed v \<and> (\<forall>k. map_of v k = latest (map key_update log) k))"

lemma view_log_Nil: "view_log [] []"
  by (simp add: view_log_def keyed_def btree.invar_empty)

lemma set_bt_insert: "set (bt_insert k v m) \<subseteq> insert (k, v) (set m)"
  by (induction k v m rule: bt_insert.induct) auto

lemma keyed_update:
  assumes "keyed v" "r_key r = Some kb" "from_utf8 kb \<noteq> None"
  shows "keyed (view_update r v)"
proof (cases "r_value r = None")
  case True
  then show ?thesis using assms by (auto simp: view_update_def Let_def keyed_def bt_remove_def)
next
  case False
  obtain k where k: "from_utf8 kb = Some k" using assms(3) by auto
  have "view_update r v = bt_insert k r v" using False assms(2) k by (auto simp: view_update_def Let_def)
  then have "set (view_update r v) \<subseteq> insert (k, r) (set v)" using set_bt_insert [of k r v] by simp
  then show ?thesis using assms k by (force simp: keyed_def)
qed

lemma view_log_update:
  assumes "view_log v log" "r_key r = Some kb" "from_utf8 kb \<noteq> None"
  shows "view_log (view_update r v) (log @ [r])"
proof -
  have v: "bt_ok v" "keyed v" "\<forall>k. map_of v k = latest (map key_update log) k"
    using assms(1) by (auto simp: view_log_def)
  have "map_of (view_update r v) k = latest (map key_update (log @ [r])) k" for k
    using v btree.lookup_put [OF v(1), of "fst (key_update r)" "snd (key_update r)" k]
      latest_snoc [of "map key_update log" "fst (key_update r)" "snd (key_update r)" k]
    by (simp add: view_update_put)
  then show ?thesis
    using v keyed_update [OF v(2) assms(2,3)] by (simp add: view_log_def view_update_put btree.invar_put)
qed

text \<open>The snapshot that a view encodes to decodes to that view.\<close>

lemma bt_insert_last: "\<forall>e \<in> set w. fst e < k \<Longrightarrow> bt_insert k v w = w @ [(k, v)]"
  by (induction w) auto

lemma view_of_snapshot: "bt_ok (w @ v) \<Longrightarrow> keyed v \<Longrightarrow> view_of (map snd v) w = Inr (w @ v)"
proof (induction v arbitrary: w)
  case (Cons e v)
  obtain kb where kb: "r_key (snd e) = Some kb" "from_utf8 kb = Some (fst e)"
    using Cons.prems(2) by (auto simp: keyed_def)
  have "\<forall>x \<in> set w. fst x < fst e"
    using Cons.prems(1) by (auto simp: bt_ok_def sorted_wrt_append)
  then have "bt_insert (fst e) (snd e) w = w @ [e]" by (simp add: bt_insert_last)
  then show ?case using Cons.IH [of "w @ [e]"] Cons.prems kb by (simp add: keyed_def)
qed simp

section \<open>The abstract destination\<close>

definition log_spec :: "blob_spec \<Rightarrow> bool" where
  "log_spec spec = (bs_compaction spec = Some CLog \<and> keys_ok spec)"

text \<open>The position behind a chain's last object.\<close>

definition chain_end :: "blob_id list \<Rightarrow> u64" where
  "chain_end bs = (if bs = [] then 0 else snd (fst (last bs)) + 1)"

definition log_state ::
    "codec \<Rightarrow> blob_spec \<Rightarrow> (string \<rightharpoonup> bytes) \<Rightarrow> blob_id list \<Rightarrow> krecord list \<Rightarrow> bool" where
  "log_state cd spec objs bs rs =
     (ids_ok bs \<and> separated (map fst bs) \<and> dom objs = set (names_of spec bs)
      \<and> increasing rs \<and> (\<forall>r \<in> set rs. r_offset r < chain_end bs)
      \<and> (if bs = [] then rs = [] else (\<exists>v. view_log v rs
           \<and> content cd spec objs (id_name (bs_format spec) (last bs)) = Some (map snd v))))"

definition log_inv ::
    "codec \<Rightarrow> ('st \<Rightarrow> string \<rightharpoonup> bytes) \<Rightarrow> ('st \<Rightarrow> bool) \<Rightarrow> 'st blob_sink \<Rightarrow> krecord list \<Rightarrow> bool" where
  "log_inv cd objects invar s log =
     (codec_ok cd \<and> invar (sk_store s) \<and> log_spec (sk_spec s) \<and> increasing log
      \<and> (\<exists>v. sk_view s = Some v \<and> view_log v log)
      \<and> (\<exists>bs rs. log_state cd (sk_spec s) (objects (sk_store s)) bs rs
        \<and> sk_tail s = last_two (names_of (sk_spec s) bs)
        \<and> log = rs @ sk_buffer s \<and> chain_end bs \<le> sk_durable_position s)
      \<and> (\<forall>r \<in> set (sk_buffer s). sk_durable_position s \<le> r_offset r \<and> r_offset r \<noteq> u64_max))"

lemma log_invI:
  assumes "codec_ok cd" "invar (sk_store s)" "log_spec (sk_spec s)" "increasing log"
    "sk_view s = Some v" "view_log v log"
    "log_state cd (sk_spec s) (objects (sk_store s)) bs rs"
    "sk_tail s = last_two (names_of (sk_spec s) bs)" "log = rs @ sk_buffer s"
    "chain_end bs \<le> sk_durable_position s"
    "\<forall>r \<in> set (sk_buffer s). sk_durable_position s \<le> r_offset r \<and> r_offset r \<noteq> u64_max"
  shows "log_inv cd objects invar s log"
  unfolding log_inv_def using assms by blast

lemma log_invE:
  assumes "log_inv cd objects invar s log"
  obtains v bs rs where "codec_ok cd" "invar (sk_store s)" "log_spec (sk_spec s)" "increasing log"
    "sk_view s = Some v" "view_log v log"
    "log_state cd (sk_spec s) (objects (sk_store s)) bs rs"
    "sk_tail s = last_two (names_of (sk_spec s) bs)" "log = rs @ sk_buffer s"
    "chain_end bs \<le> sk_durable_position s"
    "\<forall>r \<in> set (sk_buffer s). sk_durable_position s \<le> r_offset r \<and> r_offset r \<noteq> u64_max"
  using assms unfolding log_inv_def by (elim conjE exE) (rule that)

text \<open>What is left in the store when an operation ends.\<close>

definition log_left ::
    "codec \<Rightarrow> ('st \<Rightarrow> string \<rightharpoonup> bytes) \<Rightarrow> ('st \<Rightarrow> bool) \<Rightarrow> blob_spec \<Rightarrow> 'st \<Rightarrow> krecord list \<Rightarrow> bool" where
  "log_left cd objects invar spec st log =
     (invar st \<and> (\<exists>bs n. log_state cd spec (objects st) bs (take n log)
        \<and> (\<forall>r \<in> set (drop n log). chain_end bs \<le> r_offset r)))"

lemma log_leftI:
  assumes "invar st" "log_state cd spec (objects st) bs rs" "log = rs @ later"
    "\<forall>r \<in> set later. chain_end bs \<le> r_offset r"
  shows "log_left cd objects invar spec st log"
proof -
  have "log_state cd spec (objects st) bs (take (length rs) log)
      \<and> (\<forall>r \<in> set (drop (length rs) log). chain_end bs \<le> r_offset r)" using assms by simp
  then show ?thesis unfolding log_left_def using assms(1) by blast
qed

lemma log_inv_left: "log_inv cd objects invar s log \<Longrightarrow> log_left cd objects invar (sk_spec s) (sk_store s) log"
  by (erule log_invE) (rule log_leftI, auto)

lemma log_inv_cong:
  assumes "log_inv cd objects invar s log" "sk_store s' = sk_store s" "sk_spec s' = sk_spec s"
    "sk_view s' = sk_view s" "sk_durable_position s' = sk_durable_position s"
    "sk_tail s' = sk_tail s" "sk_buffer s' = sk_buffer s"
  shows "log_inv cd objects invar s' log"
  using assms by (simp add: log_inv_def)

section \<open>A record and a snapshot\<close>

lemma log_head_above:
  assumes "log_inv cd objects invar s log" "buffered_head s \<le> r_offset r"
  shows "sk_durable_position s \<le> r_offset r \<and> (\<forall>x \<in> set log. r_offset x < r_offset r)"
proof -
  obtain bs rs where inv: "increasing log" "log = rs @ sk_buffer s" "chain_end bs \<le> sk_durable_position s"
    "\<forall>r \<in> set rs. r_offset r < chain_end bs"
    "\<forall>r \<in> set (sk_buffer s). sk_durable_position s \<le> r_offset r \<and> r_offset r \<noteq> u64_max"
    by (rule log_invE [OF assms(1)]) (auto simp: log_state_def)
  show ?thesis
  proof (cases "sk_buffer s = []")
    case True
    then show ?thesis
      using inv assms(2) by (auto simp: buffered_head_def intro: less_le_trans)
  next
    case False
    let ?l = "last (sk_buffer s)"
    have l: "?l \<in> set (sk_buffer s)" using False by simp
    have lt: "r_offset ?l < r_offset r"
      using False inv(5) l assms(2) by (simp add: buffered_head_def succ_le_iff)
    moreover have "r_offset x \<le> r_offset ?l" if "x \<in> set log" for x
      using increasing_le_last [OF inv(1) that] False inv(2) by simp
    moreover have "sk_durable_position s \<le> r_offset ?l" using inv(5) l by simp
    ultimately show ?thesis by fastforce
  qed
qed

lemma log_inv_push:
  assumes "log_inv cd objects invar s log" "buffered_head s \<le> r_offset r" "r_offset r \<noteq> u64_max"
    "\<exists>k. r_key r = Some k \<and> from_utf8 k \<noteq> None"
  shows "log_inv cd objects invar (push_record e r s) (log @ [r])"
proof -
  obtain kb where kb: "r_key r = Some kb" "from_utf8 kb \<noteq> None" using assms(4) by auto
  note above = log_head_above [OF assms(1,2)]
  obtain v bs rs where inv: "codec_ok cd" "invar (sk_store s)" "log_spec (sk_spec s)" "increasing log"
    "sk_view s = Some v" "view_log v log"
    "log_state cd (sk_spec s) (objects (sk_store s)) bs rs"
    "sk_tail s = last_two (names_of (sk_spec s) bs)" "log = rs @ sk_buffer s"
    "chain_end bs \<le> sk_durable_position s"
    "\<forall>r \<in> set (sk_buffer s). sk_durable_position s \<le> r_offset r \<and> r_offset r \<noteq> u64_max"
    by (rule log_invE [OF assms(1)])
  have "increasing (log @ [r])" "view_log (view_update r v) (log @ [r])"
    using inv(4) above view_log_update [OF inv(6) kb] by (simp_all add: increasing_snoc)
  then show ?thesis
    using inv above assms(3)
    by (intro log_invI [where v = "view_update r v" and bs = bs and rs = rs])
      (auto simp: push_record_def)
qed

lemma separated_before_end:
  assumes "ids_ok bs" "separated (map fst bs)" "b \<in> set bs"
  shows "snd (fst b) < chain_end bs"
proof -
  have ne: "bs \<noteq> []" using assms(3) by auto
  have "\<forall>r \<in> set (map fst bs). fst r \<le> snd r"
    using assms(1) by (auto simp: ids_ok_def list_all_iff)
  from separated_tos [OF assms(2) this] have "sorted (map (\<lambda>b. snd (fst b)) bs)"
    by (simp add: strict_sorted_iff o_def)
  then have "snd (fst b) \<le> snd (fst (last bs))"
    using assms(3) by (cases bs rule: rev_cases) (auto simp: sorted_append)
  moreover have "snd (fst (last bs)) \<noteq> u64_max"
    using assms(1) ne by (auto simp: ids_ok_def list_all_iff)
  ultimately show ?thesis using ne by (simp add: chain_end_def lt_succ_iff)
qed

lemma log_state_add:
  assumes "codec_ok cd" "log_spec spec" "log_state cd spec objs bs rs" "chain_end bs \<le> d"
    "increasing (rs @ buf)" "buf \<noteq> []" "\<forall>r \<in> set buf. d \<le> r_offset r \<and> r_offset r \<noteq> u64_max"
    "view_log v (rs @ buf)" "encode_for cd spec (map snd v) = Inr b" "to = r_offset (last buf)"
  shows "log_state cd spec (objs(id_name (bs_format spec) (new_id spec d to) \<mapsto> b))
    (bs @ [new_id spec d to]) (rs @ buf) \<and> chain_end (bs @ [new_id spec d to]) = to + 1"
proof -
  let ?n = "id_name (bs_format spec) (new_id spec d to)"
  have keys: "keys_ok spec" using assms(2) by (simp add: log_spec_def)
  have old: "ids_ok bs" "separated (map fst bs)" "dom objs = set (names_of spec bs)"
    using assms(3) by (auto simp: log_state_def)
  have "last buf \<in> set buf" using assms(6) by simp
  then have to: "d \<le> to" "to \<noteq> u64_max" using assms(7,10) by auto
  have before: "\<forall>b \<in> set bs. snd (fst b) < d"
    using separated_before_end [OF old(1,2)] assms(4) by (auto intro: less_le_trans)
  have "content cd spec (objs(?n \<mapsto> b)) ?n = Some (map snd v)"
    by (simp add: content_def decode_new [OF assms(1) keys assms(9)])
  moreover have "separated (map fst (bs @ [new_id spec d to]))"
    using old(2) before by (simp add: separated_snoc new_id_def)
  moreover have "\<forall>r \<in> set (rs @ buf). r_offset r < to + 1"
  proof
    fix r assume "r \<in> set (rs @ buf)"
    then have "r_offset r \<le> r_offset (last (rs @ buf))"
      by (rule increasing_le_last [OF assms(5)])
    then show "r_offset r < to + 1" using assms(6,10) to by (simp add: lt_succ_iff)
  qed
  moreover have e: "chain_end (bs @ [new_id spec d to]) = to + 1" by (simp add: chain_end_def new_id_def)
  ultimately show ?thesis
    using ids_ok_snoc [OF keys to old(1)] old(3) assms(5,8) by (auto simp: log_state_def)
qed

context blob_codec
begin

lemma flush_locked_log:
  assumes "log_inv cd objects invar s log" "sk_buffer s \<noteq> []"
    "flush_locked ops cd e s = (res, s')"
  shows "log_left cd objects invar (sk_spec s) (sk_store s') log \<and> sk_spec s' = sk_spec s
    \<and> (is_ok res \<longrightarrow> log_inv cd objects invar s' log \<and> sk_buffer s' = [])"
proof -
  let ?spec = "sk_spec s" and ?d = "sk_durable_position s" and ?buf = "sk_buffer s"
  define to where "to = r_offset (last ?buf)"
  define n where "n = id_name (bs_format ?spec) (new_id ?spec ?d to)"
  obtain v bs rs where inv: "codec_ok cd" "invar (sk_store s)" "log_spec ?spec" "increasing log"
    "sk_view s = Some v" "view_log v log" "log_state cd ?spec (objects (sk_store s)) bs rs"
    "sk_tail s = last_two (names_of ?spec bs)" "log = rs @ ?buf" "chain_end bs \<le> ?d"
    "\<forall>r \<in> set ?buf. ?d \<le> r_offset r \<and> r_offset r \<noteq> u64_max"
    by (rule log_invE [OF assms(1)])
  have keys: "keys_ok ?spec" and comp: "bs_compaction ?spec = Some CLog"
    using inv(3) by (simp_all add: log_spec_def)
  have okn: "ok_name n"
    unfolding n_def new_id_def by (simp, rule blob_name_ok) (rule spec_key_ok [OF keys])
  have name: "blob_filename ?d to (map_option be_key_id (bs_encryption ?spec))
      (extension (bs_format ?spec)) = n"
    by (simp add: n_def new_id_def spec_key_def)
  have old: "log_left cd objects invar ?spec (sk_store s) log"
    by (rule log_inv_left [OF assms(1)])
  show ?thesis
  proof (cases "encode_for cd ?spec (map snd v)")
    case (Inl x)
    then have "res = Inl SnkRejected \<and> s' = s"
      using assms(3) by (simp add: flush_locked_def comp inv(5))
    then show ?thesis using old by simp
  next
    case (Inr b)
    obtain pr st' where put: "st_put_new ops e (sk_store s) n b = (pr, st')" by fastforce
    have new: "log_state cd ?spec ((objects (sk_store s))(n \<mapsto> b)) (bs @ [new_id ?spec ?d to]) log
        \<and> chain_end (bs @ [new_id ?spec ?d to]) = to + 1"
      unfolding n_def inv(9)
      by (rule log_state_add [OF inv(1,3,7,10) _ assms(2) inv(11) _ Inr to_def])
        (use inv in simp_all)
    have run: "flush_locked ops cd e s = (case pr of
        Inl AlreadyExists \<Rightarrow> (Err SnkInconsistent, s\<lparr>sk_store := st'\<rparr>)
      | Inl _ \<Rightarrow> (Err SnkTransport, s\<lparr>sk_store := st'\<rparr>)
      | Inr _ \<Rightarrow> (Ok (), s\<lparr>sk_store := st', sk_durable_position := to + 1,
          sk_tail := push_tail (sk_tail s) n, sk_buffer := [], sk_buffer_bytes := 0,
          sk_buffer_started := None,
          sk_flush_observer := map_option (\<lambda>evs. evs @ [(?d, to)]) (sk_flush_observer s)\<rparr>))"
      by (cases pr; simp add: flush_locked_def comp inv(5) Inr name to_def [symmetric] put Let_def
          split: blob_error.split)
    note run = run [unfolded assms(3)]
    show ?thesis
    proof (cases pr)
      case (Inl x)
      then have st': "invar st' \<and> (objects st' = objects (sk_store s)
          \<or> objects st' = (objects (sk_store s))(n \<mapsto> b))"
        using put_err [OF inv(2) okn] put by metis
      have "log_left cd objects invar ?spec st' log"
      proof (cases "objects st' = objects (sk_store s)")
        case True
        then show ?thesis using old st' by (simp add: log_left_def)
      next
        case False
        then have "log_state cd ?spec (objects st') (bs @ [new_id ?spec ?d to]) log"
          using st' new by simp
        then show ?thesis using st' by (intro log_leftI [where later = "[]"]) simp_all
      qed
      moreover have "\<not> is_ok res \<and> sk_store s' = st' \<and> sk_spec s' = ?spec"
        using run Inl by (cases x) auto
      ultimately show ?thesis by simp
    next
      case (Inr u)
      then have st': "invar st'" "objects st' = (objects (sk_store s))(n \<mapsto> b)"
        using put_ok [OF inv(2) okn] put by metis+
      have s': "sk_store s' = st'" "sk_spec s' = ?spec" "sk_buffer s' = []" "sk_view s' = Some v"
        "sk_durable_position s' = to + 1" "sk_tail s' = push_tail (sk_tail s) n"
        using run Inr inv(5) by simp_all
      have "sk_tail s' = last_two (names_of ?spec (bs @ [new_id ?spec ?d to]))"
        by (simp add: s' inv(8) last_two_snoc n_def)
      then have "log_inv cd objects invar s' log"
        using new st' s' inv(1,3,4,6)
        by (intro log_invI [where v = v and bs = "bs @ [new_id ?spec ?d to]" and rs = log]) simp_all
      then show ?thesis using log_inv_left [of cd objects invar s' log] s' by simp
    qed
  qed
qed

text \<open>Opening a destination that a compaction sink left.\<close>

lemma open_log:
  assumes "codec_ok cd" "invar st" "log_spec spec" "log_state cd spec (objects st) bs rs"
    "st_list ops e st = Inr names" "\<forall>n. objects st n \<noteq> None \<longrightarrow> is_ok (st_get ops e' st n)"
  shows "\<exists>s. open_store ops cd e e' now_unix now st spec = Inr s \<and> log_inv cd objects invar s rs
    \<and> sk_durable_position s = chain_end bs \<and> sk_buffer s = [] \<and> sk_store s = st \<and> sk_spec s = spec"
proof -
  let ?fmt = "bs_format spec"
  have st: "ids_ok bs" "separated (map fst bs)" "dom (objects st) = set (names_of spec bs)"
    "increasing rs" using assms(4) by (auto simp: log_state_def)
  have comp: "bs_compaction spec = Some CLog" and keys: "keys_ok spec"
    using assms(3) by (simp_all add: log_spec_def)
  have names: "distinct names" "set names = set (names_of spec bs)"
    using list_ok [OF assms(2,5)] st(3) by auto
  have m: "mset names = mset (names_of spec bs)" by (rule listing_mset [OF st(1,2) names])
  have v: "validate_chain names ?fmt (Some CLog) = Inr \<lparr>ch_durable = chain_end bs,
      ch_latest = (if bs = [] then None else Some (id_name ?fmt (last bs))),
      ch_tail = last_two (names_of spec bs)\<rparr>"
    using validate_log_accepts [OF m st(1,2)] by (simp add: chain_end_def)
  have enc: "\<not> (case bs_encryption spec of None \<Rightarrow> False
      | Some enc \<Rightarrow> bs_format spec \<noteq> Parquet \<or> map_of (be_keyring enc) (be_key_id enc) = None)"
    using keys by (auto simp: keys_ok_def split: option.splits)
  have "\<exists>s w. open_store ops cd e e' now_unix now st spec = Inr s
    \<and> sk_store s = st \<and> sk_spec s = spec \<and> sk_durable_position s = chain_end bs \<and> sk_buffer s = []
    \<and> sk_view s = Some w \<and> view_log w rs \<and> sk_tail s = last_two (names_of spec bs)"
  proof (cases "bs = []")
    case True
    then have "rs = []" using assms(4) by (simp add: log_state_def)
    then show ?thesis
      using enc True by (simp add: open_store_def assms(5) v comp sink_new_def view_log_Nil)
  next
    case False
    let ?n = "id_name ?fmt (last bs)"
    obtain w where w: "view_log w rs" "content cd spec (objects st) ?n = Some (map snd w)"
      using assms(4) False by (auto simp: log_state_def)
    have okn: "ok_name ?n"
    proof (rule blob_name_ok)
      fix kid assume "snd (last bs) = Some kid"
      moreover have "last bs \<in> set bs" using False by simp
      ultimately show "is_key_id kid" using st(1) by (fastforce simp: ids_ok_def list_all_iff)
    qed
    have present: "objects st ?n \<noteq> None" using w(2) by (auto simp: content_def split: option.splits)
    obtain b where b: "st_get ops e' st ?n = Inr b"
      using assms(6) present by (cases "st_get ops e' st ?n") auto
    have "objects st ?n = Some b" by (rule get_ok [OF assms(2) b okn])
    then have "decode_blob cd ?n b ?fmt (map_option be_keyring (bs_encryption spec)) =
        Inr (map snd w)"
      using w(2) by (auto simp: content_def split: sum.splits)
    moreover have "view_of (map snd w) [] = Inr w"
      using view_of_snapshot [of "[]" w] w(1) by (simp add: view_log_def)
    ultimately have "decode_view cd ?n b ?fmt (bs_encryption spec) = Inr w"
      by (simp add: decode_view_def)
    then show ?thesis
      using enc False w(1) by (simp add: open_store_def assms(5) v comp sink_new_def b)
  qed
  then obtain s w where s: "open_store ops cd e e' now_unix now st spec = Inr s"
    "sk_store s = st" "sk_spec s = spec" "sk_durable_position s = chain_end bs" "sk_buffer s = []"
    "sk_view s = Some w" "view_log w rs" "sk_tail s = last_two (names_of spec bs)" by blast
  have "log_inv cd objects invar s rs"
    by (rule log_invI [where v = w and bs = bs and rs = rs]) (use s assms st in simp_all)
  then show ?thesis using s by blast
qed

end

section \<open>The compaction mode of the sink\<close>

sublocale blob_codec \<subseteq> log: sink_mode ops cd "log_inv cd objects invar" "log_left cd objects invar"
proof
  fix s s' :: "'a blob_sink" and log r e' e res
  show "log_inv cd objects invar s log \<Longrightarrow> log_left cd objects invar (sk_spec s) (sk_store s) log"
    by (rule log_inv_left)
  show "log_inv cd objects invar s log \<Longrightarrow> sk_store s' = sk_store s \<Longrightarrow> sk_spec s' = sk_spec s \<Longrightarrow>
      sk_view s' = sk_view s \<Longrightarrow> sk_durable_position s' = sk_durable_position s \<Longrightarrow>
      sk_tail s' = sk_tail s \<Longrightarrow> sk_buffer s' = sk_buffer s \<Longrightarrow> log_inv cd objects invar s' log"
    by (rule log_inv_cong)
  show "log_inv cd objects invar s log \<Longrightarrow> buffered_head s \<le> r_offset r \<Longrightarrow> r_offset r \<noteq> u64_max \<Longrightarrow>
      (bs_compaction (sk_spec s) = Some CLog \<longrightarrow> (\<exists>k. r_key r = Some k \<and> from_utf8 k \<noteq> None)) \<Longrightarrow>
      log_inv cd objects invar (push_record e' r s) (log @ [r])"
    using log_inv_push [of cd objects invar s log r e'] by (simp add: log_inv_def log_spec_def)
  show "log_inv cd objects invar s log \<Longrightarrow> sk_buffer s \<noteq> [] \<Longrightarrow>
      flush_locked ops cd e s = (res, s') \<Longrightarrow>
      log_left cd objects invar (sk_spec s) (sk_store s') log \<and> sk_spec s' = sk_spec s
      \<and> (is_ok res \<longrightarrow> log_inv cd objects invar s' log \<and> sk_buffer s' = [])"
    by (rule flush_locked_log)
qed

context blob_codec
begin

lemma run_and_reopen_log:
  assumes "log_inv cd objects invar s log"
    "\<forall>r \<in> set (op_records os). r_offset r \<noteq> u64_max"
    "run_ops ops cd os s = (res, s', rs)" "st_list ops e (sk_store s') = Inr names"
    "\<forall>n. objects (sk_store s') n \<noteq> None \<longrightarrow> is_ok (st_get ops e' (sk_store s') n)"
  shows "\<exists>s2 n more. open_store ops cd e e' now_unix now (sk_store s') (sk_spec s) = Inr s2
    \<and> (more = [] \<or> (\<exists>r \<in> set (op_records os). more = [r]))
    \<and> log_inv cd objects invar s2 (take n (log @ rs @ more)) \<and> sk_buffer s2 = []
    \<and> (\<forall>r \<in> set (take n (log @ rs @ more)). r_offset r < buffered_head s2)
    \<and> (\<forall>r \<in> set (drop n (log @ rs @ more)). buffered_head s2 \<le> r_offset r)"
proof -
  obtain later where later: "later = [] \<or> (\<exists>r. later = [r] \<and> r \<in> set (op_records os))"
    "log_left cd objects invar (sk_spec s) (sk_store s') (log @ rs @ later)"
    using log.run_ops_keeps [OF assms(2,1,3)] by blast
  obtain bs n where left: "invar (sk_store s')"
    "log_state cd (sk_spec s) (objects (sk_store s')) bs (take n (log @ rs @ later))"
    "\<forall>r \<in> set (drop n (log @ rs @ later)). chain_end bs \<le> r_offset r"
    using later(2) unfolding log_left_def by (elim conjE exE)
  have spec: "codec_ok cd" "log_spec (sk_spec s)" using assms(1) by (simp_all add: log_inv_def)
  obtain s2 where s2: "open_store ops cd e e' now_unix now (sk_store s') (sk_spec s) = Inr s2"
    "log_inv cd objects invar s2 (take n (log @ rs @ later))" "sk_durable_position s2 = chain_end bs"
    "sk_buffer s2 = []"
    using open_log [OF spec(1) left(1) spec(2) left(2) assms(4,5)] by blast
  have "buffered_head s2 = chain_end bs" using s2(3,4) by (simp add: buffered_head_def)
  moreover have "\<forall>r \<in> set (take n (log @ rs @ later)). r_offset r < chain_end bs"
    using left(2) by (simp add: log_state_def)
  ultimately show ?thesis
    using s2 left(3) later(1) by (intro exI [of _ s2] exI [of _ n] exI [of _ later]) auto
qed

end

end
