(* ===== verification/Blob_Contract.thy ===== *)
theory Blob_Contract
  imports Log_Restart Run_Loop
begin

text \<open>
  The blob sink under the mirror loop (\<open>impl Sink for BlobSink\<close> in \<open>crates/mirror-fs/src/blob.rs\<close>):
  over any store that keeps the contract \<open>blob_store\<close> the sink keeps the loop's contract, in append mode
  with \<open>append_inv\<close> as its state relation and in compaction mode with \<open>log_inv\<close>.
\<close>

definition blob_ops ::
    "('st, 'e) store_ops \<Rightarrow> codec \<Rightarrow> ('st blob_sink, 'e sink_env) sink_ops" where
  "blob_ops ops cd = \<lparr>
     k_next_expected_offset = sink_next_expected_offset ops cd,
     k_furthest_next_offset = default_furthest,
     k_write = sink_write ops cd,
     k_flush = flush_now ops cd,
     k_align = (\<lambda>e. sink_align),
     k_allows_compacted_source = sink_allows_compacted_source,
     k_allows_offset_holes = (\<lambda>s. True)\<rparr>"

section \<open>The head moves only by writes\<close>

text \<open>Between two writes nothing but the place of the records changes: buffered, then durable.\<close>

definition head_ok :: "'st blob_sink \<Rightarrow> bool" where
  "head_ok s = (sk_buffer s \<noteq> [] \<longrightarrow> r_offset (last (sk_buffer s)) \<noteq> u64_max)"

lemma flush_locked_head:
  assumes "flush_locked ops cd e s = (Inr u, s')" "sk_buffer s \<noteq> []"
  shows "buffered_head s' = buffered_head s \<and> sk_buffer s' = [] \<and> sk_view s' = sk_view s
    \<and> sk_spec s' = sk_spec s"
  using assms
  by (auto simp: flush_locked_def Let_def buffered_head_def
      split: sum.splits prod.splits option.splits compaction_mode.splits blob_error.splits)

lemma tick_daily_head:
  assumes "tick_daily ops cd e s = (Inr u, s')"
  shows "buffered_head s' = buffered_head s \<and> (sk_buffer s' = [] \<or> sk_buffer s' = sk_buffer s)
    \<and> sk_view s' = sk_view s \<and> sk_spec s' = sk_spec s"
  using assms flush_locked_head [of ops cd "se_daily_put e" s]
  by (auto simp: tick_daily_def Let_def buffered_head_def
      split: option.splits if_splits sum.splits prod.splits)

lemma check_drift_head:
  assumes "check_drift ops e s = (r, s')"
  shows "buffered_head s' = buffered_head s \<and> sk_buffer s' = sk_buffer s
    \<and> sk_view s' = sk_view s \<and> sk_spec s' = sk_spec s"
  using assms by (auto simp: check_drift_def Let_def buffered_head_def
      split: prod.splits sum.splits if_splits)

lemma should_flush_nonempty: "should_flush now s = Some t \<Longrightarrow> sk_buffer s \<noteq> []"
  by (auto simp: should_flush_def)

lemma next_head:
  assumes "sink_next_expected_offset ops cd e s = (Inr h, s')"
  shows "h = buffered_head s' \<and> buffered_head s' = buffered_head s
    \<and> (sk_buffer s' = [] \<or> sk_buffer s' = sk_buffer s)
    \<and> sk_view s' = sk_view s \<and> sk_spec s' = sk_spec s"
proof -
  obtain u s1 u2 s2 where
    t: "tick_daily ops cd e s = (Inr u, s1)" and
    f: "(if should_flush (se_now_flush e) s1 = Some MaxTime
         then flush_locked ops cd (se_flush_put e) s1 else (Ok (), s1)) = (Inr u2, s2)" and
    d: "(if sk_drift_check_interval s2 \<le> se_now_drift e - sk_last_drift_check s2
         then check_drift ops e s2 else (Ok (), s2)) = (Inr (), s')" and
    h: "h = buffered_head s'"
    using assms unfolding sink_next_expected_offset_def
    by (auto split: prod.splits sum.splits intro: that)
  have 1: "buffered_head s1 = buffered_head s \<and> (sk_buffer s1 = [] \<or> sk_buffer s1 = sk_buffer s)
      \<and> sk_view s1 = sk_view s \<and> sk_spec s1 = sk_spec s"
    by (rule tick_daily_head [OF t])
  have 2: "buffered_head s2 = buffered_head s1 \<and> (sk_buffer s2 = [] \<or> sk_buffer s2 = sk_buffer s1)
      \<and> sk_view s2 = sk_view s1 \<and> sk_spec s2 = sk_spec s1"
    using f flush_locked_head [of ops cd "se_flush_put e" s1 u2 s2]
    by (auto split: if_splits dest: should_flush_nonempty)
  have 3: "buffered_head s' = buffered_head s2 \<and> sk_buffer s' = sk_buffer s2
      \<and> sk_view s' = sk_view s2 \<and> sk_spec s' = sk_spec s2"
    using d check_drift_head [of ops e s2 "Inr ()" s'] by (auto split: if_splits)
  show ?thesis using 1 2 3 h by auto
qed

lemma flush_now_head:
  assumes "flush_now ops cd e s = (Inr u, s')"
  shows "buffered_head s' = buffered_head s \<and> sk_buffer s' = [] \<and> sk_view s' = sk_view s
    \<and> sk_spec s' = sk_spec s"
  using assms flush_locked_head [of ops cd "se_flush_put e" s]
  by (auto simp: flush_now_def split: if_splits)

lemma write_head:
  assumes "sink_write ops cd e r s = (Inr u, s')"
  shows "buffered_head s \<le> r_offset r \<and> buffered_head s' = r_offset r + 1
    \<and> (sk_buffer s' = [] \<or> last (sk_buffer s') = r)
    \<and> sk_view s' = map_option (view_update r) (sk_view s) \<and> sk_spec s' = sk_spec s
    \<and> (bs_compaction (sk_spec s) = Some CLog \<longrightarrow> (\<exists>k. r_key r = Some k \<and> from_utf8 k \<noteq> None))"
proof -
  obtain u1 s1 where t: "tick_daily ops cd e s = (Inr u1, s1)"
    using assms by (auto simp: sink_write_def split: prod.splits sum.splits)
  define s2 where "s2 = push_record e r s1"
  have s2: "buffered_head s2 = r_offset r + 1" "sk_buffer s2 \<noteq> []" "last (sk_buffer s2) = r"
    "sk_view s2 = map_option (view_update r) (sk_view s1)" "sk_spec s2 = sk_spec s1"
    by (simp_all add: s2_def push_record_def buffered_head_def)
  have gate: "\<not> r_offset r < buffered_head s1"
    and key: "\<not> (bs_compaction (sk_spec s1) = Some CLog
      \<and> (case r_key r of None \<Rightarrow> True | Some k \<Rightarrow> from_utf8 k = None))"
    and run: "(if should_flush (se_now_flush e) s2 = None then (Ok (), s2)
      else flush_locked ops cd (se_flush_put e) s2) = (Inr u, s')"
    using assms t unfolding sink_write_def Let_def s2_def
    by (auto split: if_splits)
  have s1: "buffered_head s1 = buffered_head s" "sk_view s1 = sk_view s" "sk_spec s1 = sk_spec s"
    using tick_daily_head [OF t] by auto
  have fin: "buffered_head s' = r_offset r + 1 \<and> (sk_buffer s' = [] \<or> last (sk_buffer s') = r)
      \<and> sk_view s' = sk_view s2 \<and> sk_spec s' = sk_spec s2"
    using run s2 flush_locked_head [of ops cd "se_flush_put e" s2 u s'] by (auto split: if_splits)
  show ?thesis
    using gate key fin s1 s2 by (auto simp: not_less split: option.splits)
qed

section \<open>Append mode over any store\<close>

sublocale blob_codec \<subseteq> append_dest: sink_contract "blob_ops ops cd" "append_inv cd objects invar"
    buffered_head False
proof
  fix s s' log e h f r low and u :: unit
  let ?acc = "append_inv cd objects invar"
  show "?acc s log \<Longrightarrow> k_allows_compacted_source (blob_ops ops cd) s = False"
    by (simp add: append_inv_def sink_inv_def append_spec_def blob_ops_def sink_allows_compacted_source_def)
  show "?acc s log \<Longrightarrow> k_next_expected_offset (blob_ops ops cd) e s = (Inr h, s') \<Longrightarrow>
      ?acc s' log \<and> h = buffered_head s' \<and> buffered_head s' = buffered_head s"
    using append.next_keeps [of s log e "Inr h" s'] next_head [of ops cd e s h s'] by (auto simp: blob_ops_def)
  show "?acc s log \<Longrightarrow> k_furthest_next_offset (blob_ops ops cd) e s = (Inr f, s') \<Longrightarrow>
      ?acc s' log \<and> buffered_head s' = buffered_head s \<and> buffered_head s \<le> unwrap_or f (buffered_head s)"
    by (auto simp: blob_ops_def default_furthest_def)
  show "?acc s log \<Longrightarrow> buffered_head s \<le> r_offset r \<Longrightarrow> r_offset r \<noteq> u64_max \<Longrightarrow>
      k_write (blob_ops ops cd) e r s = (Inr u, s') \<Longrightarrow> ?acc s' (log @ [r]) \<and> buffered_head s' = r_offset r + 1"
    using append.write_keeps [of s log r e "Inr u" s'] write_head [of ops cd e r s u s'] by (auto simp: blob_ops_def)
  show "?acc s log \<Longrightarrow> k_flush (blob_ops ops cd) e s = (Inr u, s') \<Longrightarrow>
      ?acc s' log \<and> buffered_head s' = buffered_head s"
    using append.flush_keeps [of s log e "Inr u" s'] flush_now_head [of ops cd e s u s'] by (auto simp: blob_ops_def)
  show "?acc s log \<Longrightarrow> k_allows_compacted_source (blob_ops ops cd) s \<Longrightarrow> buffered_head s \<le> low \<Longrightarrow>
      k_align (blob_ops ops cd) e low s = (Inr u, s') \<Longrightarrow> ?acc s' log \<and> buffered_head s' = low"
    by (simp add: append_inv_def sink_inv_def append_spec_def blob_ops_def sink_allows_compacted_source_def)
qed

section \<open>Compaction mode over any store\<close>

lemma log_inv_align:
  assumes "log_inv cd objects invar s log" "sink_align low s = (Inr u, s')"
  shows "log_inv cd objects invar s' log \<and> buffered_head s' = low \<and> buffered_head s \<le> low"
proof -
  have s: "sk_buffer s = []" "sk_durable_position s \<le> low" "s' = s\<lparr>sk_durable_position := low\<rparr>"
    using assms(2) by (auto simp: sink_align_def split: if_splits)
  obtain v bs rs where inv: "codec_ok cd" "invar (sk_store s)" "log_spec (sk_spec s)" "increasing log"
    "sk_view s = Some v" "view_log v log"
    "log_state cd (sk_spec s) (objects (sk_store s)) bs rs"
    "sk_tail s = last_two (names_of (sk_spec s) bs)" "log = rs @ sk_buffer s"
    "chain_end bs \<le> sk_durable_position s"
    by (rule log_invE [OF assms(1)])
  have "log_inv cd objects invar s' log"
    by (rule log_invI [where v = v and bs = bs and rs = rs]) (use inv s in simp_all)
  then show ?thesis using s by (simp add: buffered_head_def)
qed

sublocale blob_codec \<subseteq> log_dest: sink_contract "blob_ops ops cd" "log_inv cd objects invar"
    buffered_head True
proof
  fix s s' log e h f r low and u :: unit
  let ?acc = "log_inv cd objects invar"
  show "?acc s log \<Longrightarrow> k_allows_compacted_source (blob_ops ops cd) s = True"
    by (simp add: log_inv_def log_spec_def blob_ops_def sink_allows_compacted_source_def)
  show "?acc s log \<Longrightarrow> k_next_expected_offset (blob_ops ops cd) e s = (Inr h, s') \<Longrightarrow>
      ?acc s' log \<and> h = buffered_head s' \<and> buffered_head s' = buffered_head s"
    using log.next_keeps [of s log e "Inr h" s'] next_head [of ops cd e s h s'] by (auto simp: blob_ops_def)
  show "?acc s log \<Longrightarrow> k_furthest_next_offset (blob_ops ops cd) e s = (Inr f, s') \<Longrightarrow>
      ?acc s' log \<and> buffered_head s' = buffered_head s \<and> buffered_head s \<le> unwrap_or f (buffered_head s)"
    by (auto simp: blob_ops_def default_furthest_def)
  show "?acc s log \<Longrightarrow> buffered_head s \<le> r_offset r \<Longrightarrow> r_offset r \<noteq> u64_max \<Longrightarrow>
      k_write (blob_ops ops cd) e r s = (Inr u, s') \<Longrightarrow> ?acc s' (log @ [r]) \<and> buffered_head s' = r_offset r + 1"
    using log.write_keeps [of s log r e "Inr u" s'] write_head [of ops cd e r s u s'] by (auto simp: blob_ops_def)
  show "?acc s log \<Longrightarrow> k_flush (blob_ops ops cd) e s = (Inr u, s') \<Longrightarrow>
      ?acc s' log \<and> buffered_head s' = buffered_head s"
    using log.flush_keeps [of s log e "Inr u" s'] flush_now_head [of ops cd e s u s'] by (auto simp: blob_ops_def)
  show "?acc s log \<Longrightarrow> k_allows_compacted_source (blob_ops ops cd) s \<Longrightarrow> buffered_head s \<le> low \<Longrightarrow>
      k_align (blob_ops ops cd) e low s = (Inr u, s') \<Longrightarrow> ?acc s' log \<and> buffered_head s' = low"
    using log_inv_align [of cd objects invar s log low u s'] by (simp add: blob_ops_def)
qed

section \<open>Over the filesystem\<close>

definition append_accepts :: "codec \<Rightarrow> fs_dir blob_sink \<Rightarrow> krecord list \<Rightarrow> bool" where
  "append_accepts cd s log = append_inv cd fs_objects fs_ok s log"

definition log_accepts :: "codec \<Rightarrow> fs_dir blob_sink \<Rightarrow> krecord list \<Rightarrow> bool" where
  "log_accepts cd s log = log_inv cd fs_objects fs_ok s log"

lemma accepts_eqs:
  "append_accepts cd = append_inv cd fs_objects fs_ok" "log_accepts cd = log_inv cd fs_objects fs_ok"
  by (simp_all add: append_accepts_def log_accepts_def fun_eq_iff)

interpretation fs_sink: sink_contract "blob_ops fs_store cd" "append_accepts cd" buffered_head False for cd
  unfolding accepts_eqs by (rule fsc.append_dest.sink_contract_axioms)

interpretation log_sink: sink_contract "blob_ops fs_store cd" "log_accepts cd" buffered_head True for cd
  unfolding accepts_eqs by (rule fsc.log_dest.sink_contract_axioms)

end
