(* ===== verification/Kafka.thy ===== *)
theory Kafka
  imports Run_Loop
begin

text \<open>
  The Kafka source and destination (\<open>crates/mirror-kafka/src/lib.rs\<close>).  The broker and its client
  library are parameters: the outcome of a query is an argument of the operation, and the partition
  that the destination writes is reached through a record of functions (\<open>broker\<close>) whose documented
  behaviour is the predicate \<open>broker_ok\<close>.
\<close>

datatype kafka_error = KInit | KRead | KGone

section \<open>Positions and watermarks\<close>

text \<open>\<open>rdkafka::Offset\<close>.\<close>

datatype offset = OffBeginning | OffEnd | OffStored | OffInvalid | OffOffset i64 | OffTail i64

definition committed_position :: "offset \<Rightarrow> kafka_error + u64 option" where
  "committed_position offset = (case offset of
      OffOffset n \<Rightarrow> if 0 \<le>s n then Ok (Some n) else Err KInit
    | OffInvalid \<Rightarrow> Ok None
    | _ \<Rightarrow> Err KInit)"

definition watermark :: "i64 \<Rightarrow> kafka_error + u64" where
  "watermark w = (if 0 \<le>s w then Ok w else Err KInit)"

text \<open>\<open>fetch_watermarks\<close>, from the outcome of the client's query.\<close>

definition fetch_watermarks :: "unit + i64 \<times> i64 \<Rightarrow> kafka_error + u64 \<times> u64" where
  "fetch_watermarks q = (case q of
      Inl _ \<Rightarrow> Err KInit
    | Inr (low, high) \<Rightarrow> (case watermark low of
          Inl x \<Rightarrow> Inl x
        | Inr l \<Rightarrow> (case watermark high of Inl x \<Rightarrow> Inl x | Inr h \<Rightarrow> Ok (l, h))))"

definition fetch_low_watermark :: "unit + i64 \<times> i64 \<Rightarrow> kafka_error + u64" where
  "fetch_low_watermark q = (case fetch_watermarks q of Inl x \<Rightarrow> Inl x | Inr (l, _) \<Rightarrow> Ok l)"

text \<open>\<open>fetch_committed_offset\<close>: the query's outcome, then the partition's entry, if there is one.\<close>

definition fetch_committed_offset :: "unit + offset option \<Rightarrow> kafka_error + u64 option" where
  "fetch_committed_offset q = (case q of
      Inl _ \<Rightarrow> Err KInit
    | Inr None \<Rightarrow> Err KInit
    | Inr (Some offset) \<Rightarrow> committed_position offset)"

section \<open>Records\<close>

datatype timestamp = TsNotAvailable | TsCreateTime i64 | TsLogAppendTime i64

record message =
  mg_topic :: string
  mg_partition :: i32
  mg_offset :: i64
  mg_timestamp :: timestamp
  mg_key :: "bytes option"
  mg_payload :: "bytes option"
  mg_headers :: "(string \<times> bytes option) list option"

definition borrowed_to_record :: "message \<Rightarrow> krecord" where
  "borrowed_to_record msg =
     (let (ts, tt) = (case mg_timestamp msg of
          TsCreateTime ms \<Rightarrow> (Some ms, CreateTime)
        | TsLogAppendTime ms \<Rightarrow> (Some ms, LogAppendTime)
        | TsNotAvailable \<Rightarrow> (None, NotAvailable))
      in \<lparr>r_topic = mg_topic msg, r_partition = mg_partition msg, r_offset = mg_offset msg,
          r_timestamp_ms = ts, r_timestamp_type = tt, r_key = mg_key msg, r_value = mg_payload msg,
          r_headers = (case mg_headers msg of None \<Rightarrow> []
            | Some hs \<Rightarrow> map (\<lambda>(k, v). \<lparr>h_key = k, h_value = v\<rparr>) hs)\<rparr>)"

text \<open>The client's error codes that the program tells apart.\<close>

datatype rd_code = AutoOffsetReset | OffsetOutOfRange | OtherCode

datatype poll_outcome = PollMessage message | PollError rd_code | PollNothing

text \<open>\<open>read_record_at\<close>: what its polls return before the deadline, in order.\<close>

fun read_record_at :: "u64 \<Rightarrow> poll_outcome list \<Rightarrow> kafka_error + krecord" where
  "read_record_at offset [] = Err KRead"
| "read_record_at offset (PollMessage msg # ps) =
     (if mg_offset msg = offset then Ok (borrowed_to_record msg)
      else if offset <s mg_offset msg then Err KGone
      else read_record_at offset ps)"
| "read_record_at offset (PollNothing # ps) = read_record_at offset ps"
| "read_record_at offset (PollError c # ps) =
     (case c of AutoOffsetReset \<Rightarrow> Err KGone | OffsetOutOfRange \<Rightarrow> Err KGone | OtherCode \<Rightarrow> Err KRead)"

section \<open>The source\<close>

text \<open>\<open>poll_one\<close>: the record, the error, or the timeout that \<open>recv\<close> ran into.\<close>

definition source_poll_one :: "poll_outcome \<Rightarrow> source_error + krecord option" where
  "source_poll_one p = (case p of
      PollMessage msg \<Rightarrow> Ok (Some (borrowed_to_record msg))
    | PollError c \<Rightarrow> (case c of
          AutoOffsetReset \<Rightarrow> Err SrcPositionLost
        | OffsetOutOfRange \<Rightarrow> Err SrcPositionLost
        | OtherCode \<Rightarrow> Err SrcTransport)
    | PollNothing \<Rightarrow> Ok None)"

text \<open>
  \<open>seek\<close> and the watermark queries: any failure, of the task that runs the query too, is a transport
  error.
\<close>

definition source_seek :: "bool \<Rightarrow> bool \<Rightarrow> bool \<Rightarrow> source_error + unit" where
  "source_seek tpl_ok assign_ok seek_ok =
     (if \<not> tpl_ok then Err SrcTransport
      else if \<not> assign_ok then Err SrcTransport
      else if \<not> seek_ok then Err SrcTransport
      else Ok ())"

definition source_query :: "unit + (kafka_error + 'a) \<Rightarrow> source_error + 'a" where
  "source_query joined = (case joined of
      Inl _ \<Rightarrow> Err SrcTransport
    | Inr (Inl _) \<Rightarrow> Err SrcTransport
    | Inr (Inr x) \<Rightarrow> Ok x)"

section \<open>Staging offsets to commit\<close>

text \<open>The highest staged offset, and what was handed to \<open>store_offsets\<close> so far.\<close>

record staging =
  sg_last_stored_offset :: u64
  sg_stored :: "u64 list"

definition stage_offset :: "bool \<Rightarrow> bool \<Rightarrow> u64 \<Rightarrow> staging \<Rightarrow> (source_error + unit) \<times> staging" where
  "stage_offset tpl_ok store_ok through s =
     (let prev = sg_last_stored_offset s;
          s1 = s\<lparr>sg_last_stored_offset := max prev through\<rparr>
      in if through \<le> prev then (Ok (), s1)
         else if \<not> tpl_ok then (Err SrcTransport, s1)
         else if \<not> store_ok then (Err SrcTransport, s1)
         else (Ok (), s1\<lparr>sg_stored := sg_stored s @ [through]\<rparr>))"

text \<open>
  \<open>fetch_max\<close> and \<open>store_offsets\<close> are two steps of the code, and \<open>stage_offset\<close> is a call that no other
  comes between.  \<open>stage_store\<close> is its second step, for calls of two handles that interleave (the periodic
  commit and the final one): theory Divergences shows that those may store their offsets out of order.
\<close>

definition stage_store :: "bool \<Rightarrow> bool \<Rightarrow> u64 \<Rightarrow> staging \<Rightarrow> (source_error + unit) \<times> staging" where
  "stage_store tpl_ok store_ok through s =
     (if \<not> tpl_ok then (Err SrcTransport, s)
      else if \<not> store_ok then (Err SrcTransport, s)
      else (Ok (), s\<lparr>sg_stored := sg_stored s @ [through]\<rparr>))"

definition stage_raise :: "u64 \<Rightarrow> staging \<Rightarrow> bool \<times> staging" where
  "stage_raise through s = (\<not> through \<le> sg_last_stored_offset s,
     s\<lparr>sg_last_stored_offset := max (sg_last_stored_offset s) through\<rparr>)"

lemma stage_offset_steps:
  "stage_offset tpl_ok store_ok through s =
     (case stage_raise through s of (higher, s1) \<Rightarrow>
        if higher then stage_store tpl_ok store_ok through s1 else (Ok (), s1))"
  by (simp add: stage_offset_def stage_raise_def stage_store_def Let_def)

text \<open>What is staged never goes back, whatever the callers pass and whichever call fails.\<close>

definition staging_inv :: "staging \<Rightarrow> bool" where
  "staging_inv s = (sorted_wrt (<) (sg_stored s)
     \<and> (\<forall>x \<in> set (sg_stored s). 0 < x \<and> x \<le> sg_last_stored_offset s))"

lemma stage_offset_inv:
  assumes "staging_inv s" "stage_offset t u through s = (r, s')"
  shows "staging_inv s' \<and> sg_last_stored_offset s' = max (sg_last_stored_offset s) through"
proof (cases "through \<le> sg_last_stored_offset s")
  case True
  then show ?thesis using assms by (auto simp: stage_offset_def staging_inv_def Let_def max_def)
next
  case False
  then have lt: "sg_last_stored_offset s < through" by simp
  then have "\<forall>x \<in> set (sg_stored s). x < through"
    using assms(1) by (auto simp: staging_inv_def)
  moreover from this have "\<forall>x \<in> set (sg_stored s). x \<le> through" by (auto intro: less_imp_le)
  moreover have "0 < through" using lt by (metis word_gt_0 word_not_simps(1))
  ultimately show ?thesis
    using assms lt
    by (auto simp: stage_offset_def staging_inv_def Let_def max_def sorted_wrt_append
        split: if_splits)
qed

section \<open>The destination\<close>

datatype timestamp_mode = TmSource | TmDestination

text \<open>What is produced: \<open>None\<close> for a timestamp leaves it to the broker.\<close>

record kmessage =
  km_key :: "bytes option"
  km_payload :: "bytes option"
  km_timestamp :: "i64 option"
  km_headers :: "(string \<times> bytes option) list option"

definition build_headers :: "header list \<Rightarrow> (string \<times> bytes option) list" where
  "build_headers hs = map (\<lambda>h. (h_key h, h_value h)) hs"

definition future_record :: "timestamp_mode \<Rightarrow> krecord \<Rightarrow> kmessage" where
  "future_record mode r = \<lparr>km_key = r_key r, km_payload = r_value r,
     km_timestamp = (if mode = TmSource then r_timestamp_ms r else None),
     km_headers = (if r_headers r = [] then None else Some (build_headers (r_headers r)))\<rparr>"

text \<open>The destination partition: its high watermark, and a produce with its delivery report.\<close>

record ('b, 'e) broker =
  br_high_watermark :: "'e \<Rightarrow> 'b \<Rightarrow> unit + i64"
  br_send :: "'e \<Rightarrow> kmessage \<Rightarrow> 'b \<Rightarrow> (unit + i64) \<times> 'b"

record 'b kafka_sink =
  ks_topic :: string
  ks_partition :: 'b
  ks_timestamp_mode :: timestamp_mode
  ks_keys :: column_type
  ks_values :: column_type
  ks_write_observer :: "u64 list option"

definition fetch_high_watermark :: "('b, 'e) broker \<Rightarrow> 'e \<Rightarrow> 'b kafka_sink \<Rightarrow> sink_error + u64" where
  "fetch_high_watermark B e s = (case br_high_watermark B e (ks_partition s) of
      Inl _ \<Rightarrow> Err SnkTransport
    | Inr high \<Rightarrow> if 0 \<le>s high then Ok high else Err SnkTransport)"

definition kafka_next_expected_offset ::
    "('b, 'e) broker \<Rightarrow> 'e \<times> 'e \<Rightarrow> 'b kafka_sink \<Rightarrow> (sink_error + u64) \<times> 'b kafka_sink" where
  "kafka_next_expected_offset B e s = (fetch_high_watermark B (fst e) s, s)"

definition kafka_write ::
    "(string \<Rightarrow> bool) \<Rightarrow> ('b, 'e) broker \<Rightarrow> 'e \<times> 'e \<Rightarrow> krecord \<Rightarrow> 'b kafka_sink
      \<Rightarrow> (sink_error + unit) \<times> 'b kafka_sink" where
  "kafka_write json_ok B e r s =
     (if \<not> is_ok (validate_column json_ok (ks_keys s) (r_key r)) then (Err SnkTransport, s)
      else if \<not> is_ok (validate_column json_ok (ks_values s) (r_value r)) then (Err SnkTransport, s)
      else (case fetch_high_watermark B (fst e) s of
          Inl x \<Rightarrow> (Inl x, s)
        | Inr current \<Rightarrow>
            if current \<noteq> r_offset r then (Err (UnexpectedPosition (r_offset r) current), s)
            else (let (delivery, b') =
                    br_send B (snd e) (future_record (ks_timestamp_mode s) r) (ks_partition s);
                    s1 = s\<lparr>ks_partition := b'\<rparr>
              in case delivery of
                Inl _ \<Rightarrow> (Err SnkTransport, s1)
              | Inr d \<Rightarrow>
                  if d \<noteq> r_offset r then (Err SnkTransport, s1)
                  else (Ok (), s1\<lparr>ks_write_observer :=
                      map_option (\<lambda>ws. ws @ [r_offset r]) (ks_write_observer s)\<rparr>))))"

definition kafka_ops ::
    "(string \<Rightarrow> bool) \<Rightarrow> ('b, 'e) broker \<Rightarrow> ('b kafka_sink, 'e \<times> 'e) sink_ops" where
  "kafka_ops json_ok B = \<lparr>
     k_next_expected_offset = kafka_next_expected_offset B,
     k_furthest_next_offset = default_furthest,
     k_write = kafka_write json_ok B,
     k_flush = default_flush,
     k_align = default_align,
     k_allows_compacted_source = default_allows,
     k_allows_offset_holes = default_allows\<rparr>"

section \<open>What the broker is relied on for\<close>

text \<open>
  A watermark that is known is the end of the partition, and a produce that is reported delivered
  appended its message at the reported offset, after whatever other producers appended since the
  watermark was asked for.  Nothing is said of one that failed.
\<close>

definition broker_ok :: "('b, 'e) broker \<Rightarrow> ('b \<Rightarrow> u64) \<Rightarrow> ('b \<Rightarrow> kmessage list) \<Rightarrow> bool" where
  "broker_ok B end_of messages =
     ((\<forall>e b w. br_high_watermark B e b = Inr w \<longrightarrow> 0 \<le>s w \<longrightarrow> w = end_of b)
      \<and> (\<forall>e m b d b'. br_send B e m b = (Inr d, b') \<longrightarrow>
            (\<exists>others. length others < 2 ^ 63 \<and> d = end_of b + of_nat (length others)
               \<and> end_of b' = d + 1 \<and> messages b' = messages b @ others @ [m])))"

text \<open>
  The partition of a topic holds what it held at first (\<open>base\<close>) and then the records written, one
  message each.
\<close>

definition kafka_accepts ::
    "('b, 'e) broker \<Rightarrow> ('b \<Rightarrow> u64) \<Rightarrow> ('b \<Rightarrow> kmessage list) \<Rightarrow> (string \<Rightarrow> kmessage list)
      \<Rightarrow> 'b kafka_sink \<Rightarrow> krecord list \<Rightarrow> bool" where
  "kafka_accepts B end_of messages base s log =
     (broker_ok B end_of messages
      \<and> messages (ks_partition s) = base (ks_topic s) @ map (future_record (ks_timestamp_mode s)) log)"

lemma kafka_write_Ok:
  assumes "kafka_write json_ok B e r s = (Inr u, s')" "broker_ok B end_of messages"
  shows "r_offset r = end_of (ks_partition s) \<and> end_of (ks_partition s') = r_offset r + 1
    \<and> messages (ks_partition s') =
        messages (ks_partition s) @ [future_record (ks_timestamp_mode s) r]
    \<and> ks_timestamp_mode s' = ks_timestamp_mode s \<and> ks_topic s' = ks_topic s
    \<and> ks_write_observer s' = map_option (\<lambda>ws. ws @ [r_offset r]) (ks_write_observer s)"
proof -
  let ?m = "future_record (ks_timestamp_mode s) r"
  have w: "br_high_watermark B e' b = Inr w \<Longrightarrow> 0 \<le>s w \<Longrightarrow> w = end_of b" for e' b w
    using assms(2) by (auto simp: broker_ok_def)
  have q: "fetch_high_watermark B (fst e) s = Inr (r_offset r)"
    using assms(1) by (auto simp: kafka_write_def Let_def split: if_splits sum.splits prod.splits)
  then have at: "r_offset r = end_of (ks_partition s)"
    using w by (auto simp: fetch_high_watermark_def split: sum.splits if_splits)
  obtain b' where sent: "br_send B (snd e) ?m (ks_partition s) = (Inr (r_offset r), b')"
    and s': "s' = s\<lparr>ks_partition := b', ks_write_observer :=
      map_option (\<lambda>ws. ws @ [r_offset r]) (ks_write_observer s)\<rparr>"
    using assms(1) q by (auto simp: kafka_write_def Let_def split: if_splits sum.splits prod.splits)
  obtain others where o: "length others < 2 ^ 63" "r_offset r = end_of (ks_partition s) + of_nat (length others)"
    "end_of b' = r_offset r + 1" "messages b' = messages (ks_partition s) @ others @ [?m]"
    using assms(2) sent unfolding broker_ok_def by blast
  have "(of_nat (length others) :: u64) = 0" using o(2) at by simp
  then have "2 ^ 64 dvd length others" by (simp add: word_of_nat_eq_0_iff)
  then have "length others = 0" using o(1) by (auto dest: dvd_imp_le)
  then have "others = []" by simp
  then show ?thesis using at o(3,4) s' by simp
qed

interpretation kafka_dest: sink_contract "kafka_ops json_ok B"
    "kafka_accepts B end_of messages base" "\<lambda>s. end_of (ks_partition s)" False
  for json_ok B end_of messages base
proof
  fix s s' log e h f r low and u :: unit
  let ?acc = "kafka_accepts B end_of messages base"
  show "?acc s log \<Longrightarrow> k_allows_compacted_source (kafka_ops json_ok B) s = False"
    by (simp add: kafka_ops_def default_allows_def)
  show "?acc s log \<Longrightarrow> k_next_expected_offset (kafka_ops json_ok B) e s = (Inr h, s') \<Longrightarrow>
      ?acc s' log \<and> h = end_of (ks_partition s') \<and> end_of (ks_partition s') = end_of (ks_partition s)"
    by (auto simp: kafka_ops_def kafka_next_expected_offset_def fetch_high_watermark_def
        kafka_accepts_def broker_ok_def split: sum.splits if_splits)
  show "?acc s log \<Longrightarrow> k_furthest_next_offset (kafka_ops json_ok B) e s = (Inr f, s') \<Longrightarrow>
      ?acc s' log \<and> end_of (ks_partition s') = end_of (ks_partition s)
      \<and> end_of (ks_partition s) \<le> unwrap_or f (end_of (ks_partition s))"
    by (auto simp: kafka_ops_def default_furthest_def)
  show "?acc s log \<Longrightarrow> end_of (ks_partition s) \<le> r_offset r \<Longrightarrow> r_offset r \<noteq> u64_max \<Longrightarrow>
      k_write (kafka_ops json_ok B) e r s = (Inr u, s') \<Longrightarrow>
      ?acc s' (log @ [r]) \<and> end_of (ks_partition s') = r_offset r + 1"
    using kafka_write_Ok [of json_ok B e r s u s' end_of messages]
    by (auto simp: kafka_ops_def kafka_accepts_def)
  show "?acc s log \<Longrightarrow> k_flush (kafka_ops json_ok B) e s = (Inr u, s') \<Longrightarrow>
      ?acc s' log \<and> end_of (ks_partition s') = end_of (ks_partition s)"
    by (auto simp: kafka_ops_def default_flush_def)
  show "?acc s log \<Longrightarrow>
      k_allows_compacted_source (kafka_ops json_ok B) s \<Longrightarrow> end_of (ks_partition s) \<le> low \<Longrightarrow>
      k_align (kafka_ops json_ok B) e low s = (Inr u, s') \<Longrightarrow>
      ?acc s' log \<and> end_of (ks_partition s') = low"
    by (simp add: kafka_ops_def default_allows_def)
qed

end
