(* ===== verification/Tee_Contract.thy ===== *)
theory Tee_Contract
  imports Tee Blob_Contract Kafka
begin

text \<open>
  A tee keeps the loop's contract when its inner sinks do.  In \<open>tee_of\<close>, \<open>bases\<close> gives for every inner
  sink what it had accepted and where it continued when the tee was opened; the relation says that it
  has since received exactly the records at or above that position.  Sinks that may be aligned to a low
  watermark have to refuse one below their own head, unless there is only one of them.  The tee of filesystem
  destinations and the tee of Kafka destinations are instances.
\<close>

lemma run_all_None:
  "run_all f i xs = (None, ys) \<Longrightarrow> list_all2 (\<lambda>x y. \<exists>j. f j x = (None, y)) xs ys"
  by (induction f i xs arbitrary: ys rule: run_all.induct)
    (auto simp: Let_def split: prod.splits option.splits)

lemma requery_Ok:
  "requery K e i xs = (Inr u, ys) \<Longrightarrow>
     list_all2 (\<lambda>x y. \<exists>j h s'. k_next_expected_offset K (e j) (in_sink x) = (Inr h, s')
       \<and> y = x\<lparr>in_sink := s', in_head := h\<rparr>) xs ys"
  by (induction K e i xs arbitrary: ys rule: requery.induct)
    (auto simp: Let_def split: prod.splits sum.splits if_splits)

lemma furthest_of_Ok:
  "furthest_of K e i acc xs = (Inr f, ys) \<Longrightarrow> acc \<le> f
     \<and> list_all2 (\<lambda>x y. \<exists>j g s'. k_furthest_next_offset K (e j) (in_sink x) = (Inr g, s')
          \<and> y = x\<lparr>in_sink := s'\<rparr> \<and> unwrap_or g (in_head x) \<le> f) xs ys"
  by (induction K e i acc xs arbitrary: ys rule: furthest_of.induct)
    (auto simp: Let_def split: prod.splits sum.splits)

lemma min_head_le: "x \<in> set xs \<Longrightarrow> min_head xs \<le> in_head x"
  by (simp add: min_head_def)

lemma min_head_eq: "x \<in> set xs \<Longrightarrow> in_head x = m \<Longrightarrow> \<forall>y \<in> set xs. m \<le> in_head y \<Longrightarrow> min_head xs = m"
  unfolding min_head_def by (intro Min_eqI) auto

lemma min_head_in: "xs \<noteq> [] \<Longrightarrow> \<exists>x \<in> set xs. in_head x = min_head xs"
proof -
  assume "xs \<noteq> []"
  then have "Min (in_head ` set xs) \<in> in_head ` set xs" by (intro Min_in) simp_all
  then show ?thesis by (auto simp: min_head_def)
qed

lemma min_head_cong: "map in_head xs = map in_head ys \<Longrightarrow> min_head xs = min_head ys"
  by (simp add: min_head_def del: set_map)

lemma list_all2_map_eq: "list_all2 P xs ys \<Longrightarrow> (\<And>x y. P x y \<Longrightarrow> f x = f y) \<Longrightarrow> map f xs = map f ys"
  by (induction rule: list_all2_induct) auto

lemma list_all2_chain:
  "list_all2 P as bs \<Longrightarrow> list_all2 Q bs cs \<Longrightarrow>
     (\<And>a b c. b \<in> set bs \<Longrightarrow> P a b \<Longrightarrow> Q b c \<Longrightarrow> R a c) \<Longrightarrow> list_all2 R as cs"
  by (simp add: list_all2_conv_all_nth) (metis nth_mem)

lemma flush_inner_None:
  "flush_inner K e j x = (None, y) \<Longrightarrow>
     \<exists>s'. k_flush K (e j) (in_sink x) = (Inr (), s') \<and> y = x\<lparr>in_sink := s'\<rparr>"
  by (auto simp: flush_inner_def split: prod.splits sum.splits)

lemma align_inner_None:
  "align_inner K e low j x = (None, y) \<Longrightarrow>
     \<exists>s'. k_align K (e j) low (in_sink x) = (Inr (), s') \<and> y = x\<lparr>in_sink := s'\<rparr>"
  by (auto simp: align_inner_def split: prod.splits sum.splits)

lemma write_inner_None:
  "write_inner K e r j x = (None, y) \<Longrightarrow>
     (r_offset r < in_head x \<and> y = x) \<or> (in_head x \<le> r_offset r \<and>
       (\<exists>s'. k_write K (e j) r (in_sink x) = (Inr (), s')
          \<and> y = x\<lparr>in_sink := s', in_head := r_offset r + 1\<rparr>))"
  by (auto simp: write_inner_def split: prod.splits sum.splits if_splits)

locale tee_of = sink_contract +
  fixes apply_cache :: "krecord \<Rightarrow> 'c \<Rightarrow> 'c"
    and cache0 :: "'c option"
    and bases :: "(krecord list \<times> u64) list"
  assumes refuses: "1 < length bases \<Longrightarrow> accepts s log \<Longrightarrow> k_allows_compacted_source K s \<Longrightarrow>
      k_align K e low s = (Inr u, s') \<Longrightarrow> head s \<le> low"
begin

definition inner_rel :: "krecord list \<Rightarrow> u64 \<Rightarrow> krecord list \<times> u64 \<Rightarrow> 'a inner_sink \<Rightarrow> bool" where
  "inner_rel log pos b x =
     (accepts (in_sink x) (fst b @ filter (\<lambda>r. snd b \<le> r_offset r) log)
      \<and> head (in_sink x) = in_head x
      \<and> (in_head x = snd b \<or> snd b \<le> in_head x \<and> in_head x \<le> pos))"

definition tee_rel :: "('a, 'c) tee_sink \<Rightarrow> krecord list \<Rightarrow> bool" where
  "tee_rel t log = (te_inners t \<noteq> [] \<and> (te_resume_cursor t = None \<or> \<not> compacted)
     \<and> te_cache t = map_option (fold apply_cache log) cache0
     \<and> list_all2 (inner_rel log (tee_position t)) bases (te_inners t))"

lemma tee_relD:
  assumes "tee_rel t log" "x \<in> set (te_inners t)"
  shows "\<exists>b. inner_rel log (tee_position t) b x"
proof -
  obtain i where i: "i < length (te_inners t)" "x = te_inners t ! i"
    using assms(2) by (auto simp: in_set_conv_nth)
  then have "inner_rel log (tee_position t) (bases ! i) x"
    using assms(1) by (simp add: tee_rel_def list_all2_conv_all_nth)
  then show ?thesis by (rule exI)
qed

lemma tee_position_inner: "tee_position t \<le> min_head (te_inners t)"
  by (simp add: tee_position_def split: option.splits)

lemma tee_rel_inners:
  assumes "tee_rel t log" "map in_head xs = map in_head (te_inners t)"
    "list_all2 (\<lambda>x y. \<forall>lg. accepts (in_sink x) lg \<longrightarrow> head (in_sink x) = in_head x \<longrightarrow>
        accepts (in_sink y) lg \<and> head (in_sink y) = in_head y \<and> in_head y = in_head x) (te_inners t) xs"
  shows "tee_rel (t\<lparr>te_inners := xs\<rparr>) log \<and> tee_position (t\<lparr>te_inners := xs\<rparr>) = tee_position t"
proof -
  have pos: "tee_position (t\<lparr>te_inners := xs\<rparr>) = tee_position t"
    using min_head_cong [OF assms(2)] by (cases "te_resume_cursor t") (simp_all add: tee_position_def)
  have "xs \<noteq> []" using assms(1,2) by (auto simp: tee_rel_def)
  moreover have "list_all2 (inner_rel log (tee_position t)) bases xs"
  proof (rule list_all2_chain [OF _ assms(3)])
    show "list_all2 (inner_rel log (tee_position t)) bases (te_inners t)"
      using assms(1) by (simp add: tee_rel_def)
  qed (auto simp: inner_rel_def)
  ultimately show ?thesis using assms(1) pos by (simp add: tee_rel_def)
qed

lemma tee_next:
  assumes "tee_rel t log" "tee_next_expected_offset K e t = (Inr h, t')"
  shows "tee_rel t' log \<and> h = tee_position t' \<and> tee_position t' = tee_position t"
proof -
  obtain u xs where q: "requery K e 0 (te_inners t) = (Inr u, xs)" "t' = t\<lparr>te_inners := xs\<rparr>"
    "h = tee_position t'"
    using assms(2) by (auto simp: tee_next_expected_offset_def Let_def split: prod.splits sum.splits)
  note all = requery_Ok [OF q(1)]
  have rel: "list_all2 (\<lambda>x y. \<forall>lg. accepts (in_sink x) lg \<longrightarrow> head (in_sink x) = in_head x \<longrightarrow>
      accepts (in_sink y) lg \<and> head (in_sink y) = in_head y \<and> in_head y = in_head x) (te_inners t) xs"
    by (rule list_all2_mono [OF all]) (auto dest: next_law)
  have "map in_head (te_inners t) = map in_head xs"
  proof (rule nth_equalityI)
    show "length (map in_head (te_inners t)) = length (map in_head xs)"
      using list_all2_lengthD [OF rel] by simp
    fix i assume i: "i < length (map in_head (te_inners t))"
    then obtain b where "inner_rel log (tee_position t) b (te_inners t ! i)"
      using tee_relD [OF assms(1), of "te_inners t ! i"] by auto
    then show "map in_head (te_inners t) ! i = map in_head xs ! i"
      using rel i by (auto simp: list_all2_conv_all_nth inner_rel_def)
  qed
  then show ?thesis using tee_rel_inners [OF assms(1) _ rel] q(2,3) by simp
qed

lemma tee_flush_law:
  assumes "tee_rel t log" "tee_flush K e t = (Inr u, t')"
  shows "tee_rel t' log \<and> tee_position t' = tee_position t"
proof -
  obtain xs where q: "run_all (flush_inner K e) 0 (te_inners t) = (None, xs)" "t' = t\<lparr>te_inners := xs\<rparr>"
    using assms(2) by (auto simp: tee_flush_def split: prod.splits option.splits)
  note all = run_all_None [OF q(1)]
  have rel: "list_all2 (\<lambda>x y. \<forall>lg. accepts (in_sink x) lg \<longrightarrow> head (in_sink x) = in_head x \<longrightarrow>
      accepts (in_sink y) lg \<and> head (in_sink y) = in_head y \<and> in_head y = in_head x) (te_inners t) xs"
    by (rule list_all2_mono [OF all])
      (auto dest!: flush_inner_None dest: flush_law)
  have "map in_head (te_inners t) = map in_head xs"
    by (rule list_all2_map_eq [OF all]) (auto dest!: flush_inner_None)
  then show ?thesis using tee_rel_inners [OF assms(1) _ rel] q(2) by simp
qed

lemma tee_furthest_law:
  assumes "tee_rel t log" "tee_furthest_next_offset K e t = (Inr f, t')"
  shows "tee_rel t' log \<and> tee_position t' = tee_position t
    \<and> tee_position t \<le> unwrap_or f (tee_position t)"
proof -
  obtain g xs where q: "furthest_of K e 0 0 (te_inners t) = (Inr g, xs)" "t' = t\<lparr>te_inners := xs\<rparr>"
    "f = Some g"
    using assms(2) by (auto simp: tee_furthest_next_offset_def split: prod.splits sum.splits)
  have all: "list_all2 (\<lambda>x y. \<exists>j g' s'. k_furthest_next_offset K (e j) (in_sink x) = (Inr g', s')
      \<and> y = x\<lparr>in_sink := s'\<rparr> \<and> unwrap_or g' (in_head x) \<le> g) (te_inners t) xs"
    using furthest_of_Ok [OF q(1)] by blast
  have rel: "list_all2 (\<lambda>x y. \<forall>lg. accepts (in_sink x) lg \<longrightarrow> head (in_sink x) = in_head x \<longrightarrow>
      accepts (in_sink y) lg \<and> head (in_sink y) = in_head y \<and> in_head y = in_head x) (te_inners t) xs"
    by (rule list_all2_mono [OF all]) (auto dest: furthest_law)
  have "map in_head (te_inners t) = map in_head xs"
    by (rule list_all2_map_eq [OF all]) auto
  then have main: "tee_rel t' log \<and> tee_position t' = tee_position t"
    using tee_rel_inners [OF assms(1) _ rel] q(2) by simp
  obtain x where x: "x \<in> set (te_inners t)" "in_head x = min_head (te_inners t)"
    using min_head_in assms(1) by (auto simp: tee_rel_def)
  then obtain j g' s' b where k: "k_furthest_next_offset K (e j) (in_sink x) = (Inr g', s')"
    "unwrap_or g' (in_head x) \<le> g" "inner_rel log (tee_position t) b x"
    using all tee_relD [OF assms(1) x(1)] by (fastforce simp: list_all2_conv_all_nth in_set_conv_nth)
  then have "in_head x \<le> unwrap_or g' (in_head x)"
    using furthest_law [of "in_sink x"] by (auto simp: inner_rel_def)
  then have "tee_position t \<le> g" using k(2) x(2) tee_position_inner [of t] by simp
  then show ?thesis using main q(3) by simp
qed

lemma tee_position_advance:
  assumes "tee_position t \<le> off" "off \<noteq> u64_max"
    "\<forall>x \<in> set xs. off + 1 \<le> in_head x" "te_resume_cursor t = None \<longrightarrow> (\<exists>x \<in> set xs. in_head x = off + 1)"
    "\<forall>c. te_resume_cursor t = Some c \<longrightarrow> c \<le> off \<or> (\<exists>x \<in> set xs. in_head x = off + 1)"
    "xs \<noteq> []"
  shows "tee_position (advance_resume_cursor off (t\<lparr>te_inners := xs\<rparr>)) = off + 1"
proof -
  have lo: "off + 1 \<le> min_head xs"
    using assms(3) min_head_in [OF assms(6)] by force
  have eq: "min_head xs = off + 1" if "\<exists>x \<in> set xs. in_head x = off + 1"
    using that assms(3) min_head_eq by blast
  show ?thesis
  proof (cases "te_resume_cursor t")
    case None
    then show ?thesis using eq assms(4) by (simp add: tee_position_def advance_resume_cursor_def)
  next
    case (Some c)
    have "min (min_head xs) (max c (off + 1)) = off + 1"
    proof (cases "c \<le> off")
      case True
      then have "c \<le> off + 1" using lt_succ [OF assms(2)] by simp
      then show ?thesis using lo by (simp add: max_absorb2 min_absorb2)
    next
      case False
      then have "min_head xs = off + 1" using assms(5) Some eq by blast
      moreover have "off + 1 \<le> c" using False by (simp add: inc_le)
      ultimately show ?thesis by (simp add: max_absorb1 min_absorb1)
    qed
    then show ?thesis using Some by (simp add: tee_position_def advance_resume_cursor_def)
  qed
qed

text \<open>What one record does to the relation of one inner sink, written or skipped.\<close>

lemma inner_rel_write:
  assumes "inner_rel log pos b x" "pos \<le> r_offset r" "r_offset r \<noteq> u64_max"
    "write_inner K e r j x = (None, y)"
  shows "inner_rel (log @ [r]) (r_offset r + 1) b y \<and> r_offset r + 1 \<le> in_head y
    \<and> (in_head x \<le> r_offset r \<longrightarrow> in_head y = r_offset r + 1)"
  using write_inner_None [OF assms(4)]
proof
  assume skip: "r_offset r < in_head x \<and> y = x"
  then have "in_head x = snd b" using assms(1,2) by (auto simp: inner_rel_def)
  then show ?thesis using assms(1) skip by (auto simp: inner_rel_def inc_le)
next
  assume "in_head x \<le> r_offset r \<and> (\<exists>s'. k_write K (e j) r (in_sink x) = (Inr (), s')
      \<and> y = x\<lparr>in_sink := s', in_head := r_offset r + 1\<rparr>)"
  then obtain s' where w: "in_head x \<le> r_offset r" "k_write K (e j) r (in_sink x) = (Inr (), s')"
    "y = x\<lparr>in_sink := s', in_head := r_offset r + 1\<rparr>" by blast
  have x: "accepts (in_sink x) (fst b @ filter (\<lambda>r. snd b \<le> r_offset r) log)"
    "head (in_sink x) \<le> r_offset r"
    using assms(1) w(1) by (simp_all add: inner_rel_def)
  note write_law [OF x assms(3) w(2)]
  moreover have "snd b \<le> in_head x" using assms(1) by (auto simp: inner_rel_def)
  then have "snd b \<le> r_offset r" "snd b \<le> r_offset r + 1"
    using w(1) lt_succ [OF assms(3)] by (auto intro: order_trans less_imp_le)
  ultimately show ?thesis using w by (simp add: inner_rel_def)
qed

lemma inner_rel_skip:
  assumes "inner_rel log pos b x" "pos \<le> r_offset r" "r_offset r < in_head x" "r_offset r \<noteq> u64_max"
  shows "inner_rel (log @ [r]) (r_offset r + 1) b x"
proof -
  have "write_inner K (\<lambda>_. undefined) r 0 x = (None, x)"
    using assms(3) by (simp add: write_inner_def not_le [symmetric])
  from inner_rel_write [OF assms(1,2,4) this] show ?thesis by simp
qed

lemma tee_write_law:
  assumes "tee_rel t log" "tee_position t \<le> r_offset r" "r_offset r \<noteq> u64_max"
    "tee_write K apply_cache e r t = (Inr u, t')"
  shows "tee_rel t' (log @ [r]) \<and> tee_position t' = r_offset r + 1"
proof -
  let ?off = "r_offset r"
  define t1 where "t1 = t\<lparr>te_cache := map_option (apply_cache r) (te_cache t)\<rparr>"
  have rel: "list_all2 (inner_rel log (tee_position t)) bases (te_inners t)"
    and ne: "te_inners t \<noteq> []" and cur: "te_resume_cursor t = None \<or> \<not> compacted"
    using assms(1) by (auto simp: tee_rel_def)
  have cur': "te_resume_cursor (advance_resume_cursor ?off (t1\<lparr>te_inners := xs\<rparr>)) = None
      \<or> \<not> compacted" for xs
    using cur by (auto simp: advance_resume_cursor_def t1_def split: option.splits)
  have cache: "te_cache (advance_resume_cursor ?off (t1\<lparr>te_inners := xs\<rparr>)) =
      map_option (fold apply_cache (log @ [r])) cache0" for xs
  proof -
    have "te_cache t = map_option (fold apply_cache log) cache0" using assms(1) by (simp add: tee_rel_def)
    then have "te_cache t1 = map_option (fold apply_cache (log @ [r])) cache0"
      by (simp add: t1_def option.map_comp o_def)
    then show ?thesis by (simp add: advance_resume_cursor_def split: option.splits)
  qed
  have inn: "te_inners (advance_resume_cursor ?off (t1\<lparr>te_inners := xs\<rparr>)) = xs" for xs
    by (simp add: advance_resume_cursor_def split: option.splits)
  have pos1: "tee_position t1 = tee_position t"
    by (cases "te_resume_cursor t") (simp_all add: t1_def tee_position_def)
  show ?thesis
  proof (cases "list_ex (\<lambda>x. in_head x \<le> ?off) (te_inners t)")
    case False
    then have above: "\<forall>x \<in> set (te_inners t). ?off < in_head x"
      by (auto simp: list_ex_iff not_le)
    then have mh: "?off < min_head (te_inners t)" using min_head_in [OF ne] by force
    then obtain c where c: "te_resume_cursor t = Some c" "c \<le> ?off"
      using assms(2) by (auto simp: tee_position_def min_def split: option.splits if_splits)
    have t': "t' = advance_resume_cursor ?off (t1\<lparr>te_inners := te_inners t\<rparr>)"
      using assms(4) False by (simp add: tee_write_def t1_def Let_def)
    have "tee_position t' = ?off + 1"
      unfolding t'
    proof (rule tee_position_advance)
      show "tee_position t1 \<le> ?off" using assms(2) pos1 by simp
      show "\<forall>x \<in> set (te_inners t). ?off + 1 \<le> in_head x" using above by (simp add: inc_le)
    qed (use c ne assms(3) in \<open>simp_all add: t1_def\<close>)
    moreover have "list_all2 (inner_rel (log @ [r]) (?off + 1)) bases (te_inners t)"
      using rel above inner_rel_skip [OF _ assms(2) _ assms(3)]
      by (auto simp: list_all2_conv_all_nth)
    ultimately show ?thesis using ne cur' inn cache by (simp add: tee_rel_def t')
  next
    case True
    obtain xs where q: "run_all (write_inner K e r) 0 (te_inners t) = (None, xs)"
      "t' = advance_resume_cursor ?off (t1\<lparr>te_inners := xs\<rparr>)"
      using assms(4) True by (auto simp: tee_write_def t1_def Let_def split: prod.splits option.splits)
    note all = run_all_None [OF q(1)]
    have new: "list_all2 (\<lambda>b y. inner_rel (log @ [r]) (?off + 1) b y \<and> ?off + 1 \<le> in_head y) bases xs"
      by (rule list_all2_chain [OF rel all]) (use inner_rel_write [OF _ assms(2,3)] in blast)
    then have hi: "\<forall>y \<in> set xs. ?off + 1 \<le> in_head y"
      by (auto simp: list_all2_conv_all_nth in_set_conv_nth)
    obtain i where i: "i < length (te_inners t)" "in_head (te_inners t ! i) \<le> ?off"
      using True by (auto simp: list_ex_iff in_set_conv_nth)
    have "inner_rel log (tee_position t) (bases ! i) (te_inners t ! i)"
      using list_all2_nthD2 [OF rel i(1)] .
    moreover obtain j where "write_inner K e r j (te_inners t ! i) = (None, xs ! i)"
      using list_all2_nthD [OF all i(1)] by blast
    ultimately have "in_head (xs ! i) = ?off + 1"
      using inner_rel_write [OF _ assms(2,3)] i(2) by blast
    moreover have "i < length xs" using list_all2_lengthD [OF all] i(1) by simp
    ultimately have eq: "\<exists>y \<in> set xs. in_head y = ?off + 1" by (meson nth_mem)
    then have "xs \<noteq> []" by auto
    have "tee_position t' = ?off + 1"
      unfolding q(2)
    proof (rule tee_position_advance)
      show "tee_position t1 \<le> ?off" using assms(2) pos1 by simp
    qed (use assms(3) hi eq \<open>xs \<noteq> []\<close> in blast)+
    moreover have "list_all2 (inner_rel (log @ [r]) (?off + 1)) bases xs"
      by (rule list_all2_mono [OF new]) simp
    ultimately show ?thesis using \<open>xs \<noteq> []\<close> cur' inn cache by (simp add: tee_rel_def q(2))
  qed
qed

lemma tee_align_law:
  assumes "tee_rel t log" "tee_allows_compacted_source K t" "tee_position t \<le> low"
    "tee_align K e low t = (Inr u, t')"
  shows "tee_rel t' log \<and> tee_position t' = low"
proof -
  have rel: "list_all2 (inner_rel log (tee_position t)) bases (te_inners t)"
    and ne: "te_inners t \<noteq> []"
    using assms(1) by (auto simp: tee_rel_def)
  have allows: "\<forall>x \<in> set (te_inners t). k_allows_compacted_source K (in_sink x)"
    using assms(2) by (simp add: tee_allows_compacted_source_def list_all_iff)
  then have "compacted"
    using ne tee_relD [OF assms(1)] compacted_law
    by (metis inner_rel_def list.set_intros(1) neq_Nil_conv)
  then have cur: "te_resume_cursor t = None" using assms(1) unfolding tee_rel_def by blast
  obtain xs where q: "run_all (align_inner K e low) 0 (te_inners t) = (None, xs)"
    "t' = t\<lparr>te_inners := map (\<lambda>x. x\<lparr>in_head := low\<rparr>) xs\<rparr>"
    using assms(4) by (auto simp: tee_align_def split: prod.splits option.splits)
  note all = run_all_None [OF q(1)]
  have len: "length xs = length (te_inners t)" using list_all2_lengthD [OF all] by simp
  have above: "in_head x \<le> low"
    if x: "x \<in> set (te_inners t)" "inner_rel log (tee_position t) b x"
      "k_align K (e j) low (in_sink x) = (Inr (), s')" for b x j s'
  proof (cases "1 < length bases")
    case True
    then show ?thesis
      using refuses [of "in_sink x" _ "e j" low "()" s'] x allows by (auto simp: inner_rel_def)
  next
    case False
    then have "te_inners t = [x]"
      using list_all2_lengthD [OF rel] x(1) by (cases "te_inners t") auto
    then show ?thesis using assms(3) cur by (simp add: tee_position_def min_head_def)
  qed
  have each: "inner_rel log low b (y\<lparr>in_head := low\<rparr>)"
    if prems: "x \<in> set (te_inners t)" "inner_rel log (tee_position t) b x"
      "\<exists>j. align_inner K e low j x = (None, y)" for b x y
  proof -
    obtain j s' where s': "k_align K (e j) low (in_sink x) = (Inr (), s')" "y = x\<lparr>in_sink := s'\<rparr>"
      using prems(3) align_inner_None by blast
    have le: "in_head x \<le> low" by (rule above [OF prems(1,2) s'(1)])
    have "accepts s' (fst b @ filter (\<lambda>r. snd b \<le> r_offset r) log) \<and> head s' = low"
      using align_law [of "in_sink x" _ low "e j" "()" s'] prems(1,2) allows s'(1) le
      by (auto simp: inner_rel_def)
    then show ?thesis using prems(2) s'(2) le by (auto simp: inner_rel_def)
  qed
  have "list_all2 (\<lambda>b y. inner_rel log low b (y\<lparr>in_head := low\<rparr>)) bases xs"
    by (rule list_all2_chain [OF rel all]) (use each in blast)
  then have new: "list_all2 (inner_rel log low) bases (map (\<lambda>x. x\<lparr>in_head := low\<rparr>) xs)"
    by (simp add: list_all2_map2)
  have "xs \<noteq> []" using len ne by auto
  then have "min_head (map (\<lambda>x. x\<lparr>in_head := low\<rparr>) xs) = low"
    by (intro min_head_eq [of "(hd xs)\<lparr>in_head := low\<rparr>"]) auto
  then have "tee_position t' = low" using cur q(2) by (simp add: tee_position_def)
  then show ?thesis using new \<open>xs \<noteq> []\<close> cur q(2) assms(1) by (simp add: tee_rel_def)
qed

text \<open>A tee that was just opened, with or without a resume floor.\<close>

lemma query_heads_Ok:
  "query_heads K e i sinks = Inr xs \<Longrightarrow>
     list_all2 (\<lambda>b s. accepts (snd s) (fst b) \<and> head (snd s) = snd b) bs sinks \<Longrightarrow>
     list_all2 (\<lambda>b x. accepts (in_sink x) (fst b) \<and> head (in_sink x) = in_head x \<and> in_head x = snd b) bs xs"
proof (induction sinks arbitrary: i bs xs)
  case (Cons s sinks)
  obtain h sink' ys where q: "k_next_expected_offset K (e i) (snd s) = (Inr h, sink')"
    "query_heads K e (Suc i) sinks = Inr ys"
    "xs = \<lparr>in_name = fst s, in_sink = sink', in_head = h\<rparr> # ys"
    using Cons.prems(1) by (cases s) (auto split: prod.splits sum.splits)
  obtain b bs' where b: "bs = b # bs'" "accepts (snd s) (fst b)" "head (snd s) = snd b"
    "list_all2 (\<lambda>b s. accepts (snd s) (fst b) \<and> head (snd s) = snd b) bs' sinks"
    using Cons.prems(2) by (cases bs) auto
  show ?case using Cons.IH [OF q(2) b(4)] next_law [OF b(2) q(1)] b(1,3) q(3) by simp
qed auto

lemma tee_open_rel:
  assumes "tee_open K e sinks cache0 = Inr t"
    "list_all2 (\<lambda>b s. accepts (snd s) (fst b) \<and> head (snd s) = snd b) bases sinks"
  shows "tee_rel t [] \<and> (\<not> compacted \<longrightarrow> tee_rel (set_resume_floor fl t) [])"
proof -
  obtain xs where xs: "sinks \<noteq> []" "query_heads K e 0 sinks = Inr xs"
    "t = \<lparr>te_inners = xs, te_cache = cache0, te_resume_cursor = None\<rparr>"
    using assms(1) by (auto simp: tee_open_def split: if_splits sum.splits)
  note rel = query_heads_Ok [OF xs(2) assms(2)]
  have "xs \<noteq> []" using xs(1) list_all2_lengthD [OF rel] list_all2_lengthD [OF assms(2)] by auto
  moreover have "list_all2 (inner_rel [] pos) bases xs" for pos
    by (rule list_all2_mono [OF rel]) (simp add: inner_rel_def)
  moreover have "map_option (fold apply_cache []) cache0 = cache0" by (cases cache0) simp_all
  ultimately show ?thesis
    unfolding tee_rel_def xs(3) set_resume_floor_def by auto
qed

end

sublocale tee_of \<subseteq> tee: sink_contract "tee_ops K apply_cache" tee_rel tee_position compacted
proof
  fix t t' log e h f r low and u :: unit
  show "tee_rel t log \<Longrightarrow> k_allows_compacted_source (tee_ops K apply_cache) t = compacted"
    using tee_relD [of t log] compacted_law
    by (auto simp: tee_ops_def tee_allows_compacted_source_def list_all_iff tee_rel_def
        inner_rel_def) (metis neq_Nil_conv list.set_intros(1))+
  show "tee_rel t log \<Longrightarrow> k_next_expected_offset (tee_ops K apply_cache) e t = (Inr h, t') \<Longrightarrow>
      tee_rel t' log \<and> h = tee_position t' \<and> tee_position t' = tee_position t"
    using tee_next [of t log e h t'] by (simp add: tee_ops_def)
  show "tee_rel t log \<Longrightarrow> k_furthest_next_offset (tee_ops K apply_cache) e t = (Inr f, t') \<Longrightarrow>
      tee_rel t' log \<and> tee_position t' = tee_position t
      \<and> tee_position t \<le> unwrap_or f (tee_position t)"
    using tee_furthest_law [of t log e f t'] by (simp add: tee_ops_def)
  show "tee_rel t log \<Longrightarrow> tee_position t \<le> r_offset r \<Longrightarrow> r_offset r \<noteq> u64_max \<Longrightarrow>
      k_write (tee_ops K apply_cache) e r t = (Inr u, t') \<Longrightarrow>
      tee_rel t' (log @ [r]) \<and> tee_position t' = r_offset r + 1"
    using tee_write_law [of t log r e u t'] by (simp add: tee_ops_def)
  show "tee_rel t log \<Longrightarrow> k_flush (tee_ops K apply_cache) e t = (Inr u, t') \<Longrightarrow>
      tee_rel t' log \<and> tee_position t' = tee_position t"
    using tee_flush_law [of t log e u t'] by (simp add: tee_ops_def)
  show "tee_rel t log \<Longrightarrow> k_allows_compacted_source (tee_ops K apply_cache) t \<Longrightarrow>
      tee_position t \<le> low \<Longrightarrow> k_align (tee_ops K apply_cache) e low t = (Inr u, t') \<Longrightarrow>
      tee_rel t' log \<and> tee_position t' = low"
    using tee_align_law [of t log low e u t'] by (simp add: tee_ops_def)
qed

context tee_of
begin

text \<open>A whole run over a freshly opened tee.\<close>

lemma tee_run:
  assumes "tee_open K e0 sinks cache0 = Inr t0"
    and "list_all2 (\<lambda>b s. accepts (snd s) (fst b) \<and> head (snd s) = snd b) bases sinks"
    and "t = t0 \<or> (\<not> compacted \<and> t = set_resume_floor fl t0)"
    and "start_mirror (tee_ops K apply_cache) S e source t n = Inr st"
    and "run_loop (tee_ops K apply_cache) S N evs st = (res, st', rs)"
    and "intact res"
  shows "list_all2 (\<lambda>b x. accepts (in_sink x) (fst b @ filter (\<lambda>r. snd b \<le> r_offset r) rs))
      bases (te_inners (lp_sink st'))
    \<and> te_cache (lp_sink st') = map_option (fold apply_cache rs) cache0"
proof -
  have "tee_rel t []" using tee_open_rel [OF assms(1,2)] assms(3) by auto
  from tee.mirror_run [OF this assms(4,5)] assms(6) have rel: "tee_rel (lp_sink st') rs" by simp
  have "list_all2 (inner_rel rs (tee_position (lp_sink st'))) bases (te_inners (lp_sink st'))"
    using rel unfolding tee_rel_def by blast
  then have "list_all2 (\<lambda>b x. accepts (in_sink x) (fst b @ filter (\<lambda>r. snd b \<le> r_offset r) rs))
      bases (te_inners (lp_sink st'))"
    by (rule list_all2_mono) (simp add: inner_rel_def)
  then show ?thesis using rel unfolding tee_rel_def by blast
qed

end

interpretation fs_tee: tee_of "blob_ops fs_store cd" "append_accepts cd" buffered_head False
    apply_cache cache0 bases for cd apply_cache cache0 bases
  by unfold_locales (simp add: fs_sink.compacted_law)

interpretation kafka_tee: tee_of "kafka_ops json_ok B" "kafka_accepts B end_of messages base"
    "\<lambda>s. end_of (ks_partition s)" False apply_cache cache0 bases
  for json_ok B end_of messages base apply_cache cache0 bases
  by unfold_locales (simp add: kafka_dest.compacted_law)

section \<open>Destinations of two kinds\<close>

text \<open>
  \<open>Box<dyn Sink>\<close>: a call goes to the operations of the sink that is in the box, with that sink's part
  of the environment.
\<close>

definition lift_call :: "('s \<Rightarrow> 't) \<Rightarrow> 'r \<times> 's \<Rightarrow> 'r \<times> 't" where
  "lift_call f p = (fst p, f (snd p))"

definition dyn_ops ::
    "('s, 'e) sink_ops \<Rightarrow> ('t, 'd) sink_ops \<Rightarrow> ('s + 't, 'e \<times> 'd) sink_ops" where
  "dyn_ops K1 K2 = \<lparr>
     k_next_expected_offset = (\<lambda>e s. case s of
         Inl a \<Rightarrow> lift_call Inl (k_next_expected_offset K1 (fst e) a)
       | Inr b \<Rightarrow> lift_call Inr (k_next_expected_offset K2 (snd e) b)),
     k_furthest_next_offset = (\<lambda>e s. case s of
         Inl a \<Rightarrow> lift_call Inl (k_furthest_next_offset K1 (fst e) a)
       | Inr b \<Rightarrow> lift_call Inr (k_furthest_next_offset K2 (snd e) b)),
     k_write = (\<lambda>e r s. case s of
         Inl a \<Rightarrow> lift_call Inl (k_write K1 (fst e) r a)
       | Inr b \<Rightarrow> lift_call Inr (k_write K2 (snd e) r b)),
     k_flush = (\<lambda>e s. case s of
         Inl a \<Rightarrow> lift_call Inl (k_flush K1 (fst e) a)
       | Inr b \<Rightarrow> lift_call Inr (k_flush K2 (snd e) b)),
     k_align = (\<lambda>e low s. case s of
         Inl a \<Rightarrow> lift_call Inl (k_align K1 (fst e) low a)
       | Inr b \<Rightarrow> lift_call Inr (k_align K2 (snd e) low b)),
     k_allows_compacted_source = case_sum (k_allows_compacted_source K1) (k_allows_compacted_source K2),
     k_allows_offset_holes = case_sum (k_allows_offset_holes K1) (k_allows_offset_holes K2)\<rparr>"

lemma lift_call_eq:
  "(lift_call f p = (r, t)) = (\<exists>s. p = (r, s) \<and> t = f s)"
  by (cases p) (auto simp: lift_call_def)

locale two_sinks =
  first: sink_contract K1 accepts1 head1 compacted +
  second: sink_contract K2 accepts2 head2 compacted
  for K1 :: "('s, 'e) sink_ops" and accepts1 head1
    and K2 :: "('t, 'd) sink_ops" and accepts2 head2 and compacted

sublocale two_sinks \<subseteq> either: sink_contract "dyn_ops K1 K2" "case_sum accepts1 accepts2"
    "case_sum head1 head2" compacted
proof
  fix s s' :: "'s + 't" and log e h f r low and u :: unit
  let ?acc = "case_sum accepts1 accepts2" and ?head = "case_sum head1 head2"
  show "?acc s log \<Longrightarrow> k_allows_compacted_source (dyn_ops K1 K2) s = compacted"
    by (cases s) (simp_all add: dyn_ops_def first.compacted_law second.compacted_law)
  show "?acc s log \<Longrightarrow> k_next_expected_offset (dyn_ops K1 K2) e s = (Inr h, s') \<Longrightarrow>
      ?acc s' log \<and> h = ?head s' \<and> ?head s' = ?head s"
    by (cases s) (auto simp: dyn_ops_def lift_call_eq dest: first.next_law second.next_law)
  show "?acc s log \<Longrightarrow> k_furthest_next_offset (dyn_ops K1 K2) e s = (Inr f, s') \<Longrightarrow>
      ?acc s' log \<and> ?head s' = ?head s \<and> ?head s \<le> unwrap_or f (?head s)"
    by (cases s) (auto simp: dyn_ops_def lift_call_eq dest: first.furthest_law second.furthest_law)
  show "?acc s log \<Longrightarrow> ?head s \<le> r_offset r \<Longrightarrow> r_offset r \<noteq> u64_max \<Longrightarrow>
      k_write (dyn_ops K1 K2) e r s = (Inr u, s') \<Longrightarrow> ?acc s' (log @ [r]) \<and> ?head s' = r_offset r + 1"
    by (cases s) (auto simp: dyn_ops_def lift_call_eq dest: first.write_law second.write_law)
  show "?acc s log \<Longrightarrow> k_flush (dyn_ops K1 K2) e s = (Inr u, s') \<Longrightarrow> ?acc s' log \<and> ?head s' = ?head s"
    by (cases s) (auto simp: dyn_ops_def lift_call_eq dest: first.flush_law second.flush_law)
  show "?acc s' log \<and> ?head s' = low"
    if prems: "?acc s log" "k_allows_compacted_source (dyn_ops K1 K2) s" "?head s \<le> low"
      "k_align (dyn_ops K1 K2) e low s = (Inr u, s')"
  proof (cases s)
    case (Inl a)
    then obtain a' where "k_align K1 (fst e) low a = (Inr u, a')" "s' = Inl a'"
      using prems(4) by (auto simp: dyn_ops_def lift_call_eq)
    then show ?thesis using first.align_law [of a log low "fst e" u a'] prems Inl by (simp add: dyn_ops_def)
  next
    case (Inr b)
    then obtain b' where "k_align K2 (snd e) low b = (Inr u, b')" "s' = Inr b'"
      using prems(4) by (auto simp: dyn_ops_def lift_call_eq)
    then show ?thesis using second.align_law [of b log low "snd e" u b'] prems Inr by (simp add: dyn_ops_def)
  qed
qed

text \<open>A filesystem directory and a Kafka topic, and a tee over any number of either.\<close>

interpretation fs_or_kafka: two_sinks "blob_ops fs_store cd" "append_accepts cd" buffered_head
    "kafka_ops json_ok B" "kafka_accepts B end_of messages base" "\<lambda>s. end_of (ks_partition s)" False
  for cd json_ok B end_of messages base
  by unfold_locales

interpretation mixed_tee: tee_of "dyn_ops (blob_ops fs_store cd) (kafka_ops json_ok B)"
    "case_sum (append_accepts cd) (kafka_accepts B end_of messages base)"
    "case_sum buffered_head (\<lambda>s. end_of (ks_partition s))" False apply_cache cache0 bases
  for cd json_ok B end_of messages base apply_cache cache0 bases
  by unfold_locales (simp add: fs_or_kafka.either.compacted_law)

end
