(* ===== verification/Fixtures.thy ===== *)
theory Fixtures
  imports Tee_Contract
begin

text \<open>
  Concrete inputs for the witnesses: a partition whose record at offset \<open>n\<close> is \<open>demo_rec n\<close>, a codec
  for such records, destinations and environments.  The codec keeps the promise the development makes
  about \<open>mirror_envelope\<close>: it encodes a batch only when it can decode it.
\<close>

section \<open>Records and a codec\<close>

definition demo_rec :: "nat \<Rightarrow> krecord" where
  "demo_rec n = \<lparr>r_topic = ''orders'', r_partition = 0, r_offset = of_nat n,
     r_timestamp_ms = Some 1700000000000, r_timestamp_type = CreateTime,
     r_key = Some [107], r_value = Some [of_nat n],
     r_headers = [\<lparr>h_key = ''h'', h_value = None\<rparr>]\<rparr>"

definition demo_decode :: "bytes \<Rightarrow> krecord list" where
  "demo_decode b = map (\<lambda>x. demo_rec (unat x)) b"

definition demo_encode :: "krecord list \<Rightarrow> unit + bytes" where
  "demo_encode rs =
     (let b = map (\<lambda>r. of_nat (unat (r_offset r))) rs
      in if demo_decode b = rs then Inr b else Inl ())"

definition demo_codec :: codec where
  "demo_codec = \<lparr>cd_encode = (\<lambda>fmt c k v rs. demo_encode rs),
     cd_encode_encrypted = (\<lambda>rs c k v key. demo_encode rs),
     cd_decode = (\<lambda>fmt b. Inr (demo_decode b)),
     cd_decode_encrypted = (\<lambda>b key. Inr (demo_decode b))\<rparr>"

lemma demo_codec_ok: "codec_ok demo_codec"
  by (auto simp: codec_ok_def demo_codec_def demo_encode_def Let_def split: if_splits)

section \<open>Destinations\<close>

text \<open>Append mode, plain NDJSON, a flush after every second record.\<close>

definition demo_spec :: "compaction_mode option \<Rightarrow> blob_spec" where
  "demo_spec mode = \<lparr>bs_format = Ndjson, bs_compression = Zstd3, bs_keys = CT_Utf8,
     bs_values = CT_Bytes, bs_compaction = mode,
     bs_flush = \<lparr>ft_max_time = 100, ft_max_bytes = 1000000, ft_max_offsets = 2,
       ft_daily_at_utc_seconds = None\<rparr>,
     bs_encryption = None\<rparr>"

definition demo_fs :: "string \<Rightarrow> fs_env" where
  "demo_fs uuid = \<lparr>fs_read_dir_ok = True, fs_entry_ok = True, fs_read_ok = True, fs_uuid = uuid,
     fs_create_ok = True, fs_write_ok = True, fs_written = 0, fs_sync_ok = True,
     fs_rename_ok = True, fs_remove_ok = True\<rparr>"

text \<open>The rename fails, and so does the removal of the temporary file.\<close>

definition demo_fs_bad :: "string \<Rightarrow> fs_env" where
  "demo_fs_bad uuid = (demo_fs uuid)\<lparr>fs_rename_ok := False, fs_remove_ok := False\<rparr>"

definition demo_env :: "'e \<Rightarrow> 'e sink_env" where
  "demo_env e = \<lparr>se_unix1 = 0, se_unix2 = 0, se_now_push = 0, se_now_flush = 0, se_now_drift = 0,
     se_now_checked = 0, se_daily_put = e, se_flush_put = e, se_drift_list = e\<rparr>"

definition demo_sink :: "fs_dir \<Rightarrow> compaction_mode option \<Rightarrow> fs_dir blob_sink" where
  "demo_sink dir mode = \<lparr>sk_store = dir, sk_spec = demo_spec mode, sk_durable_position = 0,
     sk_buffer = [], sk_buffer_bytes = 0, sk_buffer_started = None,
     sk_view = (case mode of None \<Rightarrow> None | Some _ \<Rightarrow> Some []),
     sk_next_daily_unix = None, sk_flush_observer = None, sk_tail = [],
     sk_last_drift_check = 0, sk_drift_check_interval = 60\<rparr>"

lemma demo_sink_inv: "sink_inv demo_codec fs_objects fs_ok (demo_sink (Some []) None) []"
  by (rule sink_invI [where bs = "[]" and rs = "[]"])
    (simp_all add: demo_sink_def demo_spec_def append_spec_def keys_ok_def chain_state_def ids_ok_def objects_exact_def
      fs_ok_def fs_objects_def entry_objects_def im_ok_def last_two_def fun_eq_iff)

lemma demo_accepts: "append_accepts demo_codec (demo_sink (Some []) None) []"
  by (simp add: append_accepts_def append_inv_def demo_codec_ok demo_sink_inv)

lemma demo_log_inv: "log_inv demo_codec fs_objects fs_ok (demo_sink (Some []) (Some CLog)) []"
  by (rule log_invI [where v = "[]" and bs = "[]" and rs = "[]"])
    (simp_all add: demo_codec_ok demo_sink_def demo_spec_def log_spec_def keys_ok_def log_state_def
      ids_ok_def separated_def chain_end_def view_log_Nil
      fs_ok_def fs_objects_def entry_objects_def im_ok_def last_two_def fun_eq_iff)

lemma demo_log_accepts: "log_accepts demo_codec (demo_sink (Some []) (Some CLog)) []"
  by (simp add: log_accepts_def demo_log_inv)

section \<open>Sources, brokers and events\<close>

text \<open>A source partition: low and high watermark, and what the next polls deliver.\<close>

record demo_src =
  ds_low :: u64
  ds_high :: u64
  ds_polls :: "krecord list"

definition demo_source :: "(demo_src, unit) source_ops" where
  "demo_source = \<lparr>
     s_seek = (\<lambda>d n s. (Ok (), s)),
     s_poll_one = (\<lambda>d s. case ds_polls s of
         [] \<Rightarrow> (Ok None, s) | r # rs \<Rightarrow> (Ok (Some r), s\<lparr>ds_polls := rs\<rparr>)),
     s_low_watermark = (\<lambda>d s. (Ok (ds_low s), s)),
     s_high_watermark = (\<lambda>d s. (Ok (ds_high s), s))\<rparr>"

definition demo_src :: "u64 \<Rightarrow> u64 \<Rightarrow> nat list \<Rightarrow> demo_src" where
  "demo_src low high polls = \<lparr>ds_low = low, ds_high = high, ds_polls = map demo_rec polls\<rparr>"

definition demo_start :: "'e \<Rightarrow> ('e, unit) start_env" where
  "demo_start e = \<lparr>ste_next = e, ste_low = (), ste_high = (), ste_furthest = e, ste_align = e,
     ste_seek = ()\<rparr>"

text \<open>A destination partition that starts at offset 0 and takes every message.\<close>

definition demo_broker :: "(kmessage list, unit) broker" where
  "demo_broker = \<lparr>br_high_watermark = (\<lambda>e b. Inr (of_nat (length b))),
     br_send = (\<lambda>e m b. (Inr (of_nat (length b)), b @ [m]))\<rparr>"

definition demo_end :: "kmessage list \<Rightarrow> u64" where
  "demo_end b = of_nat (length b)"

lemma demo_broker_ok: "broker_ok demo_broker demo_end (\<lambda>b. b)"
  by (auto simp: broker_ok_def demo_broker_def demo_end_def intro!: exI [of _ "[]"])

definition demo_topic :: "kmessage list kafka_sink" where
  "demo_topic = \<lparr>ks_topic = ''copy'', ks_partition = [], ks_timestamp_mode = TmSource, ks_keys = CT_Utf8,
     ks_values = CT_Bytes, ks_write_observer = None\<rparr>"

lemma demo_kafka_accepts: "kafka_accepts demo_broker demo_end (\<lambda>b. b) (\<lambda>t. []) demo_topic []"
  by (simp add: kafka_accepts_def demo_broker_ok demo_topic_def)

end
