(* ===== verification/Props_Destination.thy ===== *)
theory Props_Destination
  imports Fixtures
begin

text \<open>
  The properties of the blob destinations: names, chains, the append-mode sink across restarts over the
  filesystem store, and the compaction view, each with a witness on a concrete directory.
\<close>

section \<open>Names and chains\<close>

text \<open>
  C23: parsing the name of an object returns the offsets and the key id it was built from, for either
  format and with or without an encryption key.
\<close>

theorem blob_name_roundtrip:
  assumes "\<And>kid. k = Some kid \<Longrightarrow> is_key_id kid"
  shows "parse_blob_name (blob_filename from to k (extension fmt)) (extension fmt) =
    Some \<lparr>bn_from = from, bn_to = to, bn_key_id = k\<rparr>"
  by (rule parse_blob_filename) (rule assms)

theorem blob_name_roundtrip_witness:
  "blob_filename 7 12 (Some ''k1'') (extension Parquet) =
      ''00000000000000000007-00000000000000000012.k-k1.parquet''
   \<and> parse_blob_name (blob_filename 7 12 (Some ''k1'') (extension Parquet)) (extension Parquet) =
      Some \<lparr>bn_from = 7, bn_to = 12, bn_key_id = Some ''k1''\<rparr>"
proof
  show "blob_filename 7 12 (Some ''k1'') (extension Parquet) =
      ''00000000000000000007-00000000000000000012.k-k1.parquet''"
    by code_simp
  show "parse_blob_name (blob_filename 7 12 (Some ''k1'') (extension Parquet)) (extension Parquet) =
      Some \<lparr>bn_from = 7, bn_to = 12, bn_key_id = Some ''k1''\<rparr>"
  proof (rule blob_name_roundtrip)
    fix kid assume "Some ''k1'' = Some kid"
    moreover have "is_key_id ''k1''" by code_simp
    ultimately show "is_key_id kid" by simp
  qed
qed

text \<open>
  C24: the names of a destination sort as their first offsets do, over the whole range of \<open>u64\<close>, so a
  lexicographic listing is a listing in chain order.
\<close>

theorem blob_names_sort_as_offsets:
  "(batch_filename from to ext < batch_filename from' to' ext) = ((from, to) < (from', to'))"
  by (auto simp: batch_filename_less less_prod_def)

text \<open>
  C16: a listing that the append-mode check accepts holds every position below the durable one in exactly
  one object, and no other position in any.
\<close>

theorem accepted_chain_covers_once:
  assumes "validate_chain names fmt None = Inr c"
    and "\<forall>n \<in> set names. \<forall>r. name_range fmt n = Some r \<longrightarrow> snd r \<noteq> u64_max"
  shows "length (filter (\<lambda>n. name_covers fmt n x) names) = (if x < ch_durable c then 1 else 0)"
  by (rule validate_append_cover [OF assms])

lemma name_range_plain:
  "name_range fmt (blob_filename f t None (extension fmt)) = Some (f, t)"
  using parse_blob_filename [of None f t "extension fmt"] by (simp add: name_range_def)

definition demo_names :: "string list" where
  "demo_names = [blob_filename 3 4 None (extension Ndjson), blob_filename 0 2 None (extension Ndjson)]"

theorem accepted_chain_covers_once_witness:
  "validate_chain demo_names Ndjson None =
      Inr \<lparr>ch_durable = 5, ch_latest = None, ch_tail = rev demo_names\<rparr>
   \<and> length (filter (\<lambda>n. name_covers Ndjson n 4) demo_names) = 1"
proof -
  have v: "validate_chain demo_names Ndjson None =
      Inr \<lparr>ch_durable = 5, ch_latest = None, ch_tail = rev demo_names\<rparr>"
    using validate_append_accepts [of demo_names Ndjson "[((0, 2), None), ((3, 4), None)]" 5]
    by (simp add: demo_names_def ids_ok_def last_two_def u64_max_def)
  have "\<forall>n \<in> set demo_names. \<forall>r. name_range Ndjson n = Some r \<longrightarrow> snd r \<noteq> u64_max"
    by (simp add: demo_names_def name_range_plain u64_max_def)
  from accepted_chain_covers_once [OF v this, of 4] show ?thesis using v by simp
qed

text \<open>
  Every contiguous chain is accepted, in whatever order the store lists it and whichever keys its
  objects were written with: the durable position is its end and the tail its last two names.
\<close>

theorem contiguous_chain_accepted:
  assumes "mset names = mset (map (id_name fmt) bs)" and "ids_ok bs" and "chain_from 0 (map fst bs) e"
  shows "validate_chain names fmt None =
    Inr \<lparr>ch_durable = e, ch_latest = None, ch_tail = last_two (map (id_name fmt) bs)\<rparr>"
  by (rule validate_append_accepts [OF assms])

theorem contiguous_chain_accepted_witness:
  "validate_chain [blob_filename 3 4 (Some ''k1'') (extension Parquet),
      blob_filename 0 2 None (extension Parquet)] Parquet None =
    Inr \<lparr>ch_durable = 5, ch_latest = None,
      ch_tail = last_two (map (id_name Parquet) [((0, 2), None), ((3, 4), Some ''k1'')])\<rparr>"
proof (rule contiguous_chain_accepted)
  show "ids_ok [((0, 2), None), ((3, 4), Some ''k1'')]" by code_simp
  show "chain_from 0 (map fst [((0, 2), None), ((3, 4), Some ''k1'' :: string option)]) 5"
    by code_simp
qed simp

text \<open>
  C22: in compaction mode the object that is taken as the snapshot is, of all objects of an accepted listing
  in whatever order, the one that ends last, and the sink continues right behind it.
\<close>

theorem log_chain_resumes_at_newest:
  assumes "validate_chain names fmt (Some CLog) = Inr c" and "n \<in> set names"
    and "\<forall>n \<in> set names. \<forall>r. name_range fmt n = Some r \<longrightarrow> snd r \<noteq> u64_max"
  shows "\<exists>l rl r. ch_latest c = Some l \<and> l \<in> set names \<and> name_range fmt l = Some rl
    \<and> ch_durable c = snd rl + 1 \<and> name_range fmt n = Some r \<and> snd r \<le> snd rl
    \<and> snd r < ch_durable c"
  by (rule validate_log_newest [OF assms])

theorem log_chain_resumes_at_newest_witness:
  "\<exists>c. validate_chain [blob_filename 9 9 None (extension Ndjson), blob_filename 0 2 None (extension Ndjson)]
      Ndjson (Some CLog) = Inr c \<and> ch_durable c = 10
    \<and> (\<exists>l rl r. ch_latest c = Some l \<and> name_range Ndjson l = Some rl \<and> ch_durable c = snd rl + 1
      \<and> name_range Ndjson (blob_filename 0 2 None (extension Ndjson)) = Some r \<and> snd r \<le> snd rl)"
proof -
  let ?a = "blob_filename 9 9 None (extension Ndjson)" and ?b = "blob_filename 0 2 None (extension Ndjson)"
  let ?c = "\<lparr>ch_durable = 10, ch_latest = Some ?a, ch_tail = [?b, ?a]\<rparr>"
  have v: "validate_chain [?a, ?b] Ndjson (Some CLog) = Inr ?c"
    using validate_log_accepts [of "[?a, ?b]" Ndjson "[((0, 2), None), ((9, 9), None)]"]
    by (simp add: ids_ok_def last_two_def separated_def u64_max_def)
  have "\<forall>n \<in> set [?a, ?b]. \<forall>r. name_range Ndjson n = Some r \<longrightarrow> snd r \<noteq> u64_max"
    by (simp add: name_range_plain u64_max_def)
  from log_chain_resumes_at_newest [OF v _ this, of ?b] v show ?thesis by auto
qed

section \<open>Restarts\<close>

text \<open>
  C1: restarts of a filesystem mirror lose nothing and repeat nothing.  Whatever an append-mode sink is
  made to do (writes, flushes, idle checks, with any of the calls failing at any point and the last
  record possibly torn off in the middle of its write), opening the directory again succeeds and yields
  a sink whose objects decode to a prefix of the accepted records; the prefix is all that lies below
  the position at which the new sink resumes, and every record beyond it lies at or above.
\<close>

theorem fs_restart_exact:
  assumes "codec_ok cd" and "sink_inv cd fs_objects fs_ok s log"
    and "\<forall>r \<in> set (op_records os). r_offset r \<noteq> u64_max"
    and "run_ops fs_store cd os s = (res, s', rs)"
    and "list_sync e (sk_store s') = Inr names"
  shows "\<exists>s2 n more bs. open_store fs_store cd e e' now_unix now (sk_store s') (sk_spec s) = Inr s2
    \<and> (more = [] \<or> (\<exists>r \<in> set (op_records os). more = [r]))
    \<and> chain_state cd (sk_spec s2) (fs_objects (sk_store s2)) bs (take n (log @ rs @ more))
        (buffered_head s2)
    \<and> (\<forall>r \<in> set (drop n (log @ rs @ more)). buffered_head s2 \<le> r_offset r)"
proof -
  have "st_list fs_store e (sk_store s') = Inr names" using assms(5) by (simp add: fs_store_def)
  moreover have "append_inv cd fs_objects fs_ok s log" using assms(1,2) by (simp add: append_inv_def)
  ultimately show ?thesis using assms(3,4) by (intro fsc.run_and_reopen_chain)
qed

definition demo_ops :: "fs_env sink_op list" where
  "demo_ops = [OpWrite (demo_env (demo_fs ''a'')) (demo_rec 0),
     OpWrite (demo_env (demo_fs ''b'')) (demo_rec 1), OpNext (demo_env (demo_fs ''b'')),
     OpWrite (demo_env (demo_fs ''c'')) (demo_rec 3), OpFlush (demo_env (demo_fs_bad ''d''))]"

abbreviation demo_run :: "(sink_error + unit) \<times> fs_dir blob_sink \<times> krecord list" where
  "demo_run \<equiv> run_ops fs_store demo_codec demo_ops (demo_sink (Some []) None)"

theorem fs_restart_exact_witness:
  "fst demo_run = Inl SnkTransport
   \<and> (\<exists>s2 n more bs. open_store fs_store demo_codec (demo_fs ''x'') (demo_fs ''y'') 0 0
        (sk_store (fst (snd demo_run))) (sk_spec (demo_sink (Some []) None)) = Inr s2
      \<and> chain_state demo_codec (sk_spec s2) (fs_objects (sk_store s2)) bs
          (take n ([] @ snd (snd demo_run) @ more)) (buffered_head s2)
      \<and> (\<forall>r \<in> set (drop n ([] @ snd (snd demo_run) @ more)). buffered_head s2 \<le> r_offset r))"
proof
  show "fst demo_run = Inl SnkTransport" by code_simp
  have max: "\<forall>r \<in> set (op_records demo_ops). r_offset r \<noteq> u64_max" by code_simp
  have names: "list_sync (demo_fs ''x'') (sk_store (fst (snd demo_run))) =
      Inr [''00000000000000000000-00000000000000000001.ndjson'']" by code_simp
  have run: "demo_run = (fst demo_run, fst (snd demo_run), snd (snd demo_run))" by simp
  show "\<exists>s2 n more bs. open_store fs_store demo_codec (demo_fs ''x'') (demo_fs ''y'') 0 0
        (sk_store (fst (snd demo_run))) (sk_spec (demo_sink (Some []) None)) = Inr s2
      \<and> chain_state demo_codec (sk_spec s2) (fs_objects (sk_store s2)) bs
          (take n ([] @ snd (snd demo_run) @ more)) (buffered_head s2)
      \<and> (\<forall>r \<in> set (drop n ([] @ snd (snd demo_run) @ more)). buffered_head s2 \<le> r_offset r)"
    using fs_restart_exact [OF demo_codec_ok demo_sink_inv max run names, of "demo_fs ''y''" 0 0]
    by blast
qed

text \<open>
  C2: the same for compaction mode.  After any run, opening the directory rebuilds a view that holds the
  latest value of every key over exactly the accepted records below the resume position (the others
  lie at or above it and will be read again), provided the files can be read.
\<close>

theorem fs_compaction_restart_exact:
  assumes "log_inv cd fs_objects fs_ok s log"
    and "\<forall>r \<in> set (op_records os). r_offset r \<noteq> u64_max"
    and "run_ops fs_store cd os s = (res, s', rs)"
    and "list_sync e (sk_store s') = Inr names"
    and "\<forall>n. fs_objects (sk_store s') n \<noteq> None \<longrightarrow> is_ok (get_sync e' (sk_store s') n)"
  shows "\<exists>s2 n more v. open_store fs_store cd e e' now_unix now (sk_store s') (sk_spec s) = Inr s2
    \<and> (more = [] \<or> (\<exists>r \<in> set (op_records os). more = [r]))
    \<and> sk_view s2 = Some v
    \<and> (\<forall>k. map_of v k = latest (map key_update (take n (log @ rs @ more))) k)
    \<and> (\<forall>r \<in> set (take n (log @ rs @ more)). r_offset r < buffered_head s2)
    \<and> (\<forall>r \<in> set (drop n (log @ rs @ more)). buffered_head s2 \<le> r_offset r)"
proof -
  have st: "st_list fs_store e (sk_store s') = Inr names"
    "\<forall>n. fs_objects (sk_store s') n \<noteq> None \<longrightarrow> is_ok (st_get fs_store e' (sk_store s') n)"
    using assms(4,5) by (simp_all add: fs_store_def)
  obtain s2 n more where *: "open_store fs_store cd e e' now_unix now (sk_store s') (sk_spec s) = Inr s2"
    "more = [] \<or> (\<exists>r \<in> set (op_records os). more = [r])"
    "log_inv cd fs_objects fs_ok s2 (take n (log @ rs @ more))"
    "\<forall>r \<in> set (take n (log @ rs @ more)). r_offset r < buffered_head s2"
    "\<forall>r \<in> set (drop n (log @ rs @ more)). buffered_head s2 \<le> r_offset r"
    using fsc.run_and_reopen_log [OF assms(1,2,3) st, of now_unix now] by (elim exE conjE)
  obtain v where "sk_view s2 = Some v" "view_log v (take n (log @ rs @ more))"
    using *(3) by (rule log_invE)
  then show ?thesis
    using *(1,2,4,5) unfolding view_log_def by (intro exI conjI) blast+
qed

text \<open>Two upserts of one key, a flush, then a write and a flush whose rename fails.\<close>

abbreviation demo_log_run :: "(sink_error + unit) \<times> fs_dir blob_sink \<times> krecord list" where
  "demo_log_run \<equiv> run_ops fs_store demo_codec demo_ops (demo_sink (Some []) (Some CLog))"

theorem fs_compaction_restart_exact_witness:
  "fst demo_log_run = Inl SnkTransport
   \<and> (\<exists>s2 n more v. open_store fs_store demo_codec (demo_fs ''x'') (demo_fs ''y'') 0 0
        (sk_store (fst (snd demo_log_run))) (sk_spec (demo_sink (Some []) (Some CLog))) = Inr s2
      \<and> sk_view s2 = Some v
      \<and> (\<forall>k. map_of v k = latest (map key_update (take n ([] @ snd (snd demo_log_run) @ more))) k))"
proof
  show "fst demo_log_run = Inl SnkTransport" by code_simp
  have max: "\<forall>r \<in> set (op_records demo_ops). r_offset r \<noteq> u64_max" by code_simp
  have names: "list_sync (demo_fs ''x'') (sk_store (fst (snd demo_log_run))) =
      Inr [''00000000000000000000-00000000000000000001.ndjson'']" by code_simp
  have run: "demo_log_run = (fst demo_log_run, fst (snd demo_log_run), snd (snd demo_log_run))" by simp
  have get: "\<forall>n. fs_objects (sk_store (fst (snd demo_log_run))) n \<noteq> None \<longrightarrow>
      is_ok (get_sync (demo_fs ''y'') (sk_store (fst (snd demo_log_run))) n)"
    by (auto simp: get_sync_def demo_fs_def fs_objects_def entry_objects_def
        split: option.splits if_splits)
  show "\<exists>s2 n more v. open_store fs_store demo_codec (demo_fs ''x'') (demo_fs ''y'') 0 0
        (sk_store (fst (snd demo_log_run))) (sk_spec (demo_sink (Some []) (Some CLog))) = Inr s2
      \<and> sk_view s2 = Some v
      \<and> (\<forall>k. map_of v k = latest (map key_update (take n ([] @ snd (snd demo_log_run) @ more))) k)"
    using fs_compaction_restart_exact [OF demo_log_inv max run names get, of 0 0] by blast
qed

section \<open>Bounds, drift and the daily boundary\<close>

text \<open>The bytes a record and a list of records take, as the code counts them, but without a bound.\<close>

definition record_bytes :: "krecord \<Rightarrow> nat" where
  "record_bytes r = opt_len (r_key r) + opt_len (r_value r)
     + sum_list (map (\<lambda>h. length (h_key h) + opt_len (h_value h)) (r_headers r))"

definition buffered_bytes :: "krecord list \<Rightarrow> nat" where
  "buffered_bytes rs = sum_list (map record_bytes rs)"

lemma buffered_bytes_snoc [simp]:
  "buffered_bytes [] = 0" "buffered_bytes (rs @ [r]) = buffered_bytes rs + record_bytes r"
  by (simp_all add: buffered_bytes_def)

text \<open>The counter says what is buffered, and both are below the limits unless nothing is buffered.\<close>

definition within_limits :: "'st blob_sink \<Rightarrow> bool" where
  "within_limits s = (unat (sk_buffer_bytes s) = buffered_bytes (sk_buffer s)
     \<and> (sk_buffer s = [] \<or> (length (sk_buffer s) < unat (ft_max_offsets (bs_flush (sk_spec s)))
          \<and> buffered_bytes (sk_buffer s) < unat (ft_max_bytes (bs_flush (sk_spec s))))))"

lemma within_limits_cong:
  "within_limits s \<Longrightarrow> sk_buffer s' = sk_buffer s \<Longrightarrow> sk_buffer_bytes s' = sk_buffer_bytes s \<Longrightarrow>
     sk_spec s' = sk_spec s \<Longrightarrow> within_limits s'"
  by (simp add: within_limits_def)

lemma flush_locked_limits:
  assumes "flush_locked ops cd e s = (Inr u, s')"
  shows "within_limits s' \<and> sk_spec s' = sk_spec s"
  using assms
  by (auto simp: flush_locked_def Let_def within_limits_def
      split: sum.splits prod.splits option.splits compaction_mode.splits blob_error.splits)

lemma tick_daily_limits:
  assumes "tick_daily ops cd e s = (Inr u, s')" "within_limits s"
  shows "within_limits s' \<and> sk_spec s' = sk_spec s"
  using assms flush_locked_limits [of ops cd "se_daily_put e" s]
  by (auto simp: tick_daily_def Let_def intro: within_limits_cong
      split: option.splits if_splits sum.splits prod.splits)

lemma next_limits:
  assumes "sink_next_expected_offset ops cd e s = (Inr h, s')" "within_limits s"
  shows "within_limits s' \<and> sk_spec s' = sk_spec s"
proof -
  obtain u s1 u2 s2 where
    t: "tick_daily ops cd e s = (Inr u, s1)" and
    f: "(if should_flush (se_now_flush e) s1 = Some MaxTime
         then flush_locked ops cd (se_flush_put e) s1 else (Ok (), s1)) = (Inr u2, s2)" and
    d: "(if sk_drift_check_interval s2 \<le> se_now_drift e - sk_last_drift_check s2
         then check_drift ops e s2 else (Ok (), s2)) = (Inr (), s')"
    using assms(1) unfolding sink_next_expected_offset_def
    by (auto split: prod.splits sum.splits intro: that)
  have 2: "within_limits s2 \<and> sk_spec s2 = sk_spec s"
    using tick_daily_limits [OF t assms(2)] f flush_locked_limits [of ops cd "se_flush_put e" s1 u2 s2]
    by (auto split: if_splits)
  have "sk_buffer s' = sk_buffer s2 \<and> sk_buffer_bytes s' = sk_buffer_bytes s2 \<and> sk_spec s' = sk_spec s2"
    using d by (auto simp: check_drift_def Let_def split: if_splits prod.splits sum.splits)
  then show ?thesis using 2 within_limits_cong [of s2 s'] by simp
qed

lemma unat_record_byte_size:
  "record_bytes r < 2 ^ 64 \<Longrightarrow> unat (record_byte_size r) = record_bytes r"
  by (simp add: record_byte_size_def record_bytes_def unat_of_nat flip: of_nat_add)

lemma push_record_counts:
  assumes "within_limits s1" "unat (ft_max_bytes (bs_flush (sk_spec s1))) + record_bytes r < 2 ^ 64"
  shows "unat (sk_buffer_bytes (push_record e r s1)) = buffered_bytes (sk_buffer (push_record e r s1))
    \<and> length (sk_buffer (push_record e r s1)) < 2 ^ 64"
proof -
  have b: "buffered_bytes (sk_buffer s1) + record_bytes r < 2 ^ 64"
    using assms by (auto simp: within_limits_def)
  have "length (sk_buffer s1) = 0 \<or> length (sk_buffer s1) < unat (ft_max_offsets (bs_flush (sk_spec s1)))"
    using assms(1) by (auto simp: within_limits_def)
  then have "Suc (length (sk_buffer s1)) < 18446744073709551616"
    using unat_lt_2p64 [of "ft_max_offsets (bs_flush (sk_spec s1))"] by linarith
  moreover have "unat (sk_buffer_bytes s1 + record_byte_size r) = buffered_bytes (sk_buffer s1) + record_bytes r"
    using b assms(1) unat_record_byte_size [of r]
    by (simp add: within_limits_def unat_word_ariths)
  ultimately show ?thesis by (simp add: push_record_def)
qed

lemma write_limits:
  assumes "sink_write ops cd e r s = (Inr u, s')" "within_limits s"
    "unat (ft_max_bytes (bs_flush (sk_spec s))) + record_bytes r < 2 ^ 64"
  shows "within_limits s' \<and> sk_spec s' = sk_spec s"
proof -
  obtain u1 s1 where t: "tick_daily ops cd e s = (Inr u1, s1)"
    using assms(1) by (auto simp: sink_write_def split: prod.splits sum.splits)
  define s2 where "s2 = push_record e r s1"
  have run: "(if should_flush (se_now_flush e) s2 = None then (Ok (), s2)
      else flush_locked ops cd (se_flush_put e) s2) = (Inr u, s')"
    using assms(1) t unfolding sink_write_def Let_def s2_def by (auto split: if_splits)
  have 1: "within_limits s1" "sk_spec s1 = sk_spec s" using tick_daily_limits [OF t assms(2)] by auto
  have spec: "sk_spec s2 = sk_spec s" by (simp add: s2_def push_record_def 1)
  have counts: "unat (sk_buffer_bytes s2) = buffered_bytes (sk_buffer s2)" "length (sk_buffer s2) < 2 ^ 64"
    using push_record_counts [OF 1(1)] assms(3) 1(2) unfolding s2_def by auto
  show ?thesis
  proof (cases "should_flush (se_now_flush e) s2 = None")
    case True
    then have "sk_buffer s2 = [] \<or> (of_nat (length (sk_buffer s2)) < ft_max_offsets (bs_flush (sk_spec s2))
        \<and> sk_buffer_bytes s2 < ft_max_bytes (bs_flush (sk_spec s2)))"
      by (auto simp: should_flush_def Let_def not_le split: if_splits)
    then have "within_limits s2"
      using counts by (auto simp: within_limits_def word_less_nat_alt unat_of_nat)
    then show ?thesis using True run spec by simp
  next
    case False
    have "flush_locked ops cd (se_flush_put e) s2 = (Inr u, s')" using run unfolding if_not_P [OF False] .
    from flush_locked_limits [OF this] spec show ?thesis by simp
  qed
qed

lemma run_ops_limits:
  "within_limits s \<Longrightarrow>
     \<forall>r \<in> set (op_records os). unat (ft_max_bytes (bs_flush (sk_spec s))) + record_bytes r < 2 ^ 64 \<Longrightarrow>
     run_ops ops cd os s = (Inr u, s', rs) \<Longrightarrow> within_limits s' \<and> sk_spec s' = sk_spec s"
proof (induction os arbitrary: s rs)
  case (Cons op os)
  then show ?case
  proof (cases op)
    case (OpWrite e r)
    obtain u1 s1 where w: "sink_write ops cd e r s = (Inr u1, s1)"
      using Cons.prems(3) OpWrite by (auto split: prod.splits sum.splits)
    then obtain rs1 where "run_ops ops cd os s1 = (Inr u, s', rs1)"
      using Cons.prems(3) OpWrite by (auto split: prod.splits)
    then show ?thesis using write_limits [OF w Cons.prems(1)] Cons.IH [of s1] Cons.prems(2) OpWrite by auto
  next
    case (OpNext e)
    then obtain h s1 where n: "sink_next_expected_offset ops cd e s = (Inr h, s1)"
      "run_ops ops cd os s1 = (Inr u, s', rs)"
      using Cons.prems(3) by (auto split: prod.splits sum.splits)
    then show ?thesis using next_limits [OF n(1) Cons.prems(1)] Cons.IH [OF _ _ n(2)] Cons.prems(2) OpNext by auto
  next
    case (OpFlush e)
    then obtain u1 s1 where f: "flush_now ops cd e s = (Inr u1, s1)" "run_ops ops cd os s1 = (Inr u, s', rs)"
      using Cons.prems(3) by (auto split: prod.splits sum.splits)
    then have "within_limits s1 \<and> sk_spec s1 = sk_spec s"
      using Cons.prems(1) flush_locked_limits [of ops cd "se_flush_put e" s u1 s1]
      by (auto simp: flush_now_def split: if_splits)
    then show ?thesis using Cons.IH [OF _ _ f(2)] Cons.prems(2) OpFlush by auto
  qed
qed simp

text \<open>
  C19: over any store and in both modes, after any sequence of operations that a new sink completed, the
  bytes of the records in its buffer and their number are below the limits of the specification, or the
  buffer is empty, so what a crash can cost is bounded by the flush triggers.  The byte counter of the
  code is 64 bits wide: the limit and one more record must fit into it.
\<close>

theorem write_keeps_buffer_bounded:
  assumes "sk_buffer s = []" and "sk_buffer_bytes s = 0"
    and "\<forall>r \<in> set (op_records os). unat (ft_max_bytes (bs_flush (sk_spec s))) + record_bytes r < 2 ^ 64"
    and "run_ops ops cd os s = (Inr u, s', rs)"
  shows "sk_buffer s' = [] \<or>
    (length (sk_buffer s') < unat (ft_max_offsets (bs_flush (sk_spec s)))
     \<and> buffered_bytes (sk_buffer s') < unat (ft_max_bytes (bs_flush (sk_spec s))))"
proof -
  have "within_limits s" using assms(1,2) by (simp add: within_limits_def)
  from run_ops_limits [OF this assms(3,4)] have "within_limits s'" "sk_spec s' = sk_spec s" by auto
  then show ?thesis unfolding within_limits_def by metis
qed

text \<open>One record, below the limit of two, stays in the buffer.\<close>

definition demo_writes :: "fs_env sink_op list" where
  "demo_writes = [OpWrite (demo_env (demo_fs ''a'')) (demo_rec 0)]"

abbreviation demo_written :: "(sink_error + unit) \<times> fs_dir blob_sink \<times> krecord list" where
  "demo_written \<equiv> run_ops fs_store demo_codec demo_writes (demo_sink (Some []) None)"

theorem write_keeps_buffer_bounded_witness:
  "sk_buffer (fst (snd demo_written)) = [demo_rec 0]
   \<and> (sk_buffer (fst (snd demo_written)) = [] \<or>
      (length (sk_buffer (fst (snd demo_written)))
         < unat (ft_max_offsets (bs_flush (sk_spec (demo_sink (Some []) None))))
       \<and> buffered_bytes (sk_buffer (fst (snd demo_written)))
         < unat (ft_max_bytes (bs_flush (sk_spec (demo_sink (Some []) None))))))"
proof (rule conjI)
  show "sk_buffer (fst (snd demo_written)) = [demo_rec 0]" by code_simp
  have "fst demo_written = Inr ()" by code_simp
  then have run: "demo_written = (Inr (), fst (snd demo_written), snd (snd demo_written))"
    by (simp add: prod_eq_iff)
  have size: "\<forall>r \<in> set (op_records demo_writes).
      unat (ft_max_bytes (bs_flush (sk_spec (demo_sink (Some []) None)))) + record_bytes r < 2 ^ 64"
    by (simp add: demo_writes_def demo_sink_def demo_spec_def record_bytes_def opt_len_def demo_rec_def)
  have empty: "sk_buffer (demo_sink (Some []) None) = []" "sk_buffer_bytes (demo_sink (Some []) None) = 0"
    by (simp_all add: demo_sink_def)
  show "sk_buffer (fst (snd demo_written)) = [] \<or>
      (length (sk_buffer (fst (snd demo_written)))
         < unat (ft_max_offsets (bs_flush (sk_spec (demo_sink (Some []) None))))
       \<and> buffered_bytes (sk_buffer (fst (snd demo_written)))
         < unat (ft_max_bytes (bs_flush (sk_spec (demo_sink (Some []) None)))))"
    by (rule write_keeps_buffer_bounded [OF empty size run])
qed

text \<open>
  C17: the drift check of a filesystem sink raises no false alarm, in append mode and in compaction mode:
  while the directory holds what the sink wrote (and leftovers of failed writes), a readable listing
  always passes.
\<close>

theorem drift_check_quiet:
  assumes "sink_inv cd fs_objects fs_ok s log \<or> log_inv cd fs_objects fs_ok s log"
    and "fs_read_dir_ok (se_drift_list e)" and "fs_entry_ok (se_drift_list e)"
  shows "fst (check_drift fs_store e s) = Ok ()"
proof -
  have "\<exists>bs. ids_ok bs \<and> separated (map fst bs)
      \<and> dom (fs_objects (sk_store s)) = set (names_of (sk_spec s) bs)
      \<and> sk_tail s = last_two (names_of (sk_spec s) bs) \<and> fs_ok (sk_store s)"
    using assms(1)
  proof
    assume "sink_inv cd fs_objects fs_ok s log"
    then show ?thesis
      by (auto simp: sink_inv_def chain_state_def intro: chain_from_separated)
  next
    assume "log_inv cd fs_objects fs_ok s log"
    then show ?thesis by (elim log_invE) (auto simp: log_state_def)
  qed
  then obtain bs where bs: "ids_ok bs" "separated (map fst bs)"
    "dom (fs_objects (sk_store s)) = set (names_of (sk_spec s) bs)"
    "sk_tail s = last_two (names_of (sk_spec s) bs)" "fs_ok (sk_store s)" by blast
  show ?thesis
  proof (rule fs.check_drift_quiet [OF bs(5) names_sorted [OF bs(1,2)] bs(4,3)])
    show "\<not> contains ''.tmp.'' n" if "n \<in> set (names_of (sk_spec s) bs)" for n
      using fs.id_name_ok [OF bs(1)] that by auto
    show "is_ok (st_list_after fs_store (se_drift_list e) (sk_store s) after)" for after
      using assms(2,3) by (simp add: fs_store_def fs_list_after_def list_sync_def split: option.splits)
  qed
qed

theorem drift_check_quiet_witness:
  "fst (check_drift fs_store (demo_env (demo_fs ''a'')) (demo_sink (Some []) None)) = Ok ()
   \<and> fst (check_drift fs_store (demo_env (demo_fs ''a'')) (demo_sink (Some []) (Some CLog))) = Ok ()"
proof
  show "fst (check_drift fs_store (demo_env (demo_fs ''a'')) (demo_sink (Some []) None)) = Ok ()"
    by (rule drift_check_quiet [OF disjI1 [OF demo_sink_inv]]) (simp_all add: demo_env_def demo_fs_def)
  show "fst (check_drift fs_store (demo_env (demo_fs ''a'')) (demo_sink (Some []) (Some CLog))) = Ok ()"
    by (rule drift_check_quiet [OF disjI2 [OF demo_log_inv]]) (simp_all add: demo_env_def demo_fs_def)
qed

text \<open>
  C18: the drift check does notice a second writer: any object that sorts after the second-to-last one of
  the chain and is not the last one is reported as an inconsistency.
\<close>

theorem drift_check_detects_foreign:
  assumes "fs_ok (sk_store s)" and "sk_tail s = last_two ns" and "ns \<noteq> []"
    and "fs_objects (sk_store s) foreign = Some b" and "last ns < foreign"
    and "fs_read_dir_ok (se_drift_list e)" and "fs_entry_ok (se_drift_list e)"
    and "sorted_wrt (<) ns"
  shows "fst (check_drift fs_store e s) = Err SnkInconsistent"
proof -
  obtain after expected where w: "drift_window (sk_tail s) = (after, expected)" by fastforce
  note win = drift_window_last_two [OF assms(8), of after expected]
  obtain listed where l: "st_list_after fs_store (se_drift_list e) (sk_store s) after = Inr listed"
    using assms(6,7) by (cases "sk_store s") (simp_all add: fs_store_def fs_list_after_def list_sync_def)
  have ex: "expected = Some (last ns)" using win w assms(2,3) by simp
  have "after = Some a \<Longrightarrow> a < foreign" for a
  proof -
    assume a: "after = Some a"
    have "last ns \<in> {n \<in> set ns. \<forall>a. after = Some a \<longrightarrow> a < n}" using win w assms(2) ex by simp
    then show "a < foreign" using a assms(5) by auto
  qed
  then have "foreign \<in> {n \<in> dom (fs_objects (sk_store s)). \<forall>a. after = Some a \<longrightarrow> a < n}"
    using assms(4) by auto
  moreover have "foreign \<noteq> last ns" using assms(5) by auto
  ultimately show ?thesis
    using check_drift_exact [OF w l] fs_list_after_objects [OF assms(1) l] ex by auto
qed

text \<open>A directory in which somebody else has written the next object.\<close>

definition demo_shared :: "fs_dir blob_sink" where
  "demo_shared = (demo_sink (Some [(batch_filename 0 1 ''ndjson'', [0, 1]),
     (batch_filename 2 3 ''ndjson'', [2, 3])]) None)\<lparr>sk_durable_position := 2,
       sk_tail := [batch_filename 0 1 ''ndjson'']\<rparr>"

theorem drift_check_detects_foreign_witness:
  "batch_filename 0 1 ''ndjson'' < batch_filename 2 3 ''ndjson''
   \<and> fst (check_drift fs_store (demo_env (demo_fs ''a'')) demo_shared) = Err SnkInconsistent"
proof
  show less: "batch_filename 0 1 ''ndjson'' < batch_filename 2 3 ''ndjson''"
    by (simp add: batch_filename_less)
  show "fst (check_drift fs_store (demo_env (demo_fs ''a'')) demo_shared) = Err SnkInconsistent"
  proof (rule drift_check_detects_foreign)
    show "fs_ok (sk_store demo_shared)" by code_simp
    show "sk_tail demo_shared = last_two [batch_filename 0 1 ''ndjson'']" by code_simp
    show "fs_objects (sk_store demo_shared) (batch_filename 2 3 ''ndjson'') = Some [2, 3]" by code_simp
  qed (use less in \<open>simp_all add: demo_env_def demo_fs_def\<close>)
qed

lemma advance_daily_spec:
  "now < advance_daily now t \<and> (advance_daily now t = t \<or> advance_daily now t \<le> now + 86400)
   \<and> advance_daily now t mod 86400 = t mod 86400"
proof (induction now t rule: advance_daily.induct)
  case (1 now t)
  show ?case
  proof (cases "t \<le> now")
    case True
    then show ?thesis using 1 by (subst (1 2 3 4) advance_daily.simps) auto
  next
    case False
    then show ?thesis by (simp add: advance_daily.simps)
  qed
qed

text \<open>
  The daily flush is scheduled strictly in the future, at most a day ahead, and at the configured
  second of the day; when the boundary has passed, the next one is again in the future and on time.
\<close>

theorem daily_boundary_in_the_future:
  assumes "unat target < 86400"
  shows "now < schedule_next_daily target now \<and> schedule_next_daily target now \<le> now + 86400
    \<and> schedule_next_daily target now mod 86400 = unat target
    \<and> later < advance_daily later (schedule_next_daily target now)
    \<and> advance_daily later (schedule_next_daily target now) mod 86400 = unat target"
proof -
  define d m t where "d = now div 86400" and "m = now mod 86400" and "t = unat target"
  have now: "now = d * 86400 + m" "m < 86400" by (simp_all add: d_def m_def)
  have "now < schedule_next_daily target now \<and> schedule_next_daily target now \<le> now + 86400"
    unfolding schedule_next_daily_def Let_def d_def [symmetric] t_def [symmetric]
    using assms now by (auto simp: t_def)
  moreover have "schedule_next_daily target now mod 86400 = t"
    using assms by (simp add: schedule_next_daily_def Let_def t_def [symmetric])
  ultimately show ?thesis using advance_daily_spec [of later "schedule_next_daily target now"] t_def by simp
qed

theorem daily_boundary_in_the_future_witness:
  "(90000 :: nat) < schedule_next_daily 3600 90000 \<and> schedule_next_daily 3600 90000 \<le> 90000 + 86400
    \<and> schedule_next_daily 3600 90000 mod 86400 = unat (3600 :: u32)
    \<and> 200000 < advance_daily 200000 (schedule_next_daily 3600 90000)
    \<and> advance_daily 200000 (schedule_next_daily 3600 90000) mod 86400 = unat (3600 :: u32)"
  by (rule daily_boundary_in_the_future) simp

end
