(* ===== verification/Envelope.thy ===== *)
theory Envelope
  imports Blob_Restart
begin

text \<open>
  The envelopes records are stored in (\<open>crates/mirror-envelope/src/ndjson.rs\<close>, \<open>parquet.rs\<close>, \<open>lib.rs\<close>).
  JSON text, base64 text and Parquet files belong to libraries, which are parameters: \<open>serde_json\<close> between
  a document and its text, \<open>base64\<close>, and the Arrow reader and writer between record batches and a file.
  What the code itself does with documents and columns is defined here, the attributes of its derived
  serializers included, and shown to lose nothing: from what the libraries document, the two formats are
  a codec that decodes what it encodes, which is what the blob destinations rely on.  A library failure
  and every error of the code are the one error \<open>()\<close>; messages are not modelled.
\<close>

section \<open>JSON documents and base64\<close>

text \<open>An object keeps its fields in the order of the text, duplicates included; a number that is not an
  integer is its text.\<close>

datatype json =
    JNull
  | JBool bool
  | JInt int
  | JFloat string
  | JStr string
  | JArr "json list"
  | JObj "(string \<times> json) list"

record text_lib =
  tl_to_writer :: "json \<Rightarrow> unit + bytes"
  tl_from_slice :: "bytes \<Rightarrow> unit + json"
  tl_b64_encode :: "bytes \<Rightarrow> string"
  tl_b64_decode :: "string \<Rightarrow> unit + bytes"
  tl_json_ok :: "string \<Rightarrow> bool"

fun json_exact :: "json \<Rightarrow> bool" where
  "json_exact (JFloat s) = False"
| "json_exact (JArr vs) = list_all json_exact vs"
| "json_exact (JObj fs) = list_all (\<lambda>f. json_exact (snd f)) fs"
| "json_exact v = True"

text \<open>
  What is relied on: documents without floating point numbers read back as they were written, their text
  has no newline and is not empty, and base64 decodes what it encoded.
\<close>

definition text_lib_ok :: "text_lib \<Rightarrow> bool" where
  "text_lib_ok T = ((\<forall>v b. json_exact v \<longrightarrow> tl_to_writer T v = Ok b \<longrightarrow>
        b \<noteq> [] \<and> 10 \<notin> set b \<and> tl_from_slice T b = Ok v)
     \<and> (\<forall>b. tl_b64_decode T (tl_b64_encode T b) = Ok b))"

section \<open>NDJSON\<close>

record persisted_header =
  ph_key :: string
  ph_value :: "bytes option"

record persisted_record =
  pr_topic :: string
  pr_partition :: i32
  pr_offset :: u64
  pr_timestamp_ms :: "i64 option"
  pr_timestamp_type :: string
  pr_key :: "bytes option"
  pr_value :: "bytes option"
  pr_headers :: "persisted_header list"

definition persisted_of :: "krecord \<Rightarrow> persisted_record" where
  "persisted_of r = \<lparr>pr_topic = r_topic r, pr_partition = r_partition r, pr_offset = r_offset r,
     pr_timestamp_ms = r_timestamp_ms r, pr_timestamp_type = as_str (r_timestamp_type r),
     pr_key = r_key r, pr_value = r_value r,
     pr_headers = map (\<lambda>h. \<lparr>ph_key = h_key h, ph_value = h_value h\<rparr>) (r_headers r)\<rparr>"

definition into_record :: "persisted_record \<Rightarrow> krecord" where
  "into_record p = \<lparr>r_topic = pr_topic p, r_partition = pr_partition p, r_offset = pr_offset p,
     r_timestamp_ms = pr_timestamp_ms p,
     r_timestamp_type = unwrap_or (from_wire (pr_timestamp_type p)) NotAvailable,
     r_key = pr_key p, r_value = pr_value p,
     r_headers = map (\<lambda>h. \<lparr>h_key = ph_key h, h_value = ph_value h\<rparr>) (pr_headers p)\<rparr>"

text \<open>The derived serializers: fields in order, absent when \<open>skip_serializing_if\<close> says so.\<close>

definition ser_opt_base64 :: "text_lib \<Rightarrow> bytes option \<Rightarrow> json" where
  "ser_opt_base64 T v = (case v of Some bs \<Rightarrow> JStr (tl_b64_encode T bs) | None \<Rightarrow> JNull)"

definition skip_none :: "string \<Rightarrow> ('a option \<Rightarrow> json) \<Rightarrow> 'a option \<Rightarrow> (string \<times> json) list" where
  "skip_none name ser v = (if v = None then [] else [(name, ser v)])"

definition ser_header :: "text_lib \<Rightarrow> persisted_header \<Rightarrow> json" where
  "ser_header T h = JObj ((''key'', JStr (ph_key h)) # skip_none ''value'' (ser_opt_base64 T) (ph_value h))"

definition ser_record :: "text_lib \<Rightarrow> persisted_record \<Rightarrow> json" where
  "ser_record T p = JObj (
     [(''topic'', JStr (pr_topic p)), (''partition'', JInt (sint (pr_partition p))),
      (''offset'', JInt (uint (pr_offset p)))]
     @ skip_none ''timestamp_ms'' (\<lambda>t. JInt (sint (the t))) (pr_timestamp_ms p)
     @ [(''timestamp_type'', JStr (pr_timestamp_type p))]
     @ skip_none ''key'' (ser_opt_base64 T) (pr_key p)
     @ skip_none ''value'' (ser_opt_base64 T) (pr_value p)
     @ (if pr_headers p = [] then [] else [(''headers'', JArr (map (ser_header T) (pr_headers p)))]))"

text \<open>
  The derived deserializers: an object, in which unknown fields are ignored and a field given twice is an
  error, or an array of the fields in order, which may stop early.
\<close>

definition fields_of :: "string list \<Rightarrow> json \<Rightarrow> unit + (string \<times> json) list" where
  "fields_of names v = (case v of
      JObj fs \<Rightarrow> let known = filter (\<lambda>f. fst f \<in> set names) fs
                in if distinct (map fst known) then Ok known else Err ()
    | JArr vs \<Rightarrow> if length vs \<le> length names then Ok (zip names vs) else Err ()
    | _ \<Rightarrow> Err ())"

definition required :: "(json \<Rightarrow> unit + 'a) \<Rightarrow> string \<Rightarrow> (string \<times> json) list \<Rightarrow> unit + 'a" where
  "required de name fs = (case map_of fs name of None \<Rightarrow> Err () | Some v \<Rightarrow> de v)"

definition defaulted :: "'a \<Rightarrow> (json \<Rightarrow> unit + 'a) \<Rightarrow> string \<Rightarrow> (string \<times> json) list \<Rightarrow> unit + 'a" where
  "defaulted d de name fs = (case map_of fs name of None \<Rightarrow> Ok d | Some v \<Rightarrow> de v)"

definition de_string :: "json \<Rightarrow> unit + string" where
  "de_string v = (case v of JStr s \<Rightarrow> Ok s | _ \<Rightarrow> Err ())"

definition de_u64 :: "json \<Rightarrow> unit + u64" where
  "de_u64 v = (case v of JInt n \<Rightarrow> if 0 \<le> n \<and> n < 18446744073709551616 then Ok (word_of_int n) else Err ()
     | _ \<Rightarrow> Err ())"

definition de_i64 :: "json \<Rightarrow> unit + i64" where
  "de_i64 v = (case v of JInt n \<Rightarrow> if - 9223372036854775808 \<le> n \<and> n < 9223372036854775808
       then Ok (word_of_int n) else Err ()
     | _ \<Rightarrow> Err ())"

definition de_i32 :: "json \<Rightarrow> unit + i32" where
  "de_i32 v = (case v of JInt n \<Rightarrow> if - 2147483648 \<le> n \<and> n < 2147483648 then Ok (word_of_int n) else Err ()
     | _ \<Rightarrow> Err ())"

definition de_option :: "(json \<Rightarrow> unit + 'a) \<Rightarrow> json \<Rightarrow> unit + 'a option" where
  "de_option de v = (if v = JNull then Ok None else map_sum id Some (de v))"

definition de_opt_base64 :: "text_lib \<Rightarrow> json \<Rightarrow> unit + bytes option" where
  "de_opt_base64 T v = res_bind (de_option de_string v) (\<lambda>opt. case opt of
      None \<Rightarrow> Ok None
    | Some s \<Rightarrow> map_sum id Some (tl_b64_decode T s))"

definition de_list :: "(json \<Rightarrow> unit + 'a) \<Rightarrow> json \<Rightarrow> unit + 'a list" where
  "de_list de v = (case v of JArr vs \<Rightarrow> try_map de vs | _ \<Rightarrow> Err ())"

definition de_header :: "text_lib \<Rightarrow> json \<Rightarrow> unit + persisted_header" where
  "de_header T v =
     res_bind (fields_of [''key'', ''value''] v) (\<lambda>fs.
     res_bind (required de_string ''key'' fs) (\<lambda>k.
     res_bind (defaulted None (de_opt_base64 T) ''value'' fs) (\<lambda>x.
     Ok \<lparr>ph_key = k, ph_value = x\<rparr>)))"

definition record_fields :: "string list" where
  "record_fields = [''topic'', ''partition'', ''offset'', ''timestamp_ms'', ''timestamp_type'', ''key'',
     ''value'', ''headers'']"

definition de_record :: "text_lib \<Rightarrow> json \<Rightarrow> unit + persisted_record" where
  "de_record T v =
     res_bind (fields_of record_fields v) (\<lambda>fs.
     res_bind (required de_string ''topic'' fs) (\<lambda>topic.
     res_bind (required de_i32 ''partition'' fs) (\<lambda>p.
     res_bind (required de_u64 ''offset'' fs) (\<lambda>off.
     res_bind (defaulted None (de_option de_i64) ''timestamp_ms'' fs) (\<lambda>ts.
     res_bind (required de_string ''timestamp_type'' fs) (\<lambda>tt.
     res_bind (defaulted None (de_opt_base64 T) ''key'' fs) (\<lambda>k.
     res_bind (defaulted None (de_opt_base64 T) ''value'' fs) (\<lambda>x.
     res_bind (defaulted [] (de_list (de_header T)) ''headers'' fs) (\<lambda>hs.
     Ok \<lparr>pr_topic = topic, pr_partition = p, pr_offset = off, pr_timestamp_ms = ts, pr_timestamp_type = tt,
       pr_key = k, pr_value = x, pr_headers = hs\<rparr>)))))))))"

text \<open>A batch is a line per record; empty lines are skipped.\<close>

fun ndjson_encode :: "text_lib \<Rightarrow> krecord list \<Rightarrow> unit + bytes" where
  "ndjson_encode T [] = Ok []"
| "ndjson_encode T (r # rs) =
     res_bind (tl_to_writer T (ser_record T (persisted_of r))) (\<lambda>line.
     res_bind (ndjson_encode T rs) (\<lambda>rest. Ok (line @ 10 # rest)))"

fun split_lines :: "bytes \<Rightarrow> bytes list" where
  "split_lines [] = [[]]"
| "split_lines (b # bs) = (if b = 10 then [] # split_lines bs
     else (case split_lines bs of [] \<Rightarrow> [[b]] | l # ls \<Rightarrow> (b # l) # ls))"

definition decode_line :: "text_lib \<Rightarrow> bytes \<Rightarrow> unit + krecord" where
  "decode_line T line = res_bind (tl_from_slice T line) (\<lambda>v. map_sum id into_record (de_record T v))"

definition ndjson_decode :: "text_lib \<Rightarrow> bytes \<Rightarrow> unit + krecord list" where
  "ndjson_decode T b = try_map (decode_line T) (filter (\<lambda>l. l \<noteq> []) (split_lines b))"

section \<open>A document reads back\<close>

lemma word_of_int_in_range:
  "de_u64 (JInt (uint (o64 :: u64))) = Ok o64"
  "de_i64 (JInt (sint (t :: i64))) = Ok t"
  "de_i32 (JInt (sint (p :: i32))) = Ok p"
  using uint_range_size [of o64] sint_range_size [of t] sint_range_size [of p]
  by (simp_all add: de_u64_def de_i64_def de_i32_def word_size)

lemma opt_base64_back:
  "text_lib_ok T \<Longrightarrow> de_opt_base64 T (ser_opt_base64 T v) = Ok v"
  by (auto simp: text_lib_ok_def de_opt_base64_def ser_opt_base64_def de_option_def de_string_def
      split: option.splits)

lemma header_back: "text_lib_ok T \<Longrightarrow> de_header T (ser_header T h) = Ok h"
  by (cases h; cases "ph_value h")
    (simp_all add: de_header_def ser_header_def fields_of_def skip_none_def required_def defaulted_def
      de_string_def opt_base64_back)

lemma headers_back: "text_lib_ok T \<Longrightarrow> try_map (de_header T) (map (ser_header T) hs) = Ok hs"
  by (induction hs) (simp_all add: header_back)

lemma record_back:
  assumes "text_lib_ok T"
  shows "de_record T (ser_record T p) = Ok p"
  using assms
  by (cases p; cases "pr_timestamp_ms p"; cases "pr_key p"; cases "pr_value p"; cases "pr_headers p = []")
    (simp_all add: de_record_def ser_record_def record_fields_def fields_of_def skip_none_def required_def
      defaulted_def de_string_def de_list_def word_of_int_in_range opt_base64_back headers_back de_option_def)

lemma into_persisted [simp]: "into_record (persisted_of r) = r"
  by (cases r) (auto simp: into_record_def persisted_of_def intro!: map_idI)

lemma exact_header: "json_exact (ser_header T h)"
  by (auto simp: ser_header_def skip_none_def ser_opt_base64_def split: option.splits)

lemma exact_record: "json_exact (ser_record T p)"
  by (auto simp: ser_record_def skip_none_def ser_opt_base64_def list_all_iff exact_header split: option.splits)

section \<open>A batch reads back\<close>

lemma split_lines_line: "10 \<notin> set l \<Longrightarrow> split_lines (l @ 10 # b) = l # split_lines b"
  by (induction l) auto

lemma ndjson_back:
  assumes "text_lib_ok T"
  shows "ndjson_encode T rs = Ok b \<Longrightarrow> ndjson_decode T b = Ok rs"
proof (induction rs arbitrary: b)
  case Nil
  then show ?case by (simp add: ndjson_decode_def)
next
  case (Cons r rs)
  obtain line rest where b: "tl_to_writer T (ser_record T (persisted_of r)) = Ok line"
    "ndjson_encode T rs = Ok rest" "b = line @ 10 # rest" using Cons.prems by auto
  have l: "line \<noteq> []" "10 \<notin> set line" "tl_from_slice T line = Ok (ser_record T (persisted_of r))"
    using assms b(1) exact_record by (auto simp: text_lib_ok_def)
  have "decode_line T line = Ok r" using l(3) assms by (simp add: decode_line_def record_back)
  then show ?case using Cons.IH [OF b(2)] l(1,2) b(3) by (simp add: ndjson_decode_def split_lines_line)
qed

end
