(* ===== verification/Parquet_Format.thy ===== *)
theory Parquet_Format
  imports Envelope
begin

text \<open>
  The Parquet envelope (\<open>crates/mirror-envelope/src/parquet.rs\<close>) and the dispatch over the formats
  (\<open>lib.rs\<close>).  The schema, the columns built of a batch and their reading, with the base64 and plain text
  payloads told apart by the field's metadata, are the code's; arrays and record batches are Arrow's data,
  and the Parquet writer and reader are a parameter: writing a file (with its properties, encrypted or
  not) and reading one into a series of batches.  A batch is shown to come back for either key, whatever
  way the reader splits it.
\<close>

section \<open>Schemas\<close>

datatype data_type = DUtf8 | DInt32 | DInt64 | DUInt64 | DLargeBinary
  | DStruct "field list" | DList field | DOther string
and field = Field (fl_name: string) (fl_type: data_type) (fl_nullable: bool)
    (fl_metadata: "(string \<times> string) list")

definition header_struct_fields :: "field list" where
  "header_struct_fields = [Field ''key'' DUtf8 False [], Field ''value'' DLargeBinary True []]"

definition bytes_base64_ext :: string where "bytes_base64_ext = ''mirror_v3.bytes_base64''"
definition json_ext :: string where "json_ext = ''arrow.json''"

definition column_ext :: "column_type \<Rightarrow> string option" where
  "column_ext kind = (case kind of
      CT_Bytes \<Rightarrow> Some bytes_base64_ext
    | CT_Utf8 \<Rightarrow> None
    | CT_Json \<Rightarrow> Some json_ext
    | CT_JsonParseable \<Rightarrow> Some json_ext)"

definition column_field :: "string \<Rightarrow> column_type \<Rightarrow> field" where
  "column_field name kind = Field name DUtf8 True (case column_ext kind of
      None \<Rightarrow> []
    | Some ext \<Rightarrow> [(''ARROW:extension:name'', ext), (''ARROW:extension:metadata'', '''')])"

definition build_schema :: "column_type \<Rightarrow> column_type \<Rightarrow> field list" where
  "build_schema keys vals =
     [Field ''topic'' DUtf8 False [],
      Field ''partition'' DInt32 False [],
      Field ''offset'' DUInt64 False [],
      Field ''timestamp_ms'' DInt64 True [],
      Field ''timestamp_type'' DUtf8 False [],
      column_field ''key'' keys,
      column_field ''value'' vals,
      Field ''headers'' (DList (Field ''item'' (DStruct header_struct_fields) True [])) False []]"

section \<open>Arrays and record batches\<close>

text \<open>
  A list array has an offset more than rows; the items of row \<open>i\<close> are those from offset \<open>i\<close> up to the
  next.  The validity of lists and structs themselves is never looked at and left out.
\<close>

datatype arrow_array =
    AUtf8 "string option list"
  | AInt32 "i32 option list"
  | AInt64 "i64 option list"
  | AUInt64 "u64 option list"
  | ALargeBinary "bytes option list"
  | AStruct "(string \<times> arrow_array) list"
  | AList "nat list" arrow_array
  | AOther string nat

record record_batch =
  rb_schema :: "field list"
  rb_columns :: "arrow_array list"

fun array_len :: "arrow_array \<Rightarrow> nat" where
  "array_len (AUtf8 xs) = length xs"
| "array_len (AInt32 xs) = length xs"
| "array_len (AInt64 xs) = length xs"
| "array_len (AUInt64 xs) = length xs"
| "array_len (ALargeBinary xs) = length xs"
| "array_len (AStruct []) = 0"
| "array_len (AStruct (f # fs)) = array_len (snd f)"
| "array_len (AList offs a) = length offs - 1"
| "array_len (AOther t n) = n"

definition num_rows :: "record_batch \<Rightarrow> nat" where
  "num_rows b = (case rb_columns b of [] \<Rightarrow> 0 | c # _ \<Rightarrow> array_len c)"

definition column_by_name :: "record_batch \<Rightarrow> string \<Rightarrow> arrow_array option" where
  "column_by_name b name = map_of (zip (map fl_name (rb_schema b)) (rb_columns b)) name"

definition field_with_name :: "record_batch \<Rightarrow> string \<Rightarrow> field option" where
  "field_with_name b name = List.find (\<lambda>f. fl_name f = name) (rb_schema b)"

definition as_utf8 :: "arrow_array \<Rightarrow> unit + string option list" where
  "as_utf8 a = (case a of AUtf8 xs \<Rightarrow> Ok xs | _ \<Rightarrow> Err ())"
definition as_int32 :: "arrow_array \<Rightarrow> unit + i32 option list" where
  "as_int32 a = (case a of AInt32 xs \<Rightarrow> Ok xs | _ \<Rightarrow> Err ())"
definition as_int64 :: "arrow_array \<Rightarrow> unit + i64 option list" where
  "as_int64 a = (case a of AInt64 xs \<Rightarrow> Ok xs | _ \<Rightarrow> Err ())"
definition as_uint64 :: "arrow_array \<Rightarrow> unit + u64 option list" where
  "as_uint64 a = (case a of AUInt64 xs \<Rightarrow> Ok xs | _ \<Rightarrow> Err ())"
definition as_large_binary :: "arrow_array \<Rightarrow> unit + bytes option list" where
  "as_large_binary a = (case a of ALargeBinary xs \<Rightarrow> Ok xs | _ \<Rightarrow> Err ())"
definition as_list :: "arrow_array \<Rightarrow> unit + (nat list \<times> arrow_array)" where
  "as_list a = (case a of AList offs x \<Rightarrow> Ok (offs, x) | _ \<Rightarrow> Err ())"
definition as_struct :: "arrow_array \<Rightarrow> unit + (string \<times> arrow_array) list" where
  "as_struct a = (case a of AStruct fs \<Rightarrow> Ok fs | _ \<Rightarrow> Err ())"

section \<open>The library\<close>

datatype compression = ZSTD nat | SNAPPY | LZ4 | UNCOMPRESSED

record 'k writer_properties =
  wp_compression :: compression
  wp_dictionary_enabled :: bool
  wp_chunk_statistics :: bool
  wp_encryption :: "'k option"

text \<open>Writing is opening a writer, writing the batch and closing; reading is opening a reader and its
  batches, each of which may be an error.\<close>

record ('k, 'd) parquet_lib =
  pq_encryption :: "bytes \<Rightarrow> unit + 'k"
  pq_decryption :: "bytes \<Rightarrow> unit + 'd"
  pq_try_new :: "field list \<Rightarrow> arrow_array list \<Rightarrow> unit + record_batch"
  pq_write :: "'k writer_properties \<Rightarrow> field list \<Rightarrow> record_batch \<Rightarrow> unit + bytes"
  pq_read :: "'d option \<Rightarrow> bytes \<Rightarrow> unit + (unit + record_batch) list"

section \<open>Encoding\<close>

definition to_compression :: "parquet_compression \<Rightarrow> compression" where
  "to_compression c = (case c of
      Zstd1 \<Rightarrow> ZSTD 1
    | Zstd3 \<Rightarrow> ZSTD 3
    | Snappy \<Rightarrow> SNAPPY
    | Lz4 \<Rightarrow> LZ4
    | Uncompressed \<Rightarrow> UNCOMPRESSED)"

record headers_builder =
  hb_offsets :: "nat list"
  hb_keys :: "string option list"
  hb_values :: "bytes option list"

record batch_builder =
  bb_topics :: "string option list"
  bb_partitions :: "i32 option list"
  bb_offsets :: "u64 option list"
  bb_timestamps :: "i64 option list"
  bb_timestamp_types :: "string option list"
  bb_keys :: "string option list"
  bb_values :: "string option list"
  bb_headers :: headers_builder

definition empty_builder :: batch_builder where
  "empty_builder = \<lparr>bb_topics = [], bb_partitions = [], bb_offsets = [], bb_timestamps = [],
     bb_timestamp_types = [], bb_keys = [], bb_values = [],
     bb_headers = \<lparr>hb_offsets = [0], hb_keys = [], hb_values = []\<rparr>\<rparr>"

text \<open>The text that is appended for a payload.  A payload the validator let through is UTF-8, so the
  \<open>expect\<close> is never reached.\<close>

definition append_payload ::
    "text_lib \<Rightarrow> column_type \<Rightarrow> bytes option \<Rightarrow> string option list \<Rightarrow> unit + string option list" where
  "append_payload T kind payload strings =
     res_bind (validate_column (tl_json_ok T) kind payload) (\<lambda>_.
     Ok (strings @ [case payload of
         None \<Rightarrow> None
       | Some bs \<Rightarrow> Some (case kind of
             CT_Bytes \<Rightarrow> tl_b64_encode T bs
           | CT_Utf8 \<Rightarrow> the (from_utf8 bs)
           | CT_Json \<Rightarrow> the (from_utf8 bs)
           | CT_JsonParseable \<Rightarrow> the (from_utf8 bs))]))"

fun append_header_items :: "header list \<Rightarrow> headers_builder \<Rightarrow> headers_builder" where
  "append_header_items [] b = b"
| "append_header_items (h # hs) b =
     append_header_items hs (b\<lparr>hb_keys := hb_keys b @ [Some (h_key h)], hb_values := hb_values b @ [h_value h]\<rparr>)"

definition append_headers :: "header list \<Rightarrow> headers_builder \<Rightarrow> headers_builder" where
  "append_headers hs b = (let b = append_header_items hs b
     in b\<lparr>hb_offsets := hb_offsets b @ [length (hb_keys b)]\<rparr>)"

definition append_record ::
    "text_lib \<Rightarrow> column_type \<Rightarrow> column_type \<Rightarrow> krecord \<Rightarrow> batch_builder \<Rightarrow> unit + batch_builder" where
  "append_record T keys vals r b =
     res_bind (append_payload T keys (r_key r) (bb_keys b)) (\<lambda>ks.
     res_bind (append_payload T vals (r_value r) (bb_values b)) (\<lambda>vs.
     Ok \<lparr>bb_topics = bb_topics b @ [Some (r_topic r)],
         bb_partitions = bb_partitions b @ [Some (r_partition r)],
         bb_offsets = bb_offsets b @ [Some (r_offset r)],
         bb_timestamps = bb_timestamps b @ [r_timestamp_ms r],
         bb_timestamp_types = bb_timestamp_types b @ [Some (as_str (r_timestamp_type r))],
         bb_keys = ks, bb_values = vs,
         bb_headers = append_headers (r_headers r) (bb_headers b)\<rparr>))"

fun append_records ::
    "text_lib \<Rightarrow> column_type \<Rightarrow> column_type \<Rightarrow> krecord list \<Rightarrow> batch_builder \<Rightarrow> unit + batch_builder" where
  "append_records T keys vals [] b = Ok b"
| "append_records T keys vals (r # rs) b =
     res_bind (append_record T keys vals r b) (append_records T keys vals rs)"

definition finish_columns :: "batch_builder \<Rightarrow> arrow_array list" where
  "finish_columns b = [AUtf8 (bb_topics b), AInt32 (bb_partitions b), AUInt64 (bb_offsets b),
     AInt64 (bb_timestamps b), AUtf8 (bb_timestamp_types b), AUtf8 (bb_keys b), AUtf8 (bb_values b),
     AList (hb_offsets (bb_headers b))
       (AStruct [(''key'', AUtf8 (hb_keys (bb_headers b))), (''value'', ALargeBinary (hb_values (bb_headers b)))])]"

definition build_record_batch ::
    "text_lib \<Rightarrow> ('k, 'd) parquet_lib \<Rightarrow> krecord list \<Rightarrow> field list \<Rightarrow> column_type \<Rightarrow> column_type
     \<Rightarrow> unit + record_batch" where
  "build_record_batch T P rs schema keys vals =
     res_bind (append_records T keys vals rs empty_builder) (\<lambda>b. pq_try_new P schema (finish_columns b))"

definition parquet_encode ::
    "text_lib \<Rightarrow> ('k, 'd) parquet_lib \<Rightarrow> krecord list \<Rightarrow> parquet_compression \<Rightarrow> column_type \<Rightarrow> column_type
     \<Rightarrow> bytes option \<Rightarrow> unit + bytes" where
  "parquet_encode T P rs c keys vals key =
     (let schema = build_schema keys vals in
      res_bind (build_record_batch T P rs schema keys vals) (\<lambda>batch.
      let props = \<lparr>wp_compression = to_compression c, wp_dictionary_enabled = True,
            wp_chunk_statistics = True, wp_encryption = None\<rparr> in
      res_bind (case key of None \<Rightarrow> Ok props
          | Some k \<Rightarrow> map_sum id (\<lambda>enc. props\<lparr>wp_encryption := Some enc\<rparr>) (pq_encryption P k)) (\<lambda>props.
      pq_write P props schema batch)))"

definition parquet_encode_batch where
  "parquet_encode_batch T P rs c keys vals = parquet_encode T P rs c keys vals None"

definition parquet_encode_batch_encrypted where
  "parquet_encode_batch_encrypted T P rs c keys vals key = parquet_encode T P rs c keys vals (Some key)"

section \<open>Decoding\<close>

text \<open>A null in a column that is read without a null check reads as the type's zero.\<close>

definition array_value :: "'a \<Rightarrow> 'a option list \<Rightarrow> nat \<Rightarrow> 'a" where
  "array_value d xs i = unwrap_or (xs ! i) d"

definition read_payload :: "text_lib \<Rightarrow> string \<Rightarrow> string option \<Rightarrow> unit + bytes option" where
  "read_payload T ext cell = (case cell of
      None \<Rightarrow> Ok None
    | Some s \<Rightarrow> if ext = bytes_base64_ext then map_sum id Some (tl_b64_decode T s)
               else Ok (Some (as_bytes s)))"

definition payload_reader ::
    "text_lib \<Rightarrow> arrow_array \<Rightarrow> field option \<Rightarrow> unit + (nat \<Rightarrow> unit + bytes option)" where
  "payload_reader T col fld =
     res_bind (as_utf8 col) (\<lambda>arr.
     let ext = unwrap_or (Option.bind fld (\<lambda>f. map_of (fl_metadata f) ''ARROW:extension:name'')) []
     in Ok (\<lambda>i. read_payload T ext (arr ! i)))"

definition ok_or :: "'a option \<Rightarrow> unit + 'a" where
  "ok_or x = (case x of None \<Rightarrow> Err () | Some v \<Rightarrow> Ok v)"

definition row_headers :: "nat list \<Rightarrow> string option list \<Rightarrow> bytes option list \<Rightarrow> nat \<Rightarrow> header list" where
  "row_headers offs hks hvs i =
     map (\<lambda>j. \<lparr>h_key = array_value [] hks j, h_value = hvs ! j\<rparr>) [offs ! i ..< offs ! (i + 1)]"

definition record_batch_into_records :: "text_lib \<Rightarrow> record_batch \<Rightarrow> unit + krecord list" where
  "record_batch_into_records T b =
     (let col = (\<lambda>name. ok_or (column_by_name b name)) in
      res_bind (col ''topic'') (\<lambda>topics. res_bind (col ''partition'') (\<lambda>partitions.
      res_bind (col ''offset'') (\<lambda>offs. res_bind (col ''timestamp_ms'') (\<lambda>timestamps.
      res_bind (col ''timestamp_type'') (\<lambda>timestamp_types. res_bind (col ''key'') (\<lambda>keys_col.
      res_bind (col ''value'') (\<lambda>values_col. res_bind (col ''headers'') (\<lambda>headers.
      res_bind (payload_reader T keys_col (field_with_name b ''key'')) (\<lambda>read_key.
      res_bind (payload_reader T values_col (field_with_name b ''value'')) (\<lambda>read_value.
      res_bind (as_utf8 topics) (\<lambda>topics. res_bind (as_int32 partitions) (\<lambda>partitions.
      res_bind (as_uint64 offs) (\<lambda>offs. res_bind (as_int64 timestamps) (\<lambda>timestamps.
      res_bind (as_utf8 timestamp_types) (\<lambda>timestamp_types.
      res_bind (as_list headers) (\<lambda>(header_offsets, items).
      res_bind (as_struct items) (\<lambda>header_struct.
      res_bind (res_bind (ok_or (map_of header_struct ''key'')) as_utf8) (\<lambda>header_keys.
      res_bind (res_bind (ok_or (map_of header_struct ''value'')) as_large_binary) (\<lambda>header_values.
      try_map (\<lambda>i.
        res_bind (read_key i) (\<lambda>k.
        res_bind (read_value i) (\<lambda>v.
        Ok \<lparr>r_topic = array_value [] topics i, r_partition = array_value 0 partitions i,
            r_offset = array_value 0 offs i, r_timestamp_ms = timestamps ! i,
            r_timestamp_type = unwrap_or (from_wire (array_value [] timestamp_types i)) NotAvailable,
            r_key = k, r_value = v,
            r_headers = row_headers header_offsets header_keys header_values i\<rparr>)))
        [0..<num_rows b]))))))))))))))))))))"

definition parquet_decode ::
    "text_lib \<Rightarrow> ('k, 'd) parquet_lib \<Rightarrow> bytes \<Rightarrow> bytes option \<Rightarrow> unit + krecord list" where
  "parquet_decode T P b key =
     res_bind (case key of None \<Rightarrow> Ok None | Some k \<Rightarrow> map_sum id Some (pq_decryption P k)) (\<lambda>options.
     res_bind (pq_read P options b) (\<lambda>reader.
     map_sum id concat (try_map (\<lambda>batch. res_bind batch (record_batch_into_records T)) reader)))"

definition parquet_decode_batch where
  "parquet_decode_batch T P b = parquet_decode T P b None"

definition parquet_decode_batch_encrypted where
  "parquet_decode_batch_encrypted T P b key = parquet_decode T P b (Some key)"

section \<open>Formats\<close>

definition encode_batch ::
    "text_lib \<Rightarrow> ('k, 'd) parquet_lib \<Rightarrow> format \<Rightarrow> parquet_compression \<Rightarrow> column_type \<Rightarrow> column_type
     \<Rightarrow> krecord list \<Rightarrow> unit + bytes" where
  "encode_batch T P fmt c keys vals rs = (case fmt of
      Ndjson \<Rightarrow> ndjson_encode T rs
    | Parquet \<Rightarrow> parquet_encode_batch T P rs c keys vals)"

definition decode_batch :: "text_lib \<Rightarrow> ('k, 'd) parquet_lib \<Rightarrow> format \<Rightarrow> bytes \<Rightarrow> unit + krecord list" where
  "decode_batch T P fmt b = (case fmt of
      Ndjson \<Rightarrow> ndjson_decode T b
    | Parquet \<Rightarrow> parquet_decode_batch T P b)"

text \<open>The codec the blob destinations and restore are given.\<close>

definition envelope_codec :: "text_lib \<Rightarrow> ('k, 'd) parquet_lib \<Rightarrow> codec" where
  "envelope_codec T P = \<lparr>cd_encode = encode_batch T P,
     cd_encode_encrypted = parquet_encode_batch_encrypted T P,
     cd_decode = decode_batch T P,
     cd_decode_encrypted = parquet_decode_batch_encrypted T P\<rparr>"

section \<open>Rows\<close>

text \<open>What a batch says, row by row, whatever its arrays look like.\<close>

datatype cell = CNull | CUtf8 string | CInt32 i32 | CInt64 i64 | CUInt64 u64 | CBinary bytes
  | CStruct "(string \<times> cell) list" | CList "cell list" | CForeign

definition cell_of :: "('a \<Rightarrow> cell) \<Rightarrow> 'a option list \<Rightarrow> nat \<Rightarrow> cell" where
  "cell_of c xs i = (case xs ! i of None \<Rightarrow> CNull | Some x \<Rightarrow> c x)"

fun cell_at :: "arrow_array \<Rightarrow> nat \<Rightarrow> cell" where
  "cell_at (AUtf8 xs) i = cell_of CUtf8 xs i"
| "cell_at (AInt32 xs) i = cell_of CInt32 xs i"
| "cell_at (AInt64 xs) i = cell_of CInt64 xs i"
| "cell_at (AUInt64 xs) i = cell_of CUInt64 xs i"
| "cell_at (ALargeBinary xs) i = cell_of CBinary xs i"
| "cell_at (AStruct fs) i = CStruct (map (\<lambda>f. (fst f, cell_at (snd f) i)) fs)"
| "cell_at (AList offs a) i = CList (map (cell_at a) [offs ! i ..< offs ! (i + 1)])"
| "cell_at (AOther t n) i = CForeign"

definition rows :: "record_batch \<Rightarrow> cell list list" where
  "rows b = map (\<lambda>i. map (\<lambda>c. cell_at c i) (rb_columns b)) [0..<num_rows b]"

text \<open>An array of a type with \<open>n\<close> rows.\<close>

fun typed :: "data_type \<Rightarrow> nat \<Rightarrow> arrow_array \<Rightarrow> bool" where
  "typed t n (AUtf8 xs) = (t = DUtf8 \<and> length xs = n)"
| "typed t n (AInt32 xs) = (t = DInt32 \<and> length xs = n)"
| "typed t n (AInt64 xs) = (t = DInt64 \<and> length xs = n)"
| "typed t n (AUInt64 xs) = (t = DUInt64 \<and> length xs = n)"
| "typed t n (ALargeBinary xs) = (t = DLargeBinary \<and> length xs = n)"
| "typed t n (AStruct cs) = (case t of
      DStruct fs \<Rightarrow> map fl_name fs = map fst cs \<and> list_all2 (\<lambda>f p. p (fl_type f)) fs (map (\<lambda>c t. typed t n (snd c)) cs)
    | _ \<Rightarrow> False)"
| "typed t n (AList offs a) = (case t of
      DList f \<Rightarrow> length offs = n + 1 \<and> sorted offs \<and> last offs \<le> array_len a \<and> typed (fl_type f) (array_len a) a
    | _ \<Rightarrow> False)"
| "typed t n (AOther ty m) = (t = DOther ty \<and> m = n)"

definition typed_batch :: "record_batch \<Rightarrow> bool" where
  "typed_batch b = list_all2 (\<lambda>f c. typed (fl_type f) (num_rows b) c) (rb_schema b) (rb_columns b)"

text \<open>
  What is relied on: a batch is made of what it is asked for; a file that was written without an error,
  read with the key it was encrypted with or without one, gives batches of the same schema with the same
  rows in all.
\<close>

definition reads_back :: "('k, 'd) parquet_lib \<Rightarrow> 'd option \<Rightarrow> bytes \<Rightarrow> record_batch \<Rightarrow> bool" where
  "reads_back P d file b = (\<exists>bs. pq_read P d file = Ok (map Ok bs)
     \<and> (\<forall>x \<in> set bs. rb_schema x = rb_schema b \<and> typed_batch x) \<and> concat (map rows bs) = rows b)"

definition parquet_lib_ok :: "('k, 'd) parquet_lib \<Rightarrow> bool" where
  "parquet_lib_ok P =
     ((\<forall>schema cols b. pq_try_new P schema cols = Ok b \<longrightarrow> b = \<lparr>rb_schema = schema, rb_columns = cols\<rparr>)
      \<and> (\<forall>wp b file. typed_batch b \<longrightarrow> pq_write P wp (rb_schema b) b = Ok file \<longrightarrow>
          (case wp_encryption wp of
             None \<Rightarrow> reads_back P None file b
           | Some enc \<Rightarrow> \<forall>key. pq_encryption P key = Ok enc \<longrightarrow>
               (\<exists>d. pq_decryption P key = Ok d \<and> reads_back P (Some d) file b))))"

section \<open>The columns of a batch\<close>

text \<open>The text of a payload that the column accepts, and how it reads back.\<close>

definition payload_text :: "text_lib \<Rightarrow> column_type \<Rightarrow> bytes option \<Rightarrow> string option" where
  "payload_text T kind p = map_option (\<lambda>bs. if kind = CT_Bytes then tl_b64_encode T bs else the (from_utf8 bs)) p"

lemma append_payload_iff:
  "append_payload T kind p xs = Ok ys \<longleftrightarrow>
     validate_column (tl_json_ok T) kind p = Ok () \<and> ys = xs @ [payload_text T kind p]"
  by (cases p; cases kind) (auto simp: append_payload_def payload_text_def res_bind_def split: sum.splits)

definition ext_of :: "column_type \<Rightarrow> string" where
  "ext_of kind = unwrap_or (column_ext kind) []"

lemma payload_back:
  assumes "text_lib_ok T" "validate_column (tl_json_ok T) kind p = Ok ()"
  shows "read_payload T (ext_of kind) (payload_text T kind p) = Ok p"
proof (cases p)
  case (Some bs)
  show ?thesis
  proof (cases "kind = CT_Bytes")
    case True
    then show ?thesis using assms(1) Some
      by (simp add: read_payload_def payload_text_def ext_of_def column_ext_def text_lib_ok_def)
  next
    case False
    then obtain s where "from_utf8 bs = Some s" using validate_column_utf8 [OF False] assms(2) Some by auto
    then have "as_bytes (the (from_utf8 bs)) = bs" using from_utf8_as_bytes by simp
    moreover have "ext_of kind \<noteq> bytes_base64_ext" using False
      by (cases kind) (simp_all add: ext_of_def column_ext_def bytes_base64_ext_def json_ext_def)
    ultimately show ?thesis using Some False by (simp add: read_payload_def payload_text_def)
  qed
qed (simp add: read_payload_def payload_text_def)

definition payloads_ok :: "text_lib \<Rightarrow> column_type \<Rightarrow> column_type \<Rightarrow> krecord \<Rightarrow> bool" where
  "payloads_ok T keys vals r = (validate_column (tl_json_ok T) keys (r_key r) = Ok ()
     \<and> validate_column (tl_json_ok T) vals (r_value r) = Ok ())"

definition header_bounds :: "header list list \<Rightarrow> nat list" where
  "header_bounds hss = map (\<lambda>i. length (concat (take i hss))) [0..<Suc (length hss)]"

lemma append_header_items_eq:
  "append_header_items hs b = b\<lparr>hb_keys := hb_keys b @ map (Some \<circ> h_key) hs,
     hb_values := hb_values b @ map h_value hs\<rparr>"
  by (induction hs arbitrary: b) simp_all

text \<open>What the builders hold after the records \<open>rs\<close>.\<close>

definition built :: "text_lib \<Rightarrow> column_type \<Rightarrow> column_type \<Rightarrow> krecord list \<Rightarrow> batch_builder" where
  "built T keys vals rs = \<lparr>bb_topics = map (Some \<circ> r_topic) rs,
     bb_partitions = map (Some \<circ> r_partition) rs, bb_offsets = map (Some \<circ> r_offset) rs,
     bb_timestamps = map r_timestamp_ms rs,
     bb_timestamp_types = map (\<lambda>r. Some (as_str (r_timestamp_type r))) rs,
     bb_keys = map (\<lambda>r. payload_text T keys (r_key r)) rs,
     bb_values = map (\<lambda>r. payload_text T vals (r_value r)) rs,
     bb_headers = \<lparr>hb_offsets = header_bounds (map r_headers rs),
       hb_keys = map (Some \<circ> h_key) (concat (map r_headers rs)),
       hb_values = map h_value (concat (map r_headers rs))\<rparr>\<rparr>"

lemma header_bounds_snoc:
  "header_bounds (hss @ [hs]) = header_bounds hss @ [length (concat hss) + length hs]"
  by (simp add: header_bounds_def)

lemma append_record_built:
  "append_record T keys vals r (built T keys vals rs) = Ok b \<longleftrightarrow>
     payloads_ok T keys vals r \<and> b = built T keys vals (rs @ [r])"
  by (auto simp: append_record_def append_payload_iff payloads_ok_def built_def append_headers_def
      append_header_items_eq Let_def header_bounds_snoc)

lemma append_records_built:
  "append_records T keys vals rs (built T keys vals prev) = Ok b \<longleftrightarrow>
     list_all (payloads_ok T keys vals) rs \<and> b = built T keys vals (prev @ rs)"
  by (induction rs arbitrary: prev) (auto simp: append_record_built)

lemma empty_built: "empty_builder = built T keys vals []"
  by (simp add: empty_builder_def built_def header_bounds_def)

lemma append_all_iff:
  "append_records T keys vals rs empty_builder = Ok b \<longleftrightarrow>
     list_all (payloads_ok T keys vals) rs \<and> b = built T keys vals rs"
  using append_records_built [of T keys vals rs "[]"] by (simp add: empty_built [of T keys vals])

section \<open>Rows of a batch\<close>

lemma slice_concat:
  assumes "i < length xss"
  shows "map (\<lambda>j. concat xss ! j) [length (concat (take i xss)) ..< length (concat (take (Suc i) xss))] = xss ! i"
proof -
  have "concat xss = concat (take i xss) @ xss ! i @ concat (drop (Suc i) xss)"
    by (metis assms id_take_nth_drop concat_append concat.simps(2))
  moreover have "concat (take (Suc i) xss) = concat (take i xss) @ xss ! i"
    using assms by (simp add: take_Suc_conv_app_nth)
  ultimately show ?thesis by (auto simp: nth_append intro!: nth_equalityI)
qed

lemma header_bounds_nth: "i \<le> length hss \<Longrightarrow> header_bounds hss ! i = length (concat (take i hss))"
  by (simp add: header_bounds_def del: upt_Suc)

definition header_cell :: "header \<Rightarrow> cell" where
  "header_cell h = CStruct [(''key'', CUtf8 (h_key h)),
     (''value'', case h_value h of None \<Rightarrow> CNull | Some v \<Rightarrow> CBinary v)]"

definition opt_cell :: "('a \<Rightarrow> cell) \<Rightarrow> 'a option \<Rightarrow> cell" where
  "opt_cell c x = (case x of None \<Rightarrow> CNull | Some v \<Rightarrow> c v)"

definition record_cells :: "text_lib \<Rightarrow> column_type \<Rightarrow> column_type \<Rightarrow> krecord \<Rightarrow> cell list" where
  "record_cells T keys vals r = [CUtf8 (r_topic r), CInt32 (r_partition r), CUInt64 (r_offset r),
     opt_cell CInt64 (r_timestamp_ms r), CUtf8 (as_str (r_timestamp_type r)),
     opt_cell CUtf8 (payload_text T keys (r_key r)), opt_cell CUtf8 (payload_text T vals (r_value r)),
     CList (map header_cell (r_headers r))]"

lemma header_bounds_le: "j < length (concat (take i hss)) \<Longrightarrow> j < length (concat hss)"
  by (metis append_take_drop_id concat_append length_append trans_less_add1)

lemma header_row:
  assumes "i < length hss"
  shows "map (cell_at (AStruct [(''key'', AUtf8 (map (Some \<circ> h_key) (concat hss))),
      (''value'', ALargeBinary (map h_value (concat hss)))])) [header_bounds hss ! i ..< header_bounds hss ! Suc i]
    = map header_cell (hss ! i)"
proof -
  have "map (cell_at (AStruct [(''key'', AUtf8 (map (Some \<circ> h_key) (concat hss))),
      (''value'', ALargeBinary (map h_value (concat hss)))])) [header_bounds hss ! i ..< header_bounds hss ! Suc i]
    = map (\<lambda>j. header_cell (concat hss ! j)) [header_bounds hss ! i ..< header_bounds hss ! Suc i]"
    using assms by (auto simp: header_bounds_nth header_cell_def cell_of_def dest!: header_bounds_le)
  also have "\<dots> = map header_cell (map (\<lambda>j. concat hss ! j) [header_bounds hss ! i ..< header_bounds hss ! Suc i])"
    by simp
  finally show ?thesis using assms slice_concat [OF assms] by (simp add: header_bounds_nth)
qed

lemma rows_built:
  "rows \<lparr>rb_schema = sch, rb_columns = finish_columns (built T keys vals rs)\<rparr> = map (record_cells T keys vals) rs"
proof (rule nth_equalityI)
  fix i assume "i < length (rows \<lparr>rb_schema = sch, rb_columns = finish_columns (built T keys vals rs)\<rparr>)"
  then have i: "i < length rs" by (simp add: rows_def num_rows_def finish_columns_def built_def)
  show "rows \<lparr>rb_schema = sch, rb_columns = finish_columns (built T keys vals rs)\<rparr> ! i
      = map (record_cells T keys vals) rs ! i"
    using i header_row [of i "map r_headers rs"]
    by (simp add: rows_def num_rows_def finish_columns_def built_def record_cells_def cell_of_def opt_cell_def
        del: cell_at.simps(6))
qed (simp add: rows_def num_rows_def finish_columns_def built_def)

lemma concat_take_mono: "i \<le> j \<Longrightarrow> length (concat (take i xss)) \<le> length (concat (take j xss))"
  by (metis concat_append le_add1 le_add_diff_inverse length_append take_add)

lemma header_bounds_sorted: "sorted (header_bounds hss)"
  by (auto simp: sorted_iff_nth_mono header_bounds_def simp del: upt_Suc intro!: concat_take_mono)

lemma typed_built:
  "typed_batch \<lparr>rb_schema = build_schema keys vals, rb_columns = finish_columns (built T keys vals rs)\<rparr>"
  by (simp add: typed_batch_def build_schema_def finish_columns_def built_def num_rows_def header_struct_fields_def
      column_field_def header_bounds_sorted) (simp add: header_bounds_def)

section \<open>A batch reads back\<close>

lemma typed_utf8: "typed DUtf8 n a \<Longrightarrow> \<exists>xs. a = AUtf8 xs \<and> length xs = n"
  by (cases a) auto

lemma typed_int32: "typed DInt32 n a \<Longrightarrow> \<exists>xs. a = AInt32 xs \<and> length xs = n"
  by (cases a) auto

lemma typed_int64: "typed DInt64 n a \<Longrightarrow> \<exists>xs. a = AInt64 xs \<and> length xs = n"
  by (cases a) auto

lemma typed_uint64: "typed DUInt64 n a \<Longrightarrow> \<exists>xs. a = AUInt64 xs \<and> length xs = n"
  by (cases a) auto

lemma typed_large_binary: "typed DLargeBinary n a \<Longrightarrow> \<exists>xs. a = ALargeBinary xs \<and> length xs = n"
  by (cases a) auto

lemma typed_headers:
  assumes "typed (DList (Field nm (DStruct header_struct_fields) b md)) n a"
  shows "\<exists>offs hks hvs. a = AList offs (AStruct [(''key'', AUtf8 hks), (''value'', ALargeBinary hvs)])"
proof -
  obtain offs x where a: "a = AList offs x" "typed (DStruct header_struct_fields) (array_len x) x"
    using assms by (cases a) auto
  then obtain cs where cs: "x = AStruct cs" by (cases x) auto
  then have "map fst cs = [''key'', ''value'']" using a(2) by (auto simp: header_struct_fields_def)
  then obtain y z where yz: "cs = [(''key'', y), (''value'', z)]" by (auto simp: map_eq_Cons_conv)
  then have "typed DUtf8 (array_len x) y" "typed DLargeBinary (array_len x) z"
    using a(2) cs by (auto simp: header_struct_fields_def)
  then show ?thesis using a(1) cs yz typed_utf8 typed_large_binary by metis
qed

lemma typed_shape:
  assumes "typed_batch b" "rb_schema b = build_schema keys vals"
  shows "\<exists>t p off ts tt ks vs offs hks hvs. rb_columns b = [AUtf8 t, AInt32 p, AUInt64 off, AInt64 ts, AUtf8 tt,
    AUtf8 ks, AUtf8 vs, AList offs (AStruct [(''key'', AUtf8 hks), (''value'', ALargeBinary hvs)])]"
  using assms
  by (auto simp: typed_batch_def build_schema_def column_field_def list_all2_Cons1
      dest!: typed_utf8 typed_int32 typed_int64 typed_uint64 typed_headers)

lemma cell_of_eq [simp]:
  "cell_of CUtf8 xs i = CUtf8 x \<longleftrightarrow> xs ! i = Some x"
  "cell_of CInt32 ps i = CInt32 p \<longleftrightarrow> ps ! i = Some p"
  "cell_of CUInt64 os i = CUInt64 off \<longleftrightarrow> os ! i = Some off"
  "cell_of CInt64 ts i = opt_cell CInt64 t \<longleftrightarrow> ts ! i = t"
  "cell_of CUtf8 xs i = opt_cell CUtf8 y \<longleftrightarrow> xs ! i = y"
  "cell_of CBinary bs i = opt_cell CBinary v \<longleftrightarrow> bs ! i = v"
  by (auto simp: cell_of_def opt_cell_def split: option.splits)

lemma header_cells_back:
  assumes "map (cell_at (AStruct [(''key'', AUtf8 hks), (''value'', ALargeBinary hvs)])) js = map header_cell hs"
  shows "map (\<lambda>j. \<lparr>h_key = array_value [] hks j, h_value = hvs ! j\<rparr>) js = hs"
proof -
  have "\<lparr>h_key = array_value [] hks j, h_value = hvs ! j\<rparr> = h"
    if "cell_at (AStruct [(''key'', AUtf8 hks), (''value'', ALargeBinary hvs)]) j = header_cell h" for j h
    using that cell_of_eq(6) [of hvs j "h_value h"]
    by (simp add: header_cell_def opt_cell_def array_value_def)
  moreover have "list_all2 (\<lambda>j h. cell_at (AStruct [(''key'', AUtf8 hks), (''value'', ALargeBinary hvs)]) j = header_cell h) js hs"
    using assms by (simp add: list_all2_conv_all_nth list_eq_iff_nth_eq)
  ultimately show ?thesis by (auto simp: list_all2_conv_all_nth intro!: nth_equalityI)
qed

lemma batch_back:
  assumes T: "text_lib_ok T" and b: "typed_batch b" "rb_schema b = build_schema keys vals"
    and rows: "rows b = map (record_cells T keys vals) rs" and ok: "list_all (payloads_ok T keys vals) rs"
  shows "record_batch_into_records T b = Ok rs"
proof -
  obtain t p off ts tt ks vs offs hks hvs where cols: "rb_columns b = [AUtf8 t, AInt32 p, AUInt64 off, AInt64 ts,
      AUtf8 tt, AUtf8 ks, AUtf8 vs, AList offs (AStruct [(''key'', AUtf8 hks), (''value'', ALargeBinary hvs)])]"
    using typed_shape [OF b] by (elim exE)
  have n: "num_rows b = length rs" using arg_cong [OF rows, of length] by (simp add: rows_def)
  have row: "t ! i = Some (r_topic r) \<and> p ! i = Some (r_partition r) \<and> off ! i = Some (r_offset r)
      \<and> ts ! i = r_timestamp_ms r \<and> tt ! i = Some (as_str (r_timestamp_type r))
      \<and> ks ! i = payload_text T keys (r_key r) \<and> vs ! i = payload_text T vals (r_value r)
      \<and> row_headers offs hks hvs i = r_headers r"
    if "i < length rs" "r = rs ! i" for i r
    using arg_cong [OF rows, of "\<lambda>x. x ! i"] that n
    by (simp add: rows_def cols record_cells_def row_headers_def del: cell_at.simps(6))
      (rule header_cells_back, simp)
  have names: "column_by_name b ''topic'' = Some (AUtf8 t)" "column_by_name b ''partition'' = Some (AInt32 p)"
    "column_by_name b ''offset'' = Some (AUInt64 off)" "column_by_name b ''timestamp_ms'' = Some (AInt64 ts)"
    "column_by_name b ''timestamp_type'' = Some (AUtf8 tt)" "column_by_name b ''key'' = Some (AUtf8 ks)"
    "column_by_name b ''value'' = Some (AUtf8 vs)"
    "column_by_name b ''headers'' = Some (AList offs (AStruct [(''key'', AUtf8 hks), (''value'', ALargeBinary hvs)]))"
    by (simp_all add: column_by_name_def b(2) build_schema_def column_field_def cols)
  have "field_with_name b ''key'' = Some (column_field ''key'' keys)"
    "field_with_name b ''value'' = Some (column_field ''value'' vals)"
    by (simp_all add: field_with_name_def b(2) build_schema_def column_field_def)
  then have readers: "payload_reader T (AUtf8 xs) (field_with_name b ''key'') = Ok (\<lambda>i. read_payload T (ext_of keys) (xs ! i))"
    "payload_reader T (AUtf8 xs) (field_with_name b ''value'') = Ok (\<lambda>i. read_payload T (ext_of vals) (xs ! i))" for xs
    by (simp_all add: payload_reader_def as_utf8_def column_field_def ext_of_def split: option.splits)
  have "try_map (\<lambda>i. res_bind (read_payload T (ext_of keys) (ks ! i)) (\<lambda>k.
        res_bind (read_payload T (ext_of vals) (vs ! i)) (\<lambda>v.
        Ok \<lparr>r_topic = array_value [] t i, r_partition = array_value 0 p i,
            r_offset = array_value 0 off i, r_timestamp_ms = ts ! i,
            r_timestamp_type = unwrap_or (from_wire (array_value [] tt i)) NotAvailable,
            r_key = k, r_value = v, r_headers = row_headers offs hks hvs i\<rparr>))) [0..<length rs] = Ok rs"
    using row ok payload_back [OF T]
    by (simp add: try_map_ok list_all2_conv_all_nth array_value_def list_all_length payloads_ok_def)
  then show ?thesis
    by (simp add: record_batch_into_records_def names readers ok_or_def as_utf8_def as_int32_def as_int64_def
        as_uint64_def as_large_binary_def as_list_def as_struct_def n)
qed

lemma split_rows:
  "concat xss = map f ys \<Longrightarrow> \<exists>yss. concat yss = ys \<and> list_all2 (\<lambda>xs ys. xs = map f ys) xss yss"
proof (induction xss arbitrary: ys)
  case (Cons xs xss)
  obtain y1 y2 where "ys = y1 @ y2" "xs = map f y1" "concat xss = map f y2"
    using Cons.prems by (auto simp: append_eq_map_conv)
  moreover obtain yss where "concat yss = y2" "list_all2 (\<lambda>xs ys. xs = map f ys) xss yss"
    using Cons.IH \<open>concat xss = map f y2\<close> by blast
  ultimately show ?case by (intro exI [of _ "y1 # yss"]) simp
qed simp

lemma batches_back:
  assumes "text_lib_ok T" "\<forall>x \<in> set bs. rb_schema x = build_schema keys vals \<and> typed_batch x"
    "concat (map rows bs) = map (record_cells T keys vals) rs" "list_all (payloads_ok T keys vals) rs"
  shows "map_sum id concat (try_map (\<lambda>b. res_bind b (record_batch_into_records T)) (map Ok bs)) = Ok rs"
proof -
  obtain rss where rss: "concat rss = rs" "list_all2 (\<lambda>xs ys. xs = map (record_cells T keys vals) ys) (map rows bs) rss"
    using split_rows [OF assms(3)] by blast
  have "record_batch_into_records T (bs ! i) = Ok (rss ! i)" if "i < length bs" for i
  proof (rule batch_back [OF assms(1)])
    have "i < length rss" using that rss(2) by (auto dest: list_all2_lengthD)
    then show "list_all (payloads_ok T keys vals) (rss ! i)"
      using assms(4) by (auto simp: list_all_iff rss(1) [symmetric])
  qed (use assms(2) that rss(2) in \<open>auto simp: list_all2_conv_all_nth\<close>)
  then have "try_map (\<lambda>b. res_bind b (record_batch_into_records T)) (map Ok bs) = Ok rss"
    using rss(2) by (simp add: try_map_ok list_all2_conv_all_nth)
  then show ?thesis by (simp add: rss(1))
qed

lemma reads_back_records:
  assumes "text_lib_ok T" "list_all (payloads_ok T keys vals) rs"
    "reads_back P d file \<lparr>rb_schema = build_schema keys vals, rb_columns = finish_columns (built T keys vals rs)\<rparr>"
  shows "res_bind (pq_read P d file) (\<lambda>reader.
     map_sum id concat (try_map (\<lambda>b. res_bind b (record_batch_into_records T)) reader)) = Ok rs"
  using assms batches_back [OF assms(1) _ _ assms(2)] by (auto simp: reads_back_def rows_built)

lemma build_record_batch_ok:
  assumes "parquet_lib_ok P" "build_record_batch T P rs schema keys vals = Ok b"
  shows "list_all (payloads_ok T keys vals) rs
    \<and> b = \<lparr>rb_schema = schema, rb_columns = finish_columns (built T keys vals rs)\<rparr>"
  using assms by (auto simp: build_record_batch_def append_all_iff parquet_lib_ok_def)

lemma map_sum_Ok [simp]: "(map_sum id f x = Ok y) = (\<exists>z. x = Ok z \<and> y = f z)"
  by (cases x) auto

lemma parquet_encode_ok:
  assumes "parquet_lib_ok P" "parquet_encode T P rs c keys vals key = Ok file"
  shows "list_all (payloads_ok T keys vals) rs
    \<and> (\<exists>wp. pq_write P wp (build_schema keys vals)
          \<lparr>rb_schema = build_schema keys vals, rb_columns = finish_columns (built T keys vals rs)\<rparr> = Ok file
        \<and> (case key of None \<Rightarrow> wp_encryption wp = None
           | Some k \<Rightarrow> \<exists>enc. pq_encryption P k = Ok enc \<and> wp_encryption wp = Some enc))"
proof -
  let ?wp = "\<lparr>wp_compression = to_compression c, wp_dictionary_enabled = True, wp_chunk_statistics = True,
    wp_encryption = None\<rparr>"
  obtain b where b: "build_record_batch T P rs (build_schema keys vals) keys vals = Ok b"
    "res_bind (case key of None \<Rightarrow> Ok ?wp
       | Some k \<Rightarrow> map_sum id (\<lambda>enc. ?wp\<lparr>wp_encryption := Some enc\<rparr>) (pq_encryption P k))
       (\<lambda>props. pq_write P props (build_schema keys vals) b) = Ok file"
    using assms(2) by (auto simp only: parquet_encode_def Let_def res_bind_Inr)
  show ?thesis
    using build_record_batch_ok [OF assms(1) b(1)] b(2) by (cases key) auto
qed

lemma parquet_back:
  assumes "text_lib_ok T" "parquet_lib_ok P" "parquet_encode T P rs c keys vals key = Ok file"
  shows "parquet_decode T P file key = Ok rs"
proof -
  let ?b = "\<lparr>rb_schema = build_schema keys vals, rb_columns = finish_columns (built T keys vals rs)\<rparr>"
  obtain wp where ok: "list_all (payloads_ok T keys vals) rs" and wp: "pq_write P wp (rb_schema ?b) ?b = Ok file"
    "case key of None \<Rightarrow> wp_encryption wp = None
       | Some k \<Rightarrow> \<exists>enc. pq_encryption P k = Ok enc \<and> wp_encryption wp = Some enc"
    using parquet_encode_ok [OF assms(2,3)] by auto
  have read: "case wp_encryption wp of None \<Rightarrow> reads_back P None file ?b
     | Some enc \<Rightarrow> \<forall>key. pq_encryption P key = Ok enc \<longrightarrow>
         (\<exists>d. pq_decryption P key = Ok d \<and> reads_back P (Some d) file ?b)"
    using assms(2) wp(1) typed_built unfolding parquet_lib_ok_def by blast
  show ?thesis
  proof (cases key)
    case None
    then have "reads_back P None file ?b" using wp(2) read by simp
    then show ?thesis using None reads_back_records [OF assms(1) ok] by (simp add: parquet_decode_def)
  next
    case (Some k)
    then obtain enc where "pq_encryption P k = Ok enc" "wp_encryption wp = Some enc" using wp(2) by auto
    then obtain d where "pq_decryption P k = Ok d" "reads_back P (Some d) file ?b" using read by fastforce
    then show ?thesis using Some reads_back_records [OF assms(1) ok] by (simp add: parquet_decode_def)
  qed
qed

lemma envelope_back:
  assumes "text_lib_ok T" "parquet_lib_ok P"
  shows "codec_ok (envelope_codec T P)"
  using ndjson_back [OF assms(1)] parquet_back [OF assms]
  by (simp add: codec_ok_def envelope_codec_def encode_batch_def decode_batch_def parquet_encode_batch_def
      parquet_decode_batch_def parquet_encode_batch_encrypted_def parquet_decode_batch_encrypted_def
      split: format.split)

end
