(* ===== verification/Keyring.thy ===== *)
theory Keyring
  imports Parquet_Format Std_Maps
begin

text \<open>
  The keys directory (\<open>crates/mirror-envelope/src/keys.rs\<close>): one file per key, named by the key id, holding
  the standard base64 of 32 bytes.  Loading it is a function of what the directory listing and the reads
  return.  Its lemmas show that whatever loads is a map of key ids to 32-byte keys in the order of the ids,
  and that loading fails exactly when a file that is not hidden is not a key.
\<close>

section \<open>\<open>str::trim\<close>\<close>

text \<open>White space of one, two and three bytes in UTF-8: ASCII, U+0085 and U+00A0, and U+1680, U+2000 to
  U+200A, U+2028, U+2029, U+202F, U+205F and U+3000.\<close>

definition space1 :: "nat \<Rightarrow> bool" where
  "space1 a = ((9 \<le> a \<and> a \<le> 13) \<or> a = 32)"

definition space2 :: "nat \<Rightarrow> nat \<Rightarrow> bool" where
  "space2 a b = (a = 194 \<and> (b = 133 \<or> b = 160))"

definition space3 :: "nat \<Rightarrow> nat \<Rightarrow> nat \<Rightarrow> bool" where
  "space3 a b c = ((a = 225 \<and> b = 154 \<and> c = 128)
     \<or> (a = 226 \<and> b = 128 \<and> ((128 \<le> c \<and> c \<le> 138) \<or> c = 168 \<or> c = 169 \<or> c = 175))
     \<or> (a = 226 \<and> b = 129 \<and> c = 159) \<or> (a = 227 \<and> b = 128 \<and> c = 128))"

fun drop_spaces :: "(nat \<Rightarrow> nat \<Rightarrow> bool) \<Rightarrow> (nat \<Rightarrow> nat \<Rightarrow> nat \<Rightarrow> bool) \<Rightarrow> string \<Rightarrow> string" where
  "drop_spaces s2 s3 [] = []"
| "drop_spaces s2 s3 (a # s) =
     (if space1 (of_char a) then drop_spaces s2 s3 s
      else (case s of
          b # t \<Rightarrow> if s2 (of_char a) (of_char b) then drop_spaces s2 s3 t
            else (case t of
                c # u \<Rightarrow> if s3 (of_char a) (of_char b) (of_char c) then drop_spaces s2 s3 u else a # s
              | [] \<Rightarrow> a # s)
        | [] \<Rightarrow> a # s))"

definition str_trim :: "string \<Rightarrow> string" where
  "str_trim s = rev (drop_spaces (\<lambda>a b. space2 b a) (\<lambda>a b c. space3 c b a) (rev (drop_spaces space2 space3 s)))"

section \<open>The keyring\<close>

definition key_bytes :: nat where "key_bytes = 32"

datatype keys_error = KeysDir | KeysBadName | KeysRead | KeysBadKey | KeysMissing

record keyring =
  kr_dir :: string
  kr_keys :: "(string \<times> bytes) list"

text \<open>An entry of the directory: its name, and what reading it as text gives.\<close>

type_synonym key_entry = "unit + (string \<times> (unit + string))"

definition load_key :: "text_lib \<Rightarrow> string \<Rightarrow> keys_error + bytes" where
  "load_key T text = (case tl_b64_decode T (str_trim text) of
      Inl _ \<Rightarrow> Err KeysBadKey
    | Inr raw \<Rightarrow> if length raw = key_bytes then Ok raw else Err KeysBadKey)"

fun load_entries :: "text_lib \<Rightarrow> key_entry list \<Rightarrow> (string \<times> bytes) list \<Rightarrow> keys_error + (string \<times> bytes) list" where
  "load_entries T [] keys = Ok keys"
| "load_entries T (Inl _ # es) keys = Err KeysDir"
| "load_entries T (Inr (name, file) # es) keys =
     (if take 1 name = ''.'' then load_entries T es keys
      else if \<not> is_key_id name then Err KeysBadName
      else (case file of
          Inl _ \<Rightarrow> Err KeysRead
        | Inr text \<Rightarrow> res_bind (load_key T text) (\<lambda>raw. load_entries T es (bt_insert name raw keys))))"

definition keyring_load :: "text_lib \<Rightarrow> string \<Rightarrow> unit + key_entry list \<Rightarrow> keys_error + keyring" where
  "keyring_load T dir listing = (case listing of
      Inl _ \<Rightarrow> Err KeysDir
    | Inr entries \<Rightarrow> res_bind (load_entries T entries []) (\<lambda>keys. Ok \<lparr>kr_dir = dir, kr_keys = keys\<rparr>))"

definition keyring_get :: "keyring \<Rightarrow> string \<Rightarrow> keys_error + bytes" where
  "keyring_get kr kid = (case map_of (kr_keys kr) kid of None \<Rightarrow> Err KeysMissing | Some k \<Rightarrow> Ok k)"

definition keyring_ids :: "keyring \<Rightarrow> string list" where
  "keyring_ids kr = map fst (kr_keys kr)"

section \<open>What loads\<close>

text \<open>The key a file stands for, in a directory where every file that is not hidden is a key.\<close>

definition entry_key :: "text_lib \<Rightarrow> key_entry \<Rightarrow> (string \<times> bytes) option" where
  "entry_key T e = (case e of
      Inr (name, Inr text) \<Rightarrow> if take 1 name \<noteq> ''.'' \<and> is_key_id name
        then (case load_key T text of Inr raw \<Rightarrow> Some (name, raw) | Inl _ \<Rightarrow> None) else None
    | _ \<Rightarrow> None)"

definition hidden :: "key_entry \<Rightarrow> bool" where
  "hidden e = (case e of Inr (name, _) \<Rightarrow> take 1 name = ''.'' | Inl _ \<Rightarrow> False)"

lemma load_key_length: "load_key T text = Ok raw \<Longrightarrow> length raw = 32"
  by (auto simp: load_key_def key_bytes_def split: sum.splits if_splits)

lemma load_entries_iff:
  "load_entries T es keys = Ok ks \<longleftrightarrow>
     (\<forall>e \<in> set es. hidden e \<or> entry_key T e \<noteq> None)
     \<and> ks = fold (\<lambda>(name, raw). bt_insert name raw) (List.map_filter (entry_key T) es) keys"
proof (induction T es keys rule: load_entries.induct)
  case (3 T name "file" es keys)
  show ?case
  proof (cases "take 1 name = ''.''")
    case True
    then show ?thesis using 3(1) by (auto simp: hidden_def entry_key_def split: sum.splits)
  next
    case False
    show ?thesis
    proof (cases "file")
      case (Inr txt1)
      show ?thesis
        using False Inr 3(2) by (cases "load_key T txt1") (auto simp: hidden_def entry_key_def)
    qed (use False in \<open>auto simp: hidden_def entry_key_def\<close>)
  qed
qed (auto simp: hidden_def entry_key_def)

lemma entry_key_ok: "entry_key T e = Some (kid, raw) \<Longrightarrow> is_key_id kid \<and> length raw = 32"
  by (auto simp: entry_key_def load_key_length split: sum.splits prod.splits if_splits)

lemma map_filter_in: "x \<in> set (List.map_filter f xs) = (\<exists>y \<in> set xs. f y = Some x)"
  by (force simp: List.map_filter_def)

lemma fold_insert_keys:
  "bt_ok m \<Longrightarrow> bt_ok (fold (\<lambda>(k, v). bt_insert k v) us m)
     \<and> fst ` set (fold (\<lambda>(k, v). bt_insert k v) us m) = fst ` set us \<union> fst ` set m"
proof (induction us arbitrary: m)
  case (Cons u us)
  obtain a v where u: "u = (a, v)" by (cases u)
  show ?case using Cons.IH [OF bt_ok_insert [OF Cons.prems, of a v]] by (simp add: u)
qed simp

lemma fold_insert_distinct:
  "bt_ok m \<Longrightarrow> distinct (map fst us) \<Longrightarrow> fst ` set us \<inter> fst ` set m = {} \<Longrightarrow>
     map_of (fold (\<lambda>(k, v). bt_insert k v) us m) k = (case map_of us k of None \<Rightarrow> map_of m k | Some v \<Rightarrow> Some v)"
proof (induction us arbitrary: m)
  case (Cons u us)
  obtain a v where u: "u = (a, v)" by (cases u)
  have "map_of us a = None" using Cons.prems(2) u by (simp add: map_of_eq_None_iff)
  then show ?case
    using Cons.IH [of "bt_insert a v m"] Cons.prems u by (auto simp: bt_ok_insert map_of_bt_insert split: option.splits)
qed simp

text \<open>A keyring has exactly the keys of its files, each under its id; a directory lists a name once.\<close>

lemma keyring_get_iff:
  assumes "keyring_load T dir (Inr es) = Ok kr" "distinct (map fst (List.map_filter (entry_key T) es))"
  shows "keyring_get kr kid = Ok raw \<longleftrightarrow> (\<exists>e \<in> set es. entry_key T e = Some (kid, raw))"
    and "keyring_get kr kid = Ok raw \<Longrightarrow> is_key_id kid \<and> length raw = 32"
    and "bt_ok (kr_keys kr)" and "set (keyring_ids kr) = {kid. \<exists>raw. keyring_get kr kid = Ok raw}"
proof -
  let ?us = "List.map_filter (entry_key T) es"
  have keys: "kr_keys kr = fold (\<lambda>(k, v). bt_insert k v) ?us []"
    using assms(1) load_entries_iff by (auto simp: keyring_load_def)
  have "map_of (kr_keys kr) kid = map_of ?us kid" for kid
    using fold_insert_distinct [of "[]" ?us kid] assms(2) by (auto simp: keys bt_ok_def split: option.splits)
  then have get: "keyring_get kr kid = Ok raw \<longleftrightarrow> (kid, raw) \<in> set ?us" for kid raw
    using map_of_eq_Some_iff [OF assms(2), of kid raw] by (cases "map_of ?us kid") (auto simp: keyring_get_def)
  show g: "keyring_get kr kid = Ok raw \<longleftrightarrow> (\<exists>e \<in> set es. entry_key T e = Some (kid, raw))"
    by (simp add: get map_filter_in)
  show "keyring_get kr kid = Ok raw \<Longrightarrow> is_key_id kid \<and> length raw = 32"
    using entry_key_ok by (auto simp: g)
  show "bt_ok (kr_keys kr)" using fold_insert_keys [of "[]" ?us] by (simp add: keys bt_ok_def)
  have "fst ` set (kr_keys kr) = fst ` set ?us" using fold_insert_keys [of "[]" ?us] by (simp add: keys bt_ok_def)
  then show "set (keyring_ids kr) = {kid. \<exists>raw. keyring_get kr kid = Ok raw}"
    by (force simp: keyring_ids_def get)
qed

end
