(* ===== verification/Props_Envelope.thy ===== *)
theory Props_Envelope
  imports Fixtures Keyring
begin

text \<open>
  The properties of the envelopes: they are a codec as the blob destinations and restore rely on, and what a
  keyring is.
\<close>

section \<open>Libraries for the witnesses\<close>

text \<open>
  JSON text is a byte per document, for the documents of the demo records; base64 is the bytes themselves;
  a Parquet file is the offsets of the demo records after the key, if any, and is read a row at a time.
\<close>

definition demo_b64 :: text_lib where
  "demo_b64 = \<lparr>tl_to_writer = (\<lambda>v. Inl ()), tl_from_slice = (\<lambda>b. Inl ()),
     tl_b64_encode = map char_of_byte, tl_b64_decode = (\<lambda>s. Inr (as_bytes s)), tl_json_ok = (\<lambda>s. True)\<rparr>"

definition demo_from_slice :: "bytes \<Rightarrow> unit + json" where
  "demo_from_slice b = (case b of
      [x] \<Rightarrow> if 65 \<le> x then Inr (ser_record demo_b64 (persisted_of (demo_rec (unat (x - 65))))) else Inl ()
    | _ \<Rightarrow> Inl ())"

definition demo_to_writer :: "json \<Rightarrow> unit + bytes" where
  "demo_to_writer v = (case v of
      JObj fs \<Rightarrow> (case map_of fs ''offset'' of
          Some (JInt n) \<Rightarrow> let b = [of_int (n + 65)] in if demo_from_slice b = Inr v then Inr b else Inl ()
        | _ \<Rightarrow> Inl ())
    | _ \<Rightarrow> Inl ())"

definition demo_text :: text_lib where
  "demo_text = demo_b64\<lparr>tl_to_writer := demo_to_writer, tl_from_slice := demo_from_slice\<rparr>"

lemma demo_text_ok: "text_lib_ok demo_text"
proof -
  have "b \<noteq> [] \<and> 10 \<notin> set b \<and> demo_from_slice b = Inr v" if w: "demo_to_writer v = Inr b" for v b
  proof -
    have rd: "demo_from_slice b = Inr v"
      using w by (auto simp: demo_to_writer_def Let_def split: json.splits option.splits if_splits)
    then obtain x where "b = [x]" "65 \<le> x" by (auto simp: demo_from_slice_def split: list.splits if_splits)
    moreover from this have "x \<noteq> 10" by auto
    ultimately show ?thesis using rd by simp
  qed
  moreover have "as_bytes (map char_of_byte b) = b" for b by (simp add: as_bytes_def o_def)
  ultimately show ?thesis by (simp add: text_lib_ok_def demo_text_def demo_b64_def)
qed

definition demo_encoded :: "bytes \<Rightarrow> record_batch" where
  "demo_encoded offs = \<lparr>rb_schema = build_schema CT_Utf8 CT_Bytes,
     rb_columns = finish_columns (built demo_text CT_Utf8 CT_Bytes (demo_decode offs))\<rparr>"

definition demo_read_rows :: "bytes \<Rightarrow> (unit + record_batch) list" where
  "demo_read_rows offs = map (\<lambda>x. Inr (demo_encoded [x])) offs"

definition demo_parquet :: "(bytes, bytes) parquet_lib" where
  "demo_parquet = \<lparr>
     pq_encryption = Inr, pq_decryption = Inr,
     pq_try_new = (\<lambda>schema cols. Inr \<lparr>rb_schema = schema, rb_columns = cols\<rparr>),
     pq_write = (\<lambda>wp schema b.
       let offs = (case rb_columns b of
           _ # _ # AUInt64 os # _ \<Rightarrow> map (\<lambda>x. of_nat (unat (the x))) os
         | _ \<Rightarrow> []) in
       if b = demo_encoded offs then Inr (unwrap_or (wp_encryption wp) [] @ offs) else Inl ()),
     pq_read = (\<lambda>d file. case d of
         None \<Rightarrow> Inr (demo_read_rows file)
       | Some k \<Rightarrow> if take (length k) file = k then Inr (demo_read_rows (drop (length k) file)) else Inl ())\<rparr>"

lemma demo_reads_back:
  assumes "pq_read demo_parquet d file = Inr (demo_read_rows offs)"
  shows "reads_back demo_parquet d file (demo_encoded offs)"
proof -
  have "rows (demo_encoded xs) = map (record_cells demo_text CT_Utf8 CT_Bytes) (demo_decode xs)" for xs
    by (simp add: demo_encoded_def rows_built)
  moreover have "typed_batch (demo_encoded [x])" for x by (simp add: demo_encoded_def typed_built)
  moreover from calculation(1) have "concat (map (\<lambda>x. rows (demo_encoded [x])) xs) = rows (demo_encoded xs)" for xs
    by (induction xs) (simp_all add: demo_decode_def)
  ultimately show ?thesis
    using assms unfolding reads_back_def
    by (intro exI [of _ "map (\<lambda>x. demo_encoded [x]) offs"])
      (simp add: demo_read_rows_def o_def, simp add: demo_encoded_def)
qed

lemma demo_parquet_ok: "parquet_lib_ok demo_parquet"
proof -
  have "case wp_encryption wp of None \<Rightarrow> reads_back demo_parquet None file b
      | Some enc \<Rightarrow> \<forall>key. pq_encryption demo_parquet key = Inr enc \<longrightarrow>
          (\<exists>d. pq_decryption demo_parquet key = Inr d \<and> reads_back demo_parquet (Some d) file b)"
    if w: "pq_write demo_parquet wp (rb_schema b) b = Inr file" for wp b "file"
  proof -
    obtain offs where offs: "b = demo_encoded offs" "file = unwrap_or (wp_encryption wp) [] @ offs"
      using w by (auto simp: demo_parquet_def Let_def split: if_splits)
    show ?thesis using demo_reads_back [of _ "file" offs] offs
      by (cases "wp_encryption wp") (simp_all add: demo_parquet_def)
  qed
  then show ?thesis by (simp add: parquet_lib_ok_def) (simp add: demo_parquet_def)
qed

section \<open>The codec\<close>

text \<open>
  C8: what is stored reads back.  For any JSON, base64 and Parquet libraries that do what they document, a
  batch that either format encodes, encrypted or not, decodes to exactly the records it was encoded from,
  in order, with every header, null and timestamp, however the reader splits the file; and a batch with a
  key or value its column type does not accept is not encoded to Parquet at all.
\<close>

theorem envelope_codec_ok:
  assumes "text_lib_ok T" and "parquet_lib_ok P"
  shows "codec_ok (envelope_codec T P)
    \<and> (\<forall>r \<in> set rs. validate_column (tl_json_ok T) keys (r_key r) \<noteq> Ok ()
          \<or> validate_column (tl_json_ok T) vals (r_value r) \<noteq> Ok () \<longrightarrow>
        cd_encode (envelope_codec T P) Parquet c keys vals rs = Err ()
        \<and> cd_encode_encrypted (envelope_codec T P) rs c keys vals key = Err ())"
proof -
  have "list_all (payloads_ok T keys vals) rs" if "parquet_encode T P rs c keys vals k = Ok file" for k "file"
    using parquet_encode_ok [OF assms(2) that] by simp
  then have "\<not> list_all (payloads_ok T keys vals) rs \<Longrightarrow> parquet_encode T P rs c keys vals k = Err ()" for k
    by (cases "parquet_encode T P rs c keys vals k") auto
  then show ?thesis
    using envelope_back [OF assms]
    by (auto simp: envelope_codec_def encode_batch_def parquet_encode_batch_def parquet_encode_batch_encrypted_def
        payloads_ok_def list_all_iff)
qed

definition demo_batch_records :: "krecord list" where
  "demo_batch_records = [demo_rec 2, demo_rec 0]"

theorem envelope_codec_ok_witness:
  "codec_ok (envelope_codec demo_text demo_parquet)
   \<and> decode_batch demo_text demo_parquet Parquet [2, 0] = Inr demo_batch_records
   \<and> decode_batch demo_text demo_parquet Ndjson [67, 10, 65, 10] = Inr demo_batch_records
   \<and> encode_batch demo_text demo_parquet Parquet Zstd3 CT_Utf8 CT_Utf8 [demo_rec 200] = Inl ()"
proof -
  have ok: "codec_ok (envelope_codec demo_text demo_parquet)"
    using envelope_codec_ok [OF demo_text_ok demo_parquet_ok] by blast
  have "encode_batch demo_text demo_parquet Parquet Zstd3 CT_Utf8 CT_Bytes demo_batch_records = Inr [2, 0]"
    "encode_batch demo_text demo_parquet Ndjson Zstd3 CT_Utf8 CT_Bytes demo_batch_records = Inr [67, 10, 65, 10]"
    by code_simp+
  then have "decode_batch demo_text demo_parquet Parquet [2, 0] = Inr demo_batch_records"
    "decode_batch demo_text demo_parquet Ndjson [67, 10, 65, 10] = Inr demo_batch_records"
    using ok by (auto simp: codec_ok_def envelope_codec_def)
  moreover have "\<exists>r \<in> set [demo_rec 200]. validate_column (tl_json_ok demo_text) CT_Utf8 (r_key r) \<noteq> Ok ()
      \<or> validate_column (tl_json_ok demo_text) CT_Utf8 (r_value r) \<noteq> Ok ()" by code_simp
  then have "cd_encode (envelope_codec demo_text demo_parquet) Parquet Zstd3 CT_Utf8 CT_Utf8 [demo_rec 200] = Inl ()"
    using envelope_codec_ok [OF demo_text_ok demo_parquet_ok] by blast
  ultimately show ?thesis using ok by (simp add: envelope_codec_def)
qed

end
