(* ===== verification/Flush_Coord.thy ===== *)
theory Flush_Coord
  imports Tee
begin

text \<open>
  The coordinator of several destinations' flushes (\<open>MinFlushCoordinator\<close> in
  \<open>crates/mirror-core/src/tee.rs\<close>).  Its specification is \<open>linked\<close>: the events it fires are the
  successive steps of the minimum, over the destinations, of the highest offset each has flushed.
\<close>

text \<open>The events lead from \<open>a\<close> to \<open>b\<close> in steps that each start where the one before ended.\<close>

fun linked :: "u64 \<Rightarrow> (u64 \<times> u64) list \<Rightarrow> u64 \<Rightarrow> bool" where
  "linked a [] b = (a = b)"
| "linked a ((f, t) # es) b = (f = a \<and> f < t \<and> linked t es b)"

lemma linked_snoc: "linked a (es @ [(f, t)]) b = (linked a es f \<and> f < t \<and> t = b)"
  by (induction a es f rule: linked.induct) auto

lemma linked_le: "linked a es b \<Longrightarrow> a \<le> b \<and> (\<forall>e \<in> set es. a \<le> fst e \<and> fst e < snd e \<and> snd e \<le> b)"
proof (induction a es b rule: linked.induct)
  case (2 a f t es b)
  then have "f = a" "f < t" "t \<le> b" "\<forall>e \<in> set es. t \<le> fst e \<and> fst e < snd e \<and> snd e \<le> b" by auto
  then show ?case by (auto intro: order_trans less_imp_le)
qed simp

text \<open>The highest offset that destination \<open>i\<close> reported flushed.\<close>

definition flushed_to :: "(nat \<times> u64 \<times> u64) list \<Rightarrow> nat \<Rightarrow> u64" where
  "flushed_to evs i = fold (\<lambda>e m. if fst e = i then max m (snd (snd e)) else m) evs 0"

lemma flushed_to_snoc:
  "flushed_to (evs @ [e]) i = (if fst e = i then max (flushed_to evs i) (snd (snd e)) else flushed_to evs i)"
  by (simp add: flushed_to_def)

definition coord_inv :: "nat \<Rightarrow> (nat \<times> u64 \<times> u64) list \<Rightarrow> coordinator \<Rightarrow> bool" where
  "coord_inv n evs c =
     (mf_per_sink_flushed_to c = map (flushed_to evs) [0..<n]
      \<and> linked 0 (mf_outer c) (Min (set (map (flushed_to evs) [0..<n])))
      \<and> mf_last_fired_to c = (let m = Min (set (map (flushed_to evs) [0..<n])) in
            if m = 0 then None else Some m))"

lemma per_sink_step:
  assumes "mf_per_sink_flushed_to c = map (flushed_to evs) [0..<n]" "i < n"
  shows "(if mf_per_sink_flushed_to c ! i < to then (mf_per_sink_flushed_to c)[i := to]
      else mf_per_sink_flushed_to c) = map (flushed_to (evs @ [(i, frm, to)])) [0..<n]"
  unfolding assms(1)
  by (rule nth_equalityI)
    (use assms(2) in \<open>auto simp: flushed_to_snoc nth_list_update max_def split: if_splits\<close>)

lemma flushed_to_mono: "flushed_to evs j \<le> flushed_to (evs @ [e]) j"
  by (simp add: flushed_to_snoc)

lemma min_mono:
  assumes "0 < n"
  shows "Min (set (map (flushed_to evs) [0..<n])) \<le> Min (set (map (flushed_to (evs @ [e])) [0..<n]))"
proof -
  let ?new = "set (map (flushed_to (evs @ [e])) [0..<n])"
  have "Min ?new \<in> ?new" using assms by (intro Min_in) auto
  then obtain j where j: "j < n" "Min ?new = flushed_to (evs @ [e]) j" by auto
  have "Min (set (map (flushed_to evs) [0..<n])) \<le> flushed_to evs j"
    using j(1) by (intro Min_le) auto
  also have "\<dots> \<le> Min ?new" using flushed_to_mono j(2) by simp
  finally show ?thesis .
qed

lemma note_flush_inv:
  assumes "coord_inv n evs c" "i < n"
  shows "coord_inv n (evs @ [(i, frm, to)]) (note_flush i to c)"
proof -
  define per' where "per' = map (flushed_to (evs @ [(i, frm, to)])) [0..<n]"
  define m where "m = Min (set (map (flushed_to evs) [0..<n]))"
  define m' where "m' = Min (set per')"
  have per: "(if mf_per_sink_flushed_to c ! i < to then (mf_per_sink_flushed_to c)[i := to]
      else mf_per_sink_flushed_to c) = per'"
    unfolding per'_def by (rule per_sink_step [OF _ assms(2)]) (use assms(1) in \<open>simp add: coord_inv_def\<close>)
  have le: "m \<le> m'" using min_mono [of n evs "(i, frm, to)"] assms(2) by (simp add: m_def m'_def per'_def)
  have c: "linked 0 (mf_outer c) m" "mf_last_fired_to c = (if m = 0 then None else Some m)"
    using assms(1) by (simp_all add: coord_inv_def m_def Let_def)
  have "note_flush i to c = (if m < m'
      then c\<lparr>mf_per_sink_flushed_to := per', mf_last_fired_to := Some m', mf_outer := mf_outer c @ [(m, m')]\<rparr>
      else c\<lparr>mf_per_sink_flushed_to := per'\<rparr>)"
    using c(2) by (simp add: note_flush_def Let_def per m'_def [symmetric] word_gt_0)
  moreover have "coord_inv n (evs @ [(i, frm, to)]) (if m < m'
      then c\<lparr>mf_per_sink_flushed_to := per', mf_last_fired_to := Some m', mf_outer := mf_outer c @ [(m, m')]\<rparr>
      else c\<lparr>mf_per_sink_flushed_to := per'\<rparr>)"
  proof (cases "m < m'")
    case True
    then have "m' \<noteq> 0" by auto
    then show ?thesis using True c
      by (simp add: coord_inv_def Let_def linked_snoc per'_def [symmetric] m'_def [symmetric])
  next
    case False
    then have "m' = m" using le by simp
    then show ?thesis using c
      by (simp add: coord_inv_def Let_def per'_def [symmetric] m'_def [symmetric])
  qed
  ultimately show ?thesis by simp
qed

lemma relay_all_inv:
  assumes "0 < n" "\<forall>e \<in> set evs. fst e < n"
  shows "coord_inv n evs (relay_all evs (coordinator_new n))"
  using assms(2)
proof (induction evs rule: rev_induct)
  case Nil
  have "map (flushed_to []) [0..<n] = replicate n 0"
    by (rule nth_equalityI) (simp_all add: flushed_to_def)
  then show ?case
    using assms(1) by (simp add: coord_inv_def relay_all_def coordinator_new_def)
next
  case (snoc e evs)
  obtain i f t where e: "e = (i, f, t)" by (metis prod_cases3)
  have "coord_inv n (evs @ [(i, f, t)]) (note_flush i t (relay_all evs (coordinator_new n)))"
    using snoc e by (intro note_flush_inv) auto
  then show ?case using e by (simp add: relay_all_def relay_on_flushed_def)
qed

end
