(* ===== verification/Props_Loop.thy ===== *)
theory Props_Loop
  imports Fixtures Flush_Coord
begin

text \<open>
  The properties of the mirror loop over its destinations: a filesystem directory, a Kafka partition and
  a tee over both, each with a witness that runs the loop on a concrete partition.
\<close>

section \<open>One destination\<close>

text \<open>
  C4: a mirror into an append-mode directory seeks the source to the position at which the directory continues and
  then hands the directory the records that the source's polls return, in their order, each once and none
  left out: all of them, while the run goes on or after a shutdown, and an initial part of them when it
  failed.  As long as no write failed, the directory accepted exactly those on top of what it had, and the
  loop and the destination agree on the next offset.
\<close>

theorem mirror_to_fs_exact:
  assumes "append_accepts cd sink log"
    and "start_mirror (blob_ops fs_store cd) S e source sink n = Inr st"
    and "run_loop (blob_ops fs_store cd) S N evs st = (res, st', rs)"
  shows "s_seek S (ste_seek e) (buffered_head sink)
        (snd (s_high_watermark S (ste_high e) (snd (s_low_watermark S (ste_low e) source))))
      = (Inr (), lp_source st)
    \<and> rs = take (length rs) (polled S evs (lp_source st))
    \<and> (res = Running \<or> res = Finished \<longrightarrow> rs = polled S evs (lp_source st))
    \<and> increasing (log @ rs) \<and> lp_expected st = buffered_head sink
    \<and> (\<forall>r \<in> set rs. lp_expected st \<le> r_offset r)
    \<and> (intact res \<longrightarrow> append_accepts cd (lp_sink st') (log @ rs)
         \<and> buffered_head (lp_sink st') = lp_expected st')"
proof -
  note run = fs_sink.mirror_run [OF assms]
  have inv: "sink_inv cd fs_objects fs_ok sink log"
    using assms(1) by (simp add: append_accepts_def append_inv_def)
  have "\<forall>x \<in> set log. \<forall>r \<in> set rs. r_offset x < r_offset r"
    using head_above [OF inv] run by fastforce
  then have "increasing (log @ rs)"
    using run sink_inv_increasing [OF inv] by (simp add: increasing_append)
  moreover have "lp_expected st = buffered_head sink" using run by simp
  ultimately show ?thesis
    using run start_mirror_seeks [OF assms(2)] run_loop_polled [OF assms(3)] by metis
qed

abbreviation demo_fs_ops :: "(fs_dir blob_sink, fs_env sink_env) sink_ops" where
  "demo_fs_ops \<equiv> blob_ops fs_store demo_codec"

text \<open>Offsets 0, 1 and 3, an idle poll, a heartbeat, then a shutdown.\<close>

definition demo_fs_start :: "(fs_dir blob_sink, demo_src, unit) loop_state" where
  "demo_fs_start = \<lparr>lp_source = demo_src 0 4 [0, 1, 3], lp_sink = demo_sink (Some []) None,
     lp_notifier = (), lp_expected = 0, lp_last_heartbeat_offset = 0\<rparr>"

definition demo_fs_events :: "(fs_env sink_env, unit, unit) loop_event list" where
  "demo_fs_events = map (\<lambda>u. Poll () (demo_env (demo_fs u)) ()) [''a'', ''b'', ''c'', ''d'']
     @ [Heartbeat, Shutdown (demo_env (demo_fs ''e'')) ()]"

definition demo_fs_loop ::
    "loop_result \<times> (fs_dir blob_sink, demo_src, unit) loop_state \<times> krecord list" where
  "demo_fs_loop = run_loop demo_fs_ops demo_source no_op_notifier
       demo_fs_events demo_fs_start"

theorem mirror_to_fs_exact_witness:
  "fst demo_fs_loop = Finished \<and> snd (snd demo_fs_loop) = [demo_rec 0, demo_rec 1, demo_rec 3]
   \<and> snd (snd demo_fs_loop) = polled demo_source demo_fs_events (lp_source demo_fs_start)
   \<and> append_accepts demo_codec (lp_sink (fst (snd demo_fs_loop))) ([] @ snd (snd demo_fs_loop))"
proof -
  have st: "start_mirror demo_fs_ops demo_source (demo_start (demo_env (demo_fs ''s'')))
     (demo_src 0 4 [0, 1, 3]) (demo_sink (Some []) None) () = Inr demo_fs_start" by code_simp
  have fin: "fst demo_fs_loop = Finished" by code_simp
  have recs: "snd (snd demo_fs_loop) = [demo_rec 0, demo_rec 1, demo_rec 3]" by code_simp
  have run: "run_loop demo_fs_ops demo_source no_op_notifier
       demo_fs_events demo_fs_start
     = (fst demo_fs_loop, fst (snd demo_fs_loop), snd (snd demo_fs_loop))"
    by (simp only: demo_fs_loop_def prod.collapse)
  have "intact (fst demo_fs_loop)" by (simp only: fin intact_def loop_result.case)
  then show ?thesis
    using mirror_to_fs_exact [OF demo_accepts st run] fin recs by blast
qed

text \<open>
  C5: a mirror into a Kafka partition is an exact copy.  It only writes the record whose source offset is
  the partition's next offset, so from where the partition ended the copied offsets are consecutive, and
  while no write failed the partition holds one message per record, in order, and nothing else.
\<close>

theorem mirror_to_kafka_exact:
  assumes "kafka_accepts B end_of messages base sink log"
    and "start_mirror (kafka_ops json_ok B) S e source sink n = Inr st"
    and "run_loop (kafka_ops json_ok B) S N evs st = (res, st', rs)"
  shows "offsets rs = map (\<lambda>i. end_of (ks_partition sink) + of_nat i) [0..<length rs]
    \<and> (intact res \<longrightarrow> messages (ks_partition (lp_sink st')) =
         base (ks_topic (lp_sink st')) @ map (future_record (ks_timestamp_mode (lp_sink st'))) (log @ rs)
         \<and> end_of (ks_partition (lp_sink st')) = lp_expected st')"
proof -
  note run = kafka_dest.mirror_run [OF assms]
  have "\<not> k_allows_offset_holes (kafka_ops json_ok B) s" for s
    by (simp add: kafka_ops_def default_allows_def)
  from kafka_dest.run_loop_contiguous [OF this, of end_of messages base st log]
  have "offsets rs = map (\<lambda>i. lp_expected st + of_nat i) [0..<length rs]"
    using kafka_dest.start_in_step [OF assms(1,2)] assms(3) by blast
  then show ?thesis using run by (simp add: kafka_accepts_def)
qed

definition demo_kafka_start :: "(kmessage list kafka_sink, demo_src, unit) loop_state" where
  "demo_kafka_start = \<lparr>lp_source = demo_src 0 2 [0, 1, 3], lp_sink = demo_topic,
     lp_notifier = (), lp_expected = 0, lp_last_heartbeat_offset = 0\<rparr>"

text \<open>The third record leaves a hole at offset 2: a Kafka destination refuses it.\<close>

definition demo_kafka_loop ::
    "loop_result \<times> (kmessage list kafka_sink, demo_src, unit) loop_state \<times> krecord list" where
  "demo_kafka_loop = run_loop (kafka_ops (\<lambda>_. True) demo_broker) demo_source no_op_notifier
     [Poll () ((), ()) (), Poll () ((), ()) (), Poll () ((), ()) ()] demo_kafka_start"

theorem mirror_to_kafka_exact_witness:
  "fst demo_kafka_loop = Failed (SourceGapAboveExpected 2 3)
   \<and> offsets (snd (snd demo_kafka_loop)) = [0, 1]
   \<and> ks_partition (lp_sink (fst (snd demo_kafka_loop))) =
       [] @ map (future_record (ks_timestamp_mode (lp_sink (fst (snd demo_kafka_loop)))))
         ([] @ snd (snd demo_kafka_loop))"
proof -
  have st: "start_mirror (kafka_ops (\<lambda>_. True) demo_broker) demo_source (demo_start ((), ()))
     (demo_src 0 2 [0, 1, 3]) demo_topic () = Inr demo_kafka_start" by code_simp
  have fin: "fst demo_kafka_loop = Failed (SourceGapAboveExpected 2 3)" by code_simp
  have offs: "offsets (snd (snd demo_kafka_loop)) = [0, 1]" by code_simp
  have run: "run_loop (kafka_ops (\<lambda>_. True) demo_broker) demo_source no_op_notifier
     [Poll () ((), ()) (), Poll () ((), ()) (), Poll () ((), ()) ()] demo_kafka_start
     = (fst demo_kafka_loop, fst (snd demo_kafka_loop), snd (snd demo_kafka_loop))"
    by (simp only: demo_kafka_loop_def prod.collapse)
  have "intact (fst demo_kafka_loop)" by (simp add: fin intact_def)
  then show ?thesis
    using mirror_to_kafka_exact [OF demo_kafka_accepts st run] fin offs by blast
qed

text \<open>
  C21: the offsets a mirror stages for commit by calls that follow one another increase strictly, whatever
  the callers pass, in whatever order, and whichever library call fails; the highest one asked for is
  remembered.
\<close>

theorem staged_offsets_increase:
  "let s = fold (\<lambda>(tpl_ok, store_ok, through) s. snd (stage_offset tpl_ok store_ok through s)) calls
      \<lparr>sg_last_stored_offset = 0, sg_stored = []\<rparr>
   in sorted_wrt (<) (sg_stored s)
     \<and> list_all (\<lambda>x. x \<le> sg_last_stored_offset s) (sg_stored s)
     \<and> sg_last_stored_offset s = fold (\<lambda>c m. max m (snd (snd c))) calls 0"
proof -
  let ?f = "\<lambda>(tpl_ok, store_ok, through) s. snd (stage_offset tpl_ok store_ok through s)"
  have "staging_inv (fold ?f calls \<lparr>sg_last_stored_offset = 0, sg_stored = []\<rparr>)
    \<and> sg_last_stored_offset (fold ?f calls \<lparr>sg_last_stored_offset = 0, sg_stored = []\<rparr>)
        = fold (\<lambda>c m. max m (snd (snd c))) calls 0"
  proof (induction calls rule: rev_induct)
    case Nil
    then show ?case by (simp add: staging_inv_def)
  next
    case (snoc c calls)
    obtain t u x where c: "c = (t, u, x)" by (cases c)
    let ?s = "fold ?f calls \<lparr>sg_last_stored_offset = 0, sg_stored = []\<rparr>"
    obtain r s' where "stage_offset t u x ?s = (r, s')" by fastforce
    then show ?case using stage_offset_inv [of ?s t u x r s'] snoc c by simp
  qed
  then show ?thesis unfolding Let_def staging_inv_def list_all_iff by blast
qed

section \<open>Several destinations\<close>

text \<open>
  C6: a tee over any mix of directories and Kafka partitions, with or without a replay floor, hands every
  destination exactly the records at or above the position it had when the tee was opened, whatever the
  others' positions were, and its cache every record once, in order.
\<close>

abbreviation mixed_ops where
  "mixed_ops cd json_ok B \<equiv> dyn_ops (blob_ops fs_store cd) (kafka_ops json_ok B)"

abbreviation mixed_accepts where
  "mixed_accepts cd B end_of messages base \<equiv>
     case_sum (append_accepts cd) (kafka_accepts B end_of messages base)"

abbreviation mixed_head where
  "mixed_head end_of \<equiv> case_sum buffered_head (\<lambda>s. end_of (ks_partition s))"

theorem tee_delivers_to_each:
  assumes "tee_open (mixed_ops cd json_ok B) e0 sinks cache0 = Inr t0"
    and "list_all2 (\<lambda>b s. mixed_accepts cd B end_of messages base (snd s) (fst b)
        \<and> mixed_head end_of (snd s) = snd b) bases sinks"
    and "t = t0 \<or> t = set_resume_floor fl t0"
    and "start_mirror (tee_ops (mixed_ops cd json_ok B) apply_cache) S e source t n = Inr st"
    and "run_loop (tee_ops (mixed_ops cd json_ok B) apply_cache) S N evs st = (res, st', rs)"
    and "intact res"
  shows "list_all2 (\<lambda>b x. mixed_accepts cd B end_of messages base (in_sink x)
        (fst b @ filter (\<lambda>r. snd b \<le> r_offset r) rs)) bases (te_inners (lp_sink st'))
    \<and> te_cache (lp_sink st') = map_option (fold apply_cache rs) cache0"
  using mixed_tee.tee_run [OF assms(1,2) _ assms(4-6)] assms(3) by blast

text \<open>An empty directory and a topic that already holds offset 0.\<close>

definition demo_ahead :: "kmessage list kafka_sink" where
  "demo_ahead = demo_topic\<lparr>ks_partition := [future_record TmSource (demo_rec 0)]\<rparr>"

definition demo_mixed_sinks :: "(string \<times> (fs_dir blob_sink + kmessage list kafka_sink)) list" where
  "demo_mixed_sinks = [(''fs'', Inl (demo_sink (Some []) None)), (''kafka'', Inr demo_ahead)]"

definition demo_mixed_env :: "string \<Rightarrow> nat \<Rightarrow> fs_env sink_env \<times> unit \<times> unit" where
  "demo_mixed_env u i = (demo_env (demo_fs u), ((), ()))"

definition demo_mixed_tee :: "(fs_dir blob_sink + kmessage list kafka_sink, u64 list) tee_sink" where
  "demo_mixed_tee = \<lparr>te_inners = [
       \<lparr>in_name = ''fs'', in_sink = Inl (demo_sink (Some []) None), in_head = 0\<rparr>,
       \<lparr>in_name = ''kafka'', in_sink = Inr demo_ahead, in_head = 1\<rparr>],
     te_cache = Some [], te_resume_cursor = None\<rparr>"

definition demo_note :: "krecord \<Rightarrow> u64 list \<Rightarrow> u64 list" where
  "demo_note r c = c @ [r_offset r]"

abbreviation demo_mixed_ops where
  "demo_mixed_ops \<equiv> mixed_ops demo_codec (\<lambda>_. True) demo_broker"

definition demo_mixed_start ::
    "((fs_dir blob_sink + kmessage list kafka_sink, u64 list) tee_sink, demo_src, unit) loop_state" where
  "demo_mixed_start = \<lparr>lp_source = demo_src 0 3 [0, 1, 2], lp_sink = demo_mixed_tee,
     lp_notifier = (), lp_expected = 0, lp_last_heartbeat_offset = 0\<rparr>"

definition demo_mixed_loop ::
    "loop_result \<times> ((fs_dir blob_sink + kmessage list kafka_sink, u64 list) tee_sink, demo_src, unit)
      loop_state \<times> krecord list" where
  "demo_mixed_loop = run_loop (tee_ops demo_mixed_ops demo_note) demo_source no_op_notifier
     (map (\<lambda>u. Poll () (demo_mixed_env u) ()) [''a'', ''b'', ''c'', ''d'']) demo_mixed_start"

theorem tee_delivers_to_each_witness:
  "offsets (snd (snd demo_mixed_loop)) = [0, 1, 2]
   \<and> list_all2 (\<lambda>b x. mixed_accepts demo_codec demo_broker demo_end (\<lambda>b. b)
        (\<lambda>t. [future_record TmSource (demo_rec 0)]) (in_sink x)
        (fst b @ filter (\<lambda>r. snd b \<le> r_offset r) (snd (snd demo_mixed_loop)))) [([], 0), ([], 1)]
        (te_inners (lp_sink (fst (snd demo_mixed_loop))))
   \<and> te_cache (lp_sink (fst (snd demo_mixed_loop))) = Some [0, 1, 2]"
proof -
  have open_tee: "tee_open demo_mixed_ops (demo_mixed_env ''o'') demo_mixed_sinks (Some []) = Inr demo_mixed_tee"
    by code_simp
  have "kafka_accepts demo_broker demo_end (\<lambda>b. b) (\<lambda>t. [future_record TmSource (demo_rec 0)]) demo_ahead []"
    by (simp add: kafka_accepts_def demo_broker_ok demo_ahead_def)
  moreover have "buffered_head (demo_sink (Some []) None) = 0" by code_simp
  moreover have "demo_end (ks_partition demo_ahead) = 1" by code_simp
  ultimately have bases: "list_all2 (\<lambda>b s. mixed_accepts demo_codec demo_broker demo_end (\<lambda>b. b)
        (\<lambda>t. [future_record TmSource (demo_rec 0)]) (snd s) (fst b)
      \<and> mixed_head demo_end (snd s) = snd b) [([], 0), ([], 1)] demo_mixed_sinks"
    by (simp add: demo_mixed_sinks_def demo_accepts)
  have st: "start_mirror (tee_ops demo_mixed_ops demo_note) demo_source (demo_start (demo_mixed_env ''s''))
     (demo_src 0 3 [0, 1, 2]) demo_mixed_tee () = Inr demo_mixed_start" by code_simp
  have run: "run_loop (tee_ops demo_mixed_ops demo_note) demo_source no_op_notifier
     (map (\<lambda>u. Poll () (demo_mixed_env u) ()) [''a'', ''b'', ''c'', ''d'']) demo_mixed_start
     = (fst demo_mixed_loop, fst (snd demo_mixed_loop), snd (snd demo_mixed_loop))"
    by (simp only: demo_mixed_loop_def prod.collapse)
  have fin: "fst demo_mixed_loop = Running" by code_simp
  have offs: "offsets (snd (snd demo_mixed_loop)) = [0, 1, 2]" by code_simp
  have cache: "te_cache (lp_sink (fst (snd demo_mixed_loop))) = Some [0, 1, 2]" by code_simp
  have "intact (fst demo_mixed_loop)" by (simp add: fin intact_def)
  then show ?thesis
    using tee_delivers_to_each [OF open_tee bases disjI1 [OF refl] st run] offs cache by blast
qed

text \<open>
  C15: a mirror that started is inside its source.  For a tee over any destinations, every position that an
  inner sink reported is at most the source's high watermark, and the loop begins at or above the low
  watermark; so a recreated topic is refused before the first record, however far the others lag.
\<close>

theorem started_mirror_within_source:
  assumes "start_mirror (tee_ops K apply_cache) S e source t n = Inr st"
    and "\<And>e s f s'. k_furthest_next_offset K e s = (Inr f, s') \<Longrightarrow> f = None"
  shows "\<exists>low source1 high source2 h t1.
    s_low_watermark S (ste_low e) source = (Inr low, source1)
    \<and> s_high_watermark S (ste_high e) source1 = (Inr high, source2)
    \<and> tee_next_expected_offset K (ste_next e) t = (Inr h, t1)
    \<and> (\<forall>x \<in> set (te_inners t1). in_head x \<le> high)
    \<and> low \<le> lp_expected st \<and> h \<le> lp_expected st"
proof -
  obtain h t1 low src1 high src2 f t2 where
    n: "k_next_expected_offset (tee_ops K apply_cache) (ste_next e) t = (Inr h, t1)" and
    l: "s_low_watermark S (ste_low e) source = (Inr low, src1)" and
    hi: "s_high_watermark S (ste_high e) src1 = (Inr high, src2)" and
    f: "k_furthest_next_offset (tee_ops K apply_cache) (ste_furthest e) t1 = (Inr f, t2)" and
    le: "unwrap_or f h \<le> high" and
    c: "choose_start (tee_ops K apply_cache) (ste_align e) h low t2 = Inr (lp_expected st, lp_sink st)"
    by (rule start_mirror_Inr [OF assms(1)])
  obtain g xs where g: "furthest_of K (ste_furthest e) 0 0 (te_inners t1) = (Inr g, xs)" "f = Some g"
    using f by (auto simp: tee_ops_def tee_furthest_next_offset_def split: prod.splits sum.splits)
  have all: "list_all2 (\<lambda>x y. in_head x \<le> g) (te_inners t1) xs"
    by (rule list_all2_mono [OF conjunct2 [OF furthest_of_Ok [OF g(1)]]]) (auto dest: assms(2))
  have "\<forall>x \<in> set (te_inners t1). in_head x \<le> high"
    using all le g(2) by (fastforce simp: list_all2_conv_all_nth in_set_conv_nth)
  moreover have "low \<le> lp_expected st \<and> h \<le> lp_expected st"
    using c by (auto simp: choose_start_def not_less split: if_splits prod.splits sum.splits)
  moreover have "tee_next_expected_offset K (ste_next e) t = (Inr h, t1)"
    using n by (simp add: tee_ops_def)
  ultimately show ?thesis using l hi by blast
qed

theorem started_mirror_within_source_witness:
  "\<exists>low source1 high source2 h t1.
    s_low_watermark demo_source () (demo_src 0 3 [0, 1, 2]) = (Inr low, source1)
    \<and> s_high_watermark demo_source () source1 = (Inr high, source2)
    \<and> tee_next_expected_offset demo_mixed_ops (demo_mixed_env ''s'') demo_mixed_tee = (Inr h, t1)
    \<and> (\<forall>x \<in> set (te_inners t1). in_head x \<le> high)
    \<and> low \<le> lp_expected demo_mixed_start \<and> h \<le> lp_expected demo_mixed_start"
proof -
  have st: "start_mirror (tee_ops demo_mixed_ops demo_note) demo_source (demo_start (demo_mixed_env ''s''))
     (demo_src 0 3 [0, 1, 2]) demo_mixed_tee () = Inr demo_mixed_start" by code_simp
  have none: "f = None" if "k_furthest_next_offset demo_mixed_ops e s = (Inr f, s')" for e s f s'
    using that by (cases s) (auto simp: dyn_ops_def lift_call_eq blob_ops_def kafka_ops_def default_furthest_def)
  show ?thesis
    using started_mirror_within_source [OF st none] by (simp add: demo_start_def)
qed

text \<open>
  C20: flushes of several destinations are reported as one sequence of ranges that starts at zero, leaves
  nothing out and never goes back, and what is reported is exactly what every destination has flushed.
\<close>

theorem combined_flushes_linked:
  assumes "0 < n" and "\<forall>e \<in> set evs. fst e < n"
  shows "linked 0 (mf_outer (relay_all evs (coordinator_new n)))
      (Min (set (map (flushed_to evs) [0..<n])))"
  using relay_all_inv [OF assms] by (simp add: coord_inv_def)

theorem combined_flushes_linked_witness:
  "mf_outer (relay_all [(0, 0, 5), (1, 0, 3), (1, 4, 9), (0, 6, 7)] (coordinator_new 2)) =
     [(0, 3), (3, 5), (5, 7)]
   \<and> linked 0 (mf_outer (relay_all [(0, 0, 5), (1, 0, 3), (1, 4, 9), (0, 6, 7)] (coordinator_new 2)))
      (Min (set (map (flushed_to [(0, 0, 5), (1, 0, 3), (1, 4, 9), (0, 6, 7)]) [0..<2])))"
proof
  show "mf_outer (relay_all [(0, 0, 5), (1, 0, 3), (1, 4, 9), (0, 6, 7)] (coordinator_new 2)) =
     [(0, 3), (3, 5), (5, 7)]" by code_simp
  show "linked 0 (mf_outer (relay_all [(0, 0, 5), (1, 0, 3), (1, 4, 9), (0, 6, 7)] (coordinator_new 2)))
      (Min (set (map (flushed_to [(0, 0, 5), (1, 0, 3), (1, 4, 9), (0, 6, 7)]) [0..<2])))"
    by (rule combined_flushes_linked) simp_all
qed

end
