(* ===== verification/Cache.thy ===== *)
theory Cache
  imports Core_Types Std_Maps
begin

text \<open>
  The in-memory key-value view and the readiness of each mirror (\<open>crates/mirror-core/src/cache.rs\<close>).
  A lock is held for the whole of each operation that the model gives as one function; atomics are
  plain fields.  A call for a mirror that is not registered, where the code panics, is \<open>None\<close>.
\<close>

section \<open>State\<close>

type_synonym topic_partition = "string \<times> u32"

datatype mirror_status =
    Warming
  | Ready
  | LagBehindSource u64
  | SourceUnassigned string u32
  | DestinationLagging string u64

record cache_entry =
  ce_value :: bytes
  ce_offset :: u64

record mirror_slot =
  ms_bootstrap_hwm :: u64
  ms_suppression_threshold :: u64
  ms_topic :: string
  ms_partition :: u32
  ms_last_applied_offset :: u64
  ms_broker_end_offset :: u64
  ms_source_assigned :: bool
  ms_status :: mirror_status
  ms_view :: "(string \<times> cache_entry) list option"
  ms_offsets :: "(topic_partition \<times> u64) list"

record cache_state =
  cs_mirrors :: "(string \<times> mirror_slot) list"
  cs_main_mirror :: "string option"
  cs_readiness_lag_tolerance :: u64

definition cache_new :: cache_state where
  "cache_new = \<lparr>cs_mirrors = [], cs_main_mirror = None, cs_readiness_lag_tolerance = 0\<rparr>"

definition with_readiness_lag_tolerance :: "u64 \<Rightarrow> cache_state \<Rightarrow> cache_state" where
  "with_readiness_lag_tolerance tol c = c\<lparr>cs_readiness_lag_tolerance := tol\<rparr>"

section \<open>Registration\<close>

definition new_slot :: "u64 \<Rightarrow> u64 option \<Rightarrow> string \<Rightarrow> u32 \<Rightarrow> bool \<Rightarrow> mirror_slot" where
  "new_slot bootstrap_hwm last_committed_offset topic part keeps_values =
     \<lparr>ms_bootstrap_hwm = bootstrap_hwm,
      ms_suppression_threshold = unwrap_or last_committed_offset bootstrap_hwm,
      ms_topic = topic, ms_partition = part,
      ms_last_applied_offset = 0, ms_broker_end_offset = bootstrap_hwm,
      ms_source_assigned = True,
      ms_status = (if bootstrap_hwm = 0 then Ready else Warming),
      ms_view = (if keeps_values then Some [] else None),
      ms_offsets = []\<rparr>"

definition insert_slot ::
    "string \<Rightarrow> u64 \<Rightarrow> u64 option \<Rightarrow> string \<Rightarrow> u32 \<Rightarrow> bool \<Rightarrow> cache_state \<Rightarrow> cache_state" where
  "insert_slot name hwm committed topic part keeps_values c =
     c\<lparr>cs_mirrors := im_insert name (new_slot hwm committed topic part keeps_values) (cs_mirrors c)\<rparr>"

definition register_mirror_with_topic ::
    "string \<Rightarrow> u64 \<Rightarrow> u64 option \<Rightarrow> bool \<Rightarrow> string \<Rightarrow> u32 \<Rightarrow> cache_state \<Rightarrow> cache_state" where
  "register_mirror_with_topic name hwm committed is_main topic part c =
     (let c1 = insert_slot name hwm committed topic part True c
      in if is_main then c1\<lparr>cs_main_mirror := Some name\<rparr> else c1)"

definition register_mirror :: "string \<Rightarrow> u64 \<Rightarrow> u64 option \<Rightarrow> bool \<Rightarrow> cache_state \<Rightarrow> cache_state" where
  "register_mirror name hwm committed is_main c =
     register_mirror_with_topic name hwm committed is_main [] 0 c"

definition register_progress_only :: "string \<Rightarrow> u64 \<Rightarrow> string \<Rightarrow> u32 \<Rightarrow> cache_state \<Rightarrow> cache_state" where
  "register_progress_only name hwm topic part c = insert_slot name hwm None topic part False c"

section \<open>Status\<close>

definition recompute_status :: "u64 \<Rightarrow> mirror_slot \<Rightarrow> mirror_slot" where
  "recompute_status tolerance s = (case ms_status s of
      DestinationLagging _ _ \<Rightarrow> s
    | _ \<Rightarrow>
       if \<not> ms_source_assigned s then
         s\<lparr>ms_status := SourceUnassigned (ms_topic s) (ms_partition s)\<rparr>
       else if ms_last_applied_offset s < ms_bootstrap_hwm s then s\<lparr>ms_status := Warming\<rparr>
       else (let lag = saturating_sub (ms_broker_end_offset s) (ms_last_applied_offset s) in
         if tolerance < lag then s\<lparr>ms_status := LagBehindSource lag\<rparr>
         else s\<lparr>ms_status := Ready\<rparr>))"

text \<open>\<open>let Some(slot) = mirrors.get(name) else return\<close>, then an update of the slot.\<close>

definition with_slot :: "string \<Rightarrow> (mirror_slot \<Rightarrow> mirror_slot) \<Rightarrow> cache_state \<Rightarrow> cache_state" where
  "with_slot name f c = (case map_of (cs_mirrors c) name of
      None \<Rightarrow> c
    | Some s \<Rightarrow> c\<lparr>cs_mirrors := im_insert name (f s) (cs_mirrors c)\<rparr>)"

definition set_broker_end_offset :: "string \<Rightarrow> u64 \<Rightarrow> cache_state \<Rightarrow> cache_state" where
  "set_broker_end_offset name end_offset c = with_slot name (\<lambda>s.
     recompute_status (cs_readiness_lag_tolerance c)
       (s\<lparr>ms_broker_end_offset := max (ms_broker_end_offset s) end_offset\<rparr>)) c"

definition mark_source_unassigned :: "string \<Rightarrow> cache_state \<Rightarrow> cache_state" where
  "mark_source_unassigned name c = with_slot name (\<lambda>s.
     recompute_status (cs_readiness_lag_tolerance c) (s\<lparr>ms_source_assigned := False\<rparr>)) c"

definition mark_source_assigned :: "string \<Rightarrow> cache_state \<Rightarrow> cache_state" where
  "mark_source_assigned name c = with_slot name (\<lambda>s.
     recompute_status (cs_readiness_lag_tolerance c) (s\<lparr>ms_source_assigned := True\<rparr>)) c"

definition mark_destination_lagging :: "string \<Rightarrow> string \<Rightarrow> u64 \<Rightarrow> cache_state \<Rightarrow> cache_state" where
  "mark_destination_lagging name dest lag c = with_slot name (\<lambda>s.
     s\<lparr>ms_status := DestinationLagging dest lag\<rparr>) c"

definition clear_destination_lagging :: "string \<Rightarrow> cache_state \<Rightarrow> cache_state" where
  "clear_destination_lagging name c = with_slot name (\<lambda>s.
     recompute_status (cs_readiness_lag_tolerance c) (s\<lparr>ms_status := Warming\<rparr>)) c"

section \<open>Applying records\<close>

definition put_value ::
    "string \<Rightarrow> krecord \<Rightarrow> (string \<times> cache_entry) list \<Rightarrow> (string \<times> cache_entry) list" where
  "put_value key r view = (case r_value r of
      Some v \<Rightarrow> im_insert key \<lparr>ce_value = v, ce_offset = r_offset r\<rparr> view
    | None \<Rightarrow> im_shift_remove key view)"

definition apply_value :: "krecord \<Rightarrow> (string \<times> cache_entry) list \<Rightarrow> (string \<times> cache_entry) list" where
  "apply_value r view = (case map_option from_utf8 (r_key r) of
      Some (Some k) \<Rightarrow> put_value k r view
    | Some None \<Rightarrow> view
    | None \<Rightarrow> view)"

definition record_tp :: "krecord \<Rightarrow> topic_partition" where
  "record_tp r = (r_topic r, r_partition r)"

definition apply_to_slot :: "u64 \<Rightarrow> krecord \<Rightarrow> mirror_slot \<Rightarrow> mirror_slot" where
  "apply_to_slot tolerance r s =
     (if (case map_of (ms_offsets s) (record_tp r) of Some l \<Rightarrow> r_offset r \<le> l | None \<Rightarrow> False)
      then s
      else recompute_status tolerance (s\<lparr>
        ms_view := map_option (apply_value r) (ms_view s),
        ms_offsets := im_insert (record_tp r) (r_offset r) (ms_offsets s),
        ms_last_applied_offset := max (ms_last_applied_offset s) (r_offset r + 1)\<rparr>))"

definition apply_record :: "string \<Rightarrow> krecord \<Rightarrow> cache_state \<Rightarrow> cache_state option" where
  "apply_record name r c = (case map_of (cs_mirrors c) name of
      None \<Rightarrow> None
    | Some s \<Rightarrow> Some (c\<lparr>cs_mirrors :=
        im_insert name (apply_to_slot (cs_readiness_lag_tolerance c) r s) (cs_mirrors c)\<rparr>))"

definition is_record_suppressed :: "string \<Rightarrow> u64 \<Rightarrow> cache_state \<Rightarrow> bool" where
  "is_record_suppressed name off c =
     unwrap_or (map_option (\<lambda>s. off < ms_suppression_threshold s) (map_of (cs_mirrors c) name)) False"

section \<open>Reading\<close>

definition is_ready :: "cache_state \<Rightarrow> bool" where
  "is_ready c = (cs_mirrors c \<noteq> [] \<and> list_all (\<lambda>(n, s). ms_status s = Ready) (cs_mirrors c))"

definition serves_values :: "string \<Rightarrow> cache_state \<Rightarrow> bool" where
  "serves_values name c = (case map_of (cs_mirrors c) name of
      None \<Rightarrow> False | Some s \<Rightarrow> ms_view s \<noteq> None)"

definition has_caught_up :: "string \<Rightarrow> cache_state \<Rightarrow> bool" where
  "has_caught_up name c = (case map_of (cs_mirrors c) name of
      None \<Rightarrow> False | Some s \<Rightarrow> ms_bootstrap_hwm s \<le> ms_last_applied_offset s)"

definition status_for :: "string \<Rightarrow> cache_state \<Rightarrow> mirror_status option" where
  "status_for name c = map_option ms_status (map_of (cs_mirrors c) name)"

definition is_mirror_ready :: "string \<Rightarrow> cache_state \<Rightarrow> bool" where
  "is_mirror_ready name c = (status_for name c = Some Ready)"

record status_snapshot =
  ss_name :: string
  ss_topic :: string
  ss_partition :: u32
  ss_source_assigned :: bool
  ss_last_applied_offset :: u64
  ss_broker_end_offset :: u64
  ss_status :: mirror_status

definition status_snapshot :: "cache_state \<Rightarrow> status_snapshot list" where
  "status_snapshot c = map (\<lambda>(n, s). \<lparr>ss_name = n, ss_topic = ms_topic s,
     ss_partition = ms_partition s, ss_source_assigned = ms_source_assigned s,
     ss_last_applied_offset = ms_last_applied_offset s,
     ss_broker_end_offset = ms_broker_end_offset s, ss_status = ms_status s\<rparr>) (cs_mirrors c)"

definition sorted_offsets :: "(topic_partition \<times> u64) list \<Rightarrow> (topic_partition \<times> u64) list" where
  "sorted_offsets offs = sort_key fst offs"

record value_read =
  vr_value :: "(bytes \<times> u64) option"
  vr_offsets :: "(topic_partition \<times> u64) list"

definition read_value :: "string \<Rightarrow> string \<Rightarrow> cache_state \<Rightarrow> value_read option" where
  "read_value name key c =
     Option.bind (map_of (cs_mirrors c) name) (\<lambda>s.
     Option.bind (ms_view s) (\<lambda>view.
       Some \<lparr>vr_value = map_option (\<lambda>e. (ce_value e, ce_offset e)) (map_of view key),
             vr_offsets = sorted_offsets (ms_offsets s)\<rparr>))"

definition get_value_for :: "string \<Rightarrow> string \<Rightarrow> cache_state \<Rightarrow> bytes option" where
  "get_value_for name key c =
     Option.bind (read_value name key c) (\<lambda>vr. map_option fst (vr_value vr))"

definition snapshot_keys_for :: "string \<Rightarrow> cache_state \<Rightarrow> string list option" where
  "snapshot_keys_for name c =
     Option.bind (map_of (cs_mirrors c) name) (\<lambda>s. map_option (map fst) (ms_view s))"

definition snapshot_values_for :: "string \<Rightarrow> cache_state \<Rightarrow> bytes list option" where
  "snapshot_values_for name c =
     Option.bind (map_of (cs_mirrors c) name) (\<lambda>s.
       map_option (map (\<lambda>e. ce_value (snd e))) (ms_view s))"

definition get_offset_for :: "string \<Rightarrow> string \<Rightarrow> u32 \<Rightarrow> cache_state \<Rightarrow> u64 option" where
  "get_offset_for name topic part c =
     Option.bind (map_of (cs_mirrors c) name) (\<lambda>s. map_of (ms_offsets s) (topic, part))"

definition snapshot_offsets_for :: "string \<Rightarrow> cache_state \<Rightarrow> (topic_partition \<times> u64) list option" where
  "snapshot_offsets_for name c =
     map_option (\<lambda>s. sorted_offsets (ms_offsets s)) (map_of (cs_mirrors c) name)"

section \<open>The view is the latest value of every key\<close>

text \<open>What one record does to the view, as an update of the map interface.\<close>

definition cache_update :: "krecord \<Rightarrow> (string \<times> cache_entry option) list" where
  "cache_update r = (case map_option from_utf8 (r_key r) of
      Some (Some k) \<Rightarrow>
        [(k, map_option (\<lambda>v. \<lparr>ce_value = v, ce_offset = r_offset r\<rparr>) (r_value r))]
    | _ \<Rightarrow> [])"

lemma apply_value_put: "apply_value r view = fold imap.put (cache_update r) view"
  by (auto simp: apply_value_def cache_update_def put_value_def imap.put_def
      split: option.splits)

text \<open>Records that are not behind what the slot has seen of their partition, in order.\<close>

definition behind :: "(topic_partition \<Rightarrow> u64 option) \<Rightarrow> krecord \<Rightarrow> bool" where
  "behind seen r = (case seen (record_tp r) of Some l \<Rightarrow> r_offset r \<le> l | None \<Rightarrow> False)"

fun fresh_records :: "(topic_partition \<Rightarrow> u64 option) \<Rightarrow> krecord list \<Rightarrow> krecord list" where
  "fresh_records seen [] = []"
| "fresh_records seen (r # rs) =
     (if behind seen r then fresh_records seen rs
      else r # fresh_records (seen(record_tp r \<mapsto> r_offset r)) rs)"

lemma recompute_status_fields [simp]:
  "ms_view (recompute_status t s) = ms_view s"
  "ms_offsets (recompute_status t s) = ms_offsets s"
  "ms_last_applied_offset (recompute_status t s) = ms_last_applied_offset s"
  "ms_bootstrap_hwm (recompute_status t s) = ms_bootstrap_hwm s"
  "ms_suppression_threshold (recompute_status t s) = ms_suppression_threshold s"
  "ms_broker_end_offset (recompute_status t s) = ms_broker_end_offset s"
  "ms_source_assigned (recompute_status t s) = ms_source_assigned s"
  "ms_topic (recompute_status t s) = ms_topic s"
  "ms_partition (recompute_status t s) = ms_partition s"
  by (auto simp: recompute_status_def Let_def split: mirror_status.splits)

lemma map_of_im_insert_fun: "map_of (im_insert k v m) = (map_of m)(k \<mapsto> v)"
  by (rule ext) (simp add: map_of_im_insert)

lemma apply_to_slot_behind: "behind (map_of (ms_offsets s)) r \<Longrightarrow> apply_to_slot t r s = s"
  by (simp add: apply_to_slot_def behind_def)

lemma apply_to_slot_fresh:
  assumes "\<not> behind (map_of (ms_offsets s)) r"
  shows "ms_view (apply_to_slot t r s) = map_option (apply_value r) (ms_view s)"
    "map_of (ms_offsets (apply_to_slot t r s)) = (map_of (ms_offsets s))(record_tp r \<mapsto> r_offset r)"
    "ms_last_applied_offset (apply_to_slot t r s) = max (ms_last_applied_offset s) (r_offset r + 1)"
  using assms by (simp_all add: apply_to_slot_def behind_def map_of_im_insert_fun)

lemma apply_all_view:
  "ms_view (fold (apply_to_slot t) rs s) =
     map_option (fold imap.put (concat (map cache_update (fresh_records (map_of (ms_offsets s)) rs))))
       (ms_view s)"
proof (induction rs arbitrary: s)
  case Nil
  show ?case by (simp add: option.map_ident)
next
  case (Cons r rs)
  show ?case
  proof (cases "behind (map_of (ms_offsets s)) r")
    case True
    then show ?thesis using Cons.IH [of s] by (simp add: apply_to_slot_behind)
  next
    case False
    then show ?thesis
      using Cons.IH [of "apply_to_slot t r s"] apply_to_slot_fresh [OF False, of t]
      by (cases "ms_view s") (simp_all add: apply_value_put fun_upd_def)
  qed
qed

lemma fold_put_ok: "im_ok v \<Longrightarrow> im_ok (fold imap.put us v)"
  by (induction us arbitrary: v) (simp_all add: imap.invar_put)


text \<open>From an empty view: every key reads as the last write among the records not behind.\<close>

lemma slot_reads_latest:
  assumes "ms_view s = Some []" "ms_offsets s = []"
  shows "\<exists>v. ms_view (fold (apply_to_slot t) rs s) = Some v \<and> im_ok v
    \<and> map_of v k = latest (concat (map cache_update (fresh_records (\<lambda>_. None) rs))) k"
proof -
  let ?us = "concat (map cache_update (fresh_records (\<lambda>_. None) rs))"
  have "map_of ([] :: (topic_partition \<times> u64) list) = (\<lambda>_. None)" by (rule ext) simp
  then have "ms_view (fold (apply_to_slot t) rs s) = Some (fold imap.put ?us [])"
    using apply_all_view [of t rs s] assms by simp
  moreover have "im_ok (fold imap.put ?us []) \<and> map_of (fold imap.put ?us []) k = latest ?us k"
    by (rule imap.lookup_fold_put)
  ultimately show ?thesis by blast
qed

text \<open>The offsets: the highest seen of every partition.\<close>

lemma slot_offsets_max:
  "map_of (ms_offsets (fold (apply_to_slot t) rs s)) tp =
     fold (\<lambda>r m. if record_tp r = tp then Some (case m of None \<Rightarrow> r_offset r | Some l \<Rightarrow> max l (r_offset r))
       else m) rs (map_of (ms_offsets s) tp)"
proof (induction rs arbitrary: s)
  case (Cons r rs)
  show ?case
  proof (cases "behind (map_of (ms_offsets s)) r")
    case True
    then show ?thesis using Cons.IH [of s]
      by (auto simp: apply_to_slot_behind behind_def max_absorb1 split: option.splits)
  next
    case False
    then show ?thesis using Cons.IH [of "apply_to_slot t r s"] apply_to_slot_fresh(2) [OF False, of t]
      by (auto simp: behind_def max_absorb2 split: option.splits)
  qed
qed simp

text \<open>A record that was seen, or one before it, changes nothing.\<close>

lemma replay_is_noop:
  assumes "map_of (ms_offsets s) (record_tp r) = Some l" "r_offset r \<le> l"
  shows "apply_to_slot t r s = s"
  using assms by (simp add: apply_to_slot_behind behind_def)

section \<open>Readiness\<close>

text \<open>The status that the counters call for, unless a destination lag is being signalled.\<close>

definition source_status :: "u64 \<Rightarrow> mirror_slot \<Rightarrow> mirror_status" where
  "source_status tolerance s =
     (if \<not> ms_source_assigned s then SourceUnassigned (ms_topic s) (ms_partition s)
      else if ms_last_applied_offset s < ms_bootstrap_hwm s then Warming
      else if tolerance < saturating_sub (ms_broker_end_offset s) (ms_last_applied_offset s)
        then LagBehindSource (saturating_sub (ms_broker_end_offset s) (ms_last_applied_offset s))
      else Ready)"

definition dest_lagging :: "mirror_status \<Rightarrow> bool" where
  "dest_lagging st = (case st of DestinationLagging _ _ \<Rightarrow> True | _ \<Rightarrow> False)"

definition slot_ok :: "u64 \<Rightarrow> mirror_slot \<Rightarrow> bool" where
  "slot_ok tolerance s = ((dest_lagging (ms_status s) \<or> ms_status s = source_status tolerance s)
     \<and> ms_bootstrap_hwm s \<le> ms_broker_end_offset s
     \<and> im_ok (ms_offsets s) \<and> (\<forall>v. ms_view s = Some v \<longrightarrow> im_ok v))"

lemma recompute_status_eq:
  "ms_status (recompute_status t s) =
     (if dest_lagging (ms_status s) then ms_status s else source_status t s)"
  by (cases "ms_status s") (simp_all add: recompute_status_def source_status_def dest_lagging_def Let_def)

lemma source_status_recompute [simp]: "source_status t (recompute_status t' s) = source_status t s"
  by (simp add: source_status_def)

lemma source_status_status [simp]: "source_status t (s\<lparr>ms_status := x\<rparr>) = source_status t s"
  by (simp add: source_status_def)

lemma slot_ok_recompute:
  assumes "ms_bootstrap_hwm s \<le> ms_broker_end_offset s" "im_ok (ms_offsets s)"
    "\<forall>v. ms_view s = Some v \<longrightarrow> im_ok v"
  shows "slot_ok t (recompute_status t s)"
  using assms by (simp add: slot_ok_def recompute_status_eq)

lemma slot_ok_new: "slot_ok t (new_slot hwm committed topic part kv)"
  by (simp add: slot_ok_def new_slot_def source_status_def im_ok_def word_gt_0)

lemma slot_ok_apply:
  assumes "slot_ok t s"
  shows "slot_ok t (apply_to_slot t r s)"
proof (cases "behind (map_of (ms_offsets s)) r")
  case True
  then show ?thesis using assms by (simp add: apply_to_slot_behind)
next
  case False
  then have eq: "apply_to_slot t r s = recompute_status t (s\<lparr>
      ms_view := map_option (apply_value r) (ms_view s),
      ms_offsets := im_insert (record_tp r) (r_offset r) (ms_offsets s),
      ms_last_applied_offset := max (ms_last_applied_offset s) (r_offset r + 1)\<rparr>)"
    by (simp add: apply_to_slot_def behind_def)
  show ?thesis unfolding eq
    by (rule slot_ok_recompute)
      (use assms in \<open>auto simp: slot_ok_def im_ok_insert apply_value_put fold_put_ok\<close>)
qed

text \<open>The events a slot sees after it was registered.\<close>

datatype slot_event =
    Applied krecord
  | BrokerEnd u64
  | Unassigned
  | Assigned
  | DestLag string u64
  | DestClear

definition slot_step :: "u64 \<Rightarrow> slot_event \<Rightarrow> mirror_slot \<Rightarrow> mirror_slot" where
  "slot_step t ev s = (case ev of
      Applied r \<Rightarrow> apply_to_slot t r s
    | BrokerEnd e \<Rightarrow> recompute_status t (s\<lparr>ms_broker_end_offset := max (ms_broker_end_offset s) e\<rparr>)
    | Unassigned \<Rightarrow> recompute_status t (s\<lparr>ms_source_assigned := False\<rparr>)
    | Assigned \<Rightarrow> recompute_status t (s\<lparr>ms_source_assigned := True\<rparr>)
    | DestLag d l \<Rightarrow> s\<lparr>ms_status := DestinationLagging d l\<rparr>
    | DestClear \<Rightarrow> recompute_status t (s\<lparr>ms_status := Warming\<rparr>))"

lemma slot_step_ok: "slot_ok t s \<Longrightarrow> slot_ok t (slot_step t ev s)"
  by (cases ev)
    (auto simp: slot_step_def slot_ok_apply max_def
      intro!: slot_ok_recompute, auto simp: slot_ok_def dest_lagging_def)

lemma slot_steps_ok: "slot_ok t s \<Longrightarrow> slot_ok t (fold (slot_step t) evs s)"
  by (induction evs arbitrary: s) (simp_all add: slot_step_ok)

lemma slot_step_mono:
  "ms_bootstrap_hwm (slot_step t ev s) = ms_bootstrap_hwm s
   \<and> ms_suppression_threshold (slot_step t ev s) = ms_suppression_threshold s
   \<and> ms_last_applied_offset s \<le> ms_last_applied_offset (slot_step t ev s)
   \<and> ms_broker_end_offset s \<le> ms_broker_end_offset (slot_step t ev s)"
  by (cases ev) (auto simp: slot_step_def apply_to_slot_def split: option.splits)

lemma slot_steps_mono:
  "ms_bootstrap_hwm (fold (slot_step t) evs s) = ms_bootstrap_hwm s
   \<and> ms_suppression_threshold (fold (slot_step t) evs s) = ms_suppression_threshold s
   \<and> ms_last_applied_offset s \<le> ms_last_applied_offset (fold (slot_step t) evs s)
   \<and> ms_broker_end_offset s \<le> ms_broker_end_offset (fold (slot_step t) evs s)"
proof (induction evs arbitrary: s)
  case (Cons ev evs)
  show ?case using Cons.IH [of "slot_step t ev s"] slot_step_mono [of t ev s]
    by (auto intro: order_trans)
qed simp

text \<open>The position of a slot is the highest record applied, plus one.\<close>

lemma slot_position_bound:
  assumes "ms_last_applied_offset s \<le> b" "\<forall>r. Applied r \<in> set evs \<longrightarrow> r_offset r + 1 \<le> b"
  shows "ms_last_applied_offset (fold (slot_step t) evs s) \<le> b"
  using assms
proof (induction evs arbitrary: s)
  case (Cons ev evs)
  have "ms_last_applied_offset (slot_step t ev s) \<le> b"
    using Cons.prems by (cases ev) (auto simp: slot_step_def apply_to_slot_def split: option.splits)
  then show ?case using Cons by auto
qed simp


section \<open>Mirrors do not touch each other\<close>

text \<open>An event of one mirror, through the operations of the cache.\<close>

definition cache_event :: "string \<times> slot_event \<Rightarrow> cache_state \<Rightarrow> cache_state" where
  "cache_event ne c = (case snd ne of
      Applied r \<Rightarrow> (case apply_record (fst ne) r c of None \<Rightarrow> c | Some c' \<Rightarrow> c')
    | BrokerEnd e \<Rightarrow> set_broker_end_offset (fst ne) e c
    | Unassigned \<Rightarrow> mark_source_unassigned (fst ne) c
    | Assigned \<Rightarrow> mark_source_assigned (fst ne) c
    | DestLag d l \<Rightarrow> mark_destination_lagging (fst ne) d l c
    | DestClear \<Rightarrow> clear_destination_lagging (fst ne) c)"

lemma cache_event_slot:
  "map_of (cs_mirrors (cache_event (n, ev) c)) m =
     (if m = n then map_option (slot_step (cs_readiness_lag_tolerance c) ev) (map_of (cs_mirrors c) n)
      else map_of (cs_mirrors c) m)
   \<and> cs_readiness_lag_tolerance (cache_event (n, ev) c) = cs_readiness_lag_tolerance c"
  by (cases ev)
    (auto simp: cache_event_def slot_step_def apply_record_def set_broker_end_offset_def
      mark_source_unassigned_def mark_source_assigned_def mark_destination_lagging_def
      clear_destination_lagging_def with_slot_def map_of_im_insert split: option.splits)

definition events_of :: "string \<Rightarrow> (string \<times> slot_event) list \<Rightarrow> slot_event list" where
  "events_of m nes = map snd (filter (\<lambda>ne. fst ne = m) nes)"

lemma cache_events_slot:
  "map_of (cs_mirrors (fold cache_event nes c)) m =
     map_option (fold (slot_step (cs_readiness_lag_tolerance c)) (events_of m nes))
       (map_of (cs_mirrors c) m)"
proof (induction nes arbitrary: c)
  case Nil
  show ?case by (simp add: events_of_def option.map_ident)
next
  case (Cons ne nes)
  obtain n ev where ne: "ne = (n, ev)" by (cases ne)
  show ?case
    using Cons.IH [of "cache_event (n, ev) c"] cache_event_slot [of n ev c m]
    by (cases "map_of (cs_mirrors c) n") (auto simp: ne events_of_def)
qed

end
