(* ===== verification/Cache_Http.thy ===== *)
theory Cache_Http
  imports Cache
begin

text \<open>
  The HTTP surface of the cache (\<open>crates/mirror-cache/src/lib.rs\<close>): the readiness report and the
  \<open>/cache/v1\<close> handlers, as functions from cache states to responses.  A handler that takes the cache's
  lock more than once reads one state per time, since the mirrors keep applying records in between;
  each such state is an argument.  Routing, OpenAPI and serving are not modelled; JSON serialization of
  the offsets is the parameter \<open>to_json\<close> (\<open>None\<close> when it is not a header value).
\<close>

section \<open>The readiness report\<close>

datatype aggregate_readiness = AggReady | AggWarming

record readiness_source =
  rs_topic :: string
  rs_partition :: u32
  rs_assigned :: bool
  rs_end_offset :: u64
  rs_last_applied_offset :: u64
  rs_lag :: u64

record mirror_readiness =
  mr_name :: string
  mr_gates_readiness :: bool
  mr_caught_up :: bool
  mr_status :: string
  mr_source :: readiness_source
  mr_destination :: "(string \<times> u64) option"

record readiness_report =
  rr_ready :: aggregate_readiness
  rr_mirrors :: "mirror_readiness list"
  rr_unhealthy :: "string list"

definition from_snapshot :: "status_snapshot \<Rightarrow> cache_state \<Rightarrow> mirror_readiness" where
  "from_snapshot snap c =
     (let (status, destination) = (case ss_status snap of
          Ready \<Rightarrow> (''ready'', None)
        | Warming \<Rightarrow> (''warming'', None)
        | LagBehindSource _ \<Rightarrow> (''lag_behind_source'', None)
        | SourceUnassigned _ _ \<Rightarrow> (''source_unassigned'', None)
        | DestinationLagging name lag \<Rightarrow> (''destination_lagging'', Some (name, lag)))
      in \<lparr>mr_name = ss_name snap,
          mr_gates_readiness = serves_values (ss_name snap) c,
          mr_caught_up = has_caught_up (ss_name snap) c,
          mr_status = status,
          mr_source = \<lparr>rs_topic = ss_topic snap, rs_partition = ss_partition snap,
            rs_assigned = ss_source_assigned snap, rs_end_offset = ss_broker_end_offset snap,
            rs_last_applied_offset = ss_last_applied_offset snap,
            rs_lag = saturating_sub (ss_broker_end_offset snap) (ss_last_applied_offset snap)\<rparr>,
          mr_destination = destination\<rparr>)"

text \<open>\<open>c0\<close> is the state of the snapshot; \<open>c n\<close> the one read when mirror \<open>n\<close>'s row is built.\<close>

definition build_readiness_report ::
    "cache_state \<Rightarrow> (string \<Rightarrow> cache_state) \<Rightarrow> nat \<times> readiness_report" where
  "build_readiness_report c0 c =
     (let mirrors = map (\<lambda>s. from_snapshot s (c (ss_name s))) (sort_key ss_name (status_snapshot c0));
          unhealthy = map mr_name (filter (\<lambda>m. mr_gates_readiness m \<and> \<not> mr_caught_up m) mirrors);
          any_gating = list_ex mr_gates_readiness mirrors;
          ready = (if any_gating \<and> unhealthy = [] then AggReady else AggWarming)
      in (if ready = AggReady then 200 else 503,
          \<lparr>rr_ready = ready, rr_mirrors = mirrors, rr_unhealthy = unhealthy\<rparr>))"

section \<open>Handlers\<close>

datatype body = NoBody | Bytes bytes | Row mirror_readiness

record response =
  rp_status :: nat
  rp_headers :: "(string \<times> string) list"
  rp_body :: body

definition plain :: "nat \<Rightarrow> response" where
  "plain code = \<lparr>rp_status = code, rp_headers = [], rp_body = NoBody\<rparr>"

definition resolve_mirror :: "cache_state \<Rightarrow> cache_state \<Rightarrow> string \<Rightarrow> response option" where
  "resolve_mirror c0 c1 mirror =
     (case find (\<lambda>s. ss_name s = mirror) (status_snapshot c0) of
        None \<Rightarrow> Some (plain 404)
      | Some snap \<Rightarrow>
          if has_caught_up mirror c1 then None
          else Some \<lparr>rp_status = 503, rp_headers = [], rp_body = Row (from_snapshot snap c1)\<rparr>)"

definition kkv_offsets_header :: string where
  "kkv_offsets_header = ''x-kkv-last-seen-offsets''"

definition kkv_key_offset_header :: string where
  "kkv_key_offset_header = ''x-kkv-key-offset''"

definition offsets_header ::
    "((topic_partition \<times> u64) list \<Rightarrow> string option) \<Rightarrow> (topic_partition \<times> u64) list
      \<Rightarrow> (string \<times> string) list" where
  "offsets_header to_json offs = (case to_json offs of
      None \<Rightarrow> [] | Some v \<Rightarrow> [(kkv_offsets_header, v)])"

definition offsets_header_for ::
    "((topic_partition \<times> u64) list \<Rightarrow> string option) \<Rightarrow> cache_state \<Rightarrow> string
      \<Rightarrow> (string \<times> string) list" where
  "offsets_header_for to_json c mirror = (case snapshot_offsets_for mirror c of
      None \<Rightarrow> [] | Some offs \<Rightarrow> offsets_header to_json offs)"

definition raw_by_key ::
    "((topic_partition \<times> u64) list \<Rightarrow> string option) \<Rightarrow> cache_state \<Rightarrow> cache_state \<Rightarrow> cache_state
      \<Rightarrow> string \<Rightarrow> string \<Rightarrow> response" where
  "raw_by_key to_json c0 c1 c2 mirror key =
     (case resolve_mirror c0 c1 mirror of
        Some r \<Rightarrow> r
      | None \<Rightarrow>
          if key = [] then plain 400
          else (case read_value mirror key c2 of
              None \<Rightarrow> plain 404
            | Some rd \<Rightarrow> (case vr_value rd of
                  None \<Rightarrow> plain 404
                | Some (bs, off) \<Rightarrow> \<lparr>rp_status = 200,
                    rp_headers = offsets_header to_json (vr_offsets rd)
                      @ [(kkv_key_offset_header, dec_of (unat off)),
                         (''content-type'', ''application/octet-stream'')],
                    rp_body = Bytes bs\<rparr>)))"

definition offset_for_partition ::
    "cache_state \<Rightarrow> cache_state \<Rightarrow> string \<Rightarrow> string \<Rightarrow> u32 \<Rightarrow> response" where
  "offset_for_partition c0 c1 mirror topic part =
     (if snapshot_keys_for mirror c0 = None then plain 404
      else if topic = [] then plain 400
      else \<lparr>rp_status = 200,
        rp_headers = [(''content-type'', ''text/plain; charset=utf-8'')],
        rp_body = Bytes (as_bytes (case get_offset_for mirror topic part c1 of
            None \<Rightarrow> [] | Some off \<Rightarrow> dec_of (unat off)))\<rparr>)"

definition lines_of :: "bytes list \<Rightarrow> bytes" where
  "lines_of xs = concat (map (\<lambda>x. x @ [10]) xs)"

definition keys_handler ::
    "((topic_partition \<times> u64) list \<Rightarrow> string option) \<Rightarrow> cache_state \<Rightarrow> cache_state \<Rightarrow> cache_state
      \<Rightarrow> cache_state \<Rightarrow> string \<Rightarrow> response" where
  "keys_handler to_json c0 c1 c2 c3 mirror =
     (case resolve_mirror c0 c1 mirror of
        Some r \<Rightarrow> r
      | None \<Rightarrow> (case snapshot_keys_for mirror c2 of
            None \<Rightarrow> plain 404
          | Some ks \<Rightarrow> \<lparr>rp_status = 200,
              rp_headers = offsets_header_for to_json c3 mirror
                @ [(''content-type'', ''application/octet-stream'')],
              rp_body = Bytes (lines_of (map as_bytes ks))\<rparr>))"

definition values_handler ::
    "((topic_partition \<times> u64) list \<Rightarrow> string option) \<Rightarrow> cache_state \<Rightarrow> cache_state \<Rightarrow> cache_state
      \<Rightarrow> cache_state \<Rightarrow> string \<Rightarrow> response" where
  "values_handler to_json c0 c1 c2 c3 mirror =
     (case resolve_mirror c0 c1 mirror of
        Some r \<Rightarrow> r
      | None \<Rightarrow> (case snapshot_values_for mirror c2 of
            None \<Rightarrow> plain 404
          | Some vs \<Rightarrow> \<lparr>rp_status = 200,
              rp_headers = offsets_header_for to_json c3 mirror
                @ [(''content-type'', ''text/plain; charset=utf-8'')],
              rp_body = Bytes (lines_of vs)\<rparr>))"

text \<open>The shutdown sender is taken once: the first request's code is the one that is sent.\<close>

definition trigger_shutdown :: "i32 \<Rightarrow> bool \<times> i32 option \<Rightarrow> bool \<times> i32 option" where
  "trigger_shutdown code st = (if fst st then (False, Some code) else st)"

section \<open>Lemmas\<close>

lemma find_snapshot:
  "(find (\<lambda>s. ss_name s = m) (status_snapshot c) = None) = (map_of (cs_mirrors c) m = None)"
  by (auto simp: status_snapshot_def find_None_iff map_of_eq_None_iff rev_image_eqI)

lemma resolve_mirror_None:
  "(resolve_mirror c0 c1 m = None) = (map_of (cs_mirrors c0) m \<noteq> None \<and> has_caught_up m c1)"
  using find_snapshot [of m c0] by (auto simp: resolve_mirror_def split: option.splits)

lemma report_names:
  "set (map mr_name (rr_mirrors (snd (build_readiness_report c0 c)))) = fst ` set (cs_mirrors c0)"
  by (force simp: build_readiness_report_def Let_def from_snapshot_def status_snapshot_def
      split: mirror_status.splits)

lemma from_snapshot_fields [simp]:
  "mr_name (from_snapshot s c) = ss_name s"
  "mr_gates_readiness (from_snapshot s c) = serves_values (ss_name s) c"
  "mr_caught_up (from_snapshot s c) = has_caught_up (ss_name s) c"
  by (simp_all add: from_snapshot_def Let_def split: mirror_status.splits)

lemma snapshot_names: "ss_name ` set (status_snapshot c) = fst ` set (cs_mirrors c)"
  by (force simp: status_snapshot_def)

lemma report_code:
  "fst (build_readiness_report c0 c) = 200 \<longleftrightarrow>
     (\<exists>s \<in> set (status_snapshot c0). serves_values (ss_name s) (c (ss_name s)))
     \<and> (\<forall>s \<in> set (status_snapshot c0). serves_values (ss_name s) (c (ss_name s))
          \<longrightarrow> has_caught_up (ss_name s) (c (ss_name s)))"
  by (auto simp: build_readiness_report_def Let_def list_ex_iff filter_empty_conv)

lemma report_ready_iff:
  "fst (build_readiness_report c0 c) = 200 \<longleftrightarrow>
     (\<exists>n \<in> fst ` set (cs_mirrors c0). serves_values n (c n))
     \<and> (\<forall>n \<in> fst ` set (cs_mirrors c0). serves_values n (c n) \<longrightarrow> has_caught_up n (c n))"
  unfolding snapshot_names [symmetric] report_code by blast

lemma split_at_sep:
  "s \<notin> set x \<Longrightarrow> s \<notin> set y \<Longrightarrow> x @ s # a = y @ s # b \<Longrightarrow> x = y \<and> a = b"
proof (induction x arbitrary: y)
  case Nil
  then show ?case by (cases y) auto
next
  case (Cons c x)
  then show ?case by (cases y) auto
qed

lemma lines_of_Cons: "lines_of (x # xs) = x @ 10 # lines_of xs"
  by (simp add: lines_of_def)

lemma lines_of_inject:
  "\<forall>x \<in> set xs. 10 \<notin> set x \<Longrightarrow> \<forall>y \<in> set ys. 10 \<notin> set y \<Longrightarrow> lines_of xs = lines_of ys \<Longrightarrow> xs = ys"
proof (induction xs arbitrary: ys)
  case Nil
  then show ?case by (cases ys) (auto simp: lines_of_def)
next
  case (Cons x xs)
  then obtain y ys' where ys: "ys = y # ys'" by (cases ys) (auto simp: lines_of_def)
  have "x = y \<and> lines_of xs = lines_of ys'"
    using Cons.prems split_at_sep [of 10 x y "lines_of xs" "lines_of ys'"]
    by (simp add: ys lines_of_Cons)
  then show ?case using Cons.IH [of ys'] Cons.prems ys by simp
qed

end
