(* ===== verification/Props_Cache.thy ===== *)
theory Props_Cache
  imports Fixtures Cache_Http
begin

text \<open>
  The properties of the cache and of what its HTTP surface answers, for a mirror that was registered and
  then saw any sequence of events, interleaved with those of other mirrors.
\<close>

section \<open>The events that reach a view\<close>

fun applied :: "slot_event list \<Rightarrow> krecord list" where
  "applied [] = []"
| "applied (Applied r # evs) = r # applied evs"
| "applied (_ # evs) = applied evs"

lemma slot_step_rest:
  "\<forall>r. ev \<noteq> Applied r \<Longrightarrow> ms_view (slot_step t ev s) = ms_view s
     \<and> ms_offsets (slot_step t ev s) = ms_offsets s
     \<and> ms_last_applied_offset (slot_step t ev s) = ms_last_applied_offset s"
  by (cases ev) (auto simp: slot_step_def)

lemma apply_to_slot_cong:
  assumes "ms_view s = ms_view s'" "ms_offsets s = ms_offsets s'"
    "ms_last_applied_offset s = ms_last_applied_offset s'"
  shows "ms_view (apply_to_slot t r s) = ms_view (apply_to_slot t r s')
    \<and> ms_offsets (apply_to_slot t r s) = ms_offsets (apply_to_slot t r s')
    \<and> ms_last_applied_offset (apply_to_slot t r s) = ms_last_applied_offset (apply_to_slot t r s')"
  using assms by (auto simp: apply_to_slot_def)

lemma slot_steps_applied:
  assumes "ms_view s = ms_view s'" "ms_offsets s = ms_offsets s'"
    "ms_last_applied_offset s = ms_last_applied_offset s'"
  shows "ms_view (fold (slot_step t) evs s) = ms_view (fold (apply_to_slot t) (applied evs) s')
    \<and> ms_offsets (fold (slot_step t) evs s) = ms_offsets (fold (apply_to_slot t) (applied evs) s')
    \<and> ms_last_applied_offset (fold (slot_step t) evs s) =
        ms_last_applied_offset (fold (apply_to_slot t) (applied evs) s')"
  using assms
proof (induction evs arbitrary: s s' rule: applied.induct)
  case (2 r evs)
  show ?case
    using 2(1) [of "apply_to_slot t r s" "apply_to_slot t r s'"] apply_to_slot_cong [OF 2(2-4), of t r]
    by (simp add: slot_step_def)
qed (simp_all add: slot_step_rest)

text \<open>The slot of a registered mirror after a sequence of events of all mirrors.\<close>

abbreviation registered where
  "registered name hwm committed is_main topic part c nes \<equiv>
     fold cache_event nes (register_mirror_with_topic name hwm committed is_main topic part c)"

lemma registered_slot:
  "map_of (cs_mirrors (registered name hwm committed is_main topic part c nes)) name =
     Some (fold (slot_step (cs_readiness_lag_tolerance c)) (events_of name nes)
       (new_slot hwm committed topic part True))"
  by (simp add: cache_events_slot register_mirror_with_topic_def insert_slot_def Let_def
      map_of_im_insert)

lemma sorted_offsets_reads: "im_ok m \<Longrightarrow> map_of (sorted_offsets m) = map_of m"
proof -
  assume "im_ok m"
  then have d: "distinct (map fst m)" by (simp add: im_ok_def)
  have "mset (map fst (sorted_offsets m)) = mset (map fst m)" by (simp add: sorted_offsets_def)
  then have "distinct (map fst (sorted_offsets m))" using d by (metis mset_eq_imp_distinct_iff)
  then show ?thesis using d by (simp add: map_of_inject_set sorted_offsets_def)
qed

lemma registered_read:
  obtains v where
    "read_value name key (registered name hwm committed is_main topic part c nes) =
       Some \<lparr>vr_value = map_option (\<lambda>e. (ce_value e, ce_offset e)) (map_of v key),
         vr_offsets = sorted_offsets (ms_offsets (fold (apply_to_slot (cs_readiness_lag_tolerance c))
           (applied (events_of name nes)) (new_slot hwm committed topic part True)))\<rparr>"
    "ms_view (fold (apply_to_slot (cs_readiness_lag_tolerance c)) (applied (events_of name nes))
       (new_slot hwm committed topic part True)) = Some v"
    "map_of v key = latest (concat (map cache_update
       (fresh_records (\<lambda>_. None) (applied (events_of name nes))))) key"
proof -
  let ?s = "new_slot hwm committed topic part True" and ?t = "cs_readiness_lag_tolerance c"
  let ?rs = "applied (events_of name nes)"
  obtain v where v: "ms_view (fold (apply_to_slot ?t) ?rs ?s) = Some v"
    "map_of v key = latest (concat (map cache_update (fresh_records (\<lambda>_. None) ?rs))) key"
    using slot_reads_latest [of ?s ?t ?rs key] by (auto simp: new_slot_def)
  have "ms_view (fold (slot_step ?t) (events_of name nes) ?s) = Some v
    \<and> ms_offsets (fold (slot_step ?t) (events_of name nes) ?s) = ms_offsets (fold (apply_to_slot ?t) ?rs ?s)"
    using slot_steps_applied [of ?s ?s ?t "events_of name nes"] v(1) by simp
  then have "read_value name key (registered name hwm committed is_main topic part c nes) =
       Some \<lparr>vr_value = map_option (\<lambda>e. (ce_value e, ce_offset e)) (map_of v key),
         vr_offsets = sorted_offsets (ms_offsets (fold (apply_to_slot ?t) ?rs ?s))\<rparr>"
    by (simp add: read_value_def registered_slot)
  then show ?thesis using v by (rule that)
qed

text \<open>The highest offset among the records of a partition.\<close>

definition offsets_in :: "krecord list \<Rightarrow> topic_partition \<Rightarrow> u64 set" where
  "offsets_in rs tp = r_offset ` {r \<in> set rs. record_tp r = tp}"

definition highest_of :: "krecord list \<Rightarrow> topic_partition \<Rightarrow> u64 option" where
  "highest_of rs tp = (if offsets_in rs tp = {} then None else Some (Max (offsets_in rs tp)))"

lemma highest_of_snoc:
  "highest_of (rs @ [r]) tp =
     (if record_tp r = tp then Some (case highest_of rs tp of None \<Rightarrow> r_offset r | Some l \<Rightarrow> max l (r_offset r))
      else highest_of rs tp)"
proof -
  have fin: "finite (offsets_in rs tp)" by (simp add: offsets_in_def)
  have "offsets_in (rs @ [r]) tp =
      (if record_tp r = tp then insert (r_offset r) (offsets_in rs tp) else offsets_in rs tp)"
    by (auto simp: offsets_in_def)
  then show ?thesis using fin
    by (cases "offsets_in rs tp = {}") (simp_all add: highest_of_def max.commute)
qed

lemma highest_of_ge:
  "r \<in> set rs \<Longrightarrow> \<exists>l. highest_of rs (record_tp r) = Some l \<and> r_offset r \<le> l"
  by (auto simp: highest_of_def offsets_in_def intro!: Max_ge)

lemma slot_offsets_highest:
  assumes "ms_offsets s = []"
  shows "map_of (ms_offsets (fold (apply_to_slot t) rs s)) tp = highest_of rs tp"
proof -
  have "fold (\<lambda>r m. if record_tp r = tp then Some (case m of None \<Rightarrow> r_offset r | Some l \<Rightarrow> max l (r_offset r))
      else m) rs None = highest_of rs tp"
    by (induction rs rule: rev_induct) (simp_all add: highest_of_snoc, simp add: highest_of_def offsets_in_def)
  then show ?thesis using slot_offsets_max [of t rs s tp] assms by simp
qed

text \<open>The last write of a key is one of the writes, and it comes from one of the records.\<close>

lemma latest_member: "latest us k = Some v \<Longrightarrow> (k, Some v) \<in> set us"
  by (induction us k rule: latest.induct) (auto split: if_splits)

lemma fresh_records_subset: "set (fresh_records seen rs) \<subseteq> set rs"
  by (induction rs arbitrary: seen) (auto split: if_splits)

lemma latest_from_record:
  assumes "latest (concat (map cache_update (fresh_records seen rs))) key = Some e"
  shows "\<exists>r \<in> set rs. Option.bind (r_key r) from_utf8 = Some key \<and> r_value r = Some (ce_value e)
    \<and> r_offset r = ce_offset e"
proof -
  obtain r where "r \<in> set (fresh_records seen rs)" "(key, Some e) \<in> set (cache_update r)"
    using latest_member [OF assms] by auto
  then have "r \<in> set rs" "Option.bind (r_key r) from_utf8 = Some key" "r_value r = Some (ce_value e)"
    "r_offset r = ce_offset e"
    using fresh_records_subset [of seen rs]
    by (cases "r_key r"; cases "r_value r"; auto simp: cache_update_def split: option.splits)+
  then show ?thesis by blast
qed

text \<open>The position of a slot is one past the highest offset applied.\<close>

definition offsets_below :: "mirror_slot \<Rightarrow> bool" where
  "offsets_below s = (\<forall>tp l. map_of (ms_offsets s) tp = Some l \<longrightarrow>
     l \<noteq> u64_max \<and> l + 1 \<le> ms_last_applied_offset s)"

lemma succ_mono: "(a :: u64) \<le> b \<Longrightarrow> b \<noteq> u64_max \<Longrightarrow> a + 1 \<le> b + 1"
proof -
  assume "a \<le> b" "b \<noteq> u64_max"
  moreover from this have "a \<noteq> u64_max" using order_antisym [OF u64_le_max [of b]] by auto
  ultimately show "a + 1 \<le> b + 1" by (simp add: word_arith)
qed

lemma position_step:
  assumes "offsets_below s" "r_offset r \<noteq> u64_max"
  shows "ms_last_applied_offset (apply_to_slot t r s) = max (ms_last_applied_offset s) (r_offset r + 1)
    \<and> offsets_below (apply_to_slot t r s)"
proof (cases "behind (map_of (ms_offsets s)) r")
  case True
  then obtain l where l: "map_of (ms_offsets s) (record_tp r) = Some l" "r_offset r \<le> l"
    by (auto simp: behind_def split: option.splits)
  then have "l \<noteq> u64_max" "l + 1 \<le> ms_last_applied_offset s" using assms(1) unfolding offsets_below_def by blast+
  then have "r_offset r + 1 \<le> ms_last_applied_offset s" using succ_mono [OF l(2)] by simp
  then show ?thesis using assms(1) True by (simp add: apply_to_slot_behind max_absorb1)
next
  case False
  then show ?thesis
    using assms apply_to_slot_fresh [OF False, of t]
    by (auto simp: offsets_below_def le_max_iff_disj split: if_splits)
qed

lemma position_fold:
  assumes "offsets_below s" "\<forall>r \<in> set rs. r_offset r \<noteq> u64_max"
  shows "ms_last_applied_offset (fold (apply_to_slot t) rs s) =
    fold (\<lambda>r m. max m (r_offset r + 1)) rs (ms_last_applied_offset s)"
  using assms
proof (induction rs arbitrary: s)
  case (Cons r rs)
  then show ?case using position_step [of s r t] by simp
qed simp

lemma le_fold_max:
  "(b :: u64) \<le> fold (\<lambda>r m. max m (f r)) rs a \<longleftrightarrow> b \<le> a \<or> (\<exists>r \<in> set rs. b \<le> f r)"
  by (induction rs arbitrary: a) (auto simp: le_max_iff_disj)

section \<open>Values\<close>

text \<open>
  C33: a read answers the last write of the key among the records the mirror applied, in order and
  without those at or behind what it had seen of their partition, and the offset of that very record; a
  tombstone removes the key.  Events of other mirrors, and of this mirror's readiness, change nothing.
\<close>

theorem cache_serves_latest:
  "map_option vr_value
     (read_value name key (registered name hwm committed is_main topic part c nes)) =
   Some (map_option (\<lambda>e. (ce_value e, ce_offset e)) (latest (concat (map cache_update
     (fresh_records (\<lambda>_. None) (applied (events_of name nes))))) key))"
  by (rule registered_read [where name = name and key = key and hwm = hwm and committed = committed
      and is_main = is_main and topic = topic and part = part and c = c and nes = nes]) simp

text \<open>
  C34: a value and the offsets reported with it are of one state of the view.  The value was written by a
  record of the key that the mirror applied, at the offset that is reported for the value; the reported
  offsets are, partition by partition, exactly the highest ones applied, so the one of the value's own
  partition is at least the value's.
\<close>

theorem value_within_reported_offsets:
  assumes "read_value name key (registered name hwm committed is_main topic part c nes) = Some rd"
    and "vr_value rd = Some (v, off)"
  shows "\<exists>r \<in> set (applied (events_of name nes)).
    Option.bind (r_key r) from_utf8 = Some key \<and> r_value r = Some v \<and> r_offset r = off
    \<and> (\<exists>l. map_of (vr_offsets rd) (record_tp r) = Some l \<and> off \<le> l)
    \<and> map_of (vr_offsets rd) = highest_of (applied (events_of name nes))"
proof -
  let ?start = "new_slot hwm committed topic part True" and ?rs = "applied (events_of name nes)"
  let ?s = "fold (apply_to_slot (cs_readiness_lag_tolerance c)) ?rs ?start"
  have "im_ok (ms_offsets ?s)"
    using slot_steps_ok [OF slot_ok_new, of "cs_readiness_lag_tolerance c" "map Applied ?rs"
        hwm committed topic part True]
    by (simp add: slot_ok_def fold_map o_def slot_step_def [abs_def])
  then have reads: "map_of (sorted_offsets (ms_offsets ?s)) = highest_of ?rs"
    using slot_offsets_highest [of ?start] by (simp add: sorted_offsets_reads new_slot_def fun_eq_iff)
  obtain view where r: "read_value name key (registered name hwm committed is_main topic part c nes) =
       Some \<lparr>vr_value = map_option (\<lambda>e. (ce_value e, ce_offset e)) (map_of view key),
         vr_offsets = sorted_offsets (ms_offsets ?s)\<rparr>"
    and "map_of view key = latest (concat (map cache_update (fresh_records (\<lambda>_. None) ?rs))) key"
    by (rule registered_read [where name = name and key = key and hwm = hwm and committed = committed
      and is_main = is_main and topic = topic and part = part and c = c and nes = nes])
  then obtain e where "latest (concat (map cache_update (fresh_records (\<lambda>_. None) ?rs))) key = Some e"
    "v = ce_value e" "off = ce_offset e" and rd: "vr_offsets rd = sorted_offsets (ms_offsets ?s)"
    using assms by auto
  then obtain r where rec: "r \<in> set ?rs" "Option.bind (r_key r) from_utf8 = Some key" "r_value r = Some v"
    "r_offset r = off"
    using latest_from_record by blast
  show ?thesis
    using rec highest_of_ge [OF rec(1)] rd reads by (intro bexI [OF _ rec(1)] conjI) simp_all
qed

text \<open>Two writes of a key, an event of another mirror, and an older record that arrives late.\<close>

definition demo_events :: "(string \<times> slot_event) list" where
  "demo_events = [(''m'', Applied (demo_rec 0)), (''other'', Applied (demo_rec 7)),
     (''m'', Applied (demo_rec 1)), (''m'', Unassigned), (''m'', Applied (demo_rec 0))]"

abbreviation demo_cached :: "u64 \<Rightarrow> cache_state" where
  "demo_cached hwm \<equiv> registered ''m'' hwm None True ''orders'' 0 cache_new demo_events"

theorem value_within_reported_offsets_witness:
  "read_value ''m'' ''k'' (demo_cached 2) = Some \<lparr>vr_value = Some ([1], 1), vr_offsets = [((''orders'', 0), 1)]\<rparr>
   \<and> (\<exists>r \<in> set (applied (events_of ''m'' demo_events)). r_value r = Some [1] \<and> r_offset r = 1)
   \<and> map_of [((''orders'', 0), 1)] = highest_of (applied (events_of ''m'' demo_events))"
proof -
  have rd: "read_value ''m'' ''k'' (demo_cached 2) =
    Some \<lparr>vr_value = Some ([1], 1), vr_offsets = [((''orders'', 0), 1)]\<rparr>"
    by code_simp
  from value_within_reported_offsets [OF rd, of "[1]" 1] rd show ?thesis by auto
qed

section \<open>Readiness\<close>

text \<open>
  When a mirror is caught up.  It answers requests exactly when its partition was empty at startup or it
  applied a record at the last offset before the startup high watermark or beyond.  Nothing else moves
  it: a mirror whose last records before the watermark no longer exist keeps answering 503 until a new
  record arrives.
\<close>

theorem mirror_resolves_iff:
  assumes "\<forall>r \<in> set (applied (events_of name nes)). r_offset r \<noteq> u64_max"
  shows "resolve_mirror c0 (registered name hwm committed is_main topic part c nes) name = None \<longleftrightarrow>
    map_of (cs_mirrors c0) name \<noteq> None
    \<and> (hwm = 0 \<or> (\<exists>r \<in> set (applied (events_of name nes)). hwm \<le> r_offset r + 1))"
proof -
  let ?s = "new_slot hwm committed topic part True" and ?t = "cs_readiness_lag_tolerance c"
  have "ms_last_applied_offset (fold (slot_step ?t) (events_of name nes) ?s) =
      fold (\<lambda>r m. max m (r_offset r + 1)) (applied (events_of name nes)) 0"
    using slot_steps_applied [of ?s ?s ?t "events_of name nes"]
      position_fold [of ?s "applied (events_of name nes)" ?t] assms
    by (simp add: offsets_below_def new_slot_def)
  moreover have "ms_bootstrap_hwm (fold (slot_step ?t) (events_of name nes) ?s) = hwm"
    using slot_steps_mono [of ?t "events_of name nes" ?s] by (simp add: new_slot_def)
  ultimately show ?thesis
    by (simp add: resolve_mirror_None has_caught_up_def registered_slot le_fold_max)
qed

theorem mirror_resolves_iff_witness:
  "resolve_mirror (demo_cached 2) (demo_cached 2) ''m'' = None
   \<and> resolve_mirror (demo_cached 3) (demo_cached 3) ''m'' \<noteq> None"
proof -
  have ap: "applied (events_of ''m'' demo_events) = [demo_rec 0, demo_rec 1, demo_rec 0]"
    by (simp add: demo_events_def events_of_def)
  then have "\<forall>r \<in> set (applied (events_of ''m'' demo_events)). r_offset r \<noteq> u64_max"
    by (simp add: demo_rec_def u64_max_def)
  note iff = mirror_resolves_iff [OF this]
  have reg: "map_of (cs_mirrors (demo_cached hwm)) ''m'' \<noteq> None" for hwm by (simp add: registered_slot)
  show ?thesis unfolding iff ap using reg by (simp add: demo_rec_def word_le_nat_alt)
qed

text \<open>
  Where the code and its comments part: they say 503 whenever the mirror is not \<open>Ready\<close> now, but once a
  mirror has answered a request it never answers 503 again, whatever happens to its source, its
  destination or the other mirrors.
\<close>

lemma resolved_mirror_stays_resolved:
  assumes "resolve_mirror c0 c1 name = None"
  shows "resolve_mirror (fold cache_event nes c0) (fold cache_event nes' c1) name = None"
proof -
  have "map_of (cs_mirrors (fold cache_event nes c0)) name \<noteq> None"
    using assms by (simp add: resolve_mirror_None cache_events_slot)
  moreover have "has_caught_up name (fold cache_event nes' c1)"
  proof -
    obtain s where s: "map_of (cs_mirrors c1) name = Some s" "ms_bootstrap_hwm s \<le> ms_last_applied_offset s"
      using assms by (auto simp: resolve_mirror_None has_caught_up_def split: option.splits)
    then show ?thesis
      using slot_steps_mono [of "cs_readiness_lag_tolerance c1" "events_of name nes'" s]
      by (auto simp: has_caught_up_def cache_events_slot)
  qed
  ultimately show ?thesis by (simp add: resolve_mirror_None)
qed

text \<open>
  C37: the status of a mirror is what its counters say, recomputed after every event, except while a
  destination is reported to lag.
\<close>

theorem status_is_what_counters_say:
  assumes "map_of (cs_mirrors (registered name hwm committed is_main topic part c nes)) name = Some s"
    and "\<not> dest_lagging (ms_status s)"
  shows "ms_status s = source_status (cs_readiness_lag_tolerance c) s
    \<and> (ms_status s = Ready \<longrightarrow> ms_source_assigned s \<and> hwm \<le> ms_last_applied_offset s
         \<and> saturating_sub (ms_broker_end_offset s) (ms_last_applied_offset s)
             \<le> cs_readiness_lag_tolerance c)"
proof -
  let ?t = "cs_readiness_lag_tolerance c" and ?s = "new_slot hwm committed topic part True"
  have s: "s = fold (slot_step ?t) (events_of name nes) ?s"
    using assms(1) by (simp add: registered_slot)
  have "ms_status s = source_status ?t s"
    using slot_steps_ok [OF slot_ok_new] assms(2) unfolding s slot_ok_def by blast
  moreover have "ms_bootstrap_hwm s = hwm"
    using slot_steps_mono [of ?t "events_of name nes" ?s] by (simp add: s new_slot_def)
  ultimately show ?thesis by (auto simp: source_status_def not_less split: if_splits)
qed

theorem status_is_what_counters_say_witness:
  "\<exists>s. map_of (cs_mirrors (registered ''m'' 0 None True ''orders'' 0 cache_new [(''m'', Applied (demo_rec 0))])) ''m''
       = Some s
     \<and> ms_status s = Ready \<and> ms_source_assigned s \<and> 0 \<le> ms_last_applied_offset s"
proof -
  let ?c = "registered ''m'' 0 None True ''orders'' 0 cache_new [(''m'', Applied (demo_rec 0))]"
  obtain s where s: "map_of (cs_mirrors ?c) ''m'' = Some s" using registered_slot by blast
  have st: "map_option ms_status (map_of (cs_mirrors ?c) ''m'') = Some Ready" by code_simp
  then have "ms_status s = Ready" using s by simp
  then have "\<not> dest_lagging (ms_status s)" by (simp add: dest_lagging_def)
  from status_is_what_counters_say [OF s this] show ?thesis using s \<open>ms_status s = Ready\<close> by blast
qed

text \<open>
  The readiness probe answers 200 exactly when some mirror serves values and every mirror that does
  has caught up; progress-only mirrors never hold it back.
\<close>

theorem probe_ready_iff:
  "fst (build_readiness_report c0 c) = 200 \<longleftrightarrow>
     (\<exists>n \<in> fst ` set (cs_mirrors c0). serves_values n (c n))
     \<and> (\<forall>n \<in> fst ` set (cs_mirrors c0). serves_values n (c n) \<longrightarrow> has_caught_up n (c n))"
  by (rule report_ready_iff)

theorem probe_ready_iff_witness:
  "fst (build_readiness_report (demo_cached 2) (\<lambda>_. demo_cached 2)) = 200"
  unfolding probe_ready_iff by code_simp


end
