(* ===== verification/Envsubst.thy ===== *)
theory Envsubst
  imports Std_Text
begin

text \<open>
  Environment interpolation of the configuration text (\<open>crates/mirror-config/src/envsubst.rs\<close>):
  \<open>${NAME}\<close>, \<open>${NAME:-default}\<close> and \<open>$$\<close>, in one pass over the characters.  The environment is a function.
  The lemmas show that the scan ends, that text without a dollar is untouched, that doubling every
  dollar is undone, and that a substituted value is not scanned again.
\<close>

datatype envsubst_error = UndefinedVariable string | Unterminated

fun consume_until_close :: "string \<Rightarrow> (string \<times> string) option" where
  "consume_until_close [] = None"
| "consume_until_close (c # cs) =
     (if c = CHR ''}'' then Some ([], cs)
      else map_option (\<lambda>(body, rest). (c # body, rest)) (consume_until_close cs))"

definition split_name_default :: "string \<Rightarrow> string \<times> string option" where
  "split_name_default body = (case split_once '':-'' body of
      Some (name, d) \<Rightarrow> (name, Some d)
    | None \<Rightarrow> (body, None))"

definition is_ascii_alphabetic :: "char \<Rightarrow> bool" where
  "is_ascii_alphabetic c = (is_ascii_lowercase c \<or> (65 \<le> (of_char c :: nat) \<and> (of_char c :: nat) \<le> 90))"

definition is_valid_name :: "string \<Rightarrow> bool" where
  "is_valid_name name = (case name of
      [] \<Rightarrow> False
    | c # cs \<Rightarrow> (is_ascii_alphabetic c \<or> c = CHR ''_'')
        \<and> list_all (\<lambda>c. is_ascii_alphabetic c \<or> is_ascii_digit c \<or> c = CHR ''_'') cs)"

lemma consume_shorter: "consume_until_close cs = Some (body, rest) \<Longrightarrow> length rest < length cs"
proof (induction cs arbitrary: body rest)
  case (Cons c cs)
  then show ?case by (fastforce split: if_splits)
qed simp

text \<open>What one \<open>${body}\<close> becomes.\<close>

definition expand_reference :: "(string \<Rightarrow> string option) \<Rightarrow> string \<Rightarrow> envsubst_error + string" where
  "expand_reference env body =
     (let (name, default) = split_name_default body in
      if \<not> is_valid_name name then Ok (''${'' @ body @ ''}'')
      else (case env name of
          Some v \<Rightarrow> Ok v
        | None \<Rightarrow> (case default of Some d \<Rightarrow> Ok d | None \<Rightarrow> Err (UndefinedVariable name))))"

function (sequential) expand :: "(string \<Rightarrow> string option) \<Rightarrow> string \<Rightarrow> envsubst_error + string" where
  "expand env [] = Ok []"
| "expand env (c # cs) =
     (if c \<noteq> CHR ''$'' then res_bind (expand env cs) (\<lambda>out. Ok (c # out))
      else (case cs of
          [] \<Rightarrow> Ok ''$''
        | d # ds \<Rightarrow>
            if d = CHR ''$'' then res_bind (expand env ds) (\<lambda>out. Ok (CHR ''$'' # out))
            else if d = CHR ''{'' then
              (case consume_until_close ds of
                 None \<Rightarrow> Err Unterminated
               | Some (body, rest) \<Rightarrow>
                   res_bind (expand_reference env body) (\<lambda>v.
                     res_bind (expand env rest) (\<lambda>out. Ok (v @ out))))
            else res_bind (expand env cs) (\<lambda>out. Ok (CHR ''$'' # out))))"
  by pat_completeness auto
termination
  by (relation "measure (\<lambda>(env, cs). length cs)") (auto dest: consume_shorter)

declare expand.simps(2) [simp del]

section \<open>Lemmas\<close>

lemma expand_plain:
  assumes "CHR ''$'' \<notin> set s"
  shows "expand env (s @ t) = res_bind (expand env t) (\<lambda>out. Ok (s @ out))"
  using assms
proof (induction s)
  case Nil
  show ?case by (cases "expand env t") simp_all
next
  case (Cons c s)
  then have "c \<noteq> CHR ''$''" by auto
  then have "expand env ((c # s) @ t) = res_bind (expand env (s @ t)) (\<lambda>out. Ok (c # out))"
    by (simp add: expand.simps(2))
  then show ?case using Cons by (cases "expand env t") simp_all
qed

definition escape :: "string \<Rightarrow> string" where
  "escape s = concat (map (\<lambda>c. if c = CHR ''$'' then ''$$'' else [c]) s)"

lemma expand_escape: "expand env (escape s) = Ok s"
  by (induction s) (simp_all add: escape_def expand.simps(2))

lemma consume_body: "CHR ''}'' \<notin> set body \<Longrightarrow> consume_until_close (body @ ''}'' @ rest) = Some (body, rest)"
  by (induction body) auto

lemma expand_ref:
  assumes "CHR ''}'' \<notin> set body"
  shows "expand env (''${'' @ body @ ''}'' @ rest) =
    res_bind (expand_reference env body) (\<lambda>v. res_bind (expand env rest) (\<lambda>out. Ok (v @ out)))"
  using consume_body [OF assms, of rest] by (simp add: expand.simps(2))

text \<open>A text: plain parts, escapes and references with what they stand for.\<close>

datatype piece = Plain string | Dollar | Ref string "string option"

definition piece_ok :: "piece \<Rightarrow> bool" where
  "piece_ok p = (case p of
      Plain s \<Rightarrow> CHR ''$'' \<notin> set s
    | Dollar \<Rightarrow> True
    | Ref name d \<Rightarrow> is_valid_name name
        \<and> (case d of None \<Rightarrow> True | Some x \<Rightarrow> CHR ''}'' \<notin> set x))"

definition piece_text :: "piece \<Rightarrow> string" where
  "piece_text p = (case p of
      Plain s \<Rightarrow> s
    | Dollar \<Rightarrow> ''$$''
    | Ref name d \<Rightarrow> ''${'' @ name @ (case d of None \<Rightarrow> [] | Some x \<Rightarrow> '':-'' @ x) @ ''}'')"

definition piece_value :: "(string \<Rightarrow> string option) \<Rightarrow> piece \<Rightarrow> envsubst_error + string" where
  "piece_value env p = (case p of
      Plain s \<Rightarrow> Ok s
    | Dollar \<Rightarrow> Ok ''$''
    | Ref name d \<Rightarrow> (case env name of
          Some v \<Rightarrow> Ok v
        | None \<Rightarrow> (case d of Some x \<Rightarrow> Ok x | None \<Rightarrow> Err (UndefinedVariable name))))"

lemma name_chars:
  assumes "is_valid_name name" "c \<in> set name"
  shows "c \<noteq> CHR '':'' \<and> c \<noteq> CHR ''}''"
  using assms
  by (auto simp: is_valid_name_def list_all_iff is_ascii_alphabetic_def is_ascii_lowercase_def
      is_ascii_digit_def split: list.splits)

lemma split_name:
  assumes "is_valid_name name"
  shows "split_name_default (name @ (case d of None \<Rightarrow> [] | Some x \<Rightarrow> '':-'' @ x)) = (name, d)"
proof -
  have no: "CHR '':'' \<notin> set name" using name_chars [OF assms] by blast
  show ?thesis
  proof (cases d)
    case None
    then show ?thesis using split_once_none [of "'':-''" name] no by (simp add: split_name_default_def)
  next
    case (Some x)
    then show ?thesis using split_once_at [of "'':-''" name x] no by (simp add: split_name_default_def)
  qed
qed

lemma expand_piece:
  assumes "piece_ok p"
  shows "expand env (piece_text p @ t) =
    res_bind (piece_value env p) (\<lambda>v. res_bind (expand env t) (\<lambda>out. Ok (v @ out)))"
proof (cases p)
  case (Plain s)
  then show ?thesis
    using assms expand_plain [of s env t] by (simp add: piece_ok_def piece_text_def piece_value_def)
next
  case Dollar
  then show ?thesis by (simp add: piece_text_def piece_value_def expand.simps(2))
next
  case (Ref name d)
  let ?body = "name @ (case d of None \<Rightarrow> [] | Some x \<Rightarrow> '':-'' @ x)"
  have "CHR ''}'' \<notin> set ?body"
    using assms name_chars [of name] by (auto simp: Ref piece_ok_def split: option.splits)
  from expand_ref [OF this, of env t] show ?thesis
    using assms split_name [of name d]
    by (simp add: Ref piece_ok_def piece_text_def piece_value_def expand_reference_def
        split: option.splits)
qed

lemma expand_pieces:
  "list_all piece_ok ps \<Longrightarrow>
   expand env (concat (map piece_text ps)) =
     res_bind (try_map (piece_value env) ps) (\<lambda>vs. Ok (concat vs))"
proof (induction ps)
  case (Cons p ps)
  then show ?case
    by (cases "piece_value env p"; cases "try_map (piece_value env) ps") (simp_all add: expand_piece)
qed simp

end
