(* ===== verification/Config.thy ===== *)
theory Config
  imports Envsubst Naming
begin

text \<open>
  The configuration model and its validation (\<open>crates/mirror-config/src/lib.rs\<close>), in the order of the
  source: destinations, mirrors, the notify block, HTTP access, encoding settings and flush triggers,
  then loading and the cross-field rules.  Serde is a parameter; a validation error carries no message.
  \<open>url_parse\<close> stands for \<open>url::Url::parse\<close> with the accessors the code uses.
\<close>

section \<open>Destinations\<close>

record kafka_destination =
  kd_name :: "string option"
  kd_bootstrap_servers :: string
  kd_topic :: "string option"
  kd_affects_readiness :: bool

record filesystem_destination =
  fd_name :: "string option"
  fd_root :: string
  fd_affects_readiness :: bool

record s3_key =
  s3k_access_key_id_env :: string
  s3k_secret_access_key_env :: string

record s3_credentials =
  s3c_write :: s3_key
  s3c_read :: s3_key

record parquet_keys =
  pk_keys_dir :: string
  pk_key_id :: string

datatype encryption = EncNone | EncParquetKeys parquet_keys

record s3_destination =
  sd_name :: "string option"
  sd_endpoint :: "string option"
  sd_region :: string
  sd_bucket :: string
  sd_prefix :: "string option"
  sd_credentials :: s3_credentials
  sd_encryption :: encryption
  sd_affects_readiness :: bool

datatype destination =
    DKafka kafka_destination
  | DFilesystem filesystem_destination
  | DS3 s3_destination

definition raw_destination_name :: "destination \<Rightarrow> string option" where
  "raw_destination_name d = (case d of
      DKafka k \<Rightarrow> kd_name k | DFilesystem f \<Rightarrow> fd_name f | DS3 s \<Rightarrow> sd_name s)"

definition effective_name :: "destination \<Rightarrow> string \<Rightarrow> string" where
  "effective_name d mirror_name = (case d of
      DKafka k \<Rightarrow> unwrap_or (kd_name k) mirror_name
    | DFilesystem f \<Rightarrow> unwrap_or (fd_name f) mirror_name
    | DS3 s \<Rightarrow> unwrap_or (sd_name s) mirror_name)"

definition is_blob :: "destination \<Rightarrow> bool" where
  "is_blob d = (case d of DKafka _ \<Rightarrow> False | _ \<Rightarrow> True)"

definition affects_readiness :: "destination \<Rightarrow> bool" where
  "affects_readiness d = (case d of
      DKafka k \<Rightarrow> kd_affects_readiness k
    | DFilesystem f \<Rightarrow> fd_affects_readiness f
    | DS3 s \<Rightarrow> sd_affects_readiness s)"

section \<open>The notify block\<close>

datatype fan_out = FanOutNone | FanOutDnsA

record notify_target =
  nt_url :: string
  nt_fan_out :: fan_out

datatype trigger_on = SourceConsume | DestinationFlush

record notify_debounce =
  nd_max_records :: u64
  nd_max_time_ms :: u64

definition debounce_default :: notify_debounce where
  "debounce_default = \<lparr>nd_max_records = 100, nd_max_time_ms = 250\<rparr>"

record notify_trigger =
  ng_on :: trigger_on
  ng_debounce :: "notify_debounce option"

definition trigger_default :: notify_trigger where
  "trigger_default = \<lparr>ng_on = SourceConsume, ng_debounce = Some debounce_default\<rparr>"

record notify_retry =
  nr_max_attempts :: u32
  nr_backoff_ms :: u64

definition retry_default :: notify_retry where
  "retry_default = \<lparr>nr_max_attempts = 5, nr_backoff_ms = 100\<rparr>"

datatype final_action = FinalAccept | FinalSkip | FinalFail

record notify_outcome =
  no_retry :: bool
  no_final :: final_action

record notify_outcomes =
  os_timeout :: notify_outcome
  os_connrefused :: notify_outcome
  os_two_xx :: notify_outcome
  os_three_xx :: notify_outcome
  os_four_xx :: notify_outcome
  os_five_xx :: notify_outcome

definition outcomes_default :: notify_outcomes where
  "outcomes_default =
    \<lparr>os_timeout = \<lparr>no_retry = True, no_final = FinalFail\<rparr>,
     os_connrefused = \<lparr>no_retry = True, no_final = FinalFail\<rparr>,
     os_two_xx = \<lparr>no_retry = False, no_final = FinalAccept\<rparr>,
     os_three_xx = \<lparr>no_retry = False, no_final = FinalFail\<rparr>,
     os_four_xx = \<lparr>no_retry = False, no_final = FinalFail\<rparr>,
     os_five_xx = \<lparr>no_retry = True, no_final = FinalFail\<rparr>\<rparr>"

definition default_notify_timeout_ms :: u64 where
  "default_notify_timeout_ms = 5000"

text \<open>\<open>api\<close> has one value, \<open>kkv-v1\<close>.\<close>

record notify_config =
  nc_targets :: "notify_target list"
  nc_trigger :: notify_trigger
  nc_timeout_ms :: u64
  nc_retry :: notify_retry
  nc_outcomes :: notify_outcomes

section \<open>HTTP access, source and encoding\<close>

record http_access =
  ha_cache_v1 :: "unit option"
  ha_cache_v1_main :: "unit option"

definition any_enabled :: "http_access \<Rightarrow> bool" where
  "any_enabled h = (ha_cache_v1 h \<noteq> None \<or> ha_cache_v1_main h \<noteq> None)"

record kafka_source_config =
  kc_bootstrap_servers :: string
  kc_group_id :: "string option"

datatype cfg_column_type = CfgBytes | CfgUtf8 | CfgJson | CfgJsonParseable

text \<open>\<open>ColumnConfig\<close> is its one field, \<open>type\<close>.\<close>

record column_config =
  cc_kind :: cfg_column_type

definition column_default :: column_config where
  "column_default = \<lparr>cc_kind = CfgUtf8\<rparr>"

datatype cfg_timestamp_mode = CfgSource | CfgDestination

datatype cfg_compaction = CfgLog

datatype destination_format = CfgParquet | CfgNdjson

definition format_default :: destination_format where "format_default = CfgParquet"

datatype cfg_compression = CfgZstd1 | CfgZstd3 | CfgSnappy | CfgLz4 | CfgUncompressed

definition compression_default :: cfg_compression where "compression_default = CfgZstd1"

definition timestamp_mode_default :: cfg_timestamp_mode where "timestamp_mode_default = CfgSource"

record daily_flush =
  df_at_utc :: string

record cfg_flush_triggers =
  cf_max_time_ms :: u64
  cf_max_bytes :: u64
  cf_max_offsets :: u64
  cf_daily :: "daily_flush option"

section \<open>The daily boundary\<close>

datatype at_utc_error = AtUtcFormat | AtUtcRange

fun split_char :: "char \<Rightarrow> string \<Rightarrow> string list" where
  "split_char c [] = [[]]"
| "split_char c (d # s) = (if d = c then [] # split_char c s
     else (case split_char c s of [] \<Rightarrow> [[d]] | p # ps \<Rightarrow> (d # p) # ps))"

definition parse_u32 :: "string \<Rightarrow> u32 option" where
  "parse_u32 s =
     (let ds = (case s of c # r \<Rightarrow> if c = CHR ''+'' then r else s | [] \<Rightarrow> [])
      in if ds \<noteq> [] \<and> list_all is_ascii_digit ds \<and> dec_val ds < 2 ^ 32
         then Some (of_nat (dec_val ds)) else None)"

definition parse_part :: "string \<Rightarrow> at_utc_error + u32" where
  "parse_part s = (case parse_u32 s of Some x \<Rightarrow> Ok x | None \<Rightarrow> Err AtUtcFormat)"

definition parse_at_utc :: "daily_flush \<Rightarrow> at_utc_error + u32" where
  "parse_at_utc d = res_bind
     (case split_char (CHR '':'') (df_at_utc d) of
        [h, m] \<Rightarrow> Ok (h, m, ''0'')
      | [h, m, s] \<Rightarrow> Ok (h, m, s)
      | _ \<Rightarrow> Err AtUtcFormat)
     (\<lambda>(h_s, m_s, s_s).
       res_bind (parse_part h_s) (\<lambda>h.
       res_bind (parse_part m_s) (\<lambda>m.
       res_bind (parse_part s_s) (\<lambda>s.
         if 23 < h \<or> 59 < m \<or> 59 < s then Err AtUtcRange
         else Ok (h * 3600 + m * 60 + s)))))"

section \<open>Mirrors\<close>

record mirror_config =
  mc_name :: string
  mc_source :: kafka_source_config
  mc_topic :: string
  mc_partition :: u32
  mc_destinations :: "destination list"
  mc_format :: "destination_format option"
  mc_compression :: "cfg_compression option"
  mc_keys :: "column_config option"
  mc_values :: "column_config option"
  mc_compaction :: "cfg_compaction option"
  mc_flush :: "cfg_flush_triggers option"
  mc_timestamp_mode :: "cfg_timestamp_mode option"
  mc_http_access :: "http_access option"
  mc_enabled :: "bool option"
  mc_notify :: "notify_config option"

definition is_enabled :: "mirror_config \<Rightarrow> bool" where
  "is_enabled m = unwrap_or (mc_enabled m) True"

definition effective_group_id :: "mirror_config \<Rightarrow> string" where
  "effective_group_id m = unwrap_or (kc_group_id (mc_source m)) (''mirror-v3-'' @ mc_name m)"

definition has_http :: "mirror_config \<Rightarrow> bool" where
  "has_http m = (case mc_http_access m of Some h \<Rightarrow> any_enabled h | None \<Rightarrow> False)"

section \<open>Validation of one mirror\<close>

datatype load_error = LoadIo | LoadParse | LoadValidation | LoadEnvSubst envsubst_error

record url_parts =
  up_scheme :: string
  up_host :: "string option"
  up_path :: string
  up_port_or_known_default :: "u16 option"

definition check :: "bool \<Rightarrow> load_error + unit" where
  "check ok = (if ok then Ok () else Err LoadValidation)"

definition reserved_names :: "string list" where
  "reserved_names = [''raw'', ''offset'', ''keys'', ''values'']"

fun validate_dest_names :: "mirror_config \<Rightarrow> string list \<Rightarrow> destination list \<Rightarrow> load_error + unit" where
  "validate_dest_names m seen [] = Ok ()"
| "validate_dest_names m seen (d # ds) =
     (if 1 < length (mc_destinations m) \<and> raw_destination_name d = None then Err LoadValidation
      else if effective_name d (mc_name m) \<in> set seen then Err LoadValidation
      else validate_dest_names m (effective_name d (mc_name m) # seen) ds)"

definition validate_encryption :: "mirror_config \<Rightarrow> destination \<Rightarrow> load_error + unit" where
  "validate_encryption m d = (case d of
      DS3 s \<Rightarrow> (case sd_encryption s of
          EncParquetKeys k \<Rightarrow>
            if mc_format m \<noteq> Some CfgParquet then Err LoadValidation
            else check (is_key_id (pk_key_id k))
        | EncNone \<Rightarrow> Ok ())
    | _ \<Rightarrow> Ok ())"

definition validate_destinations :: "mirror_config \<Rightarrow> load_error + unit" where
  "validate_destinations m =
     res_bind (validate_dest_names m [] (mc_destinations m)) (\<lambda>_.
     res_bind (try_each (validate_encryption m) (mc_destinations m)) (\<lambda>_.
     (let has_blob = list_ex is_blob (mc_destinations m);
          has_kafka = list_ex (\<lambda>d. \<not> is_blob d) (mc_destinations m)
      in
      if \<not> has_blob \<and> list_ex id [mc_format m \<noteq> None, mc_compression m \<noteq> None,
            mc_compaction m \<noteq> None, mc_flush m \<noteq> None]
      then Err LoadValidation
      else if \<not> has_kafka \<and> mc_timestamp_mode m \<noteq> None then Err LoadValidation
      else res_bind
        (if has_blob then
          (if mc_flush m = None then Err LoadValidation
           else if unwrap_or (mc_format m) format_default = CfgNdjson then
             (if cc_kind (unwrap_or (mc_keys m) column_default) \<noteq> CfgUtf8
                \<or> cc_kind (unwrap_or (mc_values m) column_default) \<noteq> CfgUtf8
              then Err LoadValidation
              else check (mc_compaction m = None))
           else Ok ())
         else Ok ())
        (\<lambda>_. check (\<not> (has_http m
           \<and> (case mc_keys m of Some k \<Rightarrow> cc_kind k = CfgBytes | None \<Rightarrow> False)))))))"

definition validate_target :: "(string \<Rightarrow> url_parts option) \<Rightarrow> notify_target \<Rightarrow> load_error + unit" where
  "validate_target url_parse t = (case url_parse (nt_url t) of
      None \<Rightarrow> Err LoadValidation
    | Some u \<Rightarrow>
        if up_scheme u \<noteq> ''http'' \<and> up_scheme u \<noteq> ''https'' then Err LoadValidation
        else check (\<not> unwrap_or (map_option (\<lambda>h. h = []) (up_host u)) True))"

definition validate_notify_shared ::
    "(string \<Rightarrow> url_parts option) \<Rightarrow> notify_config \<Rightarrow> load_error + unit" where
  "validate_notify_shared url_parse n =
     (if nc_targets n = [] then Err LoadValidation
      else res_bind (try_each (validate_target url_parse) (nc_targets n)) (\<lambda>_.
        if nc_timeout_ms n < 1 then Err LoadValidation
        else if nr_max_attempts (nc_retry n) < 1 then Err LoadValidation
        else if nr_backoff_ms (nc_retry n) < 1 then Err LoadValidation
        else (case ng_on (nc_trigger n) of
            SourceConsume \<Rightarrow> (case ng_debounce (nc_trigger n) of
                None \<Rightarrow> Err LoadValidation
              | Some d \<Rightarrow>
                  if nd_max_records d < 1 then Err LoadValidation
                  else check (\<not> nd_max_time_ms d < 1))
          | DestinationFlush \<Rightarrow> check (ng_debounce (nc_trigger n) = None))))"

definition validate_http_and_notify ::
    "(string \<Rightarrow> url_parts option) \<Rightarrow> mirror_config \<Rightarrow> load_error + unit" where
  "validate_http_and_notify url_parse m =
     res_bind (case mc_http_access m of
         None \<Rightarrow> Ok ()
       | Some h \<Rightarrow>
           if ha_cache_v1_main h \<noteq> None \<and> ha_cache_v1 h = None then Err LoadValidation
           else check (\<not> (ha_cache_v1 h \<noteq> None \<and> mc_name m \<in> set reserved_names)))
     (\<lambda>_. case mc_notify m of
         None \<Rightarrow> Ok ()
       | Some n \<Rightarrow>
           if mc_destinations m = [] \<and> \<not> has_http m then validate_notify_shared url_parse n
           else if \<not> (case mc_http_access m of
                 Some h \<Rightarrow> ha_cache_v1 h \<noteq> None \<and> ha_cache_v1_main h \<noteq> None | None \<Rightarrow> False)
           then Err LoadValidation
           else validate_notify_shared url_parse n)"

definition validate_no_destinations :: "mirror_config \<Rightarrow> load_error + unit" where
  "validate_no_destinations m =
     (if mc_notify m = None \<and> \<not> has_http m then Err LoadValidation
      else if list_ex id [mc_format m \<noteq> None, mc_compression m \<noteq> None, mc_keys m \<noteq> None,
          mc_values m \<noteq> None, mc_compaction m \<noteq> None, mc_flush m \<noteq> None, mc_timestamp_mode m \<noteq> None]
      then Err LoadValidation
      else (case mc_notify m of
          Some n \<Rightarrow> check (ng_on (nc_trigger n) \<noteq> DestinationFlush)
        | None \<Rightarrow> Ok ()))"

definition validate_mirror :: "(string \<Rightarrow> url_parts option) \<Rightarrow> mirror_config \<Rightarrow> load_error + unit" where
  "validate_mirror url_parse m =
     res_bind (if mc_destinations m = [] then validate_no_destinations m else validate_destinations m)
       (\<lambda>_. validate_http_and_notify url_parse m)"

section \<open>Validation across mirrors, and loading\<close>

fun validate_mirrors ::
    "(string \<Rightarrow> url_parts option) \<Rightarrow> string list \<Rightarrow> mirror_config list \<Rightarrow> load_error + unit" where
  "validate_mirrors url_parse seen [] = Ok ()"
| "validate_mirrors url_parse seen (m # ms) =
     (if mc_name m \<in> set seen then Err LoadValidation
      else res_bind (validate_mirror url_parse m) (\<lambda>_. validate_mirrors url_parse (mc_name m # seen) ms))"

definition trim_slashes :: "string \<Rightarrow> string" where
  "trim_slashes p = rev (dropWhile (\<lambda>c. c = CHR ''/'') (rev (dropWhile (\<lambda>c. c = CHR ''/'') p)))"

definition blob_dir :: "mirror_config \<Rightarrow> destination \<Rightarrow> string option" where
  "blob_dir m d = (case d of
      DS3 s \<Rightarrow> Some (''s3://'' @ sd_bucket s @ ''/''
        @ unwrap_or (map_option (\<lambda>p. trim_slashes p @ ''/'') (sd_prefix s)) []
        @ effective_name d (mc_name m) @ ''/'' @ dec_of (unat (mc_partition m)))
    | DFilesystem f \<Rightarrow> Some (fd_root f @ ''/'' @ effective_name d (mc_name m) @ ''/''
        @ dec_of (unat (mc_partition m)))
    | DKafka _ \<Rightarrow> None)"

definition blob_dirs :: "mirror_config list \<Rightarrow> string list" where
  "blob_dirs ms = concat (map (\<lambda>m. List.map_filter (blob_dir m) (mc_destinations m)) ms)"

definition commit_group :: "mirror_config \<Rightarrow> string \<times> string \<times> u32" where
  "commit_group m = (effective_group_id m, mc_topic m, mc_partition m)"

text \<open>Inserting into a map, one after the other: an error when a key was there.\<close>

fun insert_each :: "'k list \<Rightarrow> 'k list \<Rightarrow> load_error + unit" where
  "insert_each seen [] = Ok ()"
| "insert_each seen (k # ks) = (if k \<in> set seen then Err LoadValidation else insert_each (k # seen) ks)"

definition validate :: "(string \<Rightarrow> url_parts option) \<Rightarrow> mirror_config list \<Rightarrow> load_error + unit" where
  "validate url_parse ms =
     res_bind (validate_mirrors url_parse [] ms) (\<lambda>_.
     res_bind (insert_each [] (blob_dirs ms)) (\<lambda>_.
     res_bind (insert_each [] (map commit_group ms)) (\<lambda>_.
       check (\<not> 1 < length (filter
         (\<lambda>m. Option.bind (mc_http_access m) ha_cache_v1_main \<noteq> None) ms)))))"

text \<open>\<open>yaml_parse\<close> stands for \<open>serde_yaml::from_str::<Config>\<close>.\<close>

definition load_from_str_with_env ::
    "(string \<Rightarrow> mirror_config list option) \<Rightarrow> (string \<Rightarrow> url_parts option) \<Rightarrow> (string \<Rightarrow> string option)
      \<Rightarrow> string \<Rightarrow> load_error + mirror_config list" where
  "load_from_str_with_env yaml_parse url_parse env yaml = (case expand env yaml of
      Inl e \<Rightarrow> Err (LoadEnvSubst e)
    | Inr expanded \<Rightarrow> (case yaml_parse expanded of
          None \<Rightarrow> Err LoadParse
        | Some cfg \<Rightarrow> res_bind (validate url_parse cfg) (\<lambda>_. Ok cfg)))"

text \<open>\<open>file\<close> is what reading the path gives.\<close>

definition load_from_path ::
    "(string \<Rightarrow> mirror_config list option) \<Rightarrow> (string \<Rightarrow> url_parts option) \<Rightarrow> (string \<Rightarrow> string option)
      \<Rightarrow> bytes option \<Rightarrow> load_error + mirror_config list" where
  "load_from_path yaml_parse url_parse env file = (case file of
      None \<Rightarrow> Err LoadIo
    | Some bs \<Rightarrow> (case from_utf8 bs of
          None \<Rightarrow> Err LoadValidation
        | Some yaml \<Rightarrow> load_from_str_with_env yaml_parse url_parse env yaml))"

section \<open>What validation establishes\<close>

lemma check_ok [simp]: "(check b = Ok u) = b"
  by (simp add: check_def)

lemma insert_each_ok: "(insert_each seen ks = Ok ()) = (distinct ks \<and> set ks \<inter> set seen = {})"
  by (induction ks arbitrary: seen) auto

lemma validate_mirrors_ok:
  "(validate_mirrors up seen ms = Ok ()) =
     (distinct (map mc_name ms) \<and> set (map mc_name ms) \<inter> set seen = {}
      \<and> (\<forall>m \<in> set ms. validate_mirror up m = Ok ()))"
proof (induction ms arbitrary: seen)
  case (Cons m ms)
  then show ?case by auto
qed simp

lemma validate_ok:
  "(validate up ms = Ok ()) =
     (distinct (map mc_name ms) \<and> (\<forall>m \<in> set ms. validate_mirror up m = Ok ())
      \<and> distinct (blob_dirs ms) \<and> distinct (map commit_group ms)
      \<and> length (filter (\<lambda>m. Option.bind (mc_http_access m) ha_cache_v1_main \<noteq> None) ms) \<le> 1)"
  by (auto simp: validate_def validate_mirrors_ok insert_each_ok not_less)

lemma validate_dest_names_ok:
  "(validate_dest_names m seen ds = Ok ()) =
     (distinct (map (\<lambda>d. effective_name d (mc_name m)) ds)
      \<and> set (map (\<lambda>d. effective_name d (mc_name m)) ds) \<inter> set seen = {}
      \<and> (1 < length (mc_destinations m) \<longrightarrow> (\<forall>d \<in> set ds. raw_destination_name d \<noteq> None)))"
  by (induction ds arbitrary: seen) auto

text \<open>Facts about an accepted mirror that the supervisor relies on.\<close>

lemma validate_mirrorD:
  assumes "validate_mirror up m = Ok ()"
  shows "mc_destinations m \<noteq> [] \<Longrightarrow> validate_destinations m = Ok ()"
    and "mc_destinations m = [] \<Longrightarrow> validate_no_destinations m = Ok ()"
    and "validate_http_and_notify up m = Ok ()"
  using assms by (auto simp: validate_mirror_def)

lemma validated_blob_flush:
  assumes "validate_destinations m = Ok ()" "list_ex is_blob (mc_destinations m)"
  shows "mc_flush m \<noteq> None"
  using assms by (auto simp: validate_destinations_def Let_def split: if_splits)

lemma validated_names_distinct:
  assumes "validate_destinations m = Ok ()"
  shows "distinct (map (\<lambda>d. effective_name d (mc_name m)) (mc_destinations m))"
  using assms by (auto simp: validate_destinations_def validate_dest_names_ok)

lemma validated_encryption:
  assumes "validate_destinations m = Ok ()" "DS3 s \<in> set (mc_destinations m)"
    "sd_encryption s = EncParquetKeys k"
  shows "mc_format m = Some CfgParquet \<and> is_key_id (pk_key_id k)"
proof -
  have "validate_encryption m (DS3 s) = Ok ()"
    using assms(1,2) by (auto simp: validate_destinations_def try_each_ok)
  then show ?thesis using assms(3) by (auto simp: validate_encryption_def split: if_splits)
qed

lemma validated_notify:
  assumes "validate_http_and_notify up m = Ok ()" "mc_notify m = Some n"
  shows "validate_notify_shared up n = Ok ()
    \<and> (mc_destinations m = [] \<and> \<not> has_http m
       \<or> (\<exists>h. mc_http_access m = Some h \<and> ha_cache_v1 h \<noteq> None \<and> ha_cache_v1_main h \<noteq> None))"
  using assms by (auto simp: validate_http_and_notify_def split: if_splits option.splits)

lemma validated_notify_shared:
  assumes "validate_notify_shared up n = Ok ()"
  shows "nc_targets n \<noteq> [] \<and> nr_max_attempts (nc_retry n) \<noteq> 0 \<and> nr_backoff_ms (nc_retry n) \<noteq> 0
    \<and> (ng_on (nc_trigger n) = SourceConsume \<longrightarrow>
         (\<exists>d. ng_debounce (nc_trigger n) = Some d \<and> nd_max_records d \<noteq> 0 \<and> nd_max_time_ms d \<noteq> 0))
    \<and> (\<forall>t \<in> set (nc_targets n). \<exists>u h. up (nt_url t) = Some u \<and> up_host u = Some h \<and> h \<noteq> []
         \<and> up_scheme u \<in> {''http'', ''https''})"
proof -
  have t: "validate_target up t = Ok ()" if "t \<in> set (nc_targets n)" for t
    using assms that by (auto simp: validate_notify_shared_def try_each_ok split: if_splits)
  have "\<exists>u h. up (nt_url t) = Some u \<and> up_host u = Some h \<and> h \<noteq> []
      \<and> up_scheme u \<in> {''http'', ''https''}" if "t \<in> set (nc_targets n)" for t
    using t [OF that]
    by (cases "up (nt_url t)"; cases "up_host (the (up (nt_url t)))")
      (auto simp: validate_target_def split: if_splits)
  moreover have "nc_targets n \<noteq> [] \<and> nr_max_attempts (nc_retry n) \<noteq> 0 \<and> nr_backoff_ms (nc_retry n) \<noteq> 0
    \<and> (ng_on (nc_trigger n) = SourceConsume \<longrightarrow>
         (\<exists>d. ng_debounce (nc_trigger n) = Some d \<and> nd_max_records d \<noteq> 0 \<and> nd_max_time_ms d \<noteq> 0))"
    using assms
    by (auto simp: validate_notify_shared_def not_less split: if_splits option.splits trigger_on.splits)
  ultimately show ?thesis by blast
qed

section \<open>The daily boundary is a time of day\<close>

lemma parse_at_utc_bound:
  assumes "parse_at_utc d = Inr s"
  shows "unat s < 86400"
proof -
  obtain h m x where *: "\<not> (23 < h \<or> 59 < m \<or> 59 < x)" "s = h * 3600 + m * 60 + x"
    using assms by (auto simp: parse_at_utc_def split: if_splits)
  then have "unat h \<le> 23" "unat m \<le> 59" "unat x \<le> 59"
    by (simp_all add: not_less word_le_nat_alt)
  then show ?thesis
    unfolding *(2) by (simp add: unat_word_ariths)
qed

lemma parse_u32_digits:
  assumes "n < 100"
  shows "parse_u32 (pad_dec 2 n) = Some (of_nat n)"
proof -
  have d: "list_all is_ascii_digit (pad_dec 2 n)" "dec_val (pad_dec 2 n) = n"
    by (simp_all add: str_simps)
  then have "hd (pad_dec 2 n) \<noteq> CHR ''+''" by (cases "pad_dec 2 n") (auto simp: is_ascii_digit_def)
  moreover have "pad_dec 2 n \<noteq> []" by (simp add: pad_dec_def)
  ultimately show ?thesis using d assms
    by (cases "pad_dec 2 n") (simp_all add: parse_u32_def Let_def)
qed

lemma split_char_no: "c \<notin> set s \<Longrightarrow> split_char c s = [s]"
  by (induction s) auto

lemma split_char_app: "c \<notin> set s \<Longrightarrow> split_char c (s @ c # t) = s # split_char c t"
  by (induction s) auto

text \<open>The written form of a time of day reads as its seconds.\<close>

lemma parse_at_utc_print:
  assumes "h < 24" "m < 60" "s < 60"
  shows "parse_at_utc \<lparr>df_at_utc = pad_dec 2 h @ '':'' @ pad_dec 2 m @ '':'' @ pad_dec 2 s\<rparr>
    = Inr (of_nat (h * 3600 + m * 60 + s))"
proof -
  have no: "CHR '':'' \<notin> set (pad_dec 2 n)" for n
    by (rule pad_no_char) (simp add: is_ascii_digit_def)
  have "split_char (CHR '':'') (pad_dec 2 h @ '':'' @ pad_dec 2 m @ '':'' @ pad_dec 2 s)
      = [pad_dec 2 h, pad_dec 2 m, pad_dec 2 s]"
    using split_char_app [OF no] split_char_no [OF no] by simp
  moreover have "\<not> (23 < (of_nat h :: u32) \<or> 59 < (of_nat m :: u32) \<or> 59 < (of_nat s :: u32))"
    using assms by (simp add: word_less_nat_alt unat_of_nat)
  ultimately show ?thesis
    using assms parse_u32_digits [of h] parse_u32_digits [of m] parse_u32_digits [of s]
    by (simp add: parse_at_utc_def parse_part_def)
qed

end
