(* ===== verification/Notify_Dispatch.thy ===== *)
theory Notify_Dispatch
  imports Config Std_Maps Core_Types
begin

text \<open>
  The dispatch half of the webhook notifier (\<open>crates/mirror-notify-kkv/src/lib.rs\<close> and
  \<open>buffer.rs\<close>): the debounce buffer, the payload, the endpoints, and the retry and final-action policy
  per outcome, to one address or to all addresses of a name.  The HTTP client, JSON, the resolver
  and the clocks are parameters: \<open>de_post\<close> answers every attempt of every request.  Waiting between
  attempts and the metrics are not modelled.
\<close>

section \<open>The debounce buffer\<close>

record notify_buffer =
  nb_keys :: "string list"
  nb_max_offset :: u64
  nb_seen_records :: u64
  nb_first_at :: "nat option"

definition buffer_new :: notify_buffer where
  "buffer_new = \<lparr>nb_keys = [], nb_max_offset = 0, nb_seen_records = 0, nb_first_at = None\<rparr>"

text \<open>\<open>IndexSet::insert\<close>.\<close>

definition set_insert :: "'a \<Rightarrow> 'a list \<Rightarrow> 'a list" where
  "set_insert x xs = (if x \<in> set xs then xs else xs @ [x])"

definition buffer_append :: "nat \<Rightarrow> string \<Rightarrow> u64 \<Rightarrow> notify_buffer \<Rightarrow> notify_buffer" where
  "buffer_append now key off b = b\<lparr>
     nb_first_at := (case nb_first_at b of None \<Rightarrow> Some now | Some t \<Rightarrow> Some t),
     nb_keys := set_insert key (nb_keys b),
     nb_max_offset := (if nb_seen_records b = 0 \<or> nb_max_offset b < off then off else nb_max_offset b),
     nb_seen_records := saturating_add (nb_seen_records b) 1\<rparr>"

definition buffer_is_empty :: "notify_buffer \<Rightarrow> bool" where
  "buffer_is_empty b = (nb_seen_records b = 0)"

text \<open>The \<open>updates\<close> map keys to null; it is its keys, in order.\<close>

record drained_batch =
  db_offsets :: "(string \<times> u64) list"
  db_updates :: "string list"

definition i32_display :: "i32 \<Rightarrow> string" where
  "i32_display p = (if sint p < 0 then ''-'' @ dec_of (nat (- sint p)) else dec_of (nat (sint p)))"

definition buffer_take :: "i32 \<Rightarrow> notify_buffer \<Rightarrow> drained_batch option \<times> notify_buffer" where
  "buffer_take part b =
     (if buffer_is_empty b then (None, b)
      else (Some \<lparr>db_offsets = [(i32_display part, nb_max_offset b)], db_updates = nb_keys b\<rparr>,
            b\<lparr>nb_keys := [], nb_max_offset := 0, nb_seen_records := 0, nb_first_at := None\<rparr>))"

definition high_offset :: "drained_batch \<Rightarrow> u64" where
  "high_offset d = unwrap_or (list_max (map snd (db_offsets d))) 0"

section \<open>Payload and outcomes\<close>

record kkv_payload =
  kp_v :: u8
  kp_topic :: string
  kp_offsets :: "(string \<times> u64) list"
  kp_updates :: "string list"

definition payload_new :: "string \<Rightarrow> (string \<times> u64) list \<Rightarrow> string list \<Rightarrow> kkv_payload" where
  "payload_new topic offs updates =
     \<lparr>kp_v = 1, kp_topic = topic, kp_offsets = offs, kp_updates = updates\<rparr>"

datatype outcome = OutTimeout | OutConnRefused | OutTwoXx | OutThreeXx | OutFourXx | OutFiveXx

definition for_outcome :: "notify_outcomes \<Rightarrow> outcome \<Rightarrow> notify_outcome" where
  "for_outcome os o' = (case o' of
      OutTimeout \<Rightarrow> os_timeout os
    | OutConnRefused \<Rightarrow> os_connrefused os
    | OutTwoXx \<Rightarrow> os_two_xx os
    | OutThreeXx \<Rightarrow> os_three_xx os
    | OutFourXx \<Rightarrow> os_four_xx os
    | OutFiveXx \<Rightarrow> os_five_xx os)"

text \<open>\<open>reqwest::Result<Response>\<close>: a status, or an error that is a timeout, a refused connection, or neither.\<close>

datatype http_result = HttpStatus u16 | HttpTimeout | HttpRefused | HttpOther

definition classify :: "http_result \<Rightarrow> outcome" where
  "classify r = (case r of
      HttpStatus s \<Rightarrow>
        if 200 \<le> s \<and> s < 300 then OutTwoXx
        else if 300 \<le> s \<and> s < 400 then OutThreeXx
        else if 400 \<le> s \<and> s < 500 then OutFourXx
        else OutFiveXx
    | HttpTimeout \<Rightarrow> OutTimeout
    | HttpRefused \<Rightarrow> OutConnRefused
    | HttpOther \<Rightarrow> OutConnRefused)"

definition backoff_for_attempt :: "u64 \<Rightarrow> u32 \<Rightarrow> u64" where
  "backoff_for_attempt base_ms attempt =
     (let shift = min (attempt - 1) 20
      in min (saturating_mul base_ms (push_bit (unat shift) 1)) 30000)"

section \<open>Endpoints\<close>

type_synonym socket_addr = string

record dns_a_state =
  ds_host :: string
  ds_port :: u16
  ds_cached :: "(socket_addr list \<times> nat) option"

datatype fan_out_mode = ModeNone | ModeDnsA dns_a_state

record endpoint =
  ep_url :: string
  ep_target_host :: string
  ep_fan_out :: fan_out_mode

record notify_inner =
  ni_endpoints :: "endpoint list"
  ni_outcomes :: notify_outcomes
  ni_retry :: notify_retry
  ni_topic :: string
  ni_partition :: i32

datatype build_error = NoTargets | InvalidUrl | UnsupportedScheme | NoHost | ClientBuild

definition default_path :: string where
  "default_path = ''/kafka-keyvalue/v1/updates''"

text \<open>\<open>set_path\<close> is the URL crate's setter, on the text of the URL.\<close>

definition build_endpoint ::
    "(string \<Rightarrow> url_parts option) \<Rightarrow> (string \<Rightarrow> string \<Rightarrow> string) \<Rightarrow> notify_target \<Rightarrow> build_error + endpoint" where
  "build_endpoint url_parse set_path t = (case url_parse (nt_url t) of
      None \<Rightarrow> Err InvalidUrl
    | Some u \<Rightarrow>
        if up_scheme u \<noteq> ''http'' \<and> up_scheme u \<noteq> ''https'' then Err UnsupportedScheme
        else if up_host u = None then Err NoHost
        else
          (let url = (if up_path u = [] \<or> up_path u = ''/'' then set_path (nt_url t) default_path
                      else nt_url t);
               host = unwrap_or (up_host u) []
           in case nt_fan_out t of
               FanOutNone \<Rightarrow> Ok \<lparr>ep_url = url, ep_target_host = host, ep_fan_out = ModeNone\<rparr>
             | FanOutDnsA \<Rightarrow> (case up_port_or_known_default u of
                   None \<Rightarrow> Err UnsupportedScheme
                 | Some p \<Rightarrow> Ok \<lparr>ep_url = url, ep_target_host = host,
                     ep_fan_out = ModeDnsA \<lparr>ds_host = host, ds_port = p, ds_cached = None\<rparr>\<rparr>)))"

definition build_inner ::
    "(string \<Rightarrow> url_parts option) \<Rightarrow> (string \<Rightarrow> string \<Rightarrow> string) \<Rightarrow> bool \<Rightarrow> notify_config \<Rightarrow> string \<Rightarrow> i32
      \<Rightarrow> build_error + notify_inner" where
  "build_inner url_parse set_path client_ok n topic part =
     (if nc_targets n = [] then Err NoTargets
      else if \<not> client_ok then Err ClientBuild
      else res_bind (try_map (build_endpoint url_parse set_path) (nc_targets n)) (\<lambda>eps.
        Ok \<lparr>ni_endpoints = eps, ni_outcomes = nc_outcomes n, ni_retry = nc_retry n,
            ni_topic = topic, ni_partition = part\<rparr>))"

section \<open>Dispatch to one address\<close>

text \<open>A request: where it goes (\<open>rq_addr\<close> replaces the host of the URL), and the parts of it the receiver reads.\<close>

record request =
  rq_url :: string
  rq_addr :: "socket_addr option"
  rq_topic :: string
  rq_offsets :: string
  rq_body :: bytes

text \<open>
  What the calls of one batch answer: JSON, the posts, the resolver (\<open>None\<close> an error) and the clock
  before and after resolving, per endpoint index and attempt.
\<close>

record dispatch_env =
  de_body :: "kkv_payload \<Rightarrow> bytes option"
  de_offsets :: "(string \<times> u64) list \<Rightarrow> string option"
  de_post :: "nat \<Rightarrow> u32 \<Rightarrow> request \<Rightarrow> http_result"
  de_resolve :: "nat \<Rightarrow> u32 \<Rightarrow> socket_addr list option"
  de_now :: "nat \<Rightarrow> u32 \<Rightarrow> nat"
  de_resolved_at :: "nat \<Rightarrow> u32 \<Rightarrow> nat"

definition post_once :: "notify_inner \<Rightarrow> dispatch_env \<Rightarrow> nat \<Rightarrow> u32 \<Rightarrow> request \<Rightarrow> outcome" where
  "post_once I e i attempt rq = classify (de_post e i attempt rq)"

definition apply_final_action :: "notify_outcome \<Rightarrow> u32 \<Rightarrow> notify_error + unit" where
  "apply_final_action policy attempts = (case no_final policy of
      FinalAccept \<Rightarrow> Ok ()
    | FinalSkip \<Rightarrow> Ok ()
    | FinalFail \<Rightarrow> Err (NtfExhausted attempts))"

lemma next_attempt: "attempt < (m :: u32) \<Longrightarrow> unat (attempt + 1) = unat attempt + 1"
proof -
  assume "attempt < m"
  moreover have "unat m < 2 ^ 32" using unsigned_less [of m] by simp
  ultimately show ?thesis by (simp add: word_less_nat_alt unat_word_ariths)
qed

lemma attempts_left:
  "attempt < (m :: u32) \<Longrightarrow> unat m - unat (attempt + 1) < unat m - unat attempt"
  by (simp add: next_attempt word_less_nat_alt)

function post_loop ::
    "notify_inner \<Rightarrow> dispatch_env \<Rightarrow> nat \<Rightarrow> request \<Rightarrow> u32 \<Rightarrow> notify_error + unit" where
  "post_loop I e i rq attempt =
     (let outcome = post_once I e i attempt rq; policy = for_outcome (ni_outcomes I) outcome in
      if outcome = OutTwoXx then Ok ()
      else if no_retry policy \<and> attempt < nr_max_attempts (ni_retry I)
        then post_loop I e i rq (attempt + 1)
      else apply_final_action policy attempt)"
  by pat_completeness auto
termination
  by (relation "measure (\<lambda>(I, e, i, rq, attempt). unat (nr_max_attempts (ni_retry I)) - unat attempt)")
    (auto simp: attempts_left)

declare post_loop.simps [simp del]

definition dispatch_to_address ::
    "notify_inner \<Rightarrow> dispatch_env \<Rightarrow> nat \<Rightarrow> endpoint \<Rightarrow> kkv_payload \<Rightarrow> notify_error + unit" where
  "dispatch_to_address I e i ep payload = (case de_body e payload of
      None \<Rightarrow> Err NtfTransport
    | Some body \<Rightarrow> (case de_offsets e (kp_offsets payload) of
        None \<Rightarrow> Err NtfTransport
      | Some offs \<Rightarrow> post_loop I e i \<lparr>rq_url = ep_url ep, rq_addr = None, rq_topic = ni_topic I,
          rq_offsets = offs, rq_body = body\<rparr> 1))"

section \<open>Dispatch to every address of a name\<close>

definition dns_a_cache_ttl :: nat where
  "dns_a_cache_ttl = 30 * 1000000000"

fun dedupe :: "'a list \<Rightarrow> 'a list \<Rightarrow> 'a list" where
  "dedupe seen [] = []"
| "dedupe seen (x # xs) = (if x \<in> set seen then dedupe seen xs else x # dedupe (x # seen) xs)"

definition resolve_or_cached ::
    "nat \<Rightarrow> nat \<Rightarrow> socket_addr list option \<Rightarrow> dns_a_state \<Rightarrow> (notify_error + socket_addr list) \<times> dns_a_state" where
  "resolve_or_cached now resolved_at answer st =
     (case ds_cached st of
        Some (addrs, at) \<Rightarrow>
          if now - at < dns_a_cache_ttl then (Ok addrs, st)
          else (case answer of
              None \<Rightarrow> (Err NtfTransport, st)
            | Some as \<Rightarrow> (Ok (dedupe [] as), st\<lparr>ds_cached := Some (dedupe [] as, resolved_at)\<rparr>))
      | None \<Rightarrow> (case answer of
          None \<Rightarrow> (Err NtfTransport, st)
        | Some as \<Rightarrow> (Ok (dedupe [] as), st\<lparr>ds_cached := Some (dedupe [] as, resolved_at)\<rparr>)))"

definition invalidate_cache :: "dns_a_state \<Rightarrow> dns_a_state" where
  "invalidate_cache st = st\<lparr>ds_cached := None\<rparr>"

text \<open>The first error of the failing addresses' final actions.\<close>

fun first_error :: "(notify_error + unit) list \<Rightarrow> notify_error + unit" where
  "first_error [] = Ok ()"
| "first_error (Inl x # rs) = Inl x"
| "first_error (Inr _ # rs) = first_error rs"

function dns_a_loop ::
    "notify_inner \<Rightarrow> dispatch_env \<Rightarrow> nat \<Rightarrow> (socket_addr \<Rightarrow> request) \<Rightarrow> u32 \<Rightarrow> dns_a_state
      \<Rightarrow> (notify_error + unit) \<times> dns_a_state" where
  "dns_a_loop I e i rq attempt st =
     (case resolve_or_cached (de_now e i attempt) (de_resolved_at e i attempt) (de_resolve e i attempt) st of
        (Inl _, st1) \<Rightarrow>
          (let policy = for_outcome (ni_outcomes I) OutConnRefused in
           if no_retry policy \<and> attempt < nr_max_attempts (ni_retry I)
           then dns_a_loop I e i rq (attempt + 1) st1
           else (apply_final_action policy attempt, st1))
      | (Inr addrs, st1) \<Rightarrow>
          if addrs = [] then (Ok (), st1)
          else
           (let failures = filter (\<lambda>o'. o' \<noteq> OutTwoXx) (map (\<lambda>a. post_once I e i attempt (rq a)) addrs);
                policies = map (for_outcome (ni_outcomes I)) failures
            in
            if failures = [] then (Ok (), st1)
            else
             (let st2 = invalidate_cache st1 in
              if list_ex no_retry policies \<and> attempt < nr_max_attempts (ni_retry I)
              then dns_a_loop I e i rq (attempt + 1) st2
              else (first_error (map (\<lambda>p. apply_final_action p attempt) policies), st2))))"
  by pat_completeness auto

termination
  by (relation "measure (\<lambda>(I, e, i, rq, attempt, st). unat (nr_max_attempts (ni_retry I)) - unat attempt)")
    (auto simp: attempts_left)

declare dns_a_loop.simps [simp del]

definition dispatch_dns_a ::
    "notify_inner \<Rightarrow> dispatch_env \<Rightarrow> nat \<Rightarrow> endpoint \<Rightarrow> dns_a_state \<Rightarrow> kkv_payload
      \<Rightarrow> (notify_error + unit) \<times> dns_a_state" where
  "dispatch_dns_a I e i ep st payload = (case de_body e payload of
      None \<Rightarrow> (Err NtfTransport, st)
    | Some body \<Rightarrow> (case de_offsets e (kp_offsets payload) of
        None \<Rightarrow> (Err NtfTransport, st)
      | Some offs \<Rightarrow> dns_a_loop I e i (\<lambda>a. \<lparr>rq_url = ep_url ep, rq_addr = Some a,
          rq_topic = ni_topic I, rq_offsets = offs, rq_body = body\<rparr>) 1 st))"

section \<open>Dispatch to every endpoint\<close>

definition dispatch_endpoint ::
    "notify_inner \<Rightarrow> dispatch_env \<Rightarrow> nat \<Rightarrow> endpoint \<Rightarrow> kkv_payload \<Rightarrow> (notify_error + unit) \<times> endpoint" where
  "dispatch_endpoint I e i ep payload = (case ep_fan_out ep of
      ModeNone \<Rightarrow> (dispatch_to_address I e i ep payload, ep)
    | ModeDnsA st \<Rightarrow> (case dispatch_dns_a I e i ep st payload of
        (res, st') \<Rightarrow> (res, ep\<lparr>ep_fan_out := ModeDnsA st'\<rparr>)))"

fun dispatch_each ::
    "notify_inner \<Rightarrow> dispatch_env \<Rightarrow> kkv_payload \<Rightarrow> nat \<Rightarrow> endpoint list
      \<Rightarrow> (notify_error + unit) \<times> endpoint list" where
  "dispatch_each I e payload i [] = (Ok (), [])"
| "dispatch_each I e payload i (ep # eps) = (case dispatch_endpoint I e i ep payload of
      (Inl x, ep') \<Rightarrow> (Inl x, ep' # eps)
    | (Inr _, ep') \<Rightarrow> (case dispatch_each I e payload (i + 1) eps of
        (res, eps') \<Rightarrow> (res, ep' # eps')))"

definition dispatch_batch ::
    "dispatch_env \<Rightarrow> kkv_payload \<Rightarrow> notify_inner \<Rightarrow> (notify_error + unit) \<times> notify_inner" where
  "dispatch_batch e payload I = (case dispatch_each I e payload 0 (ni_endpoints I) of
      (res, eps) \<Rightarrow> (res, I\<lparr>ni_endpoints := eps\<rparr>))"

definition dispatch_drained ::
    "dispatch_env \<Rightarrow> drained_batch \<Rightarrow> notify_inner \<Rightarrow> (notify_error + unit) \<times> notify_inner" where
  "dispatch_drained e d I = dispatch_batch e (payload_new (ni_topic I) (db_offsets d) (db_updates d)) I"

section \<open>What a dispatch guarantees\<close>

text \<open>An outcome that ends a dispatch without an error: a success, or one whose policy accepts or skips it.\<close>

definition tolerated :: "notify_inner \<Rightarrow> outcome \<Rightarrow> bool" where
  "tolerated I o' = (o' = OutTwoXx \<or> no_final (for_outcome (ni_outcomes I) o') \<noteq> FinalFail)"

lemma apply_final_ok: "(apply_final_action p n = Ok ()) = (no_final p \<noteq> FinalFail)"
  by (cases "no_final p") (simp_all add: apply_final_action_def)

lemma first_error_ok: "first_error rs = Ok () \<Longrightarrow> r \<in> set rs \<Longrightarrow> r = Ok ()"
  by (induction rs rule: first_error.induct) auto

text \<open>Which attempts a dispatch makes, and how the last one decides.\<close>

lemma post_loop_spec:
  "\<exists>n. attempt \<le> n \<and> (n = attempt \<or> n \<le> nr_max_attempts (ni_retry I))
    \<and> (\<forall>k. attempt \<le> k \<longrightarrow> k < n \<longrightarrow> post_once I e i k rq \<noteq> OutTwoXx
         \<and> no_retry (for_outcome (ni_outcomes I) (post_once I e i k rq)))
    \<and> (post_once I e i n rq = OutTwoXx \<or> \<not> no_retry (for_outcome (ni_outcomes I) (post_once I e i n rq))
         \<or> nr_max_attempts (ni_retry I) \<le> n)
    \<and> post_loop I e i rq attempt =
       (if post_once I e i n rq = OutTwoXx then Ok ()
        else apply_final_action (for_outcome (ni_outcomes I) (post_once I e i n rq)) n)"
proof (induction I e i rq attempt rule: post_loop.induct)
  case (1 I e i rq attempt)
  let ?o = "post_once I e i attempt rq"
  show ?case
  proof (cases "?o \<noteq> OutTwoXx \<and> no_retry (for_outcome (ni_outcomes I) ?o)
      \<and> attempt < nr_max_attempts (ni_retry I)")
    case False
    then show ?thesis
      by (subst post_loop.simps) (auto simp: Let_def not_less intro!: exI [of _ attempt])
  next
    case True
    obtain n where n: "attempt + 1 \<le> n" "n = attempt + 1 \<or> n \<le> nr_max_attempts (ni_retry I)"
      "\<forall>k. attempt + 1 \<le> k \<longrightarrow> k < n \<longrightarrow> post_once I e i k rq \<noteq> OutTwoXx
         \<and> no_retry (for_outcome (ni_outcomes I) (post_once I e i k rq))"
      "post_once I e i n rq = OutTwoXx \<or> \<not> no_retry (for_outcome (ni_outcomes I) (post_once I e i n rq))
         \<or> nr_max_attempts (ni_retry I) \<le> n"
      "post_loop I e i rq (attempt + 1) =
       (if post_once I e i n rq = OutTwoXx then Ok ()
        else apply_final_action (for_outcome (ni_outcomes I) (post_once I e i n rq)) n)"
      using 1 [OF refl refl] True by blast
    have one: "unat (attempt + 1) = unat attempt + 1"
      using True next_attempt [of attempt "nr_max_attempts (ni_retry I)"] by simp
    have succ: "k \<noteq> attempt \<Longrightarrow> attempt \<le> k \<Longrightarrow> attempt + 1 \<le> k" for k
      using one by (simp add: word_le_nat_alt word_unat_eq_iff)
    have le: "attempt \<le> n" using one n(1) by (simp add: word_le_nat_alt)
    have lim: "n \<le> nr_max_attempts (ni_retry I)"
      using n(2) True one by (auto simp: word_le_nat_alt word_less_nat_alt)
    have "post_loop I e i rq attempt = post_loop I e i rq (attempt + 1)"
      using True by (subst post_loop.simps) (simp add: Let_def)
    moreover have "post_once I e i k rq \<noteq> OutTwoXx
         \<and> no_retry (for_outcome (ni_outcomes I) (post_once I e i k rq))"
      if "attempt \<le> k" "k < n" for k
      using that True n(3) succ [of k] by (cases "k = attempt") auto
    ultimately show ?thesis using le lim n(4,5) by (intro exI [of _ n]) simp
  qed
qed

text \<open>
  The attempts that a dispatch to one address makes are \<open>1, ..., n\<close>: each one before \<open>n\<close> failed and was
  retried, and \<open>n\<close> succeeded, is not retried or used up the budget.
\<close>

definition last_attempt :: "notify_inner \<Rightarrow> dispatch_env \<Rightarrow> nat \<Rightarrow> request \<Rightarrow> u32 \<Rightarrow> bool" where
  "last_attempt I e i rq n = (1 \<le> n
     \<and> (\<forall>k. 1 \<le> k \<longrightarrow> k < n \<longrightarrow> post_once I e i k rq \<noteq> OutTwoXx
          \<and> no_retry (for_outcome (ni_outcomes I) (post_once I e i k rq)) \<and> k < nr_max_attempts (ni_retry I))
     \<and> (post_once I e i n rq = OutTwoXx \<or> \<not> no_retry (for_outcome (ni_outcomes I) (post_once I e i n rq))
          \<or> nr_max_attempts (ni_retry I) \<le> n))"

lemma post_loop_ok:
  assumes "post_loop I e i rq 1 = Ok ()"
  shows "\<exists>n. last_attempt I e i rq n \<and> tolerated I (post_once I e i n rq)"
proof -
  obtain n where n: "1 \<le> n" "n = 1 \<or> n \<le> nr_max_attempts (ni_retry I)"
    "\<forall>k. 1 \<le> k \<longrightarrow> k < n \<longrightarrow> post_once I e i k rq \<noteq> OutTwoXx
       \<and> no_retry (for_outcome (ni_outcomes I) (post_once I e i k rq))"
    "post_once I e i n rq = OutTwoXx \<or> \<not> no_retry (for_outcome (ni_outcomes I) (post_once I e i n rq))
       \<or> nr_max_attempts (ni_retry I) \<le> n"
    "Ok () = (if post_once I e i n rq = OutTwoXx then Ok ()
      else apply_final_action (for_outcome (ni_outcomes I) (post_once I e i n rq)) n)"
    using post_loop_spec [of 1 I e i rq] assms by metis
  have "k < nr_max_attempts (ni_retry I)" if "1 \<le> k" "k < n" for k
    using n(2) that by (auto dest: less_le_trans)
  then have "last_attempt I e i rq n" using n(1,3,4) by (simp add: last_attempt_def)
  moreover have "tolerated I (post_once I e i n rq)"
  proof (cases "post_once I e i n rq = OutTwoXx")
    case False
    then have "apply_final_action (for_outcome (ni_outcomes I) (post_once I e i n rq)) n = Ok ()"
      using n(5) by simp
    then show ?thesis by (simp add: tolerated_def apply_final_ok)
  qed (simp add: tolerated_def)
  ultimately show ?thesis by blast
qed

text \<open>
  The attempts of a dispatch to a name, each with the resolver cache it finds: the first one finds the
  endpoint's, and another one is made after a resolution that failed, or after a round of posts of which
  one failed, when the outcome is retried and the budget allows it.
\<close>

abbreviation resolve_at :: "dispatch_env \<Rightarrow> nat \<Rightarrow> u32 \<Rightarrow> dns_a_state \<Rightarrow>
    (notify_error + socket_addr list) \<times> dns_a_state" where
  "resolve_at e i n st \<equiv> resolve_or_cached (de_now e i n) (de_resolved_at e i n) (de_resolve e i n) st"

inductive dns_a_attempt ::
    "notify_inner \<Rightarrow> dispatch_env \<Rightarrow> nat \<Rightarrow> (socket_addr \<Rightarrow> request) \<Rightarrow> dns_a_state
      \<Rightarrow> u32 \<Rightarrow> dns_a_state \<Rightarrow> bool"
  for I e i rq st where
  first: "dns_a_attempt I e i rq st 1 st"
| unresolved: "dns_a_attempt I e i rq st n st1 \<Longrightarrow> resolve_at e i n st1 = (Inl x, st2) \<Longrightarrow>
    no_retry (for_outcome (ni_outcomes I) OutConnRefused) \<Longrightarrow> n < nr_max_attempts (ni_retry I) \<Longrightarrow>
    dns_a_attempt I e i rq st (n + 1) st2"
| refused: "dns_a_attempt I e i rq st n st1 \<Longrightarrow> resolve_at e i n st1 = (Inr addrs, st2) \<Longrightarrow>
    a \<in> set addrs \<Longrightarrow> post_once I e i n (rq a) \<noteq> OutTwoXx \<Longrightarrow>
    no_retry (for_outcome (ni_outcomes I) (post_once I e i n (rq a))) \<Longrightarrow> n < nr_max_attempts (ni_retry I) \<Longrightarrow>
    dns_a_attempt I e i rq st (n + 1) (invalidate_cache st2)"

text \<open>
  An attempt with which a dispatch to a name ends without an error: every address that the resolution gave
  was posted to and answered with a success, or with an outcome that is accepted or skipped and of which
  none is retried any more; or the resolution failed, and the policy accepts or skips that.
\<close>

definition round_settled ::
    "notify_inner \<Rightarrow> dispatch_env \<Rightarrow> nat \<Rightarrow> (socket_addr \<Rightarrow> request) \<Rightarrow> u32 \<Rightarrow> dns_a_state \<Rightarrow> bool" where
  "round_settled I e i rq n st = (case fst (resolve_at e i n st) of
      Inl _ \<Rightarrow> no_final (for_outcome (ni_outcomes I) OutConnRefused) \<noteq> FinalFail
        \<and> (no_retry (for_outcome (ni_outcomes I) OutConnRefused) \<longrightarrow> nr_max_attempts (ni_retry I) \<le> n)
    | Inr addrs \<Rightarrow> addrs \<noteq> [] \<and> (\<forall>a \<in> set addrs. tolerated I (post_once I e i n (rq a))
        \<and> (post_once I e i n (rq a) \<noteq> OutTwoXx \<longrightarrow>
             no_retry (for_outcome (ni_outcomes I) (post_once I e i n (rq a))) \<longrightarrow>
             nr_max_attempts (ni_retry I) \<le> n)))"

lemma dns_a_loop_ok:
  assumes "dns_a_loop I e i rq attempt st = (Ok (), st')" "dns_a_attempt I e i rq st0 attempt st"
  shows "\<exists>n st1. dns_a_attempt I e i rq st0 n st1
    \<and> (round_settled I e i rq n st1 \<or> fst (resolve_at e i n st1) = Inr [])"
  using assms
proof (induction I e i rq attempt st rule: dns_a_loop.induct)
  case (1 I e i rq attempt st)
  obtain r st1 where r: "resolve_at e i attempt st = (r, st1)" by fastforce
  show ?case
  proof (cases r)
    case (Inl x)
    show ?thesis
    proof (cases "no_retry (for_outcome (ni_outcomes I) OutConnRefused) \<and> attempt < nr_max_attempts (ni_retry I)")
      case True
      then have "dns_a_loop I e i rq (attempt + 1) st1 = (Ok (), st')"
        using 1(3) r Inl by (simp add: dns_a_loop.simps [of I e i rq attempt st] Let_def)
      moreover have "dns_a_attempt I e i rq st0 (attempt + 1) st1"
        using dns_a_attempt.unresolved [OF 1(4) r [unfolded Inl]] True by blast
      ultimately show ?thesis using 1(1) [OF r [symmetric] Inl refl True] by blast
    next
      case False
      then have "apply_final_action (for_outcome (ni_outcomes I) OutConnRefused) attempt = Ok ()"
        using 1(3) r Inl by (auto simp: dns_a_loop.simps [of I e i rq attempt st] Let_def split: if_splits)
      then have "round_settled I e i rq attempt st"
        using r Inl False by (auto simp: round_settled_def apply_final_ok not_less)
      then show ?thesis using 1(4) by blast
    qed
  next
    case (Inr addrs)
    define fs where "fs = filter (\<lambda>o'. o' \<noteq> OutTwoXx) (map (\<lambda>a. post_once I e i attempt (rq a)) addrs)"
    define ps where "ps = map (for_outcome (ni_outcomes I)) fs"
    have loop: "dns_a_loop I e i rq attempt st = (if addrs = [] then (Ok (), st1)
        else if fs = [] then (Ok (), st1)
        else if list_ex no_retry ps \<and> attempt < nr_max_attempts (ni_retry I)
          then dns_a_loop I e i rq (attempt + 1) (invalidate_cache st1)
        else (first_error (map (\<lambda>p. apply_final_action p attempt) ps), invalidate_cache st1))"
      unfolding dns_a_loop.simps [of I e i rq attempt st] r Inr
      by (simp only: prod.case sum.case Let_def fs_def ps_def)
    show ?thesis
    proof (cases "addrs \<noteq> [] \<and> fs \<noteq> [] \<and> list_ex no_retry ps \<and> attempt < nr_max_attempts (ni_retry I)")
      case True
      then have again: "dns_a_loop I e i rq (attempt + 1) (invalidate_cache st1) = (Ok (), st')"
        using 1(3) loop by simp
      obtain a where "a \<in> set addrs" "post_once I e i attempt (rq a) \<noteq> OutTwoXx"
        "no_retry (for_outcome (ni_outcomes I) (post_once I e i attempt (rq a)))"
        using True by (auto simp: ps_def fs_def list_ex_iff)
      then have "dns_a_attempt I e i rq st0 (attempt + 1) (invalidate_cache st1)"
        using dns_a_attempt.refused [OF 1(4) r [unfolded Inr]] True by blast
      then show ?thesis
        using 1(2) [OF r [symmetric] Inr _ refl refl _ refl] True again
        unfolding fs_def ps_def by blast
    next
      case False
      have "tolerated I (post_once I e i attempt (rq a)) \<and> (post_once I e i attempt (rq a) \<noteq> OutTwoXx \<longrightarrow>
          no_retry (for_outcome (ni_outcomes I) (post_once I e i attempt (rq a))) \<longrightarrow>
          nr_max_attempts (ni_retry I) \<le> attempt)" if a: "a \<in> set addrs" for a
      proof (cases "post_once I e i attempt (rq a) = OutTwoXx")
        case two: False
        then have f: "post_once I e i attempt (rq a) \<in> set fs" using a by (auto simp: fs_def)
        have ne: "addrs \<noteq> []" "fs \<noteq> []" using a f by force+
        then have nd: "\<not> (list_ex no_retry ps \<and> attempt < nr_max_attempts (ni_retry I))" using False by blast
        have "dns_a_loop I e i rq attempt st =
            (first_error (map (\<lambda>p. apply_final_action p attempt) ps), invalidate_cache st1)"
          unfolding loop if_not_P [OF ne(1)] if_not_P [OF ne(2)] if_not_P [OF nd] ..
        from trans [OF this [symmetric] 1(3)]
        have first: "first_error (map (\<lambda>p. apply_final_action p attempt) ps) = Ok ()"
          by (rule conjunct1 [OF iffD1 [OF prod.inject]])
        have "apply_final_action (for_outcome (ni_outcomes I) (post_once I e i attempt (rq a))) attempt
            \<in> set (map (\<lambda>p. apply_final_action p attempt) ps)"
          using f unfolding ps_def set_map by (intro imageI)
        note final = first_error_ok [OF first this]
        have "no_retry (for_outcome (ni_outcomes I) (post_once I e i attempt (rq a))) \<longrightarrow> list_ex no_retry ps"
          using f by (auto simp: ps_def list_ex_iff)
        then show ?thesis using final nd by (auto simp: apply_final_ok tolerated_def not_less)
      qed (simp add: tolerated_def)
      then have "addrs = [] \<or> round_settled I e i rq attempt st" using r Inr by (simp add: round_settled_def)
      then show ?thesis using 1(4) r Inr by (metis fst_conv)
    qed
  qed
qed

text \<open>A resolver, and a cache, that know at least one address.\<close>

definition some_address :: "dispatch_env \<Rightarrow> nat \<Rightarrow> endpoint \<Rightarrow> bool" where
  "some_address e i ep = ((\<forall>n. de_resolve e i n \<noteq> Some [])
     \<and> (case ep_fan_out ep of ModeNone \<Rightarrow> True
        | ModeDnsA st \<Rightarrow> (case ds_cached st of None \<Rightarrow> True | Some (addrs, at) \<Rightarrow> addrs \<noteq> [])))"

lemma dedupe_nil: "dedupe [] xs = [] \<longleftrightarrow> xs = []"
  by (cases xs) simp_all

lemma resolve_some_address:
  assumes "resolve_at e i n st = (r, st')" "\<forall>n. de_resolve e i n \<noteq> Some []"
    "\<forall>at. ds_cached st \<noteq> Some ([], at)"
  shows "r \<noteq> Inr [] \<and> (\<forall>at. ds_cached st' \<noteq> Some ([], at))"
  using assms
  by (auto simp: resolve_or_cached_def dedupe_nil split: option.splits if_splits prod.splits)

lemma dns_a_attempt_cache:
  assumes "dns_a_attempt I e i rq st n st1" "\<forall>n. de_resolve e i n \<noteq> Some []"
    "\<forall>at. ds_cached st \<noteq> Some ([], at)"
  shows "\<forall>at. ds_cached st1 \<noteq> Some ([], at)"
  using assms
proof (induction rule: dns_a_attempt.induct)
  case (unresolved n st1 x st2)
  then show ?case using resolve_some_address [OF unresolved.hyps(2)] by blast
qed (simp_all add: invalidate_cache_def)

text \<open>
  \<open>target_settled\<close>: the dispatch to the target came to its end without an error: the last attempt at its URL,
  or an attempt at every address of its name, among those that were made, succeeded or had an outcome
  that the policy accepts or skips.
\<close>

definition target_settled :: "notify_inner \<Rightarrow> dispatch_env \<Rightarrow> nat \<Rightarrow> endpoint \<Rightarrow> kkv_payload \<Rightarrow> bool" where
  "target_settled I e i ep payload =
     (\<exists>body offs. de_body e payload = Some body \<and> de_offsets e (kp_offsets payload) = Some offs
      \<and> (let rq = (\<lambda>a. \<lparr>rq_url = ep_url ep, rq_addr = a, rq_topic = ni_topic I, rq_offsets = offs,
              rq_body = body\<rparr>)
         in case ep_fan_out ep of
           ModeNone \<Rightarrow> \<exists>n. last_attempt I e i (rq None) n \<and> tolerated I (post_once I e i n (rq None))
         | ModeDnsA st \<Rightarrow> \<exists>n st1. dns_a_attempt I e i (\<lambda>a. rq (Some a)) st n st1
             \<and> round_settled I e i (\<lambda>a. rq (Some a)) n st1))"

definition targets_settled :: "dispatch_env \<Rightarrow> kkv_payload \<Rightarrow> notify_inner \<Rightarrow> bool" where
  "targets_settled e payload I = (\<forall>i < length (ni_endpoints I).
     some_address e i (ni_endpoints I ! i) \<longrightarrow> target_settled I e i (ni_endpoints I ! i) payload)"

lemma dispatch_endpoint_settled:
  assumes "dispatch_endpoint I e i ep payload = (Ok (), ep')" "some_address e i ep"
  shows "target_settled I e i ep payload"
proof (cases "ep_fan_out ep")
  case ModeNone
  then have "dispatch_to_address I e i ep payload = Ok ()" using assms(1) by (auto simp: dispatch_endpoint_def)
  then obtain body offs where b: "de_body e payload = Some body" "de_offsets e (kp_offsets payload) = Some offs"
    "post_loop I e i \<lparr>rq_url = ep_url ep, rq_addr = None, rq_topic = ni_topic I, rq_offsets = offs,
      rq_body = body\<rparr> 1 = Ok ()"
    by (auto simp: dispatch_to_address_def split: option.splits)
  show ?thesis
    using post_loop_ok [OF b(3)] b(1,2) ModeNone by (simp add: target_settled_def Let_def)
next
  case (ModeDnsA st)
  then obtain st' where "dispatch_dns_a I e i ep st payload = (Ok (), st')"
    using assms(1) by (auto simp: dispatch_endpoint_def split: prod.splits)
  then obtain body offs where b: "de_body e payload = Some body" "de_offsets e (kp_offsets payload) = Some offs"
    "dns_a_loop I e i (\<lambda>a. \<lparr>rq_url = ep_url ep, rq_addr = Some a, rq_topic = ni_topic I, rq_offsets = offs,
      rq_body = body\<rparr>) 1 st = (Ok (), st')"
    by (auto simp: dispatch_dns_a_def split: option.splits)
  let ?rq = "\<lambda>a. \<lparr>rq_url = ep_url ep, rq_addr = Some a, rq_topic = ni_topic I, rq_offsets = offs,
      rq_body = body\<rparr>"
  obtain n st1 where n: "dns_a_attempt I e i ?rq st n st1"
    "round_settled I e i ?rq n st1 \<or> fst (resolve_at e i n st1) = Inr []"
    using dns_a_loop_ok [OF b(3) dns_a_attempt.first] by blast
  have addr: "\<forall>n. de_resolve e i n \<noteq> Some []" "\<forall>at. ds_cached st \<noteq> Some ([], at)"
    using assms(2) ModeDnsA by (auto simp: some_address_def)
  have "fst (resolve_at e i n st1) \<noteq> Inr []"
    using resolve_some_address [OF prod.collapse [symmetric] addr(1) dns_a_attempt_cache [OF n(1) addr]] by blast
  then have "round_settled I e i ?rq n st1" using n(2) by blast
  then show ?thesis
    using n(1) b(1,2) ModeDnsA unfolding target_settled_def Let_def by auto
qed

lemma dispatch_each_settled:
  assumes "dispatch_each I e payload i eps = (Ok (), eps')" "j < length eps"
    "some_address e (i + j) (eps ! j)"
  shows "target_settled I e (i + j) (eps ! j) payload"
  using assms
proof (induction I e payload i eps arbitrary: eps' j rule: dispatch_each.induct)
  case (2 I e payload i ep eps)
  obtain r ep' where d: "dispatch_endpoint I e i ep payload = (r, ep')" by fastforce
  then have "r = Ok ()" using 2(2) by (cases r) auto
  then obtain eps'' where rest: "dispatch_each I e payload (i + 1) eps = (Ok (), eps'')"
    using 2(2) d by (auto split: prod.splits)
  show ?case
  proof (cases j)
    case 0
    then show ?thesis using dispatch_endpoint_settled d \<open>r = Ok ()\<close> 2(4) by simp
  next
    case (Suc k)
    then show ?thesis
      using 2(1) [OF d [symmetric], of "()" eps'' k] \<open>r = Ok ()\<close> rest 2(3,4) Suc by simp
  qed
qed simp

lemma dispatch_batch_settled:
  assumes "dispatch_batch e payload I = (Ok (), I')"
  shows "targets_settled e payload I"
proof -
  obtain eps where eps: "dispatch_each I e payload 0 (ni_endpoints I) = (Ok (), eps)"
    using assms(1) by (auto simp: dispatch_batch_def split: prod.splits)
  show ?thesis unfolding targets_settled_def using dispatch_each_settled [OF eps] by simp
qed

text \<open>Dispatching changes nothing of what is configured: only the cached resolutions.\<close>

definition without_cache :: "endpoint \<Rightarrow> endpoint" where
  "without_cache ep = ep\<lparr>ep_fan_out := (case ep_fan_out ep of ModeNone \<Rightarrow> ModeNone
     | ModeDnsA st \<Rightarrow> ModeDnsA (st\<lparr>ds_cached := None\<rparr>))\<rparr>"

definition configured :: "notify_inner \<Rightarrow> notify_inner" where
  "configured I = I\<lparr>ni_endpoints := map without_cache (ni_endpoints I)\<rparr>"

lemma resolve_keeps_name:
  "resolve_at e i n st = (r, st') \<Longrightarrow> st'\<lparr>ds_cached := None\<rparr> = st\<lparr>ds_cached := None\<rparr>"
  by (auto simp: resolve_or_cached_def split: option.splits if_splits prod.splits)

lemma dns_a_loop_keeps_name:
  "dns_a_loop I e i rq attempt st = (res, st') \<Longrightarrow> st'\<lparr>ds_cached := None\<rparr> = st\<lparr>ds_cached := None\<rparr>"
proof (induction I e i rq attempt st rule: dns_a_loop.induct)
  case (1 I e i rq attempt st)
  obtain r st1 where r: "resolve_at e i attempt st = (r, st1)" by fastforce
  note name = resolve_keeps_name [OF r]
  show ?case
    using 1(3) name 1(1) [OF r [symmetric] _ refl] 1(2) [OF r [symmetric] _ _ refl refl _ refl]
    by (subst (asm) dns_a_loop.simps)
      (cases r; auto simp: r Let_def invalidate_cache_def split: if_splits)
qed

lemma dispatch_endpoint_configured:
  "dispatch_endpoint I e i ep payload = (res, ep') \<Longrightarrow> without_cache ep' = without_cache ep"
  by (auto simp: dispatch_endpoint_def dispatch_dns_a_def without_cache_def
      split: fan_out_mode.splits prod.splits option.splits dest: dns_a_loop_keeps_name)

lemma dispatch_each_configured:
  "dispatch_each I e payload i eps = (res, eps') \<Longrightarrow> map without_cache eps' = map without_cache eps"
proof (induction I e payload i eps arbitrary: res eps' rule: dispatch_each.induct)
  case (2 I e payload i ep eps)
  obtain r ep' where d: "dispatch_endpoint I e i ep payload = (r, ep')" by fastforce
  show ?case
    using 2(2) d dispatch_endpoint_configured [OF d] 2(1) [OF d [symmetric]]
    by (cases r) (auto split: prod.splits)
qed simp

lemma dispatch_drained_configured:
  "dispatch_drained e d I = (res, J) \<Longrightarrow> configured J = configured I"
  by (auto simp: dispatch_drained_def dispatch_batch_def configured_def split: prod.splits
      dest: dispatch_each_configured)

end
