(* ===== verification/Notify.thy ===== *)
theory Notify
  imports Notify_Dispatch
begin

text \<open>
  The source-consume notifier (\<open>KkvV1Notifier\<close> in \<open>crates/mirror-notify-kkv/src/lib.rs\<close>) as a state
  machine of its two tasks: the run loop's calls (\<open>on_record\<close>, \<open>shutdown\<close> and the inline drain they share)
  and the background timer.  A step is what happens between two awaits; the steps of the two tasks
  interleave in any order, and \<open>dispatch_lock\<close> is what orders their dispatches.  How long a sleep takes is
  left open.  The last three fields are history: the records that were buffered, the batches whose
  dispatch succeeded, and with each of those what its calls answered and the targets it went to.
\<close>

section \<open>State\<close>

datatype timer_phase = TmWaiting | TmSleeping | TmLocking | TmDispatching drained_batch | TmExited

text \<open>
  The run loop's side; the flag says whether the drain belongs to \<open>shutdown\<close>.  \<open>CnAborting\<close>: \<open>shutdown\<close> is
  about to stop the timer; \<open>CnFinished\<close>: it returned; \<open>CnDropped\<close>: the run loop ended without calling it.
\<close>

datatype consumer_phase =
    CnIdle
  | CnAppending string u64
  | CnLocking bool
  | CnDispatching drained_batch bool
  | CnAborting "notify_error + unit"
  | CnFailed notify_error
  | CnFinished
  | CnDropped

record notifier =
  nf_inner :: notify_inner
  nf_buffer :: notify_buffer
  nf_new_data :: bool
  nf_shutting_down :: bool
  nf_error_state :: "notify_error option"
  nf_dispatch_lock :: bool
  nf_ack :: "u64 option"
  nf_timer :: timer_phase
  nf_consumer :: consumer_phase
  nf_fed :: "(string \<times> u64) list"
  nf_delivered :: "drained_batch list"
  nf_sent :: "(dispatch_env \<times> notify_inner \<times> drained_batch) list"

text \<open>\<open>ack\<close>: the value of the ack tracker's notify slot, or \<open>None\<close> when no ack sink is installed.\<close>

definition notifier_new :: "notify_inner \<Rightarrow> u64 option \<Rightarrow> notifier" where
  "notifier_new I ack = \<lparr>nf_inner = I, nf_buffer = buffer_new, nf_new_data = False,
     nf_shutting_down = False, nf_error_state = None, nf_dispatch_lock = False, nf_ack = ack,
     nf_timer = TmWaiting, nf_consumer = CnIdle, nf_fed = [], nf_delivered = [], nf_sent = []\<rparr>"

definition note_ack :: "u64 \<Rightarrow> u64 option \<Rightarrow> u64 option" where
  "note_ack through ack = map_option (\<lambda>a. max a through) ack"

section \<open>The run loop's calls\<close>

text \<open>\<open>on_record\<close> up to the buffer's lock: a stashed error, suppression, and keys that are not notified.\<close>

definition on_record_check :: "(u64 \<Rightarrow> bool) \<Rightarrow> krecord \<Rightarrow> notifier \<Rightarrow> notifier" where
  "on_record_check suppressed r s = (case nf_error_state s of
      Some x \<Rightarrow> s\<lparr>nf_error_state := None, nf_consumer := CnFailed x\<rparr>
    | None \<Rightarrow>
        if suppressed (r_offset r) then s
        else (case map_option from_utf8 (r_key r) of
            Some (Some k) \<Rightarrow> s\<lparr>nf_consumer := CnAppending k (r_offset r)\<rparr>
          | _ \<Rightarrow> s))"

definition on_record_append :: "u64 \<Rightarrow> nat \<Rightarrow> string \<Rightarrow> u64 \<Rightarrow> notifier \<Rightarrow> notifier" where
  "on_record_append max_records now k off s =
     (let b = buffer_append now k off (nf_buffer s) in
      s\<lparr>nf_buffer := b,
        nf_new_data := (nf_new_data s \<or> buffer_is_empty (nf_buffer s)),
        nf_consumer := (if max_records \<le> nb_seen_records b then CnLocking False else CnIdle),
        nf_fed := nf_fed s @ [(k, off)]\<rparr>)"

definition drain_result :: "bool \<Rightarrow> notify_error + unit \<Rightarrow> consumer_phase" where
  "drain_result shut res =
     (if shut then CnAborting res else case res of Inl x \<Rightarrow> CnFailed x | Inr _ \<Rightarrow> CnIdle)"

text \<open>\<open>drain_now\<close> once it holds the dispatch lock.\<close>

definition drain_locked :: "bool \<Rightarrow> notifier \<Rightarrow> notifier" where
  "drain_locked shut s = (case nf_error_state s of
      Some x \<Rightarrow> s\<lparr>nf_error_state := None, nf_consumer := drain_result shut (Err x)\<rparr>
    | None \<Rightarrow> (case buffer_take (ni_partition (nf_inner s)) (nf_buffer s) of
          (None, b) \<Rightarrow> s\<lparr>nf_buffer := b, nf_consumer := drain_result shut (Ok ())\<rparr>
        | (Some d, b) \<Rightarrow> s\<lparr>nf_buffer := b, nf_dispatch_lock := True,
            nf_consumer := CnDispatching d shut\<rparr>))"

definition drain_dispatched :: "dispatch_env \<Rightarrow> drained_batch \<Rightarrow> bool \<Rightarrow> notifier \<Rightarrow> notifier" where
  "drain_dispatched e d shut s = (case dispatch_drained e d (nf_inner s) of
      (Inl x, I) \<Rightarrow> s\<lparr>nf_inner := I, nf_dispatch_lock := False, nf_consumer := drain_result shut (Err x)\<rparr>
    | (Inr _, I) \<Rightarrow> s\<lparr>nf_inner := I, nf_dispatch_lock := False,
        nf_ack := note_ack (high_offset d + 1) (nf_ack s),
        nf_consumer := drain_result shut (Ok ()), nf_delivered := nf_delivered s @ [d],
        nf_sent := nf_sent s @ [(e, nf_inner s, d)]\<rparr>)"

definition shutdown_begin :: "notifier \<Rightarrow> notifier" where
  "shutdown_begin s = s\<lparr>nf_shutting_down := True, nf_new_data := True, nf_consumer := CnLocking True\<rparr>"

definition timer_holds_lock :: "notifier \<Rightarrow> bool" where
  "timer_holds_lock s = (case nf_timer s of TmDispatching _ \<Rightarrow> True | _ \<Rightarrow> False)"

text \<open>The rest of \<open>shutdown\<close>: abort the timer, then report the drain's error, or one the timer left.\<close>

definition shutdown_finish :: "notify_error + unit \<Rightarrow> notifier \<Rightarrow> notifier" where
  "shutdown_finish res s =
     (let s1 = s\<lparr>nf_timer := TmExited,
            nf_dispatch_lock := (nf_dispatch_lock s \<and> \<not> timer_holds_lock s)\<rparr>
      in case res of
          Inl x \<Rightarrow> s1\<lparr>nf_consumer := CnFailed x\<rparr>
        | Inr _ \<Rightarrow> (case nf_error_state s1 of
              Some x \<Rightarrow> s1\<lparr>nf_error_state := None, nf_consumer := CnFailed x\<rparr>
            | None \<Rightarrow> s1\<lparr>nf_consumer := CnFinished\<rparr>))"

section \<open>The timer task\<close>

definition timer_wake :: "notifier \<Rightarrow> notifier" where
  "timer_wake s = s\<lparr>nf_new_data := False,
     nf_timer := (if nf_shutting_down s then TmExited
       else if nb_first_at (nf_buffer s) = None then TmWaiting else TmSleeping)\<rparr>"

definition timer_slept :: "notifier \<Rightarrow> notifier" where
  "timer_slept s = s\<lparr>nf_timer := (if nf_shutting_down s then TmExited else TmLocking)\<rparr>"

definition timer_locked :: "notifier \<Rightarrow> notifier" where
  "timer_locked s = (case buffer_take (ni_partition (nf_inner s)) (nf_buffer s) of
      (None, b) \<Rightarrow> s\<lparr>nf_buffer := b, nf_timer := TmWaiting\<rparr>
    | (Some d, b) \<Rightarrow> s\<lparr>nf_buffer := b, nf_dispatch_lock := True, nf_timer := TmDispatching d\<rparr>)"

definition timer_dispatched :: "dispatch_env \<Rightarrow> drained_batch \<Rightarrow> notifier \<Rightarrow> notifier" where
  "timer_dispatched e d s = (case dispatch_drained e d (nf_inner s) of
      (Inl x, I) \<Rightarrow> s\<lparr>nf_inner := I, nf_dispatch_lock := False, nf_error_state := Some x,
        nf_timer := TmExited\<rparr>
    | (Inr _, I) \<Rightarrow> s\<lparr>nf_inner := I, nf_dispatch_lock := False,
        nf_ack := note_ack (high_offset d + 1) (nf_ack s),
        nf_timer := TmWaiting, nf_delivered := nf_delivered s @ [d],
        nf_sent := nf_sent s @ [(e, nf_inner s, d)]\<rparr>)"

section \<open>Supervision\<close>

definition consumer_running :: "consumer_phase \<Rightarrow> bool" where
  "consumer_running c = (case c of
      CnFailed _ \<Rightarrow> False | CnFinished \<Rightarrow> False | CnDropped \<Rightarrow> False | _ \<Rightarrow> True)"

definition consumer_holds_lock :: "notifier \<Rightarrow> bool" where
  "consumer_holds_lock s = (case nf_consumer s of CnDispatching _ _ \<Rightarrow> True | _ \<Rightarrow> False)"

text \<open>\<open>TerminalErrorWatch::wait\<close> wins the race: it takes the error, and the run loop is dropped.\<close>

definition watch_fires :: "notify_error \<Rightarrow> notifier \<Rightarrow> notifier" where
  "watch_fires x s = s\<lparr>nf_error_state := None,
     nf_dispatch_lock := (nf_dispatch_lock s \<and> \<not> consumer_holds_lock s),
     nf_consumer := CnFailed x\<rparr>"

section \<open>The machine\<close>

inductive nf_step :: "(u64 \<Rightarrow> bool) \<Rightarrow> u64 \<Rightarrow> notifier \<Rightarrow> notifier \<Rightarrow> bool"
  for suppressed max_records where
  checked: "nf_consumer s = CnIdle \<Longrightarrow> nf_step suppressed max_records s (on_record_check suppressed r s)"
| appended: "nf_consumer s = CnAppending k off \<Longrightarrow>
    nf_step suppressed max_records s (on_record_append max_records now k off s)"
| lock: "nf_consumer s = CnLocking shut \<Longrightarrow> \<not> nf_dispatch_lock s \<Longrightarrow>
    nf_step suppressed max_records s (drain_locked shut s)"
| dispatched: "nf_consumer s = CnDispatching d shut \<Longrightarrow>
    nf_step suppressed max_records s (drain_dispatched e d shut s)"
| shutdown: "nf_consumer s = CnIdle \<Longrightarrow> nf_step suppressed max_records s (shutdown_begin s)"
| finish: "nf_consumer s = CnAborting res \<Longrightarrow> nf_step suppressed max_records s (shutdown_finish res s)"
| dropped: "nf_consumer s = CnIdle \<Longrightarrow> nf_step suppressed max_records s (s\<lparr>nf_consumer := CnDropped\<rparr>)"
| wake: "nf_timer s = TmWaiting \<Longrightarrow> nf_new_data s \<Longrightarrow> nf_step suppressed max_records s (timer_wake s)"
| slept: "nf_timer s = TmSleeping \<Longrightarrow> nf_step suppressed max_records s (timer_slept s)"
| timer_lock: "nf_timer s = TmLocking \<Longrightarrow> \<not> nf_dispatch_lock s \<Longrightarrow>
    nf_step suppressed max_records s (timer_locked s)"
| timer_done: "nf_timer s = TmDispatching d \<Longrightarrow> nf_step suppressed max_records s (timer_dispatched e d s)"
| watch: "nf_error_state s = Some x \<Longrightarrow> consumer_running (nf_consumer s) \<Longrightarrow>
    nf_step suppressed max_records s (watch_fires x s)"

inductive_cases nf_stepE: "nf_step suppressed max_records s s'"

section \<open>What a batch covers\<close>

definition covered :: "drained_batch \<Rightarrow> string \<times> u64 \<Rightarrow> bool" where
  "covered d x = (fst x \<in> set (db_updates d) \<and> snd x \<le> high_offset d)"

definition covers_all :: "drained_batch \<Rightarrow> (string \<times> u64) list \<Rightarrow> bool" where
  "covers_all d xs = ((\<forall>x \<in> set xs. covered d x) \<and> (\<exists>x \<in> set xs. high_offset d = snd x))"

definition buffer_holds :: "notify_buffer \<Rightarrow> (string \<times> u64) list \<Rightarrow> bool" where
  "buffer_holds b xs = ((nb_seen_records b = 0) = (xs = [])
     \<and> (nb_first_at b = None) = (xs = [])
     \<and> (\<forall>x \<in> set xs. fst x \<in> set (nb_keys b) \<and> snd x \<le> nb_max_offset b)
     \<and> (xs \<noteq> [] \<longrightarrow> (\<exists>x \<in> set xs. nb_max_offset b = snd x)))"

lemma buffer_holds_new: "buffer_holds buffer_new []"
  by (simp add: buffer_holds_def buffer_new_def)

lemma saturating_succ_nonzero: "saturating_add x 1 \<noteq> (0 :: u64)"
proof -
  have "x + 1 \<noteq> 0" if "unat x + 1 < 2 ^ 64"
  proof -
    have "unat (x + 1) = unat x + 1" using that by (simp add: unat_word_ariths)
    then show ?thesis by auto
  qed
  then show ?thesis by (auto simp: saturating_add_def u64_max_def)
qed

lemma set_set_insert [simp]: "set (set_insert x xs) = insert x (set xs)"
  by (auto simp: set_insert_def)

lemma buffer_holds_append:
  assumes "buffer_holds b xs"
  shows "buffer_holds (buffer_append now k off b) (xs @ [(k, off)])"
proof (cases "xs = []")
  case True
  then show ?thesis using assms
    by (simp add: buffer_holds_def buffer_append_def saturating_succ_nonzero split: option.splits)
next
  case False
  then show ?thesis using assms
    by (auto simp: buffer_holds_def buffer_append_def saturating_succ_nonzero not_less
        intro: order_trans less_imp_le split: option.splits)
qed

lemma buffer_take_holds:
  assumes "buffer_holds b xs"
  shows "if xs = [] then buffer_take part b = (None, b)
    else \<exists>d b'. buffer_take part b = (Some d, b') \<and> covers_all d xs \<and> buffer_holds b' []"
  using assms
  by (auto simp: buffer_holds_def buffer_take_def buffer_is_empty_def covers_all_def covered_def
      high_offset_def list_max_def)

section \<open>The invariant\<close>

text \<open>
  The buffered records are, in order, those of successful batches, those of one batch in flight, and
  those in the buffer; or a dispatch has failed, and then nothing is dispatched any more.
\<close>

definition ack_within :: "u64 option \<Rightarrow> (string \<times> u64) list \<Rightarrow> bool" where
  "ack_within ack ok = (\<forall>a. ack = Some a \<longrightarrow> a = 0 \<or> (\<exists>x \<in> set ok. a = snd x + 1))"

text \<open>The acknowledgement is above everything that was delivered; the largest offset has no successor.\<close>

definition ack_reaches :: "u64 option \<Rightarrow> (string \<times> u64) list \<Rightarrow> bool" where
  "ack_reaches ack ok = (\<forall>a. ack = Some a \<longrightarrow> (\<forall>x \<in> set ok. snd x \<noteq> u64_max) \<longrightarrow>
     (\<forall>x \<in> set ok. snd x < a))"

definition stopped_by_error :: "notifier \<Rightarrow> bool" where
  "stopped_by_error s = (\<not> timer_holds_lock s \<and> \<not> consumer_holds_lock s
     \<and> (nf_error_state s \<noteq> None \<and> nf_timer s = TmExited
        \<or> (case nf_consumer s of CnFailed _ \<Rightarrow> True | CnAborting (Inl _) \<Rightarrow> True | _ \<Rightarrow> False)
          \<and> (nf_timer s = TmExited \<or> nb_seen_records (nf_buffer s) = 0)))"

definition settled :: "consumer_phase \<Rightarrow> bool" where
  "settled c = (c = CnAborting (Inr ()) \<or> c = CnFinished)"

definition nf_phase :: "notifier \<Rightarrow> (string \<times> u64) list \<Rightarrow> (string \<times> u64) list \<Rightarrow> bool" where
  "nf_phase s rest buf =
     (nf_error_state s = None \<and> rest = [] \<and> \<not> timer_holds_lock s \<and> \<not> consumer_holds_lock s
        \<and> (settled (nf_consumer s) \<longrightarrow> buf = [])
      \<or> (\<exists>d. nf_timer s = TmDispatching d \<and> nf_error_state s = None \<and> \<not> consumer_holds_lock s
           \<and> covers_all d rest \<and> \<not> settled (nf_consumer s))
      \<or> (\<exists>d shut. nf_consumer s = CnDispatching d shut \<and> nf_error_state s = None
           \<and> \<not> timer_holds_lock s \<and> covers_all d rest \<and> buf = [])
      \<or> stopped_by_error s \<and> \<not> settled (nf_consumer s))"

definition nf_shape ::
    "notifier \<Rightarrow> (string \<times> u64) list \<Rightarrow> (string \<times> u64) list \<Rightarrow> (string \<times> u64) list \<Rightarrow> bool" where
  "nf_shape s ok rest buf = (nf_fed s = ok @ rest @ buf
     \<and> (\<forall>x \<in> set ok. \<exists>d \<in> set (nf_delivered s). covered d x)
     \<and> ack_within (nf_ack s) ok \<and> ack_reaches (nf_ack s) ok \<and> buffer_holds (nf_buffer s) buf
     \<and> nf_dispatch_lock s = (timer_holds_lock s \<or> consumer_holds_lock s)
     \<and> nf_phase s rest buf)"

lemmas nf_defs = nf_shape_def nf_phase_def stopped_by_error_def settled_def timer_holds_lock_def
  consumer_holds_lock_def

lemma nf_shape_new: "ack = None \<or> ack = Some 0 \<Longrightarrow> nf_shape (notifier_new I ack) [] [] []"
  by (auto simp: nf_defs notifier_new_def ack_within_def ack_reaches_def buffer_holds_new)

lemma ack_after:
  assumes "ack_within ack ok" "covers_all d rest"
  shows "ack_within (note_ack (high_offset d + 1) ack) (ok @ rest)
    \<and> (ack_reaches ack ok \<longrightarrow> ack_reaches (note_ack (high_offset d + 1) ack) (ok @ rest))"
proof (cases ack)
  case (Some a)
  obtain x where x: "x \<in> set rest" "high_offset d = snd x" using assms(2) by (auto simp: covers_all_def)
  then have "ack_within (note_ack (high_offset d + 1) ack) (ok @ rest)"
    using assms(1) Some by (auto simp: ack_within_def note_ack_def max_def)
  moreover have "ack_reaches (note_ack (high_offset d + 1) ack) (ok @ rest)" if "ack_reaches ack ok"
    unfolding ack_reaches_def
  proof (intro allI impI ballI)
    fix b y assume b: "note_ack (high_offset d + 1) ack = Some b"
      and below: "\<forall>y \<in> set (ok @ rest). snd y \<noteq> u64_max" and y: "y \<in> set (ok @ rest)"
    have "high_offset d < high_offset d + 1" using x below by (auto intro: lt_succ)
    then have "y \<in> set rest \<Longrightarrow> snd y < high_offset d + 1"
      using assms(2) by (auto simp: covers_all_def covered_def intro: le_less_trans)
    moreover have "y \<in> set ok \<Longrightarrow> snd y < a"
      using that Some below by (auto simp: ack_reaches_def)
    ultimately show "snd y < b" using b Some y by (auto simp: note_ack_def less_max_iff_disj)
  qed
  ultimately show ?thesis by blast
qed (simp add: ack_within_def ack_reaches_def note_ack_def)

lemma shape_checked:
  "nf_shape s ok rest buf \<Longrightarrow> nf_consumer s = CnIdle \<Longrightarrow>
   nf_shape (on_record_check suppressed r s) ok rest buf"
  by (auto simp: nf_defs on_record_check_def split: option.splits timer_phase.splits)

lemma shape_appended:
  assumes "nf_shape s ok rest buf" "nf_consumer s = CnAppending k off"
  shows "nf_shape (on_record_append max_records now k off s) ok rest (buf @ [(k, off)])"
  using assms buffer_holds_append [of "nf_buffer s" buf now k off]
  by (auto simp: nf_defs on_record_append_def Let_def split: timer_phase.splits)

lemma shape_lock:
  assumes "nf_shape s ok rest buf" "nf_consumer s = CnLocking shut" "\<not> nf_dispatch_lock s"
  shows "nf_shape (drain_locked shut s) ok rest buf \<or> rest = [] \<and> nf_shape (drain_locked shut s) ok buf []"
proof (cases "nf_error_state s")
  case (Some x)
  then show ?thesis using assms
    by (auto simp: nf_defs drain_locked_def drain_result_def split: timer_phase.splits)
next
  case None
  then have rest: "rest = []" using assms by (auto simp: nf_defs split: timer_phase.splits)
  have "buffer_holds (nf_buffer s) buf" using assms(1) by (simp add: nf_shape_def)
  note take = buffer_take_holds [OF this, of "ni_partition (nf_inner s)"]
  show ?thesis
  proof (cases "buf = []")
    case True
    then show ?thesis using take assms None rest
      by (auto simp: nf_defs drain_locked_def drain_result_def split: timer_phase.splits)
  next
    case False
    then obtain d b where "buffer_take (ni_partition (nf_inner s)) (nf_buffer s) = (Some d, b)"
      "covers_all d buf" "buffer_holds b []" using take by auto
    then have "nf_shape (drain_locked shut s) ok buf []" using assms None rest
      by (auto simp: nf_defs drain_locked_def split: timer_phase.splits)
    then show ?thesis using rest by blast
  qed
qed

lemma shape_dispatched:
  assumes "nf_shape s ok rest buf" "nf_consumer s = CnDispatching d shut"
  shows "nf_shape (drain_dispatched e d shut s) ok rest buf
    \<or> nf_shape (drain_dispatched e d shut s) (ok @ rest) [] buf"
proof -
  have cov: "covers_all d rest" "buf = []" "nf_error_state s = None" "\<not> timer_holds_lock s"
    using assms by (auto simp: nf_defs split: timer_phase.splits)
  obtain res I where d: "dispatch_drained e d (nf_inner s) = (res, I)" by fastforce
  show ?thesis
  proof (cases res)
    case (Inl x)
    then have "nf_shape (drain_dispatched e d shut s) ok rest buf" using assms cov d
      by (auto simp: nf_defs drain_dispatched_def drain_result_def buffer_holds_def
          split: timer_phase.splits)
    then show ?thesis by blast
  next
    case (Inr u)
    have "ack_within (nf_ack s) ok" using assms(1) by (simp add: nf_shape_def)
    note ack_after [OF this cov(1)]
    then have "nf_shape (drain_dispatched e d shut s) (ok @ rest) [] buf" using assms cov d Inr
      by (auto simp: nf_defs drain_dispatched_def drain_result_def covers_all_def
          split: timer_phase.splits)
    then show ?thesis by blast
  qed
qed

lemma shape_finish:
  assumes "nf_shape s ok rest buf" "nf_consumer s = CnAborting res"
  shows "nf_shape (shutdown_finish res s) ok rest buf"
  using assms
  by (cases res) (auto simp: nf_defs shutdown_finish_def Let_def split: timer_phase.splits option.splits)

lemma shape_timer_lock:
  assumes "nf_shape s ok rest buf" "nf_timer s = TmLocking" "\<not> nf_dispatch_lock s"
  shows "nf_shape (timer_locked s) ok rest buf \<or> rest = [] \<and> nf_shape (timer_locked s) ok buf []"
proof -
  have holds: "buffer_holds (nf_buffer s) buf" using assms(1) by (simp add: nf_shape_def)
  note take = buffer_take_holds [OF this, of "ni_partition (nf_inner s)"]
  show ?thesis
  proof (cases "buf = []")
    case True
    then show ?thesis using take assms
      by (auto simp: nf_defs timer_locked_def split: consumer_phase.splits)
  next
    case False
    then have seen: "nb_seen_records (nf_buffer s) \<noteq> 0" using holds by (simp add: buffer_holds_def)
    obtain d b where d: "buffer_take (ni_partition (nf_inner s)) (nf_buffer s) = (Some d, b)"
      "covers_all d buf" "buffer_holds b []" using take False by auto
    have "nf_error_state s = None \<and> rest = [] \<and> \<not> consumer_holds_lock s \<and> \<not> settled (nf_consumer s)"
      using assms False seen by (auto simp: nf_defs)
    then have "nf_shape (timer_locked s) ok buf []" "rest = []" using assms d
      by (auto simp: nf_defs timer_locked_def split: consumer_phase.splits)
    then show ?thesis by blast
  qed
qed

lemma shape_timer_done:
  assumes "nf_shape s ok rest buf" "nf_timer s = TmDispatching d"
  shows "nf_shape (timer_dispatched e d s) ok rest buf
    \<or> nf_shape (timer_dispatched e d s) (ok @ rest) [] buf"
proof -
  have cov: "covers_all d rest" "nf_error_state s = None" "\<not> consumer_holds_lock s"
      "\<not> settled (nf_consumer s)"
    using assms by (auto simp: nf_defs)
  obtain res I where d: "dispatch_drained e d (nf_inner s) = (res, I)" by fastforce
  show ?thesis
  proof (cases res)
    case (Inl x)
    then have "nf_shape (timer_dispatched e d s) ok rest buf" using assms cov d
      by (auto simp: nf_defs timer_dispatched_def split: consumer_phase.splits)
    then show ?thesis by blast
  next
    case (Inr u)
    have "ack_within (nf_ack s) ok" using assms(1) by (simp add: nf_shape_def)
    note ack_after [OF this cov(1)]
    then have "nf_shape (timer_dispatched e d s) (ok @ rest) [] buf" using assms cov d Inr
      by (auto simp: nf_defs timer_dispatched_def covers_all_def split: consumer_phase.splits)
    then show ?thesis by blast
  qed
qed

lemma shape_timer_quiet:
  assumes "nf_shape s ok rest buf"
  shows "nf_timer s = TmWaiting \<Longrightarrow> nf_shape (timer_wake s) ok rest buf"
    and "nf_timer s = TmSleeping \<Longrightarrow> nf_shape (timer_slept s) ok rest buf"
  using assms
  by (auto simp: nf_defs timer_wake_def timer_slept_def split: consumer_phase.splits)

lemma shape_watch:
  assumes "nf_shape s ok rest buf" "nf_error_state s = Some x"
  shows "nf_shape (watch_fires x s) ok rest buf"
  using assms by (auto simp: nf_defs watch_fires_def split: timer_phase.splits)

lemma shape_shutdown:
  "nf_shape s ok rest buf \<Longrightarrow> nf_consumer s = CnIdle \<Longrightarrow> nf_shape (shutdown_begin s) ok rest buf"
  by (auto simp: nf_defs shutdown_begin_def split: timer_phase.splits)

lemma shape_dropped:
  "nf_shape s ok rest buf \<Longrightarrow> nf_consumer s = CnIdle \<Longrightarrow>
   nf_shape (s\<lparr>nf_consumer := CnDropped\<rparr>) ok rest buf"
  by (auto simp: nf_defs split: timer_phase.splits)

lemma nf_step_shape:
  assumes "nf_step suppressed max_records s s'" "nf_shape s ok rest buf"
  shows "\<exists>ok rest buf. nf_shape s' ok rest buf"
  using assms(1)
proof (cases rule: nf_step.cases)
  case (checked r)
  then show ?thesis using shape_checked [OF assms(2)] by blast
next
  case (appended k off now)
  then show ?thesis using shape_appended [OF assms(2)] by blast
next
  case (lock shut)
  then show ?thesis using shape_lock [OF assms(2)] by blast
next
  case (dispatched d shut e)
  then show ?thesis using shape_dispatched [OF assms(2), of d shut e] by blast
next
  case shutdown
  then show ?thesis using shape_shutdown [OF assms(2)] by blast
next
  case (finish res)
  then show ?thesis using shape_finish [OF assms(2)] by blast
next
  case dropped
  then show ?thesis using shape_dropped [OF assms(2)] by blast
next
  case wake
  then show ?thesis using shape_timer_quiet(1) [OF assms(2)] by blast
next
  case slept
  then show ?thesis using shape_timer_quiet(2) [OF assms(2)] by blast
next
  case timer_lock
  then show ?thesis using shape_timer_lock [OF assms(2)] by blast
next
  case (timer_done d e)
  then show ?thesis using shape_timer_done [OF assms(2), of d e] by blast
next
  case (watch x)
  then show ?thesis using shape_watch [OF assms(2)] by blast
qed

lemma nf_reachable_shape:
  assumes "(nf_step suppressed max_records)\<^sup>*\<^sup>* (notifier_new I ack) s" "ack = None \<or> ack = Some 0"
  shows "\<exists>ok rest buf. nf_shape s ok rest buf"
  using assms(1)
proof (induction rule: rtranclp_induct)
  case base
  then show ?case using nf_shape_new [OF assms(2)] by blast
next
  case (step s s')
  then show ?case using nf_step_shape by blast
qed

section \<open>What was delivered went to every target\<close>

text \<open>Each delivered batch is a dispatch that was made, over the targets the notifier was built with.\<close>

definition delivered_to_all :: "notify_inner \<Rightarrow> notifier \<Rightarrow> drained_batch \<Rightarrow> bool" where
  "delivered_to_all I s d = (\<exists>e J. (e, J, d) \<in> set (nf_sent s) \<and> configured J = configured I
     \<and> targets_settled e (payload_new (ni_topic J) (db_offsets d) (db_updates d)) J)"

definition sent_ok :: "notify_inner \<Rightarrow> notifier \<Rightarrow> bool" where
  "sent_ok I s = (configured (nf_inner s) = configured I
     \<and> (\<forall>d \<in> set (nf_delivered s). delivered_to_all I s d) \<and> nf_ack s \<noteq> None)"

lemma sent_ok_delivered:
  "sent_ok I s \<Longrightarrow> d \<in> set (nf_delivered s) \<Longrightarrow> \<exists>e J. (e, J, d) \<in> set (nf_sent s)
     \<and> configured J = configured I
     \<and> targets_settled e (payload_new (ni_topic J) (db_offsets d) (db_updates d)) J"
  by (simp add: sent_ok_def delivered_to_all_def)

lemma sent_ok_cong:
  "sent_ok I s \<Longrightarrow> nf_inner s' = nf_inner s \<Longrightarrow> nf_delivered s' = nf_delivered s \<Longrightarrow> nf_sent s' = nf_sent s \<Longrightarrow>
     nf_ack s' = nf_ack s \<Longrightarrow> sent_ok I s'"
  by (simp add: sent_ok_def delivered_to_all_def)

lemma sent_ok_failed:
  assumes "sent_ok I s" "dispatch_drained e d (nf_inner s) = (Inl x, J)" "nf_inner s' = J"
    "nf_delivered s' = nf_delivered s" "nf_sent s' = nf_sent s" "nf_ack s' = nf_ack s"
  shows "sent_ok I s'"
  using assms dispatch_drained_configured [OF assms(2)] by (simp add: sent_ok_def delivered_to_all_def)

lemma sent_ok_sent:
  assumes "sent_ok I s" "dispatch_drained e d (nf_inner s) = (Inr u, J)" "nf_inner s' = J"
    "nf_delivered s' = nf_delivered s @ [d]" "nf_sent s' = nf_sent s @ [(e, nf_inner s, d)]"
    "nf_ack s' = note_ack y (nf_ack s)"
  shows "sent_ok I s'"
proof -
  have conf: "configured (nf_inner s) = configured I" using assms(1) by (simp add: sent_ok_def)
  have "targets_settled e (payload_new (ni_topic (nf_inner s)) (db_offsets d) (db_updates d)) (nf_inner s)"
    using assms(2) by (auto simp: dispatch_drained_def intro: dispatch_batch_settled)
  then have new: "delivered_to_all I s' d"
    unfolding delivered_to_all_def using conf assms(5) by (intro exI [of _ e] exI [of _ "nf_inner s"]) simp
  have "delivered_to_all I s' d'" if "d' \<in> set (nf_delivered s)" for d'
    using assms(1,5) that unfolding sent_ok_def delivered_to_all_def by fastforce
  then show ?thesis
    using assms new conf dispatch_drained_configured [OF assms(2)] by (auto simp: sent_ok_def note_ack_def)
qed

lemma sent_ok_step:
  assumes "nf_step suppressed max_records s s'" "sent_ok I s"
  shows "sent_ok I s'"
  using assms(1)
proof (cases rule: nf_step.cases)
  case (dispatched d shut e)
  obtain res J where d: "dispatch_drained e d (nf_inner s) = (res, J)" by fastforce
  show ?thesis
  proof (cases res)
    case (Inl x)
    from sent_ok_failed [OF assms(2) d [unfolded Inl]] show ?thesis
      using dispatched(1) d Inl by (simp add: drain_dispatched_def)
  next
    case (Inr u)
    from sent_ok_sent [OF assms(2) d [unfolded Inr]] show ?thesis
      using dispatched(1) d Inr by (simp add: drain_dispatched_def)
  qed
next
  case (timer_done d e)
  obtain res J where d: "dispatch_drained e d (nf_inner s) = (res, J)" by fastforce
  show ?thesis
  proof (cases res)
    case (Inl x)
    from sent_ok_failed [OF assms(2) d [unfolded Inl]] show ?thesis
      using timer_done(1) d Inl by (simp add: timer_dispatched_def)
  next
    case (Inr u)
    from sent_ok_sent [OF assms(2) d [unfolded Inr]] show ?thesis
      using timer_done(1) d Inr by (simp add: timer_dispatched_def)
  qed
qed (use assms(2) in \<open>auto simp: on_record_check_def on_record_append_def Let_def drain_locked_def
    shutdown_begin_def shutdown_finish_def timer_wake_def timer_slept_def timer_locked_def watch_fires_def
    elim!: sent_ok_cong split: option.splits sum.splits prod.splits\<close>)

lemma nf_reachable_sent:
  assumes "(nf_step suppressed max_records)\<^sup>*\<^sup>* (notifier_new I (Some a)) s"
  shows "sent_ok I s"
  using assms
proof (induction rule: rtranclp_induct)
  case base
  then show ?case by (simp add: sent_ok_def notifier_new_def)
next
  case (step s s')
  then show ?case using sent_ok_step by blast
qed

section \<open>Nothing undelivered is acknowledged\<close>

lemma acked_covered:
  assumes "nf_shape s ok rest buf" "sorted_wrt (<) (map snd (nf_fed s))" "x \<in> set (nf_fed s)"
    "nf_ack s = Some a" "snd x < a"
  shows "\<exists>d \<in> set (nf_delivered s). covered d x"
proof -
  have "a \<noteq> 0" using assms(5) by auto
  then obtain y where y: "y \<in> set ok" "a = snd y + 1"
    using assms(1,4) by (auto simp: nf_shape_def ack_within_def)
  have le: "snd x \<le> snd y"
  proof (cases "snd y = u64_max")
    case False
    then show ?thesis using assms(5) y(2) by (simp add: word_arith)
  qed simp
  have "nf_fed s = ok @ rest @ buf" using assms(1) by (simp add: nf_shape_def)
  then have fed: "nf_fed s = ok @ (rest @ buf)" and
    ord: "\<forall>a \<in> set (map snd ok). \<forall>b \<in> set (map snd (rest @ buf)). a < b"
    using assms(2) by (simp_all only: map_append sorted_wrt_append append_assoc) blast
  have "x \<in> set ok"
  proof (rule ccontr)
    assume "x \<notin> set ok"
    then have "x \<in> set (rest @ buf)" using assms(3) fed by simp
    then have "snd x \<in> set (map snd (rest @ buf))" "snd y \<in> set (map snd ok)"
      using y(1) by (simp_all only: set_map imageI)
    then have "snd y < snd x" using ord by blast
    then show False using le by simp
  qed
  then show ?thesis using assms(1) by (simp add: nf_shape_def)
qed

lemma finished_covered:
  assumes "nf_shape s ok rest buf" "nf_consumer s = CnFinished" "x \<in> set (nf_fed s)"
  shows "(\<exists>d \<in> set (nf_delivered s). covered d x)
    \<and> (\<forall>a. nf_ack s = Some a \<longrightarrow> (\<forall>y \<in> set (nf_fed s). snd y \<noteq> u64_max) \<longrightarrow> snd x < a)"
proof -
  have "rest = [] \<and> buf = []" using assms(1,2) by (auto simp: nf_defs)
  then show ?thesis using assms(1,3) by (auto simp: nf_shape_def ack_reaches_def)
qed

section \<open>No buffered record is forgotten\<close>

text \<open>While the timer lives, a filled buffer has it on its way: about to wake, asleep, or next at the lock.\<close>

definition timer_armed :: "notifier \<Rightarrow> bool" where
  "timer_armed s = (buffer_is_empty (nf_buffer s) \<or> nf_new_data s
     \<or> nf_timer s \<in> {TmSleeping, TmLocking, TmExited})"

definition first_at_ok :: "notify_buffer \<Rightarrow> bool" where
  "first_at_ok b = ((nb_first_at b = None) = (nb_seen_records b = 0))"

lemma first_at_ok_take: "first_at_ok b \<Longrightarrow> first_at_ok (snd (buffer_take part b))
    \<and> buffer_is_empty (snd (buffer_take part b))"
  by (simp add: first_at_ok_def buffer_take_def buffer_is_empty_def)

lemma armed_step:
  assumes "nf_step suppressed max_records s s'" "timer_armed s \<and> first_at_ok (nf_buffer s)"
  shows "timer_armed s' \<and> first_at_ok (nf_buffer s')"
  using assms
proof (cases rule: nf_step.cases)
  case (appended k off now)
  then show ?thesis using assms(2)
    by (auto simp: on_record_append_def Let_def timer_armed_def first_at_ok_def buffer_append_def
        saturating_succ_nonzero split: option.splits)
next
  case (lock shut)
  then show ?thesis
    using assms(2) first_at_ok_take [of "nf_buffer s" "ni_partition (nf_inner s)"]
    by (auto simp: drain_locked_def timer_armed_def split: option.splits prod.splits)
next
  case timer_lock
  then show ?thesis
    using assms(2) first_at_ok_take [of "nf_buffer s" "ni_partition (nf_inner s)"]
    by (auto simp: timer_locked_def timer_armed_def split: option.splits prod.splits)
next
  case wake
  then show ?thesis using assms(2)
    by (auto simp: timer_wake_def timer_armed_def first_at_ok_def buffer_is_empty_def)
qed (use assms(2) in \<open>auto simp: timer_armed_def on_record_check_def drain_dispatched_def
    shutdown_begin_def shutdown_finish_def Let_def timer_slept_def timer_dispatched_def watch_fires_def
    split: option.splits sum.splits prod.splits\<close>)

lemma nf_reachable_armed:
  assumes "(nf_step suppressed max_records)\<^sup>*\<^sup>* (notifier_new I ack) s"
  shows "timer_armed s \<and> first_at_ok (nf_buffer s)"
  using assms
proof (induction rule: rtranclp_induct)
  case base
  then show ?case
    by (simp add: timer_armed_def first_at_ok_def notifier_new_def buffer_new_def buffer_is_empty_def)
next
  case (step s s')
  then show ?case using armed_step by blast
qed

text \<open>From there the timer alone takes the whole buffer to a dispatch, in at most three steps.\<close>

lemma timer_reaches_dispatch:
  assumes "nf_shape s ok rest buf" "timer_armed s" "first_at_ok (nf_buffer s)"
    "\<not> buffer_is_empty (nf_buffer s)" "\<not> nf_dispatch_lock s" "\<not> nf_shutting_down s"
    "nf_timer s \<noteq> TmExited"
  shows "\<exists>s' d. (nf_step suppressed max_records)\<^sup>*\<^sup>* s s' \<and> nf_timer s' = TmDispatching d
    \<and> covers_all d buf"
proof -
  let ?st = "nf_step suppressed max_records"
  have holds: "buffer_holds (nf_buffer s) buf" using assms(1) by (simp add: nf_shape_def)
  have "buf \<noteq> []" using holds assms(4) by (auto simp: buffer_holds_def buffer_is_empty_def)
  have not_dispatching: "\<not> timer_holds_lock s" using assms(1,5) by (simp add: nf_shape_def)
  have locked: "\<exists>s' d. ?st\<^sup>*\<^sup>* t s' \<and> nf_timer s' = TmDispatching d \<and> covers_all d buf"
    if t: "nf_timer t = TmLocking" "nf_buffer t = nf_buffer s" "\<not> nf_dispatch_lock t" for t
  proof -
    obtain d b where "buffer_take (ni_partition (nf_inner t)) (nf_buffer s) = (Some d, b)"
      "covers_all d buf"
      using buffer_take_holds [OF holds, of "ni_partition (nf_inner t)"] \<open>buf \<noteq> []\<close> by auto
    then have "nf_timer (timer_locked t) = TmDispatching d" using t(2) by (simp add: timer_locked_def)
    moreover have "?st\<^sup>*\<^sup>* t (timer_locked t)" using nf_step.timer_lock [OF t(1,3)] by blast
    ultimately show ?thesis using \<open>covers_all d buf\<close> by blast
  qed
  have slept: "\<exists>s' d. ?st\<^sup>*\<^sup>* t s' \<and> nf_timer s' = TmDispatching d \<and> covers_all d buf"
    if t: "nf_timer t = TmSleeping" "nf_buffer t = nf_buffer s" "\<not> nf_dispatch_lock t"
      "\<not> nf_shutting_down t" for t
  proof -
    have "?st t (timer_slept t)" by (rule nf_step.slept [OF t(1)])
    moreover have "\<exists>s' d. ?st\<^sup>*\<^sup>* (timer_slept t) s' \<and> nf_timer s' = TmDispatching d \<and> covers_all d buf"
      using t by (intro locked) (simp_all add: timer_slept_def)
    ultimately show ?thesis by (meson converse_rtranclp_into_rtranclp)
  qed
  show ?thesis
  proof (cases "nf_timer s")
    case TmWaiting
    then have "nf_new_data s" using assms(2,4) by (simp add: timer_armed_def)
    then have "?st s (timer_wake s)" by (rule nf_step.wake [OF TmWaiting])
    moreover have "nb_first_at (nf_buffer s) \<noteq> None"
      using assms(3,4) by (simp add: first_at_ok_def buffer_is_empty_def)
    then have "\<exists>s' d. ?st\<^sup>*\<^sup>* (timer_wake s) s' \<and> nf_timer s' = TmDispatching d \<and> covers_all d buf"
      using assms(5,6) by (intro slept) (simp_all add: timer_wake_def)
    ultimately show ?thesis by (meson converse_rtranclp_into_rtranclp)
  next
    case TmSleeping
    then show ?thesis using assms(5,6) by (intro slept) simp_all
  next
    case TmLocking
    then show ?thesis using assms(5) by (intro locked) simp_all
  qed (use not_dispatching assms(7) in \<open>simp_all add: timer_holds_lock_def\<close>)
qed

end
