(* ===== verification/Flush_Dispatch.thy ===== *)
theory Flush_Dispatch
  imports Notify_Dispatch
begin

text \<open>
  The destination-flush dispatcher (\<open>FlushDispatcher\<close> in \<open>crates/mirror-notify-kkv/src/lib.rs\<close>): flush
  events go into a channel, and one background task posts them in order.  The channel is a list; when
  the task ends its receiver is gone and later sends are dropped.  The error that ended it waits for
  whoever takes it first: the watch that races the run loop, or \<open>drain_and_stop\<close>.  The last three fields
  are history: the events whose post succeeded, with each of those what its calls answered and the
  targets it went to, and the error that the watch took.
\<close>

datatype flush_event = Flushed u64 | ShutdownMark

record flush_dispatcher =
  fx_inner :: notify_inner
  fx_channel :: "flush_event list"
  fx_drainer :: bool
  fx_error_state :: "notify_error option"
  fx_ack :: "u64 option"
  fx_posted :: "u64 list"
  fx_sent :: "(dispatch_env \<times> notify_inner \<times> u64) list"
  fx_watched :: "notify_error option"

definition dispatcher_new :: "notify_inner \<Rightarrow> u64 option \<Rightarrow> flush_dispatcher" where
  "dispatcher_new I ack = \<lparr>fx_inner = I, fx_channel = [], fx_drainer = True,
     fx_error_state = None, fx_ack = ack, fx_posted = [],
     fx_sent = [], fx_watched = None\<rparr>"

definition channel_send :: "flush_event \<Rightarrow> flush_dispatcher \<Rightarrow> flush_dispatcher" where
  "channel_send ev s = (if fx_drainer s then s\<lparr>fx_channel := fx_channel s @ [ev]\<rparr> else s)"

definition dispatcher_on_flushed :: "(u64 \<Rightarrow> bool) \<Rightarrow> u64 \<Rightarrow> u64 \<Rightarrow> flush_dispatcher \<Rightarrow> flush_dispatcher" where
  "dispatcher_on_flushed suppressed frm to s =
     (if suppressed to then s else channel_send (Flushed to) s)"

text \<open>One turn of \<open>flush_drainer_loop\<close>.\<close>

definition flush_payload :: "notify_inner \<Rightarrow> u64 \<Rightarrow> kkv_payload" where
  "flush_payload I to = payload_new (ni_topic I) [(i32_display (ni_partition I), to)] []"

definition drainer_turn :: "dispatch_env \<Rightarrow> flush_dispatcher \<Rightarrow> flush_dispatcher" where
  "drainer_turn e s = (if \<not> fx_drainer s then s else case fx_channel s of
      [] \<Rightarrow> s
    | ShutdownMark # q \<Rightarrow> s\<lparr>fx_channel := [], fx_drainer := False\<rparr>
    | Flushed to # q \<Rightarrow>
       (case dispatch_batch e (flush_payload (fx_inner s) to) (fx_inner s) of
          (Inl x, I) \<Rightarrow> s\<lparr>fx_inner := I, fx_channel := [], fx_drainer := False,
              fx_error_state := Some x\<rparr>
        | (Inr _, I) \<Rightarrow> s\<lparr>fx_inner := I, fx_channel := q,
              fx_ack := map_option (\<lambda>a. max a (to + 1)) (fx_ack s),
              fx_posted := fx_posted s @ [to], fx_sent := fx_sent s @ [(e, fx_inner s, to)]\<rparr>))"

text \<open>
  \<open>TerminalErrorWatch::wait\<close>, raced against the run loop by \<open>run_racing_dispatch_error\<close>: it takes the error
  that the task left (so does \<open>last_error\<close>); without one it goes on waiting.
\<close>

definition watch_takes :: "flush_dispatcher \<Rightarrow> flush_dispatcher" where
  "watch_takes s = (case fx_error_state s of
      None \<Rightarrow> s
    | Some x \<Rightarrow> s\<lparr>fx_error_state := None, fx_watched := Some x\<rparr>)"

text \<open>
  \<open>drain_and_stop\<close>: queue the mark, wait for the task, take its error.  \<open>es\<close> gives the environment of every
  turn; the task ends after as many turns as the channel is long.
\<close>

definition drain_and_stop ::
    "(nat \<Rightarrow> dispatch_env) \<Rightarrow> flush_dispatcher \<Rightarrow> (notify_error + unit) \<times> flush_dispatcher" where
  "drain_and_stop es s =
     (let s1 = channel_send ShutdownMark s;
          s2 = fold (\<lambda>i. drainer_turn (es i)) [0..<length (fx_channel s1)] s1
      in case fx_error_state s2 of
          Some x \<Rightarrow> (Err x, s2\<lparr>fx_error_state := None\<rparr>)
        | None \<Rightarrow> (Ok (), s2))"

section \<open>Events are posted once each, in order\<close>

datatype fx_event = FxFlushed u64 u64 | FxTurn dispatch_env | FxWatch

definition fx_step :: "(u64 \<Rightarrow> bool) \<Rightarrow> fx_event \<Rightarrow> flush_dispatcher \<Rightarrow> flush_dispatcher" where
  "fx_step suppressed ev s = (case ev of
      FxFlushed frm to \<Rightarrow> dispatcher_on_flushed suppressed frm to s
    | FxTurn e \<Rightarrow> drainer_turn e s
    | FxWatch \<Rightarrow> watch_takes s)"

text \<open>What was reported and is not suppressed.\<close>

fun fx_accepted :: "(u64 \<Rightarrow> bool) \<Rightarrow> fx_event list \<Rightarrow> u64 list" where
  "fx_accepted suppressed [] = []"
| "fx_accepted suppressed (FxFlushed frm to # evs) =
     (if suppressed to then fx_accepted suppressed evs else to # fx_accepted suppressed evs)"
| "fx_accepted suppressed (FxTurn e # evs) = fx_accepted suppressed evs"
| "fx_accepted suppressed (FxWatch # evs) = fx_accepted suppressed evs"

lemma fx_accepted_append:
  "fx_accepted suppressed (evs @ evs') = fx_accepted suppressed evs @ fx_accepted suppressed evs'"
  by (induction suppressed evs rule: fx_accepted.induct) simp_all

definition ack_of :: "u64 option \<Rightarrow> u64 list \<Rightarrow> u64 option" where
  "ack_of ack tos = fold (\<lambda>to. map_option (\<lambda>a. max a (to + 1))) tos ack"

text \<open>What was posted is what was dispatched without an error, to the targets of \<open>I0\<close>.\<close>

definition fx_sent_ok :: "notify_inner \<Rightarrow> u64 option \<Rightarrow> flush_dispatcher \<Rightarrow> bool" where
  "fx_sent_ok I0 ack0 s = (configured (fx_inner s) = configured I0
     \<and> fx_ack s = ack_of ack0 (fx_posted s)
     \<and> map (\<lambda>(e, I, to). to) (fx_sent s) = fx_posted s
     \<and> (\<forall>(e, I, to) \<in> set (fx_sent s). configured I = configured I0
          \<and> targets_settled e (flush_payload I to) I))"

lemma dispatch_batch_configured: "dispatch_batch e p I = (res, J) \<Longrightarrow> configured J = configured I"
  by (auto simp: dispatch_batch_def configured_def split: prod.splits dest: dispatch_each_configured)

lemma drainer_turn_sent:
  assumes "fx_sent_ok I0 ack0 s"
  shows "fx_sent_ok I0 ack0 (drainer_turn e s) \<and> fx_watched (drainer_turn e s) = fx_watched s"
proof (cases "fx_drainer s \<and> (\<exists>to q. fx_channel s = Flushed to # q)")
  case True
  then obtain to q where q: "fx_drainer s" "fx_channel s = Flushed to # q" by blast
  obtain res I where d: "dispatch_batch e (flush_payload (fx_inner s) to) (fx_inner s) = (res, I)" by fastforce
  show ?thesis
    using assms q d dispatch_batch_configured [OF d]
    by (cases res) (auto simp: drainer_turn_def fx_sent_ok_def ack_of_def intro: dispatch_batch_settled)
next
  case False
  then show ?thesis using assms
    by (cases "fx_channel s") (auto simp: drainer_turn_def fx_sent_ok_def split: flush_event.splits)
qed

lemma drainer_turns_sent:
  "fx_sent_ok I0 ack0 s \<Longrightarrow> fx_sent_ok I0 ack0 (fold (\<lambda>i. drainer_turn (es i)) is s)
     \<and> fx_watched (fold (\<lambda>i. drainer_turn (es i)) is s) = fx_watched s"
  by (induction "is" arbitrary: s) (use drainer_turn_sent in \<open>auto\<close>)

lemma fx_step_sent:
  assumes "fx_sent_ok I0 ack0 s"
  shows "fx_sent_ok I0 ack0 (fx_step suppressed ev s)"
proof (cases ev)
  case (FxFlushed frm to)
  then show ?thesis using assms
    by (simp add: fx_step_def dispatcher_on_flushed_def channel_send_def fx_sent_ok_def)
next
  case (FxTurn e)
  then show ?thesis using drainer_turn_sent [OF assms] by (simp add: fx_step_def)
next
  case FxWatch
  then show ?thesis using assms
    by (auto simp: fx_step_def watch_takes_def fx_sent_ok_def split: option.splits)
qed

lemma fx_run_sent:
  "fx_sent_ok I0 ack0 (fold (fx_step suppressed) evs (dispatcher_new I0 ack0))"
  by (induction evs rule: rev_induct)
    (simp_all add: fx_step_sent, simp add: fx_sent_ok_def dispatcher_new_def ack_of_def)

lemma drain_and_stop_sent:
  assumes "fx_sent_ok I0 ack0 s" "drain_and_stop es s = (res, s')"
  shows "fx_sent_ok I0 ack0 s' \<and> fx_watched s' = fx_watched s"
proof -
  have s1: "fx_sent_ok I0 ack0 (channel_send ShutdownMark s)"
    "fx_watched (channel_send ShutdownMark s) = fx_watched s"
    using assms(1) by (simp_all add: channel_send_def fx_sent_ok_def)
  define s2 where "s2 = fold (\<lambda>i. drainer_turn (es i))
    [0..<length (fx_channel (channel_send ShutdownMark s))] (channel_send ShutdownMark s)"
  have s2: "fx_sent_ok I0 ack0 s2" "fx_watched s2 = fx_watched s"
    using drainer_turns_sent [OF s1(1), of es "[0..<length (fx_channel (channel_send ShutdownMark s))]"]
      s1(2) by (simp_all add: s2_def)
  have "fx_sent_ok I0 ack0 (s2\<lparr>fx_error_state := None\<rparr>)" using s2(1) by (simp add: fx_sent_ok_def)
  then show ?thesis
    using assms(2) s2 unfolding drain_and_stop_def Let_def s2_def [symmetric]
    by (auto split: option.splits)
qed

text \<open>The task lives and has an empty error slot, or it ended with an error that is there or was taken.\<close>

definition fx_inv :: "u64 list \<Rightarrow> flush_dispatcher \<Rightarrow> bool" where
  "fx_inv tos s =
     (if fx_drainer s then fx_error_state s = None \<and> fx_watched s = None
          \<and> map Flushed tos = map Flushed (fx_posted s) @ fx_channel s
      else (fx_error_state s = None) = (fx_watched s \<noteq> None) \<and> (\<exists>lost. lost \<noteq> [] \<and> tos = fx_posted s @ lost))"

lemma drainer_turn_inv:
  assumes "fx_inv tos s"
  shows "fx_inv tos (drainer_turn e s)"
proof (cases "fx_drainer s")
  case True
  then have eq: "map Flushed tos = map Flushed (fx_posted s) @ fx_channel s" "fx_error_state s = None"
    "fx_watched s = None"
    using assms by (simp_all add: fx_inv_def)
  show ?thesis
  proof (cases "fx_channel s")
    case Nil
    then show ?thesis using assms True by (simp add: drainer_turn_def)
  next
    case (Cons ev q)
    have "ev \<in> set (map Flushed tos)" using eq(1) Cons by simp
    then obtain to where ev: "ev = Flushed to" by auto
    obtain ys zs where tos: "tos = ys @ to # zs" "map Flushed ys = map Flushed (fx_posted s)"
      "map Flushed zs = q"
      using eq(1) Cons ev by (auto simp: map_eq_append_conv)
    then have ys: "ys = fx_posted s" by (simp add: inj_map_eq_map inj_def)
    obtain res I where "dispatch_batch e (flush_payload (fx_inner s) to) (fx_inner s) = (res, I)"
      by fastforce
    then show ?thesis
      using True Cons ev tos ys eq
      by (cases res) (auto simp: drainer_turn_def fx_inv_def)
  qed
qed (use assms in \<open>simp add: drainer_turn_def\<close>)

lemma fx_run_inv:
  "fx_inv (fx_accepted suppressed evs) (fold (fx_step suppressed) evs (dispatcher_new I ack0))"
proof (induction evs rule: rev_induct)
  case Nil
  show ?case by (simp add: fx_inv_def dispatcher_new_def)
next
  case (snoc ev evs)
  let ?s = "fold (fx_step suppressed) evs (dispatcher_new I ack0)"
  show ?case
  proof (cases ev)
    case (FxFlushed frm to)
    then show ?thesis using snoc
      by (auto simp: fx_step_def dispatcher_on_flushed_def channel_send_def fx_inv_def
          fx_accepted_append)
  next
    case (FxTurn e)
    then show ?thesis using drainer_turn_inv [OF snoc] by (simp add: fx_step_def fx_accepted_append)
  next
    case FxWatch
    then show ?thesis using snoc
      by (auto simp: fx_step_def watch_takes_def fx_inv_def fx_accepted_append split: option.splits)
  qed
qed

text \<open>The turns of a task whose channel ends with the mark.\<close>

lemma drain_turns:
  assumes "fx_drainer s" "fx_error_state s = None" "fx_channel s = map Flushed tos @ [ShutdownMark]"
  shows "let s' = fold (\<lambda>i. drainer_turn (es i)) is s in
    length is = Suc (length tos) \<longrightarrow>
      \<not> fx_drainer s' \<and> (fx_error_state s' = None \<longrightarrow> fx_posted s' = fx_posted s @ tos)
      \<and> (fx_error_state s' \<noteq> None \<longrightarrow> (\<exists>lost. lost \<noteq> [] \<and> fx_posted s @ tos = fx_posted s' @ lost))"
  using assms
proof (induction tos arbitrary: s "is")
  case Nil
  then show ?case
    by (auto simp: Let_def length_Suc_conv drainer_turn_def)
next
  case (Cons to tos)
  show ?case
  proof (cases "is")
    case Nil
    then show ?thesis by simp
  next
    case (Cons i js)
    obtain res I where d: "dispatch_batch (es i) (flush_payload (fx_inner s) to) (fx_inner s) = (res, I)"
      by fastforce
    show ?thesis
    proof (cases res)
      case (Inl x)
      define t where "t = s\<lparr>fx_inner := I, fx_channel := [], fx_drainer := False, fx_error_state := Some x\<rparr>"
      have t: "drainer_turn (es i) s = t" using Cons.prems d Inl by (simp add: drainer_turn_def t_def)
      have "fold (\<lambda>i. drainer_turn (es i)) js t = t"
        by (induction js) (simp_all add: t_def drainer_turn_def)
      then show ?thesis using \<open>is = i # js\<close> t by (simp add: Let_def t_def)
    next
      case (Inr u)
      define t where "t = s\<lparr>fx_inner := I, fx_channel := map Flushed tos @ [ShutdownMark],
        fx_ack := map_option (\<lambda>a. max a (to + 1)) (fx_ack s), fx_posted := fx_posted s @ [to],
        fx_sent := fx_sent s @ [(es i, fx_inner s, to)]\<rparr>"
      have t: "drainer_turn (es i) s = t" using Cons.prems d Inr by (simp add: drainer_turn_def t_def)
      have "fx_drainer t" "fx_error_state t = None" "fx_channel t = map Flushed tos @ [ShutdownMark]"
        and posted: "fx_posted t @ tos = fx_posted s @ to # tos"
        using Cons.prems by (simp_all add: t_def)
      from Cons.IH [OF this(1-3), of js] show ?thesis
        unfolding posted \<open>is = i # js\<close> by (simp add: Let_def t)
    qed
  qed
qed

lemma drain_and_stop_all:
  assumes "fx_inv tos s" "drain_and_stop es s = (res, s')"
  shows "\<not> fx_drainer s' \<and> (res = Ok () \<or> fx_watched s = None)
    \<and> (\<exists>lost. tos = fx_posted s' @ lost \<and> (lost = [] \<longleftrightarrow> res = Ok () \<and> fx_watched s = None))"
proof (cases "fx_drainer s")
  case True
  have "map Flushed tos = map Flushed (fx_posted s) @ fx_channel s" "fx_error_state s = None" "fx_watched s = None"
    using assms(1) True by (simp_all add: fx_inv_def)
  then obtain zs where zs: "tos = fx_posted s @ zs" "fx_channel s = map Flushed zs"
    by (auto simp: map_eq_append_conv inj_map_eq_map inj_def)
  define s1 where "s1 = s\<lparr>fx_channel := map Flushed zs @ [ShutdownMark]\<rparr>"
  define s2 where "s2 = fold (\<lambda>i. drainer_turn (es i)) [0..<Suc (length zs)] s1"
  have "fx_drainer s1" "fx_error_state s1 = None" "fx_channel s1 = map Flushed zs @ [ShutdownMark]"
    and posted: "fx_posted s1 = fx_posted s"
    using True \<open>fx_error_state s = None\<close> by (simp_all add: s1_def)
  from drain_turns [OF this(1-3), of es "[0..<Suc (length zs)]"]
  have "\<not> fx_drainer s2 \<and> (fx_error_state s2 = None \<longrightarrow> fx_posted s2 = fx_posted s @ zs)
      \<and> (fx_error_state s2 \<noteq> None \<longrightarrow> (\<exists>lost. lost \<noteq> [] \<and> fx_posted s @ zs = fx_posted s2 @ lost))"
    unfolding posted s2_def [symmetric] Let_def by simp
  moreover have "(res, s') = (case fx_error_state s2 of
      Some x \<Rightarrow> (Err x, s2\<lparr>fx_error_state := None\<rparr>) | None \<Rightarrow> (Ok (), s2))"
  proof -
    have "channel_send ShutdownMark s = s1" "length (fx_channel s1) = Suc (length zs)"
      using True zs(2) by (simp_all add: channel_send_def s1_def)
    then show ?thesis
      using assms(2) unfolding drain_and_stop_def Let_def by (simp only: s2_def [symmetric])
  qed
  ultimately show ?thesis using zs(1) \<open>fx_watched s = None\<close> by (cases "fx_error_state s2") auto
next
  case False
  have stay: "fold (\<lambda>i. drainer_turn (es i)) js s = s" for js
    by (induction js) (simp_all add: drainer_turn_def False)
  obtain lost where "(fx_error_state s = None) = (fx_watched s \<noteq> None)" "lost \<noteq> []" "tos = fx_posted s @ lost"
    using assms(1) False by (auto simp: fx_inv_def)
  then show ?thesis
    using assms(2) False by (auto simp: drain_and_stop_def channel_send_def Let_def stay split: option.splits)
qed

end
