(* ===== verification/Ack_Tracker.thy ===== *)
theory Ack_Tracker
  imports Kafka
begin

text \<open>
  Acknowledgement and source commits (\<open>crates/mirror-bin/src/ack_tracker.rs\<close>): what was delivered through
  which offset, per destination and for the notifier, the tick of the periodic commit task and the final
  commit.  Atomics are plain fields.  A commit flushes what was staged last; whether each library call
  succeeds is an argument, and so is the time since the last commit.
\<close>

record dest_ack_slot =
  da_name :: string
  da_flushed_through :: u64
  da_affects_readiness :: bool

definition slot_new :: "string \<Rightarrow> bool \<Rightarrow> dest_ack_slot" where
  "slot_new name affects = \<lparr>da_name = name, da_flushed_through = 0, da_affects_readiness = affects\<rparr>"

definition slot_note_through :: "u64 \<Rightarrow> dest_ack_slot \<Rightarrow> dest_ack_slot" where
  "slot_note_through through d = d\<lparr>da_flushed_through := max (da_flushed_through d) through\<rparr>"

record ack_tracker =
  at_notify :: "u64 option"
  at_destinations :: "dest_ack_slot list"

definition tracker_new :: "bool \<Rightarrow> dest_ack_slot list \<Rightarrow> ack_tracker" where
  "tracker_new notify_present dests =
     \<lparr>at_notify = (if notify_present then Some 0 else None), at_destinations = dests\<rparr>"

definition commit_offset :: "ack_tracker \<Rightarrow> u64" where
  "commit_offset t = (case at_notify t of
      Some n \<Rightarrow> n
    | None \<Rightarrow> unwrap_or (list_max (map da_flushed_through (at_destinations t))) 0)"

definition note_through :: "u64 \<Rightarrow> ack_tracker \<Rightarrow> ack_tracker" where
  "note_through through t = t\<lparr>at_notify := map_option (\<lambda>n. max n through) (at_notify t)\<rparr>"

text \<open>The shims: the \<open>i\<close>-th destination's flush, or its accepted write.\<close>

definition flush_ack :: "nat \<Rightarrow> u64 \<Rightarrow> u64 \<Rightarrow> ack_tracker \<Rightarrow> ack_tracker" where
  "flush_ack i frm to t = t\<lparr>at_destinations :=
     (at_destinations t)[i := slot_note_through (to + 1) (at_destinations t ! i)]\<rparr>"

definition write_ack :: "nat \<Rightarrow> u64 \<Rightarrow> ack_tracker \<Rightarrow> ack_tracker" where
  "write_ack i off t = t\<lparr>at_destinations :=
     (at_destinations t)[i := slot_note_through (off + 1) (at_destinations t ! i)]\<rparr>"

section \<open>Commits\<close>

definition commit_refresh_interval :: int where
  "commit_refresh_interval = 3600 * 1000000000"

text \<open>
  The commit task and the consumer it commits through: \<open>cm_committed\<close> lists the offsets whose commit was
  requested, each the one staged last at that time.
\<close>

record commit_task =
  cm_last_committed :: u64
  cm_staging :: staging
  cm_committed :: "u64 list"

definition commit_task_new :: commit_task where
  "commit_task_new = \<lparr>cm_last_committed = 0,
     cm_staging = \<lparr>sg_last_stored_offset = 0, sg_stored = []\<rparr>, cm_committed = []\<rparr>"

definition commit_pending :: "bool \<Rightarrow> commit_task \<Rightarrow> (source_error + unit) \<times> commit_task" where
  "commit_pending commit_ok c =
     (if \<not> commit_ok then (Err SrcTransport, c)
      else (Ok (), c\<lparr>cm_committed := cm_committed c
        @ (if sg_stored (cm_staging c) = [] then [] else [last (sg_stored (cm_staging c))])\<rparr>))"

definition commit_tick :: "bool \<Rightarrow> bool \<Rightarrow> bool \<Rightarrow> int \<Rightarrow> ack_tracker \<Rightarrow> commit_task \<Rightarrow> commit_task" where
  "commit_tick tpl_ok store_ok commit_ok elapsed t c =
     (let off = commit_offset t in
      if off = 0 then c
      else if off = cm_last_committed c \<and> elapsed < commit_refresh_interval then c
      else (case stage_offset tpl_ok store_ok off (cm_staging c) of
          (Inl _, g) \<Rightarrow> c\<lparr>cm_staging := g\<rparr>
        | (Inr _, g) \<Rightarrow> (case commit_pending commit_ok (c\<lparr>cm_staging := g\<rparr>) of
              (Inl _, c1) \<Rightarrow> c1
            | (Inr _, c1) \<Rightarrow> c1\<lparr>cm_last_committed := off\<rparr>)))"

definition final_commit :: "bool \<Rightarrow> bool \<Rightarrow> bool \<Rightarrow> ack_tracker \<Rightarrow> commit_task \<Rightarrow> commit_task" where
  "final_commit tpl_ok store_ok commit_ok t c =
     (let off = commit_offset t in
      if off = 0 then c
      else (case stage_offset tpl_ok store_ok off (cm_staging c) of
          (Inl _, g) \<Rightarrow> c\<lparr>cm_staging := g\<rparr>
        | (Inr _, g) \<Rightarrow> snd (commit_pending commit_ok (c\<lparr>cm_staging := g\<rparr>))))"

section \<open>What may be committed\<close>

datatype ack_event =
    NoteThrough u64
  | DestFlushed nat u64 u64
  | DestWritten nat u64
  | Tick bool bool bool int
  | Final bool bool bool

definition ack_step :: "ack_event \<Rightarrow> ack_tracker \<times> commit_task \<Rightarrow> ack_tracker \<times> commit_task" where
  "ack_step ev tc = (case ev of
      NoteThrough x \<Rightarrow> (note_through x (fst tc), snd tc)
    | DestFlushed i frm to \<Rightarrow> (flush_ack i frm to (fst tc), snd tc)
    | DestWritten i off \<Rightarrow> (write_ack i off (fst tc), snd tc)
    | Tick a b d e \<Rightarrow> (fst tc, commit_tick a b d e (fst tc) (snd tc))
    | Final a b d \<Rightarrow> (fst tc, final_commit a b d (fst tc) (snd tc)))"

definition committed_ok :: "ack_tracker \<Rightarrow> commit_task \<Rightarrow> bool" where
  "committed_ok t c = (staging_inv (cm_staging c) \<and> sorted_wrt (\<le>) (cm_committed c)
     \<and> (\<forall>x \<in> set (cm_committed c). x \<in> set (sg_stored (cm_staging c)))
     \<and> (\<forall>x \<in> set (sg_stored (cm_staging c)). x \<le> commit_offset t))"

lemma commit_offset_mono:
  "commit_offset t \<le> commit_offset (note_through x t)"
  "commit_offset t \<le> commit_offset (flush_ack i frm to t)"
  "commit_offset t \<le> commit_offset (write_ack i off t)"
proof -
  show "commit_offset t \<le> commit_offset (note_through x t)"
    by (simp add: commit_offset_def note_through_def split: option.splits)
  have grow: "unwrap_or (list_max (map da_flushed_through ds)) 0
      \<le> unwrap_or (list_max (map da_flushed_through (ds[i := slot_note_through y (ds ! i)]))) 0" for ds y
  proof (cases "i < length ds")
    case True
    let ?ds' = "ds[i := slot_note_through y (ds ! i)]"
    have ne: "ds \<noteq> []" "?ds' \<noteq> []" using True by auto
    have "Max (set (map da_flushed_through ds)) \<in> set (map da_flushed_through ds)"
      using ne(1) by (intro Max_in) auto
    then obtain j where j: "j < length ds" "Max (set (map da_flushed_through ds)) = da_flushed_through (ds ! j)"
      unfolding in_set_conv_nth by auto
    have "da_flushed_through (ds ! j) \<le> da_flushed_through (?ds' ! j)"
      using j(1) True by (cases "j = i") (simp_all add: slot_note_through_def)
    also have "\<dots> \<le> Max (set (map da_flushed_through ?ds'))"
      using j(1) by (intro Max_ge) (auto simp: in_set_conv_nth intro!: exI [of _ j])
    finally show ?thesis using ne j(2) by (simp add: list_max_def)
  qed (simp add: not_less list_update_beyond)
  show "commit_offset t \<le> commit_offset (flush_ack i frm to t)"
    using grow [of "at_destinations t" "to + 1"]
    by (simp add: commit_offset_def flush_ack_def split: option.splits)
  show "commit_offset t \<le> commit_offset (write_ack i off t)"
    using grow [of "at_destinations t" "off + 1"]
    by (simp add: commit_offset_def write_ack_def split: option.splits)
qed

lemma committed_ok_mono:
  "committed_ok t c \<Longrightarrow> commit_offset t \<le> commit_offset t' \<Longrightarrow> committed_ok t' c"
  unfolding committed_ok_def by (meson order_trans)

lemma stage_offset_stored:
  assumes "stage_offset a b x g = (r, g')"
  shows "sg_stored g' = sg_stored g \<or> sg_stored g' = sg_stored g @ [x]"
  using assms by (auto simp: stage_offset_def Let_def split: if_splits)

lemma staged_ok:
  assumes "committed_ok t c" "stage_offset a b (commit_offset t) (cm_staging c) = (r, g)"
  shows "committed_ok t (c\<lparr>cm_staging := g\<rparr>)"
  using assms stage_offset_inv [of "cm_staging c" a b "commit_offset t" r g]
    stage_offset_stored [OF assms(2)]
  by (auto simp: committed_ok_def)

lemma committed_le_last: "sorted_wrt (<) xs \<Longrightarrow> (x :: u64) \<in> set xs \<Longrightarrow> x \<le> last xs"
  by (cases xs rule: rev_cases) (auto simp: sorted_wrt_append intro: less_imp_le)

lemma committed_ok_last [simp]:
  "committed_ok t (c\<lparr>cm_last_committed := x\<rparr>) = committed_ok t c"
  by (simp add: committed_ok_def)

lemma pending_ok:
  assumes "committed_ok t c" "commit_pending ok c = (r, c')"
  shows "committed_ok t c'"
proof -
  let ?st = "sg_stored (cm_staging c)"
  have "\<forall>x \<in> set (cm_committed c). x \<le> last ?st" if "?st \<noteq> []"
  proof
    fix x assume "x \<in> set (cm_committed c)"
    then have "x \<in> set ?st" using assms(1) by (simp add: committed_ok_def)
    moreover have "sorted_wrt (<) ?st" using assms(1) by (simp add: committed_ok_def staging_inv_def)
    ultimately show "x \<le> last ?st" by (intro committed_le_last)
  qed
  then show ?thesis using assms
    by (auto simp: commit_pending_def committed_ok_def sorted_wrt_append split: if_splits)
qed

lemma commit_tick_ok:
  assumes "committed_ok t c"
  shows "committed_ok t (commit_tick a b d e t c)"
proof -
  obtain r g where g: "stage_offset a b (commit_offset t) (cm_staging c) = (r, g)" by fastforce
  obtain r1 c1 where c1: "commit_pending d (c\<lparr>cm_staging := g\<rparr>) = (r1, c1)" by fastforce
  have ok: "committed_ok t (c\<lparr>cm_staging := g\<rparr>)" by (rule staged_ok [OF assms g])
  note pending_ok [OF ok c1]
  then show ?thesis using assms ok
    by (simp add: commit_tick_def Let_def g c1 split: sum.splits)
qed

lemma final_commit_ok:
  assumes "committed_ok t c"
  shows "committed_ok t (final_commit a b d t c)"
proof -
  obtain r g where g: "stage_offset a b (commit_offset t) (cm_staging c) = (r, g)" by fastforce
  obtain r1 c1 where c1: "commit_pending d (c\<lparr>cm_staging := g\<rparr>) = (r1, c1)" by fastforce
  have ok: "committed_ok t (c\<lparr>cm_staging := g\<rparr>)" by (rule staged_ok [OF assms g])
  note pending_ok [OF ok c1]
  then show ?thesis using assms ok
    by (simp add: final_commit_def Let_def g c1 split: sum.splits)
qed

lemma ack_step_ok:
  assumes "committed_ok (fst tc) (snd tc)"
  shows "committed_ok (fst (ack_step ev tc)) (snd (ack_step ev tc))"
  using assms committed_ok_mono [OF assms] commit_offset_mono
  by (cases ev) (simp_all add: ack_step_def commit_tick_ok final_commit_ok)

lemma ack_run_ok:
  "committed_ok (fst tc) (snd tc) \<Longrightarrow>
   committed_ok (fst (fold ack_step evs tc)) (snd (fold ack_step evs tc))"
  by (induction evs arbitrary: tc) (simp_all add: ack_step_ok)

lemma committed_ok_new: "committed_ok t commit_task_new"
  by (simp add: committed_ok_def commit_task_new_def staging_inv_def)

section \<open>Staging that failed\<close>

text \<open>
  The guard remembers the offset before it is stored: when storing it fails, no later call for the
  same offset, or a lower one, stores anything, though each reports success.
\<close>

lemma failed_stage_not_retried:
  assumes "stage_offset a b x g = (Inl err, g')" "y \<le> x"
  shows "stage_offset a' b' y g' = (Ok (), g') \<and> sg_stored g' = sg_stored g"
proof -
  have g': "g' = g\<lparr>sg_last_stored_offset := max (sg_last_stored_offset g) x\<rparr>"
    using assms(1) by (auto simp: stage_offset_def Let_def split: if_splits)
  then have "y \<le> sg_last_stored_offset g'" using assms(2) by (simp add: le_max_iff_disj)
  moreover from this have "max (sg_last_stored_offset g') y = sg_last_stored_offset g'"
    by (simp add: max_absorb1)
  ultimately show ?thesis using g' by (simp add: stage_offset_def Let_def)
qed

end
