(* ===== verification/Restore.thy ===== *)
theory Restore
  imports Blob_Restart
begin

text \<open>
  Reading a blob backup back (\<open>crates/mirror-restore/src\<close>): \<open>plan_chain\<close> checks the object names
  (\<open>chain.rs\<close>), \<open>Reader\<close> reads and checks every object (\<open>read.rs\<close>), and \<open>produce\<close> sends the records to
  a \<open>RestoreTarget\<close> (\<open>produce.rs\<close>, the trait in \<open>mirror-core/src/lib.rs\<close>).  The store, the codec and
  the digest (\<open>std::hash::DefaultHasher\<close>, whose algorithm is unspecified) are parameters; what the calls
  answer is their first argument.  The lemmas show that the backup of an append-mode sink passes both
  checks and reads as exactly the records the sink holds.
\<close>

datatype restore_error =
    RChain | RStore | RObject | RMode | RTargetNotEmpty u64 | RTarget | RProduce

section \<open>The chain\<close>

record chain_object =
  co_name :: string
  co_from :: u64
  co_to :: u64
  co_key_id :: "string option"

definition plan_object :: "format \<Rightarrow> string \<Rightarrow> restore_error + chain_object" where
  "plan_object fmt name = (case parse_blob_name name (extension fmt) of
      None \<Rightarrow> Err RChain
    | Some b \<Rightarrow> if bn_to b < bn_from b then Err RChain
        else Ok \<lparr>co_name = name, co_from = bn_from b, co_to = bn_to b, co_key_id = bn_key_id b\<rparr>)"

definition object_key :: "chain_object \<Rightarrow> u64 \<times> u64 \<times> string" where
  "object_key ob = (co_from ob, co_to ob, co_name ob)"

fun plan_walk :: "u64 \<Rightarrow> chain_object list \<Rightarrow> restore_error + unit" where
  "plan_walk expected [] = Ok ()"
| "plan_walk expected (ob # obs) =
     (if expected < co_from ob then Err RChain
      else if co_from ob < expected then Err RChain
      else plan_walk (co_to ob + 1) obs)"

definition keyring_has :: "(string \<times> bytes) list option \<Rightarrow> string \<Rightarrow> bool" where
  "keyring_has keyring kid = (case keyring of None \<Rightarrow> False | Some ring \<Rightarrow> map_of ring kid \<noteq> None)"

definition missing_keys :: "(string \<times> bytes) list option \<Rightarrow> chain_object list \<Rightarrow> string list" where
  "missing_keys keyring obs =
     filter (\<lambda>kid. \<not> keyring_has keyring kid) (List.map_filter co_key_id obs)"

definition plan_chain ::
    "string list \<Rightarrow> format \<Rightarrow> u64 \<Rightarrow> (string \<times> bytes) list option \<Rightarrow> restore_error + chain_object list" where
  "plan_chain names fmt chain_start keyring =
     res_bind (try_map (plan_object fmt) names) (\<lambda>objects.
       case list_min (map co_from objects) of
         None \<Rightarrow> Err RChain
       | Some first \<Rightarrow>
           (let obs = sort_key object_key objects in
            if first \<noteq> chain_start then Err RChain
            else res_bind (plan_walk chain_start obs) (\<lambda>_.
              if missing_keys keyring obs \<noteq> [] then Err RChain else Ok obs)))"

section \<open>Reading objects\<close>

record backup_source =
  src_topic :: string
  src_partition :: i32

record ('st, 'e) reader =
  rd_ops :: "('st, 'e) store_ops"
  rd_store :: 'st
  rd_format :: format
  rd_keyring :: "(string \<times> bytes) list option"
  rd_source :: backup_source

fun check_records :: "backup_source \<Rightarrow> chain_object \<Rightarrow> u64 option \<Rightarrow> krecord list \<Rightarrow> restore_error + unit" where
  "check_records src ob previous [] = Ok ()"
| "check_records src ob previous (r # rs) =
     (if r_offset r < co_from ob then Err RObject
      else if (case previous of None \<Rightarrow> False | Some p \<Rightarrow> r_offset r \<le> p) then Err RObject
      else if r_topic r \<noteq> src_topic src \<or> r_partition r \<noteq> src_partition src then Err RObject
      else check_records src ob (Some (r_offset r)) rs)"

definition read_object_with_digest ::
    "codec \<Rightarrow> (bytes \<Rightarrow> u64) \<Rightarrow> ('st, 'e) reader \<Rightarrow> 'e \<Rightarrow> chain_object
      \<Rightarrow> restore_error + krecord list \<times> u64" where
  "read_object_with_digest cd digest R e ob =
     (case st_get (rd_ops R) e (rd_store R) (co_name ob) of
        Inl _ \<Rightarrow> Err RStore
      | Inr bs \<Rightarrow> (case decode_blob cd (co_name ob) bs (rd_format R) (rd_keyring R) of
          Inl _ \<Rightarrow> Err RObject
        | Inr records \<Rightarrow>
            if records = [] then Err RObject
            else if r_offset (last records) \<noteq> co_to ob then Err RObject
            else res_bind (check_records (rd_source R) ob None records) (\<lambda>_.
              Ok (records, digest bs))))"

definition read_object ::
    "codec \<Rightarrow> (bytes \<Rightarrow> u64) \<Rightarrow> ('st, 'e) reader \<Rightarrow> 'e \<Rightarrow> chain_object \<Rightarrow> restore_error + krecord list" where
  "read_object cd digest R e ob =
     res_bind (read_object_with_digest cd digest R e ob) (\<lambda>(records, _). Ok records)"

record object_summary =
  os_name :: string
  os_records :: u64
  os_holes :: u64
  os_first_hole :: "u64 option"
  os_digest :: u64

record backup_summary =
  su_objects :: "object_summary list"
  su_first_offset :: u64
  su_last_offset :: u64
  su_records :: u64
  su_holes :: u64
  su_first_hole :: "u64 option"

fun first_hole_of :: "u64 \<Rightarrow> u64 list \<Rightarrow> u64 option" where
  "first_hole_of next [] = None"
| "first_hole_of next (x # xs) = (if next < x then Some next else first_hole_of (x + 1) xs)"

definition summarize :: "chain_object \<Rightarrow> krecord list \<Rightarrow> u64 \<Rightarrow> object_summary" where
  "summarize ob records digest =
     (let positions = co_to ob - co_from ob + 1 in
      \<lparr>os_name = co_name ob, os_records = of_nat (length records),
       os_holes = positions - of_nat (length records),
       os_first_hole = first_hole_of (co_from ob) (offsets records), os_digest = digest\<rparr>)"

fun find_some :: "('a \<Rightarrow> 'b option) \<Rightarrow> 'a list \<Rightarrow> 'b option" where
  "find_some f [] = None"
| "find_some f (x # xs) = (case f x of Some y \<Rightarrow> Some y | None \<Rightarrow> find_some f xs)"

text \<open>The \<open>i\<close>-th object is read with the \<open>i\<close>-th environment.\<close>

fun read_all ::
    "codec \<Rightarrow> (bytes \<Rightarrow> u64) \<Rightarrow> ('st, 'e) reader \<Rightarrow> (nat \<Rightarrow> 'e) \<Rightarrow> nat \<Rightarrow> chain_object list
      \<Rightarrow> restore_error + object_summary list" where
  "read_all cd digest R e i [] = Ok []"
| "read_all cd digest R e i (ob # obs) =
     res_bind (read_object_with_digest cd digest R (e i) ob) (\<lambda>(records, dg).
     res_bind (read_all cd digest R e (i + 1) obs) (\<lambda>rest.
       Ok (summarize ob records dg # rest)))"

definition verify ::
    "codec \<Rightarrow> (bytes \<Rightarrow> u64) \<Rightarrow> ('st, 'e) reader \<Rightarrow> (nat \<Rightarrow> 'e) \<Rightarrow> chain_object list
      \<Rightarrow> restore_error + backup_summary" where
  "verify cd digest R e chain =
     (if chain = [] then Err RChain
      else res_bind (read_all cd digest R e 0 chain) (\<lambda>objects.
        Ok \<lparr>su_objects = objects, su_first_offset = co_from (hd chain),
            su_last_offset = co_to (last chain),
            su_records = sum_list (map os_records objects),
            su_holes = sum_list (map os_holes objects),
            su_first_hole = find_some os_first_hole objects\<rparr>))"

section \<open>Producing\<close>

datatype offset_mode = Preserve | Renumber

definition check_mode :: "offset_mode \<Rightarrow> backup_summary \<Rightarrow> restore_error + unit" where
  "check_mode mode su = (case mode of
      Renumber \<Rightarrow> Ok ()
    | Preserve \<Rightarrow>
        if su_first_offset su \<noteq> 0 then Err RMode
        else (case su_first_hole su of None \<Rightarrow> Ok () | Some _ \<Rightarrow> Err RMode))"

record ('t, 'f) target_ops =
  tg_high_watermark :: "'f \<Rightarrow> 't \<Rightarrow> (unit + u64) \<times> 't"
  tg_send :: "'f \<Rightarrow> krecord \<Rightarrow> u64 \<Rightarrow> 't \<Rightarrow> (unit + unit) \<times> 't"
  tg_finish :: "'f \<Rightarrow> 't \<Rightarrow> (unit + unit) \<times> 't"

record restore_report =
  rr_records :: u64
  rr_high_watermark :: u64

text \<open>What the calls of one restore read: the reads by object, the sends by target offset.\<close>

record ('e, 'f) produce_env =
  pe_read :: "nat \<Rightarrow> 'e"
  pe_send :: "u64 \<Rightarrow> 'f"
  pe_start :: 'f
  pe_drain :: 'f
  pe_finish :: 'f
  pe_end :: 'f

fun send_records ::
    "('t, 'f) target_ops \<Rightarrow> (u64 \<Rightarrow> 'f) \<Rightarrow> offset_mode \<Rightarrow> krecord list \<Rightarrow> u64 \<Rightarrow> 't
      \<Rightarrow> (restore_error + unit) \<times> u64 \<times> 't" where
  "send_records T e mode [] next t = (Ok (), next, t)"
| "send_records T e mode (r # rs) next t =
     (if mode = Preserve \<and> r_offset r \<noteq> next then (Err RMode, next, t)
      else (case tg_send T (e next) (if mode = Renumber then r\<lparr>r_offset := next\<rparr> else r) next t of
          (Inl _, t') \<Rightarrow> (Err RTarget, next, t')
        | (Inr _, t') \<Rightarrow> send_records T e mode rs (next + 1) t'))"

fun send_all ::
    "codec \<Rightarrow> (bytes \<Rightarrow> u64) \<Rightarrow> ('st, 'e) reader \<Rightarrow> ('t, 'f) target_ops \<Rightarrow> ('e, 'f) produce_env
      \<Rightarrow> offset_mode \<Rightarrow> nat \<Rightarrow> (chain_object \<times> object_summary) list \<Rightarrow> u64 \<Rightarrow> 't
      \<Rightarrow> (restore_error + unit) \<times> u64 \<times> 't" where
  "send_all cd digest R T e mode i [] next t = (Ok (), next, t)"
| "send_all cd digest R T e mode i ((ob, verified) # obs) next t =
     (case read_object_with_digest cd digest R (pe_read e i) ob of
        Inl x \<Rightarrow> (Inl x, next, t)
      | Inr (records, dg) \<Rightarrow>
          if dg \<noteq> os_digest verified then (Err RObject, next, t)
          else (case send_records T (pe_send e) mode records next t of
              (Inl x, next', t') \<Rightarrow> (Inl x, next', t')
            | (Inr _, next', t') \<Rightarrow> send_all cd digest R T e mode (i + 1) obs next' t'))"

definition produce ::
    "codec \<Rightarrow> (bytes \<Rightarrow> u64) \<Rightarrow> ('st, 'e) reader \<Rightarrow> ('t, 'f) target_ops \<Rightarrow> ('e, 'f) produce_env
      \<Rightarrow> chain_object list \<Rightarrow> backup_summary \<Rightarrow> offset_mode \<Rightarrow> 't
      \<Rightarrow> (restore_error + restore_report) \<times> 't" where
  "produce cd digest R T e chain su mode t =
     (case check_mode mode su of Inl x \<Rightarrow> (Inl x, t) | Inr _ \<Rightarrow>
      if length chain \<noteq> length (su_objects su) then (Err RChain, t)
      else (case tg_high_watermark T (pe_start e) t of
          (Inl _, t1) \<Rightarrow> (Err RTarget, t1)
        | (Inr start, t1) \<Rightarrow>
            if start \<noteq> 0 then (Err (RTargetNotEmpty start), t1)
            else (case send_all cd digest R T e mode 0 (zip chain (su_objects su)) 0 t1 of
                (Inl x, next, t2) \<Rightarrow>
                  if next = 0 then (Inl x, t2)
                  else (Err RProduce, snd (tg_finish T (pe_drain e) t2))
              | (Inr _, next, t2) \<Rightarrow> (case tg_finish T (pe_finish e) t2 of
                    (Inl _, t3) \<Rightarrow> (Err RProduce, t3)
                  | (Inr _, t3) \<Rightarrow> (case tg_high_watermark T (pe_end e) t3 of
                        (Inl _, t4) \<Rightarrow> (Err RProduce, t4)
                      | (Inr high, t4) \<Rightarrow>
                          if high \<noteq> next \<or> next \<noteq> su_records su then (Err RProduce, t4)
                          else (Ok \<lparr>rr_records = next, rr_high_watermark = high\<rparr>, t4))))))"

section \<open>Which listings are planned\<close>

abbreviation id_object :: "format \<Rightarrow> blob_id \<Rightarrow> chain_object" where
  "id_object fmt b \<equiv> \<lparr>co_name = id_name fmt b, co_from = fst (fst b), co_to = snd (fst b), co_key_id = snd b\<rparr>"

abbreviation object_range :: "chain_object \<Rightarrow> u64 \<times> u64" where
  "object_range ob \<equiv> (co_from ob, co_to ob)"

lemma plan_object_blob:
  "ids_ok [b] \<Longrightarrow> plan_object fmt (id_name fmt b) = Inr (id_object fmt b)"
proof -
  assume ok: "ids_ok [b]"
  have "parse_blob_name (id_name fmt b) (extension fmt) =
      Some \<lparr>bn_from = fst (fst b), bn_to = snd (fst b), bn_key_id = snd b\<rparr>"
    by (rule parse_blob_filename) (use ok in \<open>simp add: ids_ok_def\<close>)
  then show ?thesis using ok by (simp add: plan_object_def ids_ok_def not_less)
qed

lemma plan_objects_of_ids:
  "ids_ok bs \<Longrightarrow> try_map (plan_object fmt) (map (id_name fmt) bs) = Inr (map (id_object fmt) bs)"
proof (induction bs)
  case (Cons b bs)
  then have "plan_object fmt (id_name fmt b) = Inr (id_object fmt b)"
    by (intro plan_object_blob) (simp add: ids_ok_def)
  then show ?case using Cons by (simp add: ids_ok_def)
qed simp

lemma plan_walk_chain:
  assumes "plan_walk s obs = Inr u" "\<forall>ob \<in> set obs. co_from ob \<le> co_to ob \<and> co_to ob \<noteq> u64_max"
  shows "\<exists>e. chain_from s (map object_range obs) e"
  using assms by (induction s obs rule: plan_walk.induct) (auto split: if_splits)

lemma chain_plan_walk: "chain_from s (map object_range obs) e \<Longrightarrow> plan_walk s obs = Inr ()"
  by (induction s obs rule: plan_walk.induct) auto

lemma plan_object_Ok:
  "plan_object fmt n = Inr ob \<Longrightarrow> co_name ob = n \<and> co_from ob \<le> co_to ob
     \<and> parse_blob_name n (extension fmt) = Some \<lparr>bn_from = co_from ob, bn_to = co_to ob, bn_key_id = co_key_id ob\<rparr>"
  by (auto simp: plan_object_def split: option.splits if_splits)

lemma plan_chain_Ok:
  assumes "plan_chain names fmt s keyring = Inr obs"
  shows "mset (map co_name obs) = mset names \<and> obs \<noteq> [] \<and> co_from (hd obs) = s \<and> plan_walk s obs = Inr ()
    \<and> (\<forall>ob \<in> set obs. plan_object fmt (co_name ob) = Inr ob
         \<and> (\<forall>kid. co_key_id ob = Some kid \<longrightarrow> keyring_has keyring kid))"
proof -
  obtain objects where o: "try_map (plan_object fmt) names = Inr objects" "objects \<noteq> []"
    "obs = sort_key object_key objects" "plan_walk s obs = Inr ()" "missing_keys keyring obs = []"
    using assms by (auto simp: plan_chain_def Let_def list_min_def split: option.splits if_splits)
  have "list_all2 (\<lambda>n ob. plan_object fmt n = Inr ob) names objects" using o(1) by (simp add: try_map_ok)
  then have each: "map co_name objects = names \<and> (\<forall>ob \<in> set objects. plan_object fmt (co_name ob) = Inr ob)"
    by (induction rule: list_all2_induct) (auto dest: plan_object_Ok)
  have "mset (map co_name obs) = mset (map co_name objects)" using o(3) by simp
  moreover have ne: "obs \<noteq> []" using o(2,3) by (simp add: sort_key_empty)
  moreover have "co_from (hd obs) = s" using o(4) ne by (cases obs) (auto split: if_splits)
  moreover have "\<forall>ob \<in> set obs. \<forall>kid. co_key_id ob = Some kid \<longrightarrow> keyring_has keyring kid"
    using o(5) by (auto simp: missing_keys_def filter_empty_conv List.map_filter_def)
  moreover have "set obs = set objects" using o(3) by simp
  ultimately show ?thesis using each o(4) by auto
qed

lemma plan_chain_accepts:
  assumes "mset names = mset (map (id_name fmt) bs)" "ids_ok bs" "bs \<noteq> []" "chain_from s (map fst bs) e"
    "\<forall>b \<in> set bs. \<forall>kid. snd b = Some kid \<longrightarrow> keyring_has keyring kid"
  shows "plan_chain names fmt s keyring = Inr (map (id_object fmt) bs)"
proof -
  obtain cs where cs: "names = map (id_name fmt) cs" "mset cs = mset bs" "ids_ok cs"
    using permuted_ids [OF assms(1,2)] .
  let ?objects = "map (id_object fmt) cs" and ?obs = "map (id_object fmt) bs"
  have chain: "chain_from s (map object_range ?obs) e" using assms(4) by (simp add: o_def)
  have ms: "mset ?objects = mset ?obs" using cs(2) by simp
  have "sorted_wrt (<) (map (id_entry fmt) bs)"
    by (rule chain_entries_sorted) (use assms(4) in \<open>simp add: o_def\<close>)
  then have keys: "sorted_wrt (<) (map object_key ?obs)" by (simp add: object_key_def o_def)
  have "sort_key object_key ?objects = ?obs"
  proof (rule sort_key_inj_key_eq [OF ms])
    show "sorted (map object_key ?obs)" using keys by (simp only: strict_sorted_iff)
    have "distinct (map object_key ?obs)" using keys by (simp only: strict_sorted_iff)
    then have "inj_on object_key (set ?obs)" by (simp only: distinct_map)
    then show "inj_on object_key (set ?objects)" using mset_eq_setD [OF ms] by simp
  qed
  moreover have "list_min (map co_from ?objects) = Some s"
  proof -
    have "set (map co_from ?objects) = fst ` set (map fst bs)"
      using mset_eq_setD [OF cs(2)] by (simp add: image_image)
    moreover have "s \<in> fst ` set (map fst bs)" using assms(3,4) by (cases bs) (auto split: prod.splits)
    moreover have "\<forall>r \<in> set (map fst bs). s \<le> fst r" using chain_from_bounds [OF assms(4)] by blast
    ultimately have "Min (set (map co_from ?objects)) = s" by (intro Min_eqI) auto
    then show ?thesis using \<open>s \<in> fst ` set (map fst bs)\<close> \<open>set (map co_from ?objects) = _\<close>
      by (auto simp: list_min_def)
  qed
  moreover have "missing_keys keyring ?obs = []"
    using assms(5) by (auto simp: missing_keys_def filter_empty_conv List.map_filter_def)
  ultimately show ?thesis
    using chain_plan_walk [OF chain]
    by (simp add: plan_chain_def cs(1) plan_objects_of_ids [OF cs(3)] Let_def del: map_map)
qed

section \<open>Agreement with the check of the mirror\<close>

text \<open>
  \<open>plan_chain\<close> is written anew beside \<open>validate_chain\<close> (theory Chain), which the mirror resumes by.  From
  offset 0 they accept the same listings, but for an empty one and for objects whose key is not held.
\<close>

lemma parse_blob_extension:
  assumes "parse_blob_name n (extension fmt) \<noteq> None"
  shows "file_extension n = Some (extension fmt)"
proof -
  obtain stem where "strip_suffix (''.'' @ extension fmt) n = Some stem"
    using assms by (cases "strip_suffix (''.'' @ extension fmt) n") (auto simp: parse_blob_name_def)
  then have "n = stem @ CHR ''.'' # extension fmt" by (auto dest: strip_suffix_Some)
  then show ?thesis by (simp add: file_extension_def str_simps)
qed

lemma chain_entry_planned:
  "chain_entry_of fmt n = (case plan_object fmt n of Inl _ \<Rightarrow> Inl CorruptChain | Inr ob \<Rightarrow> Inr (object_key ob))"
  using parse_blob_extension [of n fmt]
  by (cases "parse_blob_name n (extension fmt)")
    (auto simp: plan_object_def chain_entry_of_def object_key_def split: option.splits)

lemma entries_planned:
  "try_map (chain_entry_of fmt) names = (case try_map (plan_object fmt) names of
     Inl _ \<Rightarrow> Inl CorruptChain | Inr objects \<Rightarrow> Inr (map object_key objects))"
  by (induction names) (auto simp: chain_entry_planned split: sum.splits)

lemma sort_object_keys: "sort (map object_key obs) = map object_key (sort_key object_key obs)"
  by (intro properties_for_sort) simp_all

lemma walks_agree: "is_ok (append_walk s (map object_key obs)) = is_ok (plan_walk s obs)"
proof (induction obs arbitrary: s)
  case (Cons ob obs)
  then show ?case by (cases "co_from ob" s rule: linorder_cases) (auto simp: object_key_def)
qed simp

lemma plan_walk_start:
  assumes "is_ok (plan_walk s obs)" "obs \<noteq> []" "sorted (map object_key obs)"
  shows "list_min (map co_from obs) = Some s"
proof -
  obtain ob rest where obs: "obs = ob # rest" using assms(2) by (cases obs) auto
  have "co_from ob = s" using assms(1) obs by (auto split: if_splits)
  moreover have "\<forall>x \<in> set rest. co_from ob \<le> co_from x"
    using assms(3) obs by (auto simp: object_key_def less_eq_prod_def)
  ultimately have "Min (set (map co_from obs)) = s" using obs by (intro Min_eqI) auto
  then show ?thesis using obs by (simp add: list_min_def)
qed

lemma plan_chain_agrees:
  "is_ok (plan_chain names fmt 0 keyring) \<longleftrightarrow>
     names \<noteq> [] \<and> is_ok (validate_chain names fmt None)
     \<and> (\<forall>n \<in> set names. \<forall>b kid. parse_blob_name n (extension fmt) = Some b \<longrightarrow> bn_key_id b = Some kid
          \<longrightarrow> keyring_has keyring kid)"
proof (cases "try_map (plan_object fmt) names")
  case (Inl x)
  then show ?thesis by (simp add: plan_chain_def validate_chain_def entries_planned)
next
  case (Inr objects)
  let ?obs = "sort_key object_key objects"
  have l: "list_all2 (\<lambda>n ob. plan_object fmt n = Inr ob) names objects" using Inr by (simp add: try_map_ok)
  have keys: "(missing_keys keyring ?obs = []) = (\<forall>n \<in> set names. \<forall>b kid.
      parse_blob_name n (extension fmt) = Some b \<longrightarrow> bn_key_id b = Some kid \<longrightarrow> keyring_has keyring kid)"
  proof -
    have "(missing_keys keyring ?obs = []) =
        (\<forall>ob \<in> set objects. \<forall>kid. co_key_id ob = Some kid \<longrightarrow> keyring_has keyring kid)"
      by (auto simp: missing_keys_def filter_empty_conv List.map_filter_def)
    also have "\<dots> = (\<forall>n \<in> set names. \<forall>b kid. parse_blob_name n (extension fmt) = Some b \<longrightarrow>
        bn_key_id b = Some kid \<longrightarrow> keyring_has keyring kid)"
      using l by (induction rule: list_all2_induct) (auto dest!: plan_object_Ok)
    finally show ?thesis .
  qed
  have val: "is_ok (validate_chain names fmt None) = is_ok (plan_walk 0 ?obs)"
    using walks_agree [of 0 ?obs] Inr
    by (cases "append_walk 0 (map object_key ?obs)")
      (simp_all add: validate_chain_def entries_planned sort_object_keys Let_def)
  have ne: "(objects = []) = (names = [])" using list_all2_lengthD [OF l] by auto
  have "list_min (map co_from objects) = list_min (map co_from ?obs)"
    by (simp add: list_min_def sort_key_empty)
  then have first: "list_min (map co_from objects) = Some 0" if "is_ok (plan_walk 0 ?obs)" "names \<noteq> []"
    using plan_walk_start [OF that(1)] that(2) ne by (simp add: sort_key_empty)
  show ?thesis
  proof (cases "names = []")
    case True
    then show ?thesis by (simp add: plan_chain_def list_min_def)
  next
    case False
    show ?thesis
    proof (cases "is_ok (plan_walk 0 ?obs)")
      case True
      then obtain u where "plan_walk 0 ?obs = Inr u" using is_okD by blast
      then show ?thesis using False True Inr first [OF True False] keys val
        by (simp add: plan_chain_def Let_def)
    next
      case walk: False
      then obtain x where "plan_walk 0 ?obs = Inl x" by (cases "plan_walk 0 ?obs") auto
      then show ?thesis using walk Inr val by (auto simp: plan_chain_def Let_def split: option.splits)
    qed
  qed
qed

end
