(* ===== verification/Supervisor.thy ===== *)
theory Supervisor
  imports Config Cache Tee_Contract Ack_Tracker Notify Flush_Dispatch Restore
begin

text \<open>
  The process (\<open>crates/mirror-bin/src/main.rs\<close>): what a configured mirror becomes.  The configuration's
  values are turned into those of the sinks, \<open>status\<close> queries both ends of every destination, \<open>run\<close>
  registers and spawns the enabled mirrors and waits for them, and a mirror that holds no state but its
  destinations is opened again after a transient failure.  An error is the list of the errors in
  \<open>anyhow\<close>'s chain, outermost first (\<open>COther\<close>: a context or a message).  What the brokers, stores and
  clients answer is a parameter, and so are the outcomes of a mirror's runs.
\<close>

section \<open>Values of the configuration\<close>

definition format_to_envelope :: "destination_format \<Rightarrow> format" where
  "format_to_envelope f = (case f of CfgParquet \<Rightarrow> Parquet | CfgNdjson \<Rightarrow> Ndjson)"

definition compression_to_envelope :: "cfg_compression \<Rightarrow> parquet_compression" where
  "compression_to_envelope c = (case c of
      CfgZstd1 \<Rightarrow> Zstd1 | CfgZstd3 \<Rightarrow> Zstd3 | CfgSnappy \<Rightarrow> Snappy | CfgLz4 \<Rightarrow> Lz4
    | CfgUncompressed \<Rightarrow> Uncompressed)"

definition column_type_to_envelope :: "cfg_column_type \<Rightarrow> column_type" where
  "column_type_to_envelope k = (case k of
      CfgBytes \<Rightarrow> CT_Bytes | CfgUtf8 \<Rightarrow> CT_Utf8 | CfgJson \<Rightarrow> CT_Json | CfgJsonParseable \<Rightarrow> CT_JsonParseable)"

definition compaction_to_fs :: "cfg_compaction option \<Rightarrow> compaction_mode option" where
  "compaction_to_fs c = map_option (\<lambda>CfgLog \<Rightarrow> CLog) c"

definition compaction_label :: "cfg_compaction option \<Rightarrow> string" where
  "compaction_label c = (case c of None \<Rightarrow> ''append'' | Some CfgLog \<Rightarrow> ''log'')"

definition timestamp_mode_to_kafka :: "cfg_timestamp_mode \<Rightarrow> timestamp_mode" where
  "timestamp_mode_to_kafka m = (case m of CfgSource \<Rightarrow> TmSource | CfgDestination \<Rightarrow> TmDestination)"

definition destination_type :: "destination \<Rightarrow> string" where
  "destination_type d = (case d of
      DKafka _ \<Rightarrow> ''kafka'' | DFilesystem _ \<Rightarrow> ''filesystem'' | DS3 _ \<Rightarrow> ''s3'')"

text \<open>\<open>anyhow::Error\<close>, as far as \<open>is_transient\<close> looks at it.\<close>

datatype cause =
    CMirror mirror_error
  | CSink sink_error
  | CSource source_error
  | CBlob blob_error
  | CRestore restore_error
  | CKafka kafka_error
  | COther

type_synonym error_chain = "cause list"

definition with_context :: "error_chain + 'a \<Rightarrow> error_chain + 'a" where
  "with_context r = (case r of Inl c \<Rightarrow> Err (COther # c) | Inr x \<Rightarrow> Ok x)"

record blob_params =
  bp_format :: format
  bp_compression :: parquet_compression
  bp_keys :: column_type
  bp_values :: column_type
  bp_flush :: flush_triggers

definition key_type :: "mirror_config \<Rightarrow> column_type" where
  "key_type m = column_type_to_envelope (cc_kind (unwrap_or (mc_keys m) column_default))"

definition value_type :: "mirror_config \<Rightarrow> column_type" where
  "value_type m = column_type_to_envelope (cc_kind (unwrap_or (mc_values m) column_default))"

definition resolve_blob_params :: "mirror_config \<Rightarrow> error_chain + blob_params" where
  "resolve_blob_params m = (case mc_flush m of
      None \<Rightarrow> Err [COther]
    | Some f \<Rightarrow> res_bind (case cf_daily f of
          None \<Rightarrow> Ok None
        | Some d \<Rightarrow> (case parse_at_utc d of Inl _ \<Rightarrow> Err [COther, COther] | Inr s \<Rightarrow> Ok (Some s)))
        (\<lambda>daily. Ok \<lparr>
          bp_format = format_to_envelope (unwrap_or (mc_format m) format_default),
          bp_compression = compression_to_envelope (unwrap_or (mc_compression m) compression_default),
          bp_keys = key_type m, bp_values = value_type m,
          bp_flush = \<lparr>ft_max_time = unat (cf_max_time_ms f) * 1000000, ft_max_bytes = cf_max_bytes f,
            ft_max_offsets = cf_max_offsets f, ft_daily_at_utc_seconds = daily\<rparr>\<rparr>))"

section \<open>Opening a destination\<close>

record s3_client =
  s3_region :: string
  s3_bucket :: string
  s3_access_key_id :: string
  s3_secret_access_key :: string
  s3_endpoint :: "string option"
  s3_allow_http :: bool

definition s3_store ::
    "(string \<Rightarrow> string option) \<Rightarrow> bool \<Rightarrow> s3_destination \<Rightarrow> s3_key \<Rightarrow> error_chain + s3_client" where
  "s3_store env build_ok d k =
     (case env (s3k_access_key_id_env k) of None \<Rightarrow> Err [COther, COther]
      | Some ident \<Rightarrow>
     (case env (s3k_secret_access_key_env k) of None \<Rightarrow> Err [COther, COther]
      | Some secret \<Rightarrow>
        if \<not> build_ok then Err [COther, COther]
        else Ok \<lparr>s3_region = sd_region d, s3_bucket = sd_bucket d, s3_access_key_id = ident,
          s3_secret_access_key = secret, s3_endpoint = sd_endpoint d,
          s3_allow_http = (case sd_endpoint d of
              None \<Rightarrow> False | Some e \<Rightarrow> strip_prefix ''http://'' e \<noteq> None)\<rparr>))"

text \<open>What each destination is opened with.  The keyring is the content of its directory.\<close>

record kafka_sink_config =
  kf_bootstrap_servers :: string
  kf_topic :: string
  kf_partition :: i32
  kf_timestamp_mode :: timestamp_mode
  kf_keys :: column_type
  kf_values :: column_type

record filesystem_sink_config =
  fc_root :: string
  fc_destination_name :: string
  fc_partition :: u32
  fc_spec :: blob_spec

record s3_sink_config =
  s3g_read_store :: s3_client
  s3g_write_store :: s3_client
  s3g_prefix :: "string option"
  s3g_destination_name :: string
  s3g_partition :: u32
  s3g_spec :: blob_spec

definition blob_spec_of :: "mirror_config \<Rightarrow> blob_params \<Rightarrow> blob_encryption option \<Rightarrow> blob_spec" where
  "blob_spec_of m p encryption = \<lparr>bs_format = bp_format p, bs_compression = bp_compression p,
     bs_keys = bp_keys p, bs_values = bp_values p, bs_compaction = compaction_to_fs (mc_compaction m),
     bs_flush = bp_flush p, bs_encryption = encryption\<rparr>"

definition s3_encryption ::
    "(string \<Rightarrow> error_chain + (string \<times> bytes) list) \<Rightarrow> s3_destination
      \<Rightarrow> error_chain + blob_encryption option" where
  "s3_encryption load_keys d = (case sd_encryption d of
      EncNone \<Rightarrow> Ok None
    | EncParquetKeys k \<Rightarrow> res_bind (with_context (load_keys (pk_keys_dir k))) (\<lambda>ring.
        if map_of ring (pk_key_id k) = None then Err [COther, COther]
        else Ok (Some \<lparr>be_key_id = pk_key_id k, be_keyring = ring\<rparr>)))"

definition s3_sink_config ::
    "(string \<Rightarrow> string option) \<Rightarrow> bool \<Rightarrow> (string \<Rightarrow> error_chain + (string \<times> bytes) list)
      \<Rightarrow> s3_destination \<Rightarrow> mirror_config \<Rightarrow> string \<Rightarrow> error_chain + s3_sink_config" where
  "s3_sink_config env build_ok load_keys d m name =
     res_bind (resolve_blob_params m) (\<lambda>p.
     res_bind (s3_store env build_ok d (s3c_read (sd_credentials d))) (\<lambda>rd.
     res_bind (s3_store env build_ok d (s3c_write (sd_credentials d))) (\<lambda>wr.
     res_bind (s3_encryption load_keys d) (\<lambda>encryption.
       Ok \<lparr>s3g_read_store = rd, s3g_write_store = wr, s3g_prefix = sd_prefix d,
         s3g_destination_name = name, s3g_partition = mc_partition m,
         s3g_spec = blob_spec_of m p encryption\<rparr>))))"

datatype inner_config =
    OpenKafka kafka_sink_config
  | OpenFilesystem filesystem_sink_config
  | OpenS3 s3_sink_config

definition inner_sink_config ::
    "(string \<Rightarrow> string option) \<Rightarrow> bool \<Rightarrow> (string \<Rightarrow> error_chain + (string \<times> bytes) list)
      \<Rightarrow> destination \<Rightarrow> mirror_config \<Rightarrow> string \<Rightarrow> error_chain + inner_config" where
  "inner_sink_config env build_ok load_keys d m name = (case d of
      DKafka k \<Rightarrow> Ok (OpenKafka \<lparr>kf_bootstrap_servers = kd_bootstrap_servers k,
        kf_topic = unwrap_or (kd_topic k) (mc_topic m), kf_partition = ucast (mc_partition m),
        kf_timestamp_mode =
          timestamp_mode_to_kafka (unwrap_or (mc_timestamp_mode m) timestamp_mode_default),
        kf_keys = key_type m, kf_values = value_type m\<rparr>)
    | DFilesystem f \<Rightarrow> res_bind (resolve_blob_params m) (\<lambda>p.
        Ok (OpenFilesystem \<lparr>fc_root = fd_root f, fc_destination_name = name,
          fc_partition = mc_partition m, fc_spec = blob_spec_of m p None\<rparr>))
    | DS3 s \<Rightarrow> res_bind (s3_sink_config env build_ok load_keys s m name) (\<lambda>c. Ok (OpenS3 c)))"

text \<open>\<open>opener\<close> opens a sink from its configuration: the three \<open>open\<close> functions.\<close>

definition open_inner_sink ::
    "(string \<Rightarrow> string option) \<Rightarrow> bool \<Rightarrow> (string \<Rightarrow> error_chain + (string \<times> bytes) list)
      \<Rightarrow> (inner_config \<Rightarrow> error_chain + 's) \<Rightarrow> destination \<Rightarrow> mirror_config \<Rightarrow> string
      \<Rightarrow> error_chain + 's" where
  "open_inner_sink env build_ok load_keys opener d m name =
     res_bind (inner_sink_config env build_ok load_keys d m name) (\<lambda>c. with_context (opener c))"

section \<open>Status\<close>

record status_row =
  sr_name :: string
  sr_source_high :: "u64 option"
  sr_dest_next :: "u64 option"
  sr_error :: "string option"

definition status_lag :: "status_row \<Rightarrow> i64 option" where
  "status_lag r = (case (sr_source_high r, sr_dest_next r) of
      (Some h, Some n) \<Rightarrow> Some (h - n)
    | _ \<Rightarrow> None)"

definition row_name :: "mirror_config \<Rightarrow> destination \<Rightarrow> string" where
  "row_name m d = (let dest_name = effective_name d (mc_name m) in
     if dest_name = mc_name m then mc_name m else mc_name m @ ''.'' @ dest_name)"

text \<open>The two queries: a value or the text of the error; the task of the first may itself fail.\<close>

definition compute_status_row ::
    "string + (string + u64) \<Rightarrow> string + u64 \<Rightarrow> mirror_config \<Rightarrow> destination \<Rightarrow> status_row" where
  "compute_status_row source dest m d =
     (let row = \<lparr>sr_name = row_name m d, sr_source_high = None, sr_dest_next = None, sr_error = None\<rparr> in
      case source of
        Inl e \<Rightarrow> row\<lparr>sr_error := Some (''source watermark task: '' @ e)\<rparr>
      | Inr (Inl e) \<Rightarrow> row\<lparr>sr_error := Some (''source watermark: '' @ e)\<rparr>
      | Inr (Inr high) \<Rightarrow> (case dest of
            Inr nxt \<Rightarrow> row\<lparr>sr_source_high := Some high, sr_dest_next := Some nxt\<rparr>
          | Inl e \<Rightarrow> row\<lparr>sr_source_high := Some high, sr_error := Some (''destination: '' @ e)\<rparr>))"

definition status_rows ::
    "(mirror_config \<Rightarrow> destination \<Rightarrow> string + (string + u64)) \<Rightarrow> (mirror_config \<Rightarrow> destination \<Rightarrow> string + u64)
      \<Rightarrow> mirror_config list \<Rightarrow> status_row list" where
  "status_rows source dest ms =
     concat (map (\<lambda>m. map (\<lambda>d. compute_status_row (source m d) (dest m d) m d) (mc_destinations m)) ms)"

text \<open>The exit status: whether any row failed.\<close>

definition any_errors :: "status_row list \<Rightarrow> bool" where
  "any_errors rows = list_ex (\<lambda>r. sr_error r \<noteq> None) rows"

definition pad_right :: "nat \<Rightarrow> string \<Rightarrow> string" where
  "pad_right w s = s @ replicate (w - length s) CHR '' ''"

definition pad_left :: "nat \<Rightarrow> string \<Rightarrow> string" where
  "pad_left w s = replicate (w - length s) CHR '' '' @ s"

definition dec_i64 :: "i64 \<Rightarrow> string" where
  "dec_i64 x = (if x <s 0 then ''-'' @ dec_of (nat (- sint x)) else dec_of (nat (sint x)))"

definition status_line :: "nat \<Rightarrow> status_row \<Rightarrow> string" where
  "status_line w r = (case sr_error r of
      Some e \<Rightarrow> pad_right w (sr_name r) @ ''  error: '' @ e
    | None \<Rightarrow> pad_right w (sr_name r)
        @ ''  '' @ pad_left 14 (unwrap_or (map_option (\<lambda>v. dec_of (unat v)) (sr_source_high r)) [])
        @ ''  '' @ pad_left 14 (unwrap_or (map_option (\<lambda>v. dec_of (unat v)) (sr_dest_next r)) [])
        @ ''  '' @ pad_left 10 (unwrap_or (map_option dec_i64 (status_lag r)) []))"

definition status_table :: "status_row list \<Rightarrow> string list" where
  "status_table rows =
     (let w = max (unwrap_or (list_max (map (\<lambda>r. length (sr_name r)) rows)) 6) 6 in
      (pad_right w ''MIRROR'' @ ''  '' @ pad_left 14 ''SOURCE-HIGH'' @ ''  ''
         @ pad_left 14 ''DEST-NEXT'' @ ''  '' @ pad_left 10 ''LAG'')
      # map (status_line w) rows)"

section \<open>Which mirrors are restarted in the process\<close>

definition serves_cache :: "mirror_config \<Rightarrow> bool" where
  "serves_cache m = (case mc_http_access m of None \<Rightarrow> False | Some h \<Rightarrow> any_enabled h)"

definition restarts_in_process :: "mirror_config \<Rightarrow> bool" where
  "restarts_in_process m = (\<not> serves_cache m \<and> mc_notify m = None)"

fun is_transient :: "error_chain \<Rightarrow> bool" where
  "is_transient [] = False"
| "is_transient (CMirror e # cs) = mirror_is_transient e"
| "is_transient (CSink e # cs) = sink_is_transient e"
| "is_transient (CSource e # cs) = source_is_transient e"
| "is_transient (CBlob e # cs) = (e = BStore)"
| "is_transient (CRestore e # cs) = (e = RStore)"
| "is_transient (CKafka e # cs) = (e = KRead)"
| "is_transient (COther # cs) = is_transient cs"

text \<open>Durations in seconds.\<close>

definition restart_backoff_min :: nat where "restart_backoff_min = 1"

definition restart_backoff_max :: nat where "restart_backoff_max = 60"

text \<open>
  One turn of \<open>supervise_in_process\<close>: how the run ended, what the shutdown flag said then, how long the run
  lasted (whether more than the cap), and whether the shutdown signal ended the wait.
\<close>

record attempt =
  at_result :: "error_chain + unit"
  at_shutting_down :: bool
  at_lasted :: nat
  at_stopped :: bool

datatype supervised = Supervising | SupervisedOk | SupervisedErr error_chain

text \<open>The loop over the given turns, with the seconds it waited after each failed one.\<close>

fun supervise_in_process :: "nat \<Rightarrow> attempt list \<Rightarrow> supervised \<times> nat list" where
  "supervise_in_process backoff [] = (Supervising, [])"
| "supervise_in_process backoff (a # as) = (case at_result a of
      Inr _ \<Rightarrow> (SupervisedOk, [])
    | Inl e \<Rightarrow>
        if at_shutting_down a \<or> \<not> is_transient e then (SupervisedErr e, [])
        else (let b = (if restart_backoff_max < at_lasted a then restart_backoff_min else backoff) in
          if at_stopped a then (SupervisedOk, [b])
          else (case supervise_in_process (min (b * 2) restart_backoff_max) as of
              (res, waits) \<Rightarrow> (res, b # waits))))"

text \<open>\<open>wait_mirrors\<close>, the tasks in the order in which they end.\<close>

fun wait_mirrors :: "(string \<times> (error_chain + unit)) list \<Rightarrow> error_chain + unit" where
  "wait_mirrors [] = Ok ()"
| "wait_mirrors ((name, r) # rest) = (case r of
      Inr _ \<Rightarrow> wait_mirrors rest
    | Inl e \<Rightarrow> Err (COther # e))"

end
