(* ===== verification/Spawn.thy ===== *)
theory Spawn
  imports Supervisor
begin

text \<open>
  Spawning (\<open>spawn_mirror\<close> and \<open>run\<close> in \<open>crates/mirror-bin/src/main.rs\<close>): the sink of a mirror without
  destinations, the tee with its resume floor, acknowledgement slots, the notifier or the flush
  dispatcher, and how a run ends.  The interpretations show that the in-memory sink and a tee over it
  keep the contract of the loop; the lemmas that a cache mirror begins at the low watermark and that
  its cache receives what the loop delivers, whatever the destinations do.
\<close>

section \<open>The sink of a mirror without destinations\<close>

record no_destination_sink =
  ns_position :: u64

definition no_destination_default :: no_destination_sink where
  "no_destination_default = \<lparr>ns_position = 0\<rparr>"

definition ns_write :: "krecord \<Rightarrow> no_destination_sink \<Rightarrow> (sink_error + unit) \<times> no_destination_sink" where
  "ns_write r s = (if r_offset r < ns_position s
     then (Err (UnexpectedPosition (ns_position s) (r_offset r)), s)
     else (Ok (), s\<lparr>ns_position := r_offset r + 1\<rparr>))"

definition no_destination_ops :: "(no_destination_sink, 'e) sink_ops" where
  "no_destination_ops = \<lparr>
     k_next_expected_offset = (\<lambda>e s. (Ok (ns_position s), s)),
     k_furthest_next_offset = default_furthest,
     k_write = (\<lambda>e. ns_write),
     k_flush = default_flush,
     k_align = (\<lambda>e low s. (Ok (), s\<lparr>ns_position := low\<rparr>)),
     k_allows_compacted_source = (\<lambda>s. True),
     k_allows_offset_holes = (\<lambda>s. True)\<rparr>"

text \<open>It keeps nothing, so it accepts whatever log there is; only its position counts.\<close>

interpretation no_dest: sink_contract no_destination_ops "\<lambda>s log. True" ns_position True
  by unfold_locales
    (auto simp: no_destination_ops_def default_furthest_def default_flush_def ns_write_def
      unwrap_or_def split: if_splits)

interpretation no_dest_tee: tee_of no_destination_ops "\<lambda>s log. True" ns_position True apply_cache cache0
    "[([], 0)]" for apply_cache cache0
  by unfold_locales simp

section \<open>Acknowledgement\<close>

text \<open>One slot for every destination, and the observer that feeds it.\<close>

datatype ack_hook = OnWritten | OnFlushed

definition ack_hook_of :: "destination \<Rightarrow> ack_hook" where
  "ack_hook_of d = (case d of DKafka _ \<Rightarrow> OnWritten | DFilesystem _ \<Rightarrow> OnFlushed | DS3 _ \<Rightarrow> OnFlushed)"

definition dest_ack_slots :: "mirror_config \<Rightarrow> dest_ack_slot list" where
  "dest_ack_slots m = map (\<lambda>d. slot_new (effective_name d (mc_name m)) (affects_readiness d)) (mc_destinations m)"

section \<open>Notification\<close>

text \<open>\<open>built\<close> is what \<open>from_config\<close> returns for the mirror's notify block.\<close>

definition build_source_consume_notifier ::
    "(notify_config \<Rightarrow> build_error + notify_inner) \<Rightarrow> mirror_config \<Rightarrow> bool
      \<Rightarrow> error_chain + (u64 option \<Rightarrow> notifier) option" where
  "build_source_consume_notifier built m cached = (case mc_notify m of
      None \<Rightarrow> Ok None
    | Some n \<Rightarrow>
        if \<not> cached then Err [COther]
        else (case built n of Inl _ \<Rightarrow> Err [COther, COther] | Inr I \<Rightarrow> Ok (Some (notifier_new I))))"

definition build_flush_dispatcher ::
    "(notify_config \<Rightarrow> build_error + notify_inner) \<Rightarrow> notify_config \<Rightarrow> bool
      \<Rightarrow> error_chain + (u64 option \<Rightarrow> flush_dispatcher)" where
  "build_flush_dispatcher built n cached =
     (if \<not> cached then Err [COther]
      else (case built n of Inl _ \<Rightarrow> Err [COther, COther] | Inr I \<Rightarrow> Ok (dispatcher_new I)))"

text \<open>
  From where the source is read again: from the low watermark for a cache, from what was notified for a
  notifier whose destinations are further.
\<close>

definition resume_floor ::
    "bool \<Rightarrow> bool \<Rightarrow> bool \<Rightarrow> u64 option \<Rightarrow> u64 \<Rightarrow> error_chain + u64 \<Rightarrow> error_chain + u64 option" where
  "resume_floor serves has_destinations notifies committed head low =
     (if serves \<and> has_destinations then res_bind low (\<lambda>l. Ok (Some l))
      else if notifies then (case committed of
          None \<Rightarrow> Ok None
        | Some c \<Rightarrow> if c < head then res_bind low (\<lambda>l. Ok (Some (max c l))) else Ok None)
      else Ok None)"

text \<open>The flush event made up for what is durable and was not notified.\<close>

definition catch_up ::
    "(u64 \<Rightarrow> bool) \<Rightarrow> u64 option \<Rightarrow> u64 \<Rightarrow> flush_dispatcher \<Rightarrow> flush_dispatcher" where
  "catch_up suppressed committed head d = (case committed of
      None \<Rightarrow> d
    | Some c \<Rightarrow> if c < head then dispatcher_on_flushed suppressed c (head - 1) d else d)"

section \<open>Spawning\<close>

text \<open>What the queries and the builders of one spawn answer.\<close>

record spawn_env =
  sv_source :: "error_chain + unit"
  sv_committed :: "error_chain + u64 option"
  sv_low :: "error_chain + u64"
  sv_built :: "notify_config \<Rightarrow> build_error + notify_inner"
  sv_suppressed :: "u64 \<Rightarrow> bool"

record ('s, 'c) spawned =
  sp_tee :: "('s, 'c) tee_sink"
  sp_ack_tracker :: ack_tracker
  sp_notifier :: "notifier option"
  sp_dispatcher :: "flush_dispatcher option"

definition spawn_tee ::
    "('s, 'e) sink_ops \<Rightarrow> (nat \<Rightarrow> 'e) \<Rightarrow> (string \<times> 's) list \<Rightarrow> 's \<Rightarrow> 'c option
      \<Rightarrow> error_chain + ('s, 'c) tee_sink" where
  "spawn_tee K e sinks none cache =
     (case tee_open K e (if sinks = [] then [(''none'', none)] else sinks) cache of
        Inl x \<Rightarrow> Err [COther, CSink x]
      | Inr t \<Rightarrow> Ok t)"

text \<open>The heads as the tee recorded them when it was opened.\<close>

definition min_of_heads :: "('s, 'c) tee_sink \<Rightarrow> u64" where
  "min_of_heads t = Min (set (map snd (heads t)))"

definition trigger_mode :: "mirror_config \<Rightarrow> trigger_on option" where
  "trigger_mode m = map_option (\<lambda>n. ng_on (nc_trigger n)) (mc_notify m)"

definition apply_floor :: "u64 option \<Rightarrow> ('s, 'c) tee_sink \<Rightarrow> ('s, 'c) tee_sink" where
  "apply_floor fl t = (case fl of None \<Rightarrow> t | Some f \<Rightarrow> set_resume_floor f t)"

definition spawn_notifier ::
    "spawn_env \<Rightarrow> mirror_config \<Rightarrow> bool \<Rightarrow> u64 option \<Rightarrow> error_chain + notifier option" where
  "spawn_notifier v m cached ack =
     (if trigger_mode m = Some SourceConsume
      then res_bind (build_source_consume_notifier (sv_built v) m cached)
        (\<lambda>n. Ok (map_option (\<lambda>f. f ack) n))
      else Ok None)"

definition spawn_dispatcher ::
    "spawn_env \<Rightarrow> mirror_config \<Rightarrow> bool \<Rightarrow> u64 option \<Rightarrow> u64 option \<Rightarrow> u64
      \<Rightarrow> error_chain + flush_dispatcher option" where
  "spawn_dispatcher v m cached ack committed head = (case mc_notify m of
      None \<Rightarrow> Ok None
    | Some n \<Rightarrow>
        if ng_on (nc_trigger n) = DestinationFlush
        then res_bind (build_flush_dispatcher (sv_built v) n cached)
          (\<lambda>f. Ok (Some (catch_up (sv_suppressed v) committed head (f ack))))
        else Ok None)"

definition spawn_mirror ::
    "('s, 'e) sink_ops \<Rightarrow> (nat \<Rightarrow> 'e) \<Rightarrow> spawn_env \<Rightarrow> mirror_config \<Rightarrow> error_chain + (string \<times> 's) list \<Rightarrow> 's
      \<Rightarrow> 'c option \<Rightarrow> error_chain + ('s, 'c) spawned" where
  "spawn_mirror K e v m opened none cache =
     res_bind (with_context (sv_source v)) (\<lambda>_.
     res_bind opened (\<lambda>sinks.
     res_bind (spawn_tee K e sinks none cache) (\<lambda>tee.
     (let tracker = tracker_new (mc_notify m \<noteq> None) (dest_ack_slots m);
          ack = at_notify tracker;
          head = min_of_heads tee in
     res_bind (if trigger_mode m \<noteq> None then sv_committed v else Ok None) (\<lambda>committed.
     res_bind (spawn_notifier v m (cache \<noteq> None) ack) (\<lambda>notifier.
     res_bind (resume_floor (serves_cache m) (mc_destinations m \<noteq> []) (notifier \<noteq> None) committed head
        (sv_low v)) (\<lambda>fl.
     res_bind (spawn_dispatcher v m (cache \<noteq> None) ack committed head) (\<lambda>dispatcher.
       Ok \<lparr>sp_tee = apply_floor fl tee, sp_ack_tracker = tracker, sp_notifier = notifier,
           sp_dispatcher = dispatcher\<rparr>))))))))"

text \<open>The sinks of a mirror's destinations, opened in order; the first error ends the spawn.\<close>

definition open_inner_sinks ::
    "(destination \<Rightarrow> mirror_config \<Rightarrow> string \<Rightarrow> error_chain + 's) \<Rightarrow> mirror_config
      \<Rightarrow> error_chain + (string \<times> 's) list" where
  "open_inner_sinks opn m = try_map (\<lambda>d. let name = effective_name d (mc_name m) in
     res_bind (opn d m name) (\<lambda>s. Ok (name, s))) (mc_destinations m)"

section \<open>The end of a run\<close>

text \<open>The first of the run loop and the watch on the notifications to end.\<close>

datatype race = RunEnded "mirror_error + unit" | DispatchFailed

definition racing_result :: "race \<Rightarrow> error_chain + unit" where
  "racing_result r = (case r of
      RunEnded (Inl e) \<Rightarrow> Err [CMirror e]
    | RunEnded (Inr _) \<Rightarrow> Ok ()
    | DispatchFailed \<Rightarrow> Err [COther])"

definition mirror_exit :: "race \<Rightarrow> notify_error + unit \<Rightarrow> error_chain + unit" where
  "mirror_exit r flush_drain = (case (racing_result r, flush_drain) of
      (Inr _, Inr _) \<Rightarrow> Ok ()
    | (Inl e, _) \<Rightarrow> Err (COther # e)
    | (Inr _, Inl _) \<Rightarrow> Err [COther])"

section \<open>The process\<close>

definition is_main :: "mirror_config \<Rightarrow> bool" where
  "is_main m = (case mc_http_access m of None \<Rightarrow> False | Some h \<Rightarrow> ha_cache_v1_main h \<noteq> None)"

definition register_one :: "u64 \<Rightarrow> u64 option \<Rightarrow> mirror_config \<Rightarrow> cache_state \<Rightarrow> cache_state" where
  "register_one hwm committed m c =
     (if serves_cache m
      then register_mirror_with_topic (mc_name m) hwm committed (is_main m) (mc_topic m) (mc_partition m) c
      else register_progress_only (mc_name m) hwm (mc_topic m) (mc_partition m) c)"

fun register_mirrors ::
    "(mirror_config \<Rightarrow> error_chain + u64) \<Rightarrow> (mirror_config \<Rightarrow> error_chain + u64 option)
      \<Rightarrow> mirror_config list \<Rightarrow> cache_state \<Rightarrow> error_chain + cache_state" where
  "register_mirrors hwm committed [] c = Ok c"
| "register_mirrors hwm committed (m # ms) c =
     res_bind (hwm m) (\<lambda>h. res_bind (committed m) (\<lambda>l.
       register_mirrors hwm committed ms (register_one h l m c)))"

datatype task = CacheHttpTask | SupervisedTask mirror_config | MirrorTask mirror_config

definition mirror_task :: "mirror_config \<Rightarrow> task" where
  "mirror_task m = (if restarts_in_process m then SupervisedTask m else MirrorTask m)"

text \<open>\<open>run\<close> up to its wait: the cache with a slot for every enabled mirror, and the tasks.\<close>

definition run_process ::
    "u64 \<Rightarrow> (mirror_config \<Rightarrow> error_chain + u64) \<Rightarrow> (mirror_config \<Rightarrow> error_chain + u64 option)
      \<Rightarrow> mirror_config list \<Rightarrow> error_chain + cache_state \<times> task list" where
  "run_process tolerance hwm committed ms =
     (let enabled = filter is_enabled ms in
      if enabled = [] then Err [COther]
      else res_bind (register_mirrors hwm committed enabled
             (with_readiness_lag_tolerance tolerance cache_new)) (\<lambda>c.
        Ok (c, (if list_ex serves_cache enabled then [CacheHttpTask] else []) @ map mirror_task enabled)))"

section \<open>Where a cache mirror starts\<close>

lemma choose_start_low:
  assumes "choose_start K e h low s = Inr (x, s')" "h \<le> low"
  shows "x = low"
  using assms by (auto simp: choose_start_def split: if_splits prod.splits sum.splits)

lemma requery_cursor:
  "tee_next_expected_offset K e t = (Inr h, t') \<Longrightarrow> te_resume_cursor t = Some c \<Longrightarrow> h \<le> c"
  by (auto simp: tee_next_expected_offset_def tee_position_def Let_def split: prod.splits sum.splits)

lemma start_at_low:
  assumes "start_mirror (tee_ops K apply) S e source t n = Inr st"
    and "s_low_watermark S (ste_low e) source = (Inr low, source1)"
    and "\<And>h t'. tee_next_expected_offset K (ste_next e) t = (Inr h, t') \<Longrightarrow> h \<le> low"
  shows "lp_expected st = low"
proof -
  obtain h t1 l src1 high src2 f t2 where
    n: "k_next_expected_offset (tee_ops K apply) (ste_next e) t = (Inr h, t1)" and
    l: "s_low_watermark S (ste_low e) source = (Inr l, src1)" and
    c: "choose_start (tee_ops K apply) (ste_align e) h l t2 = Inr (lp_expected st, lp_sink st)"
    by (rule start_mirror_Inr [OF assms(1)])
  have "h \<le> low" by (rule assms(3)) (use n in \<open>simp add: tee_ops_def\<close>)
  then show ?thesis using choose_start_low [OF c] l assms(2) by simp
qed

section \<open>What the cache of a tee receives\<close>

lemma loop_step_expected:
  assumes "loop_step K S N ev st = (res, st', rs)"
  shows "rs = [] \<and> (res = Running \<longrightarrow> lp_expected st' = lp_expected st)
    \<or> (\<exists>r. rs = [r] \<and> lp_expected st \<le> r_offset r
         \<and> (res = Running \<longrightarrow> r_offset r \<noteq> u64_max \<and> lp_expected st' = r_offset r + 1))"
  using assms
  by (auto simp: loop_step_def deliver_def Let_def finish_loop_def idle_check_def checked_succ not_less
      split: loop_event.splits prod.splits sum.splits option.splits if_splits)

lemma run_loop_delivers:
  "run_loop K S N evs st = (res, st', rs) \<Longrightarrow> increasing rs \<and> (\<forall>r \<in> set rs. lp_expected st \<le> r_offset r)"
proof (induction evs arbitrary: st rs)
  case (Cons ev evs)
  obtain r1 st1 rs1 where s: "loop_step K S N ev st = (r1, st1, rs1)" by (metis prod_cases3)
  note one = loop_step_expected [OF s]
  show ?case
  proof (cases "r1 = Running")
    case True
    then obtain rs2 where rest: "run_loop K S N evs st1 = (res, st', rs2)" "rs = rs1 @ rs2"
      using Cons.prems s by (auto split: prod.splits)
    have "increasing rs2" "\<forall>r \<in> set rs2. lp_expected st1 \<le> r_offset r"
      using Cons.IH [OF rest(1)] by auto
    then show ?thesis
      using one True rest(2)
      by (auto simp: increasing_append succ_le_iff increasing_def intro: less_imp_le le_less_trans)
  next
    case False
    then have "rs = rs1" using Cons.prems s by (auto split: loop_result.splits)
    then show ?thesis using one by (auto simp: increasing_def)
  qed
qed simp

lemma tee_keeps_cache:
  "tee_next_expected_offset K e t = (r, t') \<Longrightarrow> te_cache t' = te_cache t"
  "tee_flush K e t = (r2, t') \<Longrightarrow> te_cache t' = te_cache t"
  "tee_align K e low t = (r2, t') \<Longrightarrow> te_cache t' = te_cache t"
  "tee_furthest_next_offset K e t = (r3, t') \<Longrightarrow> te_cache t' = te_cache t"
  by (auto simp: tee_next_expected_offset_def tee_flush_def tee_align_def tee_furthest_next_offset_def Let_def
      split: prod.splits sum.splits option.splits)

lemma tee_write_cache:
  "tee_write K apply e r t = (u, t') \<Longrightarrow> te_cache t' = map_option (apply r) (te_cache t)"
  by (auto simp: tee_write_def advance_resume_cursor_def Let_def
      split: prod.splits sum.splits option.splits if_splits)

lemma loop_step_cache:
  assumes "loop_step (tee_ops K apply) S N ev st = (res, st', rs)" "intact res"
  shows "te_cache (lp_sink st') = map_option (fold apply rs) (te_cache (lp_sink st))"
  using assms
  by (auto simp: loop_step_def deliver_def Let_def finish_loop_def idle_check_def tee_ops_def intact_def
        option.map_id
      split: loop_event.splits prod.splits sum.splits option.splits if_splits
      dest!: tee_keeps_cache tee_write_cache)

lemma run_loop_cache:
  "run_loop (tee_ops K apply) S N evs st = (res, st', rs) \<Longrightarrow> intact res \<Longrightarrow>
     te_cache (lp_sink st') = map_option (fold apply rs) (te_cache (lp_sink st))"
proof (induction evs arbitrary: st rs)
  case Nil
  then show ?case by (cases "te_cache (lp_sink st)") auto
next
  case (Cons ev evs)
  obtain r1 st1 rs1 where s: "loop_step (tee_ops K apply) S N ev st = (r1, st1, rs1)" by (metis prod_cases3)
  show ?case
  proof (cases "r1 = Running")
    case True
    then obtain rs2 where rest: "run_loop (tee_ops K apply) S N evs st1 = (res, st', rs2)" "rs = rs1 @ rs2"
      using Cons.prems(1) s by (auto split: prod.splits)
    have "te_cache (lp_sink st1) = map_option (fold apply rs1) (te_cache (lp_sink st))"
      by (rule loop_step_cache [OF s]) (simp add: True intact_def)
    then show ?thesis
      using Cons.IH [OF rest(1) Cons.prems(2)] rest(2) by (simp add: option.map_comp o_def)
  next
    case False
    then have "rs = rs1" "res = r1" "st' = st1" using Cons.prems(1) s by (auto split: loop_result.splits)
    then show ?thesis using loop_step_cache [OF s] Cons.prems(2) by simp
  qed
qed

lemma start_mirror_cache:
  assumes "start_mirror (tee_ops K apply) S e source t n = Inr st"
  shows "te_cache (lp_sink st) = te_cache t"
proof -
  obtain h t1 low src1 high src2 f t2 where
    n: "k_next_expected_offset (tee_ops K apply) (ste_next e) t = (Inr h, t1)" and
    f: "k_furthest_next_offset (tee_ops K apply) (ste_furthest e) t1 = (Inr f, t2)" and
    c: "choose_start (tee_ops K apply) (ste_align e) h low t2 = Inr (lp_expected st, lp_sink st)"
    by (rule start_mirror_Inr [OF assms])
  have "te_cache t1 = te_cache t" "te_cache t2 = te_cache t1"
    using n f by (auto simp: tee_ops_def dest: tee_keeps_cache)
  moreover have "te_cache (lp_sink st) = te_cache t2"
    using c by (auto simp: choose_start_def tee_ops_def split: if_splits prod.splits sum.splits
        dest: tee_keeps_cache)
  ultimately show ?thesis by simp
qed

section \<open>Spawned cache mirrors\<close>

lemma tee_open_cache:
  "tee_open K e sinks cache = Inr t \<Longrightarrow> te_cache t = cache \<and> te_resume_cursor t = None"
  by (auto simp: tee_open_def split: if_splits sum.splits)

lemma spawn_mirror_Inr:
  assumes "spawn_mirror K e v m opened none cache = Inr sp"
  obtains sinks tee fl committed notifier where "opened = Inr sinks" "spawn_tee K e sinks none cache = Inr tee"
    "resume_floor (serves_cache m) (mc_destinations m \<noteq> []) (notifier \<noteq> None) committed (min_of_heads tee)
       (sv_low v) = Inr fl"
    "sp_tee sp = apply_floor fl tee" "sp_notifier sp = notifier"
  using assms unfolding spawn_mirror_def Let_def by (auto split: if_splits)

end
