(* ===== verification/Props_Notify.thy ===== *)
theory Props_Notify
  imports Fixtures Notify Flush_Dispatch Ack_Tracker Spawn
begin

text \<open>
  The properties of the webhook notifier, of the flush dispatcher and of the source commits that rest on
  their acknowledgements.
\<close>

section \<open>Fixtures\<close>

text \<open>A plain target and a name of two addresses; both answer 503 to the first attempt and 200 afterwards.\<close>

definition demo_inner :: notify_inner where
  "demo_inner = \<lparr>ni_endpoints = [\<lparr>ep_url = ''http://t/'', ep_target_host = ''t'', ep_fan_out = ModeNone\<rparr>,
       \<lparr>ep_url = ''http://pods/'', ep_target_host = ''pods'',
         ep_fan_out = ModeDnsA \<lparr>ds_host = ''pods'', ds_port = 80, ds_cached = None\<rparr>\<rparr>],
     ni_outcomes = outcomes_default, ni_retry = retry_default, ni_topic = ''orders'', ni_partition = 0\<rparr>"

definition demo_dispatch :: "u16 \<Rightarrow> dispatch_env" where
  "demo_dispatch later_status = \<lparr>de_body = (\<lambda>p. Some []), de_offsets = (\<lambda>p. Some ''{}''),
     de_post = (\<lambda>i attempt rq. HttpStatus (if attempt < 2 then 503 else later_status)),
     de_resolve = (\<lambda>i attempt. Some [''10.0.0.1:80'', ''10.0.0.2:80'']), de_now = (\<lambda>i attempt. 0),
     de_resolved_at = (\<lambda>i attempt. 0)\<rparr>"

definition demo_batch :: drained_batch where
  "demo_batch = \<lparr>db_offsets = [(''0'', 0)], db_updates = [''k'']\<rparr>"

text \<open>One record, drained at once; then the run loop shuts the notifier down.\<close>

definition demo_checked :: notifier where
  "demo_checked = on_record_check (\<lambda>_. False) (demo_rec 0) (notifier_new demo_inner (Some 0))"

definition demo_appended :: "u64 \<Rightarrow> notifier" where
  "demo_appended max_records = on_record_append max_records 0 ''k'' 0 demo_checked"

definition demo_notified :: notifier where
  "demo_notified = drain_dispatched (demo_dispatch 200) demo_batch False (drain_locked False (demo_appended 1))"

abbreviation demo_step where
  "demo_step max_records \<equiv> nf_step (\<lambda>_. False) max_records"

lemma demo_appended_reached:
  "(demo_step m)\<^sup>*\<^sup>* (notifier_new demo_inner (Some 0)) (demo_appended m)"
proof -
  have "nf_consumer (notifier_new demo_inner (Some 0)) = CnIdle" by (simp add: notifier_new_def)
  from nf_step.checked [OF this, of "\<lambda>_. False" m "demo_rec 0"]
  have 1: "demo_step m (notifier_new demo_inner (Some 0)) demo_checked" by (simp add: demo_checked_def)
  have "nf_consumer demo_checked = CnAppending ''k'' 0" by code_simp
  from nf_step.appended [OF this, of "\<lambda>_. False" m 0]
  have 2: "demo_step m demo_checked (demo_appended m)" by (simp add: demo_appended_def)
  from 1 2 show ?thesis by (meson converse_rtranclp_into_rtranclp r_into_rtranclp)
qed

lemma demo_notified_reached:
  "(demo_step 1)\<^sup>*\<^sup>* (notifier_new demo_inner (Some 0)) demo_notified"
proof -
  have c: "nf_consumer (demo_appended 1) = CnLocking False" by code_simp
  have l: "\<not> nf_dispatch_lock (demo_appended 1)" by code_simp
  note 1 = nf_step.lock [OF c l, of "\<lambda>_. False" 1]
  have "nf_consumer (drain_locked False (demo_appended 1)) = CnDispatching demo_batch False" by code_simp
  from nf_step.dispatched [OF this, of "\<lambda>_. False" 1 "demo_dispatch 200"]
  have "demo_step 1 (drain_locked False (demo_appended 1)) demo_notified" by (simp add: demo_notified_def)
  with 1 show ?thesis using demo_appended_reached [of 1]
    by (meson rtranclp.rtrancl_into_rtrancl)
qed

section \<open>The source-consume notifier\<close>

text \<open>
  C25: an acknowledged record was notified.  Whatever way the run loop, the timer, a terminal error and
  a shutdown interleave, and whichever dispatch fails, a buffered record below the acknowledged offset is
  in a batch that covers it and that went to all the configured targets: the dispatch was made, and at
  each target whose name has an address it ended with a success or with an outcome that the
  configuration accepts or skips.  So the source commit never passes an undelivered notification.
\<close>

theorem acked_records_were_notified:
  assumes "(nf_step suppressed max_records)\<^sup>*\<^sup>* (notifier_new I (Some 0)) s"
    and "sorted_wrt (<) (map snd (nf_fed s))" and "x \<in> set (nf_fed s)"
    and "nf_ack s = Some a" and "snd x < a"
  shows "\<exists>(e, J, d) \<in> set (nf_sent s). fst x \<in> set (db_updates d) \<and> snd x \<le> high_offset d
    \<and> configured J = configured I
    \<and> targets_settled e (payload_new (ni_topic J) (db_offsets d) (db_updates d)) J"
proof -
  obtain ok rest buf where "nf_shape s ok rest buf" using nf_reachable_shape [OF assms(1)] by blast
  from acked_covered [OF this assms(2-5)] obtain d where "d \<in> set (nf_delivered s)" "covered d x" by blast
  then show ?thesis using sent_ok_delivered [OF nf_reachable_sent [OF assms(1)]] by (fastforce simp: covered_def)
qed

theorem acked_records_were_notified_witness:
  "nf_ack demo_notified = Some 1 \<and> nf_fed demo_notified = [(''k'', 0)]
   \<and> (\<exists>(e, J, d) \<in> set (nf_sent demo_notified). ''k'' \<in> set (db_updates d) \<and> 0 \<le> high_offset d
      \<and> configured J = configured demo_inner
      \<and> targets_settled e (payload_new (ni_topic J) (db_offsets d) (db_updates d)) J)"
proof -
  have ack: "nf_ack demo_notified = Some 1" by code_simp
  have fed: "nf_fed demo_notified = [(''k'', 0)]" by code_simp
  have "sorted_wrt (<) (map snd (nf_fed demo_notified))" "(''k'', 0) \<in> set (nf_fed demo_notified)"
    by (simp_all add: fed)
  from acked_records_were_notified [OF demo_notified_reached this ack] ack fed show ?thesis by simp
qed

text \<open>
  C26: a graceful shutdown notifies and acknowledges everything: when \<open>shutdown\<close> returns without an error,
  every record that was buffered since the start is in a batch that covers it and that went to all the
  configured targets, and the acknowledged offset is above every one of them (the largest 64 bit offset
  has no successor and is excepted).
\<close>

theorem shutdown_notifies_everything:
  assumes "(nf_step suppressed max_records)\<^sup>*\<^sup>* (notifier_new I (Some 0)) s"
    and "nf_consumer s = CnFinished" and "x \<in> set (nf_fed s)"
  shows "(\<exists>(e, J, d) \<in> set (nf_sent s). fst x \<in> set (db_updates d) \<and> snd x \<le> high_offset d
      \<and> configured J = configured I
      \<and> targets_settled e (payload_new (ni_topic J) (db_offsets d) (db_updates d)) J)
    \<and> ((\<forall>y \<in> set (nf_fed s). snd y \<noteq> u64_max) \<longrightarrow> (\<exists>a. nf_ack s = Some a \<and> snd x < a))"
proof -
  obtain ok rest buf where "nf_shape s ok rest buf" using nf_reachable_shape [OF assms(1)] by blast
  from finished_covered [OF this assms(2,3)] obtain d where d: "d \<in> set (nf_delivered s)" "covered d x"
    and ack: "\<forall>a. nf_ack s = Some a \<longrightarrow> (\<forall>y \<in> set (nf_fed s). snd y \<noteq> u64_max) \<longrightarrow> snd x < a" by blast
  note sent = nf_reachable_sent [OF assms(1)]
  have "nf_ack s \<noteq> None" using sent by (simp add: sent_ok_def)
  moreover have "\<exists>(e, J, d) \<in> set (nf_sent s). fst x \<in> set (db_updates d) \<and> snd x \<le> high_offset d
      \<and> configured J = configured I
      \<and> targets_settled e (payload_new (ni_topic J) (db_offsets d) (db_updates d)) J"
    using d sent_ok_delivered [OF sent] by (fastforce simp: covered_def)
  ultimately show ?thesis using ack by blast
qed

text \<open>The record stays in the buffer until the shutdown drains it.\<close>

definition demo_finished :: notifier where
  "demo_finished = shutdown_finish (Inr ()) (drain_dispatched (demo_dispatch 200) demo_batch True
     (drain_locked True (shutdown_begin (demo_appended 100))))"

lemma demo_finished_reached:
  "(demo_step 100)\<^sup>*\<^sup>* (notifier_new demo_inner (Some 0)) demo_finished"
proof -
  let ?a = "demo_appended 100" and ?b = "shutdown_begin (demo_appended 100)"
  have "nf_consumer ?a = CnIdle" by code_simp
  then have 1: "demo_step 100 ?a ?b" by (rule nf_step.shutdown)
  have c: "nf_consumer ?b = CnLocking True" by code_simp
  have l: "\<not> nf_dispatch_lock ?b" by code_simp
  note 2 = nf_step.lock [OF c l, of "\<lambda>_. False" 100]
  have "nf_consumer (drain_locked True ?b) = CnDispatching demo_batch True" by code_simp
  note 3 = nf_step.dispatched [OF this, of "\<lambda>_. False" 100 "demo_dispatch 200"]
  have "nf_consumer (drain_dispatched (demo_dispatch 200) demo_batch True (drain_locked True ?b))
    = CnAborting (Inr ())" by code_simp
  note 4 = nf_step.finish [OF this, of "\<lambda>_. False" 100]
  from demo_appended_reached [of 100] 1 2 3 4 show ?thesis unfolding demo_finished_def
    by (meson rtranclp.rtrancl_into_rtrancl)
qed

theorem shutdown_notifies_everything_witness:
  "nf_consumer demo_finished = CnFinished
   \<and> (\<exists>(e, J, d) \<in> set (nf_sent demo_finished). ''k'' \<in> set (db_updates d) \<and> 0 \<le> high_offset d
      \<and> configured J = configured demo_inner
      \<and> targets_settled e (payload_new (ni_topic J) (db_offsets d) (db_updates d)) J)
   \<and> (\<exists>a. nf_ack demo_finished = Some a \<and> 0 < a)"
proof -
  have fin: "nf_consumer demo_finished = CnFinished" by code_simp
  have fed: "nf_fed demo_finished = [(''k'', 0)]" by code_simp
  then have "(''k'', 0) \<in> set (nf_fed demo_finished)" by simp
  from shutdown_notifies_everything [OF demo_finished_reached fin this] fin fed
  show ?thesis by (simp add: u64_max_def)
qed

text \<open>
  C27: a buffered record is not forgotten.  In every reachable state with records in the buffer, as long
  as the timer lives, no shutdown began and nothing is being dispatched, the timer alone can go on to
  dispatch all of them, whatever records follow or not.
\<close>

theorem buffered_records_reach_dispatch:
  assumes "(nf_step suppressed max_records)\<^sup>*\<^sup>* (notifier_new I (Some 0)) s"
    and "\<not> buffer_is_empty (nf_buffer s)" and "\<not> nf_dispatch_lock s" and "\<not> nf_shutting_down s"
    and "nf_timer s \<noteq> TmExited"
  shows "\<exists>s' d. (nf_step suppressed max_records)\<^sup>*\<^sup>* s s' \<and> nf_timer s' = TmDispatching d
    \<and> (\<forall>x \<in> set (nf_fed s). (\<exists>d' \<in> set (nf_delivered s). covered d' x) \<or> covered d x
         \<or> stopped_by_error s)"
proof -
  obtain ok rest buf where shape: "nf_shape s ok rest buf" using nf_reachable_shape [OF assms(1)] by blast
  note armed = nf_reachable_armed [OF assms(1)]
  obtain s' d where *: "(nf_step suppressed max_records)\<^sup>*\<^sup>* s s'" "nf_timer s' = TmDispatching d"
    "covers_all d buf"
    using timer_reaches_dispatch [OF shape conjunct1 [OF armed] conjunct2 [OF armed] assms(2-5)] by blast
  have "rest = [] \<or> stopped_by_error s"
    using shape assms(3) by (auto simp: nf_shape_def nf_phase_def timer_holds_lock_def consumer_holds_lock_def)
  then have "\<forall>x \<in> set (nf_fed s). (\<exists>d' \<in> set (nf_delivered s). covered d' x) \<or> covered d x
      \<or> stopped_by_error s"
    using shape *(3) by (auto simp: nf_shape_def covers_all_def)
  then show ?thesis using *(1,2) by blast
qed

theorem buffered_records_reach_dispatch_witness:
  "\<not> buffer_is_empty (nf_buffer (demo_appended 100))
   \<and> (\<exists>s' d. (demo_step 100)\<^sup>*\<^sup>* (demo_appended 100) s' \<and> nf_timer s' = TmDispatching d)"
proof -
  have ne: "\<not> buffer_is_empty (nf_buffer (demo_appended 100))" by code_simp
  have l: "\<not> nf_dispatch_lock (demo_appended 100)" by code_simp
  have sd: "\<not> nf_shutting_down (demo_appended 100)" by code_simp
  have t: "nf_timer (demo_appended 100) \<noteq> TmExited" by code_simp
  from buffered_records_reach_dispatch [OF demo_appended_reached ne l sd t] ne show ?thesis by blast
qed

section \<open>Dispatch\<close>

text \<open>
  C28: the retry policy.  A dispatch to an address ends after at most \<open>max-attempts\<close> attempts (one, when
  that is zero); every attempt but the last failed with an outcome that is retried, the last one
  succeeded, is not retried or used up the attempts, and it decides: a success delivers, any other outcome takes its final action.
\<close>

theorem dispatch_attempts_bounded:
  "\<exists>n. 1 \<le> n \<and> n \<le> max 1 (nr_max_attempts (ni_retry I))
    \<and> (\<forall>k. 1 \<le> k \<longrightarrow> k < n \<longrightarrow> post_once I e i k rq \<noteq> OutTwoXx
         \<and> no_retry (for_outcome (ni_outcomes I) (post_once I e i k rq)))
    \<and> (post_once I e i n rq = OutTwoXx \<or> \<not> no_retry (for_outcome (ni_outcomes I) (post_once I e i n rq))
         \<or> nr_max_attempts (ni_retry I) \<le> n)
    \<and> post_loop I e i rq 1 =
       (if post_once I e i n rq = OutTwoXx then Ok ()
        else apply_final_action (for_outcome (ni_outcomes I) (post_once I e i n rq)) n)"
  using post_loop_spec [of 1 I e i rq] by (auto simp: le_max_iff_disj)

theorem dispatch_attempts_bounded_witness:
  "\<exists>n. n \<le> 5 \<and> post_loop demo_inner (demo_dispatch 200) 0
      \<lparr>rq_url = [], rq_addr = None, rq_topic = [], rq_offsets = [], rq_body = []\<rparr> 1 =
       (if post_once demo_inner (demo_dispatch 200) 0 n
            \<lparr>rq_url = [], rq_addr = None, rq_topic = [], rq_offsets = [], rq_body = []\<rparr> = OutTwoXx
        then Ok () else apply_final_action (for_outcome (ni_outcomes demo_inner)
          (post_once demo_inner (demo_dispatch 200) 0 n
            \<lparr>rq_url = [], rq_addr = None, rq_topic = [], rq_offsets = [], rq_body = []\<rparr>)) n)"
proof -
  have "max 1 (nr_max_attempts (ni_retry demo_inner)) = 5"
    by (simp add: demo_inner_def retry_default_def max_def word_le_nat_alt)
  then show ?thesis
    using dispatch_attempts_bounded [of demo_inner "demo_dispatch 200" 0
      "\<lparr>rq_url = [], rq_addr = None, rq_topic = [], rq_offsets = [], rq_body = []\<rparr>"] by metis
qed

text \<open>
  C29: a batch whose dispatch returns without an error was posted to every target.  At a plain target the
  last attempt that was made, and at a name the last round of posts, to all the addresses that its
  resolution (or the endpoint's cached one) gave, ended with successes or with outcomes that the
  configuration accepts or skips; a name whose resolver gives no address at all is excepted, since
  there is nobody to post to.
\<close>

theorem dispatched_batch_settles_every_target:
  assumes "dispatch_batch e payload I = (Ok (), I')" and "i < length (ni_endpoints I)"
    and "some_address e i (ni_endpoints I ! i)"
  shows "target_settled I e i (ni_endpoints I ! i) payload"
  using dispatch_batch_settled [OF assms(1)] assms(2,3) by (simp add: targets_settled_def)

theorem dispatched_batch_settles_every_target_witness:
  "fst (dispatch_drained (demo_dispatch 200) demo_batch demo_inner) = Ok ()
   \<and> target_settled demo_inner (demo_dispatch 200) 1 (ni_endpoints demo_inner ! 1)
       (payload_new ''orders'' [(''0'', 0)] [''k''])"
proof -
  let ?p = "payload_new ''orders'' [(''0'', 0)] [''k'']"
  have ok: "fst (dispatch_batch (demo_dispatch 200) ?p demo_inner) = Ok ()" by code_simp
  then have run: "dispatch_batch (demo_dispatch 200) ?p demo_inner =
      (Ok (), snd (dispatch_batch (demo_dispatch 200) ?p demo_inner))" by (simp add: prod_eq_iff)
  have "1 < length (ni_endpoints demo_inner)" by (simp add: demo_inner_def)
  moreover have "some_address (demo_dispatch 200) 1 (ni_endpoints demo_inner ! 1)"
    by (simp add: some_address_def demo_inner_def demo_dispatch_def)
  moreover have "fst (dispatch_drained (demo_dispatch 200) demo_batch demo_inner) = Ok ()" by code_simp
  ultimately show ?thesis using dispatched_batch_settles_every_target [OF run] by blast
qed

section \<open>Flush notifications\<close>

text \<open>
  C30: flush notifications are posted to the configured targets in the order of the flushes, each once,
  and the acknowledged offset is behind the highest one posted.  When the dispatcher is stopped its task
  has ended, and no loss is silent: every reported flush that was not suppressed was posted, or else
  exactly one of \<open>drain_and_stop\<close> and the watch that races the run loop has the error.  The watch's error
  ends the race, so a mirror whose run returns without an error has posted them all.
\<close>

theorem flush_events_posted_in_order:
  assumes "drain_and_stop es (fold (fx_step suppressed) evs (dispatcher_new I (Some 0))) = (res, s)"
    and "fx_watched s \<noteq> None \<longrightarrow> race = DispatchFailed"
  shows "\<not> fx_drainer s \<and> fx_ack s = ack_of (Some 0) (fx_posted s)
    \<and> (\<exists>lost. fx_accepted suppressed evs = fx_posted s @ lost
        \<and> (lost = [] \<longleftrightarrow> res = Ok () \<and> fx_watched s = None))
    \<and> (res = Ok () \<or> fx_watched s = None)
    \<and> (mirror_exit race res = Ok () \<longrightarrow> fx_accepted suppressed evs = fx_posted s)
    \<and> map (\<lambda>(e, J, to). to) (fx_sent s) = fx_posted s
    \<and> (\<forall>(e, J, to) \<in> set (fx_sent s). configured J = configured I
         \<and> targets_settled e (flush_payload J to) J)"
proof -
  note sent = drain_and_stop_sent [OF fx_run_sent assms(1)]
  have all: "\<not> fx_drainer s" "res = Ok () \<or> fx_watched s = None"
    "\<exists>lost. fx_accepted suppressed evs = fx_posted s @ lost
        \<and> (lost = [] \<longleftrightarrow> res = Ok () \<and> fx_watched s = None)"
    using drain_and_stop_all [OF fx_run_inv assms(1)] conjunct2 [OF sent] by simp_all
  have "fx_accepted suppressed evs = fx_posted s" if "mirror_exit race res = Ok ()"
  proof -
    have "res = Ok ()" "race \<noteq> DispatchFailed"
      using that by (auto simp: mirror_exit_def racing_result_def split: sum.splits race.splits)
    then show ?thesis using all(3) assms(2) by auto
  qed
  then show ?thesis using all conjunct1 [OF sent] unfolding fx_sent_ok_def by blast
qed

definition demo_flushes :: "fx_event list" where
  "demo_flushes = [FxFlushed 0 4, FxFlushed 5 9, FxTurn (demo_dispatch 200), FxFlushed 10 11]"

text \<open>The third flush is answered with 400: without the watch the error is the drain's, with it the watch's.\<close>

definition demo_plain :: notify_inner where
  "demo_plain = demo_inner\<lparr>ni_endpoints := take 1 (ni_endpoints demo_inner)\<rparr>"

definition demo_drained :: "fx_event list \<Rightarrow> (notify_error + unit) \<times> flush_dispatcher" where
  "demo_drained later = drain_and_stop (\<lambda>i. demo_dispatch (if i = 0 then 200 else 400))
     (fold (fx_step (\<lambda>to. to < 3)) (demo_flushes @ later) (dispatcher_new demo_plain (Some 0)))"

definition demo_watched :: "fx_event list" where
  "demo_watched = [FxTurn (demo_dispatch 200), FxTurn (demo_dispatch 400), FxWatch]"

theorem flush_events_posted_in_order_witness:
  "fst (demo_drained []) = Err (NtfExhausted 2) \<and> fx_ack (snd (demo_drained [])) = Some 10
   \<and> (\<exists>lost. fx_accepted (\<lambda>to. to < 3) (demo_flushes @ []) = fx_posted (snd (demo_drained [])) @ lost \<and> lost \<noteq> [])
   \<and> fst (demo_drained demo_watched) = Ok () \<and> fx_watched (snd (demo_drained demo_watched)) = Some (NtfExhausted 2)
   \<and> (\<exists>lost. fx_accepted (\<lambda>to. to < 3) (demo_flushes @ demo_watched) =
        fx_posted (snd (demo_drained demo_watched)) @ lost \<and> lost \<noteq> [])"
proof -
  have run: "drain_and_stop (\<lambda>i. demo_dispatch (if i = 0 then 200 else 400))
     (fold (fx_step (\<lambda>to. to < 3)) (demo_flushes @ later) (dispatcher_new demo_plain (Some 0)))
     = (fst (demo_drained later), snd (demo_drained later))" for later
    by (simp add: demo_drained_def)
  have 1: "fst (demo_drained []) = Err (NtfExhausted 2)" by code_simp
  have 2: "fx_ack (snd (demo_drained [])) = Some 10" by code_simp
  have 3: "fst (demo_drained demo_watched) = Ok ()" by code_simp
  have 4: "fx_watched (snd (demo_drained demo_watched)) = Some (NtfExhausted 2)" by code_simp
  note flush_events_posted_in_order [OF run, of _ DispatchFailed]
  from this [of "[]"] this [of demo_watched] 1 2 3 4 show ?thesis by auto
qed

section \<open>Source commits\<close>




text \<open>
  Staging that failed is not retried.  After storing an offset failed, every later tick at the same
  offset reports success without storing it, so the commit stays behind until a higher offset is
  acknowledged.
\<close>

theorem failed_staging_not_retried:
  assumes "stage_offset tpl_ok store_ok x g = (Inl err, g')" and "y \<le> x"
  shows "stage_offset tpl_ok' store_ok' y g' = (Ok (), g') \<and> sg_stored g' = sg_stored g"
  by (rule failed_stage_not_retried [OF assms])

theorem failed_staging_not_retried_witness:
  "let g = \<lparr>sg_last_stored_offset = 3, sg_stored = [3]\<rparr>;
       g' = snd (stage_offset True False 7 g)
   in stage_offset True True 7 g' = (Ok (), g') \<and> sg_stored g' = [3]"
proof -
  have "stage_offset True False 7 \<lparr>sg_last_stored_offset = 3, sg_stored = [3]\<rparr> =
      (Inl SrcTransport, \<lparr>sg_last_stored_offset = 7, sg_stored = [3]\<rparr>)" by code_simp
  from failed_staging_not_retried [OF this, of 7 True True] this show ?thesis by (simp add: Let_def)
qed

end
