(* ===== verification/Restore_Exact.thy ===== *)
theory Restore_Exact
  imports Restore
begin

text \<open>
  What a backup reads as.  For any store that keeps the contract of \<open>blob_store\<close>, the objects of an
  append-mode sink (\<open>chain_state\<close>, theory Blob_Restart) pass the checks of the reader and read as the
  records the sink holds, in order; and what \<open>produce\<close> sends to any target that keeps the contract
  \<open>restore_target\<close> is what was read.
\<close>

section \<open>Contiguous offsets\<close>

definition contig :: "u64 \<Rightarrow> u64 list \<Rightarrow> bool" where
  "contig s xs = (xs = map (\<lambda>i. s + of_nat i) [0..<length xs])"

lemma contig_Nil [simp]: "contig s []"
  by (simp add: contig_def)

lemma contig_Cons [simp]: "contig s (x # xs) = (x = s \<and> contig (s + 1) xs)"
proof -
  have "map (\<lambda>i. s + of_nat i) [0..<Suc n] = s # map (\<lambda>i. s + 1 + of_nat i) [0..<n]" for n
    by (simp add: upt_conv_Cons map_Suc_upt [symmetric] o_def add.assoc del: upt_Suc)
  then show ?thesis by (simp add: contig_def del: upt_Suc)
qed

lemma contig_append: "contig s (xs @ ys) = (contig s xs \<and> contig (s + of_nat (length xs)) ys)"
  by (induction xs arbitrary: s) (simp_all add: ac_simps)

lemma contig_last: "contig s xs \<Longrightarrow> xs \<noteq> [] \<Longrightarrow> s + of_nat (length xs) = last xs + 1"
proof (induction xs arbitrary: s)
  case (Cons x xs)
  then show ?case
  proof (cases "xs = []")
    case False
    then have "s + 1 + of_nat (length xs) = last xs + 1" using Cons.IH [of "s + 1"] Cons.prems(1) by simp
    then show ?thesis using False by (simp add: ac_simps)
  qed simp
qed simp

lemma first_hole_contig:
  "sorted_wrt (<) xs \<Longrightarrow> \<forall>x \<in> set xs. s \<le> x \<and> x \<noteq> u64_max \<Longrightarrow> (first_hole_of s xs = None) = contig s xs"
proof (induction xs arbitrary: s)
  case (Cons x xs)
  have "\<forall>y \<in> set xs. x + 1 \<le> y \<and> y \<noteq> u64_max" using Cons.prems by (auto intro: succ_le)
  then have "(first_hole_of (x + 1) xs = None) = contig (x + 1) xs" using Cons by simp
  moreover have "\<not> s < x \<Longrightarrow> x = s" using Cons.prems(2) by auto
  ultimately show ?case by auto
qed simp

lemma find_some_None: "(find_some f xs = None) = (\<forall>x \<in> set xs. f x = None)"
  by (induction xs) (auto split: option.splits)

section \<open>One object\<close>

lemma check_records_ok:
  "(check_records src ob previous rs = Ok ()) =
     ((\<forall>r \<in> set rs. co_from ob \<le> r_offset r \<and> r_topic r = src_topic src \<and> r_partition r = src_partition src)
      \<and> increasing rs \<and> (\<forall>p. previous = Some p \<longrightarrow> (\<forall>r \<in> set rs. p < r_offset r)))"
proof (induction rs arbitrary: previous)
  case (Cons r rs)
  have "increasing (r # rs) = ((\<forall>x \<in> set rs. r_offset r < r_offset x) \<and> increasing rs)"
    by (simp add: increasing_def)
  then show ?case using Cons.IH [of "Some (r_offset r)"]
    by (auto simp: not_le not_less split: option.splits intro: less_trans)
qed simp

lemma read_object_Ok:
  assumes "read_object_with_digest cd digest R e ob = Inr (rs, dg)"
  shows "\<exists>bs. st_get (rd_ops R) e (rd_store R) (co_name ob) = Inr bs \<and> dg = digest bs
    \<and> decode_blob cd (co_name ob) bs (rd_format R) (rd_keyring R) = Inr rs"
  using assms by (auto simp: read_object_with_digest_def split: sum.splits if_splits)

text \<open>The records of every object, in chain order.\<close>

fun read_records ::
    "codec \<Rightarrow> (bytes \<Rightarrow> u64) \<Rightarrow> ('st, 'e) reader \<Rightarrow> (nat \<Rightarrow> 'e) \<Rightarrow> nat \<Rightarrow> chain_object list
      \<Rightarrow> restore_error + krecord list" where
  "read_records cd digest R e i [] = Ok []"
| "read_records cd digest R e i (ob # obs) =
     res_bind (read_object cd digest R (e i) ob) (\<lambda>rs.
     res_bind (read_records cd digest R e (i + 1) obs) (\<lambda>rest. Ok (rs @ rest)))"

section \<open>The backup of a sink\<close>

definition reader_of :: "('st, 'e) store_ops \<Rightarrow> blob_spec \<Rightarrow> backup_source \<Rightarrow> 'st \<Rightarrow> ('st, 'e) reader" where
  "reader_of ops spec src st = \<lparr>rd_ops = ops, rd_store = st, rd_format = bs_format spec,
     rd_keyring = map_option be_keyring (bs_encryption spec), rd_source = src\<rparr>"

definition of_source :: "backup_source \<Rightarrow> krecord list \<Rightarrow> bool" where
  "of_source src rs = (\<forall>r \<in> set rs. r_topic r = src_topic src \<and> r_partition r = src_partition src)"

text \<open>Reading works: every object that is there can be fetched.\<close>

definition reads_work :: "('st, 'e) store_ops \<Rightarrow> (nat \<Rightarrow> 'e) \<Rightarrow> 'st \<Rightarrow> string set \<Rightarrow> bool" where
  "reads_work ops e st ns = (\<forall>i. \<forall>n \<in> ns. is_ok (st_get ops (e i) st n))"

lemma summarize_exact:
  assumes "object_exact b rs" "increasing rs" "snd (fst b) \<noteq> u64_max"
  shows "(os_first_hole (summarize (id_object fmt b) rs dg) = None) = contig (fst (fst b)) (offsets rs)"
proof -
  have "\<forall>x \<in> set (offsets rs). fst (fst b) \<le> x \<and> x \<noteq> u64_max"
  proof
    fix x assume "x \<in> set (offsets rs)"
    then obtain r where r: "r \<in> set rs" "x = r_offset r" by auto
    have "x \<le> snd (fst b)"
      using increasing_le_last [OF assms(2) r(1)] assms(1) r(2) by (simp add: object_exact_def)
    then show "fst (fst b) \<le> x \<and> x \<noteq> u64_max"
      using assms(1,3) r antisym [OF u64_le_max, of "snd (fst b)"] by (auto simp: object_exact_def)
  qed
  then show ?thesis
    using first_hole_contig [of "offsets rs"] assms(2) by (simp add: summarize_def Let_def increasing_def)
qed

context blob_store
begin

lemma read_object_content:
  assumes "invar st" "ids_ok bs" "b \<in> set bs"
    "read_object_with_digest cd digest (reader_of ops spec src st) e (id_object (bs_format spec) b) = Inr (rs, dg)"
  shows "content cd spec (objects st) (id_name (bs_format spec) b) = Some rs"
proof -
  obtain bs' where g: "st_get ops e st (id_name (bs_format spec) b) = Inr bs'"
    "decode_blob cd (id_name (bs_format spec) b) bs' (bs_format spec)
       (map_option be_keyring (bs_encryption spec)) = Inr rs"
    using read_object_Ok [OF assms(4)] by (auto simp: reader_of_def)
  have "objects st (id_name (bs_format spec) b) = Some bs'"
    by (rule get_ok [OF assms(1) g(1) id_name_ok [OF assms(2,3)]])
  then show ?thesis using g(2) by (simp add: content_def)
qed

text \<open>Whatever is read of a sink's backup without an error is what the sink holds.\<close>

lemma read_records_content:
  assumes "invar st" "ids_ok bs"
  shows "contents (content cd spec (objects st)) (names_of spec bs) = Some rs \<Longrightarrow>
    read_records cd digest (reader_of ops spec src st) e i (map (id_object (bs_format spec)) bs) = Inr rs' \<Longrightarrow>
    rs' = rs"
  using assms(2)
proof (induction bs arbitrary: i rs rs')
  case (Cons b bs)
  obtain x dg rest where r: "read_object_with_digest cd digest (reader_of ops spec src st) (e i)
      (id_object (bs_format spec) b) = Inr (x, dg)"
    "read_records cd digest (reader_of ops spec src st) e (i + 1) (map (id_object (bs_format spec)) bs) = Inr rest"
    "rs' = x @ rest"
    using Cons.prems(2) by (auto simp: read_object_def)
  have "content cd spec (objects st) (id_name (bs_format spec) b) = Some x"
    by (rule read_object_content [OF assms(1) Cons.prems(3) _ r(1)]) simp
  then obtain y where y: "contents (content cd spec (objects st)) (names_of spec bs) = Some y" "rs = x @ y"
    using Cons.prems(1) by (auto split: option.splits)
  have "rest = y" by (rule Cons.IH [OF y(1) r(2)]) (use Cons.prems(3) in \<open>simp add: ids_ok_def\<close>)
  then show ?case using r(3) y(2) by simp
qed simp

text \<open>And nothing but a failing store keeps it from being read.\<close>

lemma read_object_exact:
  assumes "invar st" "ids_ok bs" "b \<in> set bs"
    "content cd spec (objects st) (id_name (bs_format spec) b) = Some rs" "object_exact b rs"
    "increasing rs" "of_source src rs" "is_ok (st_get ops e st (id_name (bs_format spec) b))"
  shows "\<exists>dg. read_object_with_digest cd digest (reader_of ops spec src st) e
    (id_object (bs_format spec) b) = Inr (rs, dg)"
proof -
  let ?n = "id_name (bs_format spec) b"
  obtain bs' where g: "st_get ops e st ?n = Inr bs'" using is_okD [OF assms(8)] by blast
  have "objects st ?n = Some bs'" by (rule get_ok [OF assms(1) g id_name_ok [OF assms(2,3)]])
  then have d: "decode_blob cd ?n bs' (bs_format spec) (map_option be_keyring (bs_encryption spec)) = Inr rs"
    using assms(4) by (auto simp: content_def split: sum.splits)
  have "check_records src (id_object (bs_format spec) b) None rs = Ok ()"
    using assms(5-7) by (simp add: check_records_ok object_exact_def of_source_def)
  then show ?thesis
    using g d assms(5) by (auto simp: read_object_with_digest_def reader_of_def object_exact_def)
qed

lemma read_all_exact:
  assumes "invar st" "reads_work ops e st (set (names_of spec bs))"
  shows "ids_ok bs \<Longrightarrow> objects_exact cd spec (objects st) bs \<Longrightarrow>
    contents (content cd spec (objects st)) (names_of spec bs) = Some rs \<Longrightarrow> increasing rs \<Longrightarrow>
    of_source src rs \<Longrightarrow> chain_from s (map fst bs) d \<Longrightarrow>
    \<exists>sums. read_all cd digest (reader_of ops spec src st) e i (map (id_object (bs_format spec)) bs) = Inr sums
      \<and> length sums = length bs \<and> sum_list (map os_records sums) = of_nat (length rs)
      \<and> (find_some os_first_hole sums = None) = contig s (offsets rs)"
  using assms(2)
proof (induction bs arbitrary: i rs s)
  case (Cons b bs)
  let ?fmt = "bs_format spec"
  obtain x where x: "content cd spec (objects st) (id_name ?fmt b) = Some x" "object_exact b x"
    using Cons.prems(2) by (auto simp: objects_exact_def)
  obtain y where y: "contents (content cd spec (objects st)) (names_of spec bs) = Some y" "rs = x @ y"
    using Cons.prems(3) x(1) by (auto split: option.splits)
  have inc: "increasing x" "increasing y" and src: "of_source src x" "of_source src y"
    using Cons.prems(4,5) y(2) by (auto simp: increasing_append of_source_def)
  obtain dg where dg: "read_object_with_digest cd digest (reader_of ops spec src st) (e i)
      (id_object ?fmt b) = Inr (x, dg)"
    using read_object_exact [OF assms(1) Cons.prems(1) _ x inc(1) src(1), of "e i" digest] Cons.prems(7)
    by (auto simp: reads_work_def)
  have to: "fst (fst b) = s" "snd (fst b) \<noteq> u64_max" "chain_from (snd (fst b) + 1) (map fst bs) d"
    using Cons.prems(6) by (cases b; auto)+
  have rest: "ids_ok bs" "objects_exact cd spec (objects st) bs"
    "reads_work ops e st (set (names_of spec bs))"
    using Cons.prems(1,2,7) by (auto simp: ids_ok_def objects_exact_def reads_work_def)
  from Cons.IH [OF rest(1,2) y(1) inc(2) src(2) to(3) rest(3), of "i + 1"]
  obtain sums where sums: "read_all cd digest (reader_of ops spec src st) e (i + 1)
      (map (id_object ?fmt) bs) = Inr sums" "length sums = length bs"
    "sum_list (map os_records sums) = of_nat (length y)"
    "(find_some os_first_hole sums = None) = contig (snd (fst b) + 1) (offsets y)"
    by (elim exE conjE)
  have hole: "(os_first_hole (summarize (id_object ?fmt b) x dg) = None) = contig s (offsets x)"
    using summarize_exact [OF x(2) inc(1) to(2)] to(1) by simp
  have next': "contig s (offsets x) \<Longrightarrow> s + of_nat (length x) = snd (fst b) + 1"
    using contig_last [of s "offsets x"] x(2) by (simp add: object_exact_def last_map)
  have "(find_some os_first_hole (summarize (id_object ?fmt b) x dg # sums) = None) = contig s (offsets rs)"
    using hole sums(4) next' y(2) by (auto simp: contig_append split: option.splits)
  moreover have "os_records (summarize (id_object ?fmt b) x dg) = of_nat (length x)"
    by (simp add: summarize_def Let_def)
  ultimately show ?case using dg sums(1-3) y(2) by simp
qed simp

lemma chain_keys_held:
  assumes "ids_ok bs" "objects_exact cd spec objs bs" "b \<in> set bs" "snd b = Some kid"
  shows "keyring_has (map_option be_keyring (bs_encryption spec)) kid"
proof -
  obtain rs where "content cd spec objs (id_name (bs_format spec) b) = Some rs"
    using assms(2,3) by (auto simp: objects_exact_def)
  moreover have "parse_blob_name (id_name (bs_format spec) b) (extension (bs_format spec)) =
      Some \<lparr>bn_from = fst (fst b), bn_to = snd (fst b), bn_key_id = snd b\<rparr>"
    by (rule parse_blob_filename) (use assms(1,3) in \<open>auto simp: ids_ok_def list_all_iff\<close>)
  ultimately show ?thesis
    using assms(4) by (auto simp: content_def decode_blob_def keyring_has_def Let_def
        split: option.splits sum.splits)
qed

text \<open>The backup of a sink is planned, verified, and preserving its offsets is allowed when it may be.\<close>

lemma backup_plan:
  assumes "invar st" "chain_state cd spec (objects st) bs rs d" "st_list ops e0 st = Inr names"
    "plan_chain names (bs_format spec) 0 (map_option be_keyring (bs_encryption spec)) = Inr chain \<or> bs \<noteq> []"
  shows "plan_chain names (bs_format spec) 0 (map_option be_keyring (bs_encryption spec)) =
      Inr (map (id_object (bs_format spec)) bs)"
proof -
  have c: "ids_ok bs" "chain_from 0 (map fst bs) d" "dom (objects st) = set (names_of spec bs)"
    "objects_exact cd spec (objects st) bs"
    using assms(2) by (auto simp: chain_state_def)
  have "distinct names" "set names = set (names_of spec bs)"
    using list_ok [OF assms(1,3)] c(3) by auto
  then have ms: "mset names = mset (names_of spec bs)"
    by (rule listing_mset [OF c(1) chain_from_separated [OF c(2)]])
  have "bs \<noteq> []" using assms(4) ms plan_chain_Ok
      [of names "bs_format spec" 0 "map_option be_keyring (bs_encryption spec)" chain] by auto
  then show ?thesis
    by (rule plan_chain_accepts [OF ms c(1) _ c(2)]) (use chain_keys_held [OF c(1,4)] in blast)
qed

lemma backup_verifies:
  assumes "invar st" "chain_state cd spec (objects st) bs rs d" "rs \<noteq> []" "of_source src rs"
    "st_list ops e0 st = Inr names" "reads_work ops e st (dom (objects st))"
  shows "plan_chain names (bs_format spec) 0 (map_option be_keyring (bs_encryption spec)) =
      Inr (map (id_object (bs_format spec)) bs)
    \<and> (\<exists>su. verify cd digest (reader_of ops spec src st) e (map (id_object (bs_format spec)) bs) = Inr su
        \<and> su_records su = of_nat (length rs) \<and> length (su_objects su) = length bs
        \<and> (check_mode Preserve su = Ok ()) = contig 0 (offsets rs))"
proof -
  have c: "ids_ok bs" "chain_from 0 (map fst bs) d" "dom (objects st) = set (names_of spec bs)"
    "contents (content cd spec (objects st)) (names_of spec bs) = Some rs"
    "objects_exact cd spec (objects st) bs" "increasing rs"
    using assms(2) by (auto simp: chain_state_def)
  have ne: "bs \<noteq> []" using c(4) assms(3) by auto
  have plan: "plan_chain names (bs_format spec) 0 (map_option be_keyring (bs_encryption spec)) =
      Inr (map (id_object (bs_format spec)) bs)"
    using backup_plan [OF assms(1,2,5)] ne by simp
  have "reads_work ops e st (set (names_of spec bs))" using assms(6) c(3) by simp
  from read_all_exact [OF assms(1) this c(1,5,4,6) assms(4) c(2), of digest 0]
  obtain sums where sums: "read_all cd digest (reader_of ops spec src st) e 0
      (map (id_object (bs_format spec)) bs) = Inr sums" "length sums = length bs"
    "sum_list (map os_records sums) = of_nat (length rs)"
    "(find_some os_first_hole sums = None) = contig 0 (offsets rs)"
    by (elim exE conjE)
  have first: "co_from (hd (map (id_object (bs_format spec)) bs)) = 0"
    using c(2) ne by (cases bs) (auto split: prod.splits)
  show ?thesis
    using plan sums ne first by (auto simp: verify_def check_mode_def split: option.splits)
qed

end

section \<open>What is produced\<close>

text \<open>
  A target: \<open>sends t xs\<close> says that \<open>xs\<close> was sent, \<open>part\<close> is what its partition holds.  Waiting for what was
  sent means it is stored where it was sent to; a high watermark means nothing is stored from there on.
\<close>

locale restore_target =
  fixes T :: "('t, 'f) target_ops"
    and sends :: "'t \<Rightarrow> (u64 \<times> krecord) list \<Rightarrow> bool"
    and part :: "'t \<Rightarrow> u64 \<Rightarrow> 'm option"
    and msg :: "krecord \<Rightarrow> 'm"
  assumes send_law: "sends t xs \<Longrightarrow> tg_send T e r off t = (Inr u, t') \<Longrightarrow> sends t' (xs @ [(off, r)])"
    and finish_law: "sends t xs \<Longrightarrow> tg_finish T e t = (Inr u, t') \<Longrightarrow>
      sends t' xs \<and> (\<forall>(off, r) \<in> set xs. part t' off = Some (msg r))"
    and high_law: "sends t xs \<Longrightarrow> tg_high_watermark T e t = (Inr h, t') \<Longrightarrow>
      sends t' xs \<and> (\<forall>off m. part t off = Some m \<longrightarrow> part t' off = Some m)
      \<and> (\<forall>off. h \<le> off \<longrightarrow> part t' off = None)"
    and msg_offset: "msg (r\<lparr>r_offset := off\<rparr>) = msg r"
begin

fun numbered :: "offset_mode \<Rightarrow> u64 \<Rightarrow> krecord list \<Rightarrow> (u64 \<times> krecord) list" where
  "numbered mode next [] = []"
| "numbered mode next (r # rs) =
     (next, if mode = Renumber then r\<lparr>r_offset := next\<rparr> else r) # numbered mode (next + 1) rs"

lemma numbered_append:
  "numbered mode next (xs @ ys) = numbered mode next xs @ numbered mode (next + of_nat (length xs)) ys"
  by (induction xs arbitrary: "next") (simp_all add: ac_simps)

lemma numbered_stored:
  "\<forall>(off, r) \<in> set (numbered mode s rs). P off = Some (msg r) \<Longrightarrow> i < length rs \<Longrightarrow>
     P (s + of_nat i) = Some (msg (rs ! i))"
proof (induction rs arbitrary: s i)
  case (Cons r rs)
  show ?case
  proof (cases i)
    case 0
    then show ?thesis using Cons.prems(1) by (auto simp: msg_offset split: if_splits)
  next
    case (Suc j)
    then have "P (s + 1 + of_nat j) = Some (msg (rs ! j))" using Cons by auto
    then show ?thesis using Suc by (simp add: ac_simps)
  qed
qed simp

lemma send_records_sends:
  "sends t xs \<Longrightarrow> send_records T e mode rs next t = (Inr u, next', t') \<Longrightarrow>
     sends t' (xs @ numbered mode next rs) \<and> next' = next + of_nat (length rs)
     \<and> (mode = Preserve \<longrightarrow> contig next (offsets rs))"
proof (induction rs arbitrary: t xs "next")
  case (Cons r rs)
  let ?r = "if mode = Renumber then r\<lparr>r_offset := next\<rparr> else r"
  obtain u' t1 where s: "tg_send T (e next) ?r next t = (Inr u', t1)"
    "send_records T e mode rs (next + 1) t1 = (Inr u, next', t')" "mode = Preserve \<longrightarrow> r_offset r = next"
    using Cons.prems(2) by (auto split: if_splits prod.splits sum.splits)
  have "sends t1 (xs @ [(next, ?r)])" by (rule send_law [OF Cons.prems(1) s(1)])
  from Cons.IH [OF this s(2)] show ?case using s(3) by (simp add: ac_simps)
qed simp

lemma send_all_sends:
  "sends t xs \<Longrightarrow> send_all cd digest R T e mode i obs next t = (Inr u, next', t') \<Longrightarrow>
     \<exists>rs. read_records cd digest R (pe_read e) i (map fst obs) = Inr rs
       \<and> sends t' (xs @ numbered mode next rs) \<and> next' = next + of_nat (length rs)
       \<and> (mode = Preserve \<longrightarrow> contig next (offsets rs))"
proof (induction obs arbitrary: t xs i "next")
  case (Cons x obs)
  obtain ob verified where x: "x = (ob, verified)" by fastforce
  obtain rs dg where rd: "read_object_with_digest cd digest R (pe_read e i) ob = Inr (rs, dg)"
    using Cons.prems(2) x by (auto split: sum.splits)
  obtain u' n t1 where s: "send_records T (pe_send e) mode rs next t = (Inr u', n, t1)"
    "send_all cd digest R T e mode (i + 1) obs n t1 = (Inr u, next', t')"
    using Cons.prems(2) x rd by (auto split: sum.splits prod.splits if_splits)
  note one = send_records_sends [OF Cons.prems(1) s(1)]
  from Cons.IH [OF conjunct1 [OF one] s(2)] obtain ys where ys:
    "read_records cd digest R (pe_read e) (i + 1) (map fst obs) = Inr ys"
    "sends t' ((xs @ numbered mode next rs) @ numbered mode n ys)" "next' = n + of_nat (length ys)"
    "mode = Preserve \<longrightarrow> contig n (offsets ys)"
    by (elim exE conjE)
  have "read_records cd digest R (pe_read e) i (map fst (x # obs)) = Inr (rs @ ys)"
    using rd ys(1) x by (simp add: read_object_def)
  moreover have "sends t' (xs @ numbered mode next (rs @ ys))" using ys(2) one by (simp add: numbered_append)
  moreover have "next' = next + of_nat (length (rs @ ys))" using ys(3) one by simp
  moreover have "mode = Preserve \<longrightarrow> contig next (offsets (rs @ ys))"
    using ys(4) one by (simp add: contig_append)
  ultimately show ?case by blast
qed simp

text \<open>A restore that reports success: the target holds what was read, and nothing else.\<close>

lemma produce_exact:
  assumes "sends t []" "produce cd digest R T e chain su mode t = (Inr rep, t')"
  shows "\<exists>rs. read_records cd digest R (pe_read e) 0 chain = Inr rs
    \<and> rr_records rep = of_nat (length rs) \<and> rr_high_watermark rep = of_nat (length rs)
    \<and> su_records su = of_nat (length rs)
    \<and> (\<forall>off. part t' off = (if off < of_nat (length rs) then Some (msg (rs ! unat off)) else None))
    \<and> (mode = Preserve \<longrightarrow> contig 0 (offsets rs))"
proof -
  obtain t1 u1 nxt t2 u2 t3 where p: "length chain = length (su_objects su)"
    "tg_high_watermark T (pe_start e) t = (Inr 0, t1)"
    "send_all cd digest R T e mode 0 (zip chain (su_objects su)) 0 t1 = (Inr u1, nxt, t2)"
    "tg_finish T (pe_finish e) t2 = (Inr u2, t3)"
    "tg_high_watermark T (pe_end e) t3 = (Inr nxt, t')" "nxt = su_records su"
    "rep = \<lparr>rr_records = nxt, rr_high_watermark = nxt\<rparr>"
    using assms(2) by (auto simp: produce_def split: sum.splits prod.splits if_splits)
  have "sends t1 []" using high_law [OF assms(1) p(2)] by simp
  from send_all_sends [OF this p(3)] p(1) obtain rs where rs:
    "read_records cd digest R (pe_read e) 0 chain = Inr rs" "sends t2 (numbered mode 0 rs)"
    "nxt = of_nat (length rs)" "mode = Preserve \<longrightarrow> contig 0 (offsets rs)"
    by auto
  have f: "sends t3 (numbered mode 0 rs)" "\<forall>(off, r) \<in> set (numbered mode 0 rs). part t3 off = Some (msg r)"
    using finish_law [OF rs(2) p(4)] by auto
  note h = high_law [OF f(1) p(5)]
  have "part t' off = (if off < of_nat (length rs) then Some (msg (rs ! unat off)) else None)" for off
  proof (cases "off < of_nat (length rs)")
    case True
    then have "unat off < length rs"
      by (metis word_less_nat_alt unat_of_nat mod_less_eq_dividend order_less_le_trans)
    from numbered_stored [OF f(2) this] show ?thesis using h True by simp
  next
    case False
    then show ?thesis using h rs(3) by (simp add: not_less)
  qed
  then show ?thesis using rs p(6,7) by (intro exI [of _ rs]) simp
qed

end

end
