(* ===== verification/Restore_Producer.thy ===== *)
theory Restore_Producer
  imports Restore_Exact Kafka
begin

text \<open>
  The target of a restore (\<open>RestoreProducer\<close> in \<open>crates/mirror-kafka/src/restore_producer.rs\<close>): records
  are queued with librdkafka, at most a window of them in flight, and every delivery report has to name
  the offset its record was sent for.  The client library and the cluster behind it are a record of
  functions (\<open>cluster\<close>); \<open>cluster_ok\<close> states what their documentation promises.  The batch statistics
  are only logged and not modelled.
\<close>

section \<open>Sizes\<close>

definition record_batch_overhead :: nat where "record_batch_overhead = 61"

definition request_overhead :: u64 where "request_overhead = 64 * 1024"

text \<open>\<open>restore_producer_config\<close>: the two sizes it derives from the topic's limit.\<close>

definition producer_sizes :: "u64 \<Rightarrow> u64 \<times> u64" where
  "producer_sizes max_message_bytes =
     (let batch_size = min max_message_bytes 2147483647
      in (batch_size, min (max (batch_size + request_overhead) 1000000) 1000000000))"

definition restore_producer_config :: "string \<Rightarrow> u64 \<Rightarrow> (string \<times> string) list" where
  "restore_producer_config bootstrap_servers max_message_bytes =
     (case producer_sizes max_message_bytes of (batch_size, request_size) \<Rightarrow>
       [(''bootstrap.servers'', bootstrap_servers), (''enable.idempotence'', ''true''),
        (''enable.gapless.guarantee'', ''true''), (''acks'', ''all''),
        (''max.in.flight.requests.per.connection'', ''5''), (''linger.ms'', ''20''),
        (''compression.codec'', ''none''), (''batch.size'', dec_of (unat batch_size)),
        (''message.max.bytes'', dec_of (unat request_size)), (''statistics.interval.ms'', ''1000'')])"

text \<open>
  \<open>str::trim\<close>, of the ASCII white space only: a broker reports a size in ASCII.
\<close>

definition is_space :: "char \<Rightarrow> bool" where
  "is_space c = (c \<in> {CHR '' '', CHR 0x09, CHR 0x0A, CHR 0x0B, CHR 0x0C, CHR 0x0D})"

definition trim :: "string \<Rightarrow> string" where
  "trim s = rev (dropWhile is_space (rev (dropWhile is_space s)))"

definition parse_bytes :: "string option \<Rightarrow> unit + u64" where
  "parse_bytes v = (case Option.bind v (\<lambda>v. parse_u64 (trim v)) of
      Some n \<Rightarrow> if 0 < n then Ok n else Err ()
    | None \<Rightarrow> Err ())"

text \<open>
  The largest batch of a topic: what the brokers answer is the description of the topic, the list of the
  brokers, and the description of a broker (each from setting names to values, which may be null).
\<close>

definition fetch_max_message_bytes ::
    "unit + (string \<rightharpoonup> string option) \<Rightarrow> unit + i32 list \<Rightarrow> (i32 \<Rightarrow> unit + (string \<rightharpoonup> string option))
      \<Rightarrow> unit + u64" where
  "fetch_max_message_bytes topic brokers broker =
     res_bind topic (\<lambda>described. case described ''max.message.bytes'' of
       Some value \<Rightarrow> parse_bytes value
     | None \<Rightarrow> res_bind brokers (\<lambda>bs. case bs of
           [] \<Rightarrow> Err ()
         | b # _ \<Rightarrow> res_bind (broker b) (\<lambda>d.
             parse_bytes (Option.bind (d ''message.max.bytes'') id))))"

function varint_bytes :: "u64 \<Rightarrow> nat" where
  "varint_bytes z = (if 128 \<le> z then 1 + varint_bytes (drop_bit 7 z) else 1)"
  by pat_completeness auto
termination
proof (relation "measure unat")
  fix z :: u64 assume "128 \<le> z"
  then have "unat z \<ge> 128" by (simp add: word_le_nat_alt)
  then show "(drop_bit 7 z, z) \<in> measure unat"
    by (simp add: unat_drop_bit_eq drop_bit_eq_div unat_div)
qed simp

declare varint_bytes.simps [simp del]

definition varint_len :: "i64 \<Rightarrow> nat" where
  "varint_len v = varint_bytes (xor (push_bit 1 v) (signed_drop_bit 63 v))"

definition field_len :: "bytes option \<Rightarrow> nat" where
  "field_len bs = (case bs of
      None \<Rightarrow> varint_len (- 1)
    | Some b \<Rightarrow> varint_len (of_nat (length b)) + length b)"

definition single_record_batch_bytes :: "krecord \<Rightarrow> nat" where
  "single_record_batch_bytes r =
     (let body = 1 + varint_len 0 + varint_len 0 + field_len (r_key r) + field_len (r_value r)
            + varint_len (of_nat (length (r_headers r)))
            + sum_list (map (\<lambda>h. field_len (Some (as_bytes (h_key h))) + field_len (h_value h)) (r_headers r))
      in record_batch_overhead + varint_len (of_nat body) + body)"

section \<open>The producer\<close>

datatype enqueued = Queued nat | QueueFull | SendFailed

datatype delivery = Delivered i32 i64 | DeliveryFailed | DeliveryDropped

text \<open>
  \<open>send_result\<close>, awaiting a delivery report (named by the number \<open>send_result\<close> gave out), flushing, and
  the watermarks of the partition; \<open>'b\<close> is the cluster with the client's queue.
\<close>

record ('b, 'f) cluster =
  cl_enqueue :: "'f \<Rightarrow> kmessage \<Rightarrow> 'b \<Rightarrow> enqueued \<times> 'b"
  cl_await :: "'f \<Rightarrow> nat \<Rightarrow> 'b \<Rightarrow> delivery \<times> 'b"
  cl_flush :: "'f \<Rightarrow> 'b \<Rightarrow> (unit + unit) \<times> 'b"
  cl_watermarks :: "'f \<Rightarrow> 'b \<Rightarrow> (unit + i64 \<times> i64) \<times> 'b"

record 'b restore_producer =
  rp_cluster :: 'b
  rp_partition :: i32
  rp_keys :: column_type
  rp_values :: column_type
  rp_max_message_bytes :: u64
  rp_window :: nat
  rp_in_flight :: "(u64 \<times> nat) list"

definition default_window :: nat where "default_window = 10000"

definition with_max_message_bytes ::
    "'b \<Rightarrow> i32 \<Rightarrow> column_type \<Rightarrow> column_type \<Rightarrow> u64 \<Rightarrow> 'b restore_producer" where
  "with_max_message_bytes b p keys values limit = \<lparr>rp_cluster = b, rp_partition = p, rp_keys = keys,
     rp_values = values, rp_max_message_bytes = limit, rp_window = default_window, rp_in_flight = []\<rparr>"

definition restore_producer_open ::
    "unit + (string \<rightharpoonup> string option) \<Rightarrow> unit + i32 list \<Rightarrow> (i32 \<Rightarrow> unit + (string \<rightharpoonup> string option))
      \<Rightarrow> 'b \<Rightarrow> i32 \<Rightarrow> column_type \<Rightarrow> column_type \<Rightarrow> unit + 'b restore_producer" where
  "restore_producer_open topic brokers broker b p keys values =
     res_bind (fetch_max_message_bytes topic brokers broker)
       (\<lambda>limit. Ok (with_max_message_bytes b p keys values limit))"

definition ack_oldest ::
    "('b, 'f) cluster \<Rightarrow> 'f \<Rightarrow> 'b restore_producer \<Rightarrow> (unit + unit) \<times> 'b restore_producer" where
  "ack_oldest C e p = (case rp_in_flight p of
      [] \<Rightarrow> (Ok (), p)
    | (off, tok) # q \<Rightarrow> (case cl_await C e tok (rp_cluster p) of
        (d, b) \<Rightarrow> (let p1 = p\<lparr>rp_cluster := b, rp_in_flight := q\<rparr> in
          case d of
            DeliveryDropped \<Rightarrow> (Err (), p1)
          | DeliveryFailed \<Rightarrow> (Err (), p1)
          | Delivered part o' \<Rightarrow>
              if part \<noteq> rp_partition p \<or> o' \<noteq> off then (Err (), p1) else (Ok (), p1))))"

text \<open>The loop of \<open>send\<close>: on a full queue the oldest record is waited for, if there is one.\<close>

function enqueue_loop ::
    "('b, 'f) cluster \<Rightarrow> (nat \<Rightarrow> 'f) \<Rightarrow> nat \<Rightarrow> kmessage \<Rightarrow> u64 \<Rightarrow> 'b restore_producer
      \<Rightarrow> (unit + unit) \<times> 'b restore_producer" where
  "enqueue_loop C e k m off p = (case cl_enqueue C (e k) m (rp_cluster p) of
      (Queued tok, b) \<Rightarrow> (Ok (), p\<lparr>rp_cluster := b, rp_in_flight := rp_in_flight p @ [(off, tok)]\<rparr>)
    | (QueueFull, b) \<Rightarrow>
        if rp_in_flight p = [] then (Err (), p\<lparr>rp_cluster := b\<rparr>)
        else (case ack_oldest C (e (k + 1)) (p\<lparr>rp_cluster := b\<rparr>) of
            (Inl _, p') \<Rightarrow> (Err (), p')
          | (Inr _, p') \<Rightarrow> enqueue_loop C e (k + 2) m off p')
    | (SendFailed, b) \<Rightarrow> (Err (), p\<lparr>rp_cluster := b\<rparr>))"
  by pat_completeness auto
termination
  by (relation "measure (\<lambda>(C, e, k, m, off, p). length (rp_in_flight p))")
    (auto simp: ack_oldest_def Let_def neq_Nil_conv split: prod.splits delivery.splits if_splits)

declare enqueue_loop.simps [simp del]

definition producer_send ::
    "(string \<Rightarrow> bool) \<Rightarrow> ('b, 'f) cluster \<Rightarrow> (nat \<Rightarrow> 'f) \<Rightarrow> krecord \<Rightarrow> u64 \<Rightarrow> 'b restore_producer
      \<Rightarrow> (unit + unit) \<times> 'b restore_producer" where
  "producer_send json_ok C e r off p =
     (if \<not> is_ok (validate_column json_ok (rp_keys p) (r_key r)) then (Err (), p)
      else if \<not> is_ok (validate_column json_ok (rp_values p) (r_value r)) then (Err (), p)
      else if rp_max_message_bytes p < of_nat (single_record_batch_bytes r) then (Err (), p)
      else (case (if rp_window p \<le> length (rp_in_flight p) then ack_oldest C (e 0) p else (Ok (), p)) of
          (Inl _, p') \<Rightarrow> (Err (), p')
        | (Inr _, p') \<Rightarrow> enqueue_loop C e 1 (future_record TmSource r) off p'))"

fun ack_each ::
    "('b, 'f) cluster \<Rightarrow> (nat \<Rightarrow> 'f) \<Rightarrow> nat \<Rightarrow> 'b restore_producer \<Rightarrow> (unit + unit) \<times> 'b restore_producer" where
  "ack_each C e 0 p = (Ok (), p)"
| "ack_each C e (Suc n) p = (case ack_oldest C (e n) p of
      (Inl _, p') \<Rightarrow> (Err (), p')
    | (Inr _, p') \<Rightarrow> ack_each C e n p')"

text \<open>\<open>while !in_flight.is_empty()\<close>: every turn takes one out.\<close>

definition producer_finish ::
    "('b, 'f) cluster \<Rightarrow> (nat \<Rightarrow> 'f) \<Rightarrow> 'b restore_producer \<Rightarrow> (unit + unit) \<times> 'b restore_producer" where
  "producer_finish C e p = (case ack_each C (\<lambda>i. e (i + 1)) (length (rp_in_flight p)) p of
      (Inl _, p') \<Rightarrow> (Err (), p')
    | (Inr _, p') \<Rightarrow> (case cl_flush C (e 0) (rp_cluster p') of
          (Inl _, b) \<Rightarrow> (Err (), p'\<lparr>rp_cluster := b\<rparr>)
        | (Inr _, b) \<Rightarrow> (Ok (), p'\<lparr>rp_cluster := b\<rparr>)))"

definition producer_high_watermark ::
    "('b, 'f) cluster \<Rightarrow> (nat \<Rightarrow> 'f) \<Rightarrow> 'b restore_producer \<Rightarrow> (unit + u64) \<times> 'b restore_producer" where
  "producer_high_watermark C e p = (case cl_watermarks C (e 0) (rp_cluster p) of
      (q, b) \<Rightarrow> ((case fetch_watermarks q of Inl _ \<Rightarrow> Err () | Inr (_, h) \<Rightarrow> Ok h), p\<lparr>rp_cluster := b\<rparr>))"

definition producer_ops ::
    "(string \<Rightarrow> bool) \<Rightarrow> ('b, 'f) cluster \<Rightarrow> ('b restore_producer, nat \<Rightarrow> 'f) target_ops" where
  "producer_ops json_ok C = \<lparr>tg_high_watermark = producer_high_watermark C,
     tg_send = producer_send json_ok C, tg_finish = producer_finish C\<rparr>"

section \<open>What the cluster is relied on for\<close>

text \<open>
  \<open>stored b p off\<close> is the message at an offset of a partition, \<open>issued b tok\<close> the message a delivery
  report is for.  Messages stay; a report of a delivery names where its message is; and a known high
  watermark is above every message.  Nothing is said of what failed.
\<close>

definition keeps :: "('b \<Rightarrow> i32 \<Rightarrow> u64 \<Rightarrow> kmessage option) \<Rightarrow> 'b \<Rightarrow> 'b \<Rightarrow> bool" where
  "keeps stored b b' = (\<forall>p off m. stored b p off = Some m \<longrightarrow> stored b' p off = Some m)"

definition cluster_ok ::
    "('b, 'f) cluster \<Rightarrow> ('b \<Rightarrow> i32 \<Rightarrow> u64 \<Rightarrow> kmessage option) \<Rightarrow> ('b \<Rightarrow> nat \<Rightarrow> kmessage option)
      \<Rightarrow> i32 \<Rightarrow> bool" where
  "cluster_ok C stored issued part =
     ((\<forall>e m b d b'. cl_enqueue C e m b = (d, b') \<longrightarrow> keeps stored b b'
         \<and> (case d of Queued tok \<Rightarrow> issued b tok = None \<and> issued b' = (issued b)(tok \<mapsto> m) | _ \<Rightarrow> issued b' = issued b))
      \<and> (\<forall>e tok b d b'. cl_await C e tok b = (d, b') \<longrightarrow> keeps stored b b' \<and> issued b' = issued b
         \<and> (\<forall>p off m. d = Delivered p off \<longrightarrow> issued b tok = Some m \<longrightarrow> stored b' p off = Some m))
      \<and> (\<forall>e b d b'. cl_flush C e b = (d, b') \<longrightarrow> keeps stored b b' \<and> issued b' = issued b)
      \<and> (\<forall>e b q b'. cl_watermarks C e b = (q, b') \<longrightarrow> keeps stored b b' \<and> issued b' = issued b
         \<and> (\<forall>low high off. q = Inr (low, high) \<longrightarrow> 0 \<le>s high \<longrightarrow> high \<le> off \<longrightarrow> stored b' part off = None)))"

lemma cluster_enqueue:
  assumes "cluster_ok C stored issued part" "cl_enqueue C e m b = (d, b')"
  shows "keeps stored b b'
    \<and> (case d of Queued tok \<Rightarrow> issued b tok = None \<and> issued b' = (issued b)(tok \<mapsto> m) | _ \<Rightarrow> issued b' = issued b)"
  using assms(1) [unfolded cluster_ok_def, THEN conjunct1, rule_format, OF assms(2)] .

lemma cluster_await:
  assumes "cluster_ok C stored issued part" "cl_await C e tok b = (d, b')"
  shows "keeps stored b b' \<and> issued b' = issued b
    \<and> (\<forall>p off m. d = Delivered p off \<longrightarrow> issued b tok = Some m \<longrightarrow> stored b' p off = Some m)"
  using assms(1) [unfolded cluster_ok_def, THEN conjunct2, THEN conjunct1, rule_format, OF assms(2)]
  by blast

lemma cluster_flush:
  assumes "cluster_ok C stored issued part" "cl_flush C e b = (d, b')"
  shows "keeps stored b b' \<and> issued b' = issued b"
  using assms(1) [unfolded cluster_ok_def, THEN conjunct2, THEN conjunct2, THEN conjunct1,
      rule_format, OF assms(2)] .

lemma cluster_watermarks:
  assumes "cluster_ok C stored issued part" "cl_watermarks C e b = (q, b')"
  shows "keeps stored b b' \<and> issued b' = issued b
    \<and> (\<forall>low high off. q = Inr (low, high) \<longrightarrow> 0 \<le>s high \<longrightarrow> high \<le> off \<longrightarrow> stored b' part off = None)"
  using assms(1) [unfolded cluster_ok_def, THEN conjunct2, THEN conjunct2, THEN conjunct2,
      rule_format, OF assms(2)] by blast

definition is_sent ::
    "('b \<Rightarrow> i32 \<Rightarrow> u64 \<Rightarrow> kmessage option) \<Rightarrow> ('b \<Rightarrow> nat \<Rightarrow> kmessage option) \<Rightarrow> 'b restore_producer
      \<Rightarrow> u64 \<Rightarrow> krecord \<Rightarrow> bool" where
  "is_sent stored issued p off r =
     (stored (rp_cluster p) (rp_partition p) off = Some (future_record TmSource r)
      \<or> (\<exists>tok. (off, tok) \<in> set (rp_in_flight p) \<and> issued (rp_cluster p) tok = Some (future_record TmSource r)))"

definition producer_sends ::
    "('b, 'f) cluster \<Rightarrow> ('b \<Rightarrow> i32 \<Rightarrow> u64 \<Rightarrow> kmessage option) \<Rightarrow> ('b \<Rightarrow> nat \<Rightarrow> kmessage option) \<Rightarrow> i32
      \<Rightarrow> 'b restore_producer \<Rightarrow> (u64 \<times> krecord) list \<Rightarrow> bool" where
  "producer_sends C stored issued part p xs =
     (cluster_ok C stored issued part \<and> rp_partition p = part
      \<and> (\<forall>(off, r) \<in> set xs. is_sent stored issued p off r))"

section \<open>The producer keeps the contract of a restore target\<close>

lemma ack_oldest_sends:
  assumes "producer_sends C stored issued part p xs" "ack_oldest C e p = (Inr u, p')"
  shows "producer_sends C stored issued part p' xs \<and> length (rp_in_flight p') = length (rp_in_flight p) - 1
    \<and> keeps stored (rp_cluster p) (rp_cluster p')"
proof (cases "rp_in_flight p")
  case Nil
  then show ?thesis using assms by (simp add: ack_oldest_def keeps_def)
next
  case (Cons x q)
  obtain off tok where x: "x = (off, tok)" by fastforce
  have part: "rp_partition p = part" using assms(1) by (simp add: producer_sends_def)
  obtain b where a: "cl_await C e tok (rp_cluster p) = (Delivered part off, b)"
    "p' = p\<lparr>rp_cluster := b, rp_in_flight := q\<rparr>"
    using assms(2) Cons x part
    by (auto simp: ack_oldest_def Let_def split: prod.splits delivery.splits if_splits)
  have cl: "cluster_ok C stored issued part" using assms(1) by (simp add: producer_sends_def)
  have ok: "keeps stored (rp_cluster p) b" "issued b = issued (rp_cluster p)"
    "\<And>m. issued (rp_cluster p) tok = Some m \<Longrightarrow> stored b part off = Some m"
    using cluster_await [OF cl a(1)] by simp_all
  have "is_sent stored issued p' o' r" if "is_sent stored issued p o' r" for o' r
    using that ok Cons x part a(2) by (auto simp: is_sent_def keeps_def)
  then show ?thesis using assms(1) a(2) Cons ok(1) by (auto simp: producer_sends_def)
qed

lemma enqueue_loop_sends:
  "producer_sends C stored issued part p xs \<Longrightarrow>
   enqueue_loop C e k (future_record TmSource r) off p = (Inr u, p') \<Longrightarrow>
     producer_sends C stored issued part p' (xs @ [(off, r)])"
proof (induction C e k "future_record TmSource r" off p rule: enqueue_loop.induct)
  case (1 C e k off p)
  let ?m = "future_record TmSource r"
  obtain d b where d: "cl_enqueue C (e k) ?m (rp_cluster p) = (d, b)" by fastforce
  have ok: "keeps stored (rp_cluster p) b"
    "case d of Queued tok \<Rightarrow> issued (rp_cluster p) tok = None \<and> issued b = (issued (rp_cluster p))(tok \<mapsto> ?m)
       | _ \<Rightarrow> issued b = issued (rp_cluster p)"
    using cluster_enqueue [OF _ d] 1(2) by (auto simp: producer_sends_def)
  show ?case
  proof (cases d)
    case (Queued tok)
    have p': "p' = p\<lparr>rp_cluster := b, rp_in_flight := rp_in_flight p @ [(off, tok)]\<rparr>"
      using 1(3) d Queued by (subst (asm) enqueue_loop.simps) simp
    have "is_sent stored issued p' o' s" if "is_sent stored issued p o' s" for o' s
      using that ok Queued p' by (auto simp: is_sent_def keeps_def)
    moreover have "is_sent stored issued p' off r" using ok(2) Queued p' by (auto simp: is_sent_def)
    ultimately show ?thesis using 1(2) p' by (auto simp: producer_sends_def)
  next
    case QueueFull
    let ?p = "p\<lparr>rp_cluster := b\<rparr>"
    have "is_sent stored issued ?p o' s" if "is_sent stored issued p o' s" for o' s
      using that ok QueueFull by (auto simp: is_sent_def keeps_def)
    then have p: "producer_sends C stored issued part ?p xs"
      using 1(2) by (auto simp: producer_sends_def)
    have ne: "rp_in_flight p \<noteq> []"
      using 1(3) d QueueFull by (subst (asm) enqueue_loop.simps) (auto split: if_splits)
    obtain v p1 where a: "ack_oldest C (e (k + 1)) ?p = (Inr v, p1)"
      "enqueue_loop C e (k + 2) ?m off p1 = (Inr u, p')"
      using 1(3) d QueueFull ne
      by (subst (asm) enqueue_loop.simps) (auto split: prod.splits sum.splits)
    have "producer_sends C stored issued part p1 xs" using ack_oldest_sends [OF p a(1)] by simp
    from 1(1) [OF d [symmetric] QueueFull ne a(1) [symmetric] refl this a(2)] show ?thesis by simp
  next
    case SendFailed
    then show ?thesis using 1(3) d by (subst (asm) enqueue_loop.simps) simp
  qed
qed

lemma ack_each_sends:
  "producer_sends C stored issued part p xs \<Longrightarrow> ack_each C e n p = (Inr u, p') \<Longrightarrow>
     producer_sends C stored issued part p' xs \<and> length (rp_in_flight p') = length (rp_in_flight p) - n"
proof (induction n arbitrary: p)
  case (Suc n)
  obtain v p1 where a: "ack_oldest C (e n) p = (Inr v, p1)" "ack_each C e n p1 = (Inr u, p')"
    using Suc.prems(2) by (auto split: prod.splits sum.splits)
  show ?case using Suc.IH [OF _ a(2)] ack_oldest_sends [OF Suc.prems(1) a(1)] by simp
qed simp

lemma fetch_watermarks_high:
  "fetch_watermarks q = Inr (l, h) \<Longrightarrow> \<exists>low. q = Inr (low, h) \<and> 0 \<le>s h"
  by (auto simp: fetch_watermarks_def watermark_def split: sum.splits prod.splits if_splits)

interpretation restore_to_kafka: restore_target "producer_ops json_ok C"
    "producer_sends C stored issued target" "\<lambda>p off. stored (rp_cluster p) target off"
    "future_record TmSource"
  for json_ok C stored issued target
proof
  fix p p' :: "'a restore_producer" and xs e r off h and u :: unit
  let ?sends = "producer_sends C stored issued target"
  show "?sends p xs \<Longrightarrow> tg_send (producer_ops json_ok C) e r off p = (Inr u, p') \<Longrightarrow>
      ?sends p' (xs @ [(off, r)])"
  proof -
    assume s: "?sends p xs" and send: "tg_send (producer_ops json_ok C) e r off p = (Inr u, p')"
    obtain v p1 where a: "(if rp_window p \<le> length (rp_in_flight p) then ack_oldest C (e 0) p else (Ok (), p)) =
        (Inr v, p1)" "enqueue_loop C e 1 (future_record TmSource r) off p1 = (Inr u, p')"
      using send by (auto simp: producer_ops_def producer_send_def split: if_splits prod.splits sum.splits)
    have "?sends p1 xs" using a(1) s ack_oldest_sends [OF s, of "e 0" v p1] by (auto split: if_splits)
    then show ?thesis by (rule enqueue_loop_sends [OF _ a(2)])
  qed
  show "?sends p xs \<Longrightarrow> tg_finish (producer_ops json_ok C) e p = (Inr u, p') \<Longrightarrow>
      ?sends p' xs \<and> (\<forall>(off, r) \<in> set xs. stored (rp_cluster p') target off = Some (future_record TmSource r))"
  proof -
    assume s: "?sends p xs" and fin: "tg_finish (producer_ops json_ok C) e p = (Inr u, p')"
    obtain v p1 w b where a: "ack_each C (\<lambda>i. e (i + 1)) (length (rp_in_flight p)) p = (Inr v, p1)"
      "cl_flush C (e 0) (rp_cluster p1) = (Inr w, b)" "p' = p1\<lparr>rp_cluster := b\<rparr>"
      using fin by (auto simp: producer_ops_def producer_finish_def split: prod.splits sum.splits)
    have p1: "?sends p1 xs" "rp_in_flight p1 = []" using ack_each_sends [OF s a(1)] by auto
    have "keeps stored (rp_cluster p1) b" 
      using cluster_flush [OF _ a(2)] p1(1) by (auto simp: producer_sends_def)
    then have "stored b target off = Some (future_record TmSource r)" if "(off, r) \<in> set xs" for off r
      using p1 that by (auto simp: producer_sends_def is_sent_def keeps_def)
    then show ?thesis using p1 a(3) by (auto simp: producer_sends_def is_sent_def)
  qed
  show "?sends p xs \<Longrightarrow> tg_high_watermark (producer_ops json_ok C) e p = (Inr h, p') \<Longrightarrow>
      ?sends p' xs
      \<and> (\<forall>off m. stored (rp_cluster p) target off = Some m \<longrightarrow> stored (rp_cluster p') target off = Some m)
      \<and> (\<forall>off. h \<le> off \<longrightarrow> stored (rp_cluster p') target off = None)"
  proof -
    assume s: "?sends p xs" and high: "tg_high_watermark (producer_ops json_ok C) e p = (Inr h, p')"
    obtain q b l where q: "cl_watermarks C (e 0) (rp_cluster p) = (q, b)" "fetch_watermarks q = Inr (l, h)"
      "p' = p\<lparr>rp_cluster := b\<rparr>"
      using high by (auto simp: producer_ops_def producer_high_watermark_def split: prod.splits sum.splits)
    obtain low where low: "q = Inr (low, h)" "0 \<le>s h" using fetch_watermarks_high [OF q(2)] by blast
    have ok: "keeps stored (rp_cluster p) b" "issued b = issued (rp_cluster p)"
      "\<And>off. h \<le> off \<Longrightarrow> stored b target off = None"
      using cluster_watermarks [OF _ q(1)] s low by (auto simp: producer_sends_def)
    have "is_sent stored issued p' o' r" if "is_sent stored issued p o' r" for o' r
      using that ok q(3) by (auto simp: is_sent_def keeps_def)
    then show ?thesis using s ok q(3) by (auto simp: producer_sends_def keeps_def)
  qed
  show "future_record TmSource (r\<lparr>r_offset := off\<rparr>) = future_record TmSource r"
    by (simp add: future_record_def)
qed

end
