(* ===== verification/Props_Restore.thy ===== *)
theory Props_Restore
  imports Fixtures Restore_Producer
begin

text \<open>
  The properties of restore: what the mirror wrote is accepted, reads back, and lands in the target
  topic as it was.
\<close>

section \<open>The backup is accepted\<close>

text \<open>
  C10: a backup that a mirror wrote can always be verified.  For an append-mode directory that is flushed
  and whose files can be read, the listing is planned, every object passes the checks of the reader, the
  summary counts exactly the records the mirror accepted, and preserving the offsets is allowed exactly
  when those are 0, 1, 2, ...
\<close>

theorem backup_is_verifiable:
  assumes "sink_inv cd fs_objects fs_ok s log" and "sk_buffer s = []" and "log \<noteq> []"
    and "of_source src log"
    and "list_sync e0 (sk_store s) = Inr names" and "\<forall>i. fs_read_ok (e i)"
  shows "\<exists>chain su. plan_chain names (bs_format (sk_spec s)) 0
        (map_option be_keyring (bs_encryption (sk_spec s))) = Inr chain
    \<and> verify cd digest (reader_of fs_store (sk_spec s) src (sk_store s)) e chain = Inr su
    \<and> su_records su = of_nat (length log)
    \<and> (check_mode Preserve su = Ok () \<longleftrightarrow> offsets log = map of_nat [0..<length log])"
proof -
  obtain bs where c: "fs_ok (sk_store s)"
    "chain_state cd (sk_spec s) (fs_objects (sk_store s)) bs log (sk_durable_position s)"
    using assms(1,2) by (auto simp: sink_inv_def)
  have "st_list fs_store e0 (sk_store s) = Inr names" using assms(5) by (simp add: fs_store_def)
  moreover have "reads_work fs_store e (sk_store s) (dom (fs_objects (sk_store s)))"
    using assms(6)
    by (auto simp: reads_work_def fs_store_def get_sync_def fs_objects_def entry_objects_def
        split: option.splits if_splits)
  ultimately show ?thesis
    using fs.backup_verifies [OF c assms(3,4), of e0 names e digest] by (auto simp: contig_def)
qed

definition demo_backup_ops :: "fs_env sink_op list" where
  "demo_backup_ops = [OpWrite (demo_env (demo_fs ''a'')) (demo_rec 0),
     OpWrite (demo_env (demo_fs ''b'')) (demo_rec 1), OpWrite (demo_env (demo_fs ''c'')) (demo_rec 2),
     OpFlush (demo_env (demo_fs ''d''))]"

abbreviation demo_backup_run :: "(sink_error + unit) \<times> fs_dir blob_sink \<times> krecord list" where
  "demo_backup_run \<equiv> run_ops fs_store demo_codec demo_backup_ops (demo_sink (Some []) None)"

abbreviation demo_name1 :: string where
  "demo_name1 \<equiv> ''00000000000000000000-00000000000000000001.ndjson''"

abbreviation demo_name2 :: string where
  "demo_name2 \<equiv> ''00000000000000000002-00000000000000000002.ndjson''"

definition demo_backup :: "fs_dir blob_sink" where
  "demo_backup = (demo_sink (Some [(demo_name1, [0, 1]), (demo_name2, [2])]) None)
     \<lparr>sk_durable_position := 3, sk_tail := [demo_name1, demo_name2]\<rparr>"

definition demo_of :: backup_source where
  "demo_of = \<lparr>src_topic = ''orders'', src_partition = 0\<rparr>"

definition demo_log :: "krecord list" where
  "demo_log = [demo_rec 0, demo_rec 1, demo_rec 2]"

lemma demo_backup_written: "demo_backup_run = (Ok (), demo_backup, demo_log)"
  by code_simp

lemma demo_backup_fields [simp]:
  "sk_spec demo_backup = demo_spec None" "sk_buffer demo_backup = []"
  "sk_store demo_backup = Some [(demo_name1, [0, 1]), (demo_name2, [2])]"
  by (simp_all add: demo_backup_def demo_sink_def)

lemma demo_backup_facts:
  "sink_inv demo_codec fs_objects fs_ok demo_backup demo_log"
  "list_sync (demo_fs ''x'') (sk_store demo_backup) = Inr [demo_name1, demo_name2]"
  "of_source demo_of demo_log" "offsets demo_log = map of_nat [0..<length demo_log]"
proof -
  have max: "\<forall>r \<in> set (op_records demo_backup_ops). r_offset r \<noteq> u64_max" by code_simp
  have "append_inv demo_codec fs_objects fs_ok (demo_sink (Some []) None) []"
    using demo_accepts by (simp add: append_accepts_def)
  from fsc.append.run_ops_keeps [OF max this demo_backup_written]
  show "sink_inv demo_codec fs_objects fs_ok demo_backup demo_log"
    by (simp add: append_inv_def)
  show "list_sync (demo_fs ''x'') (sk_store demo_backup) = Inr [demo_name1, demo_name2]" by code_simp
  show "of_source demo_of demo_log" by (simp add: of_source_def demo_of_def demo_log_def demo_rec_def)
  show "offsets demo_log = map of_nat [0..<length demo_log]" by code_simp
qed

theorem backup_is_verifiable_witness:
  "\<exists>names chain su. plan_chain names Ndjson 0 None = Inr chain
     \<and> verify demo_codec (\<lambda>_. 7) (reader_of fs_store (sk_spec demo_backup) demo_of (sk_store demo_backup))
         (\<lambda>_. demo_fs ''x'') chain = Inr su
     \<and> su_records su = 3 \<and> check_mode Preserve su = Ok ()"
  using backup_is_verifiable [OF demo_backup_facts(1) _ _ demo_backup_facts(3,2), of "\<lambda>_. demo_fs ''x''"
      "\<lambda>_. 7"] demo_backup_facts(4)
  by (auto simp: demo_fs_def demo_log_def demo_spec_def)

section \<open>The restored topic\<close>

text \<open>
  A restore that reports success has copied the backup exactly.  The target partition holds, from
  offset 0 on, one message per record the mirror had accepted, in order, with its key, value, headers
  and timestamp, and nothing else; the report counts them; and when offsets were to be preserved every
  message lies at the offset its record was read from.
\<close>

theorem restore_copies_backup:
  assumes "sink_inv cd fs_objects fs_ok s log" and "sk_buffer s = []"
    and "list_sync e0 (sk_store s) = Inr names"
    and "plan_chain names (bs_format (sk_spec s)) 0
      (map_option be_keyring (bs_encryption (sk_spec s))) = Inr chain"
    and "producer_sends C stored issued part p []"
    and "produce cd digest (reader_of fs_store (sk_spec s) src (sk_store s)) (producer_ops json_ok C) e
      chain su mode p = (Inr rep, p')"
  shows "(\<forall>off. stored (rp_cluster p') part off =
      (if off < of_nat (length log) then Some (future_record TmSource (log ! unat off)) else None))
    \<and> rr_records rep = of_nat (length log)
    \<and> (mode = Preserve \<longrightarrow> offsets log = map of_nat [0..<length log])"
proof -
  obtain bs where ok: "fs_ok (sk_store s)"
    and c: "chain_state cd (sk_spec s) (fs_objects (sk_store s)) bs log (sk_durable_position s)"
    using assms(1,2) by (auto simp: sink_inv_def)
  have ids: "ids_ok bs" "contents (content cd (sk_spec s) (fs_objects (sk_store s)))
      (names_of (sk_spec s) bs) = Some log" using c by (auto simp: chain_state_def)
  have l: "st_list fs_store e0 (sk_store s) = Inr names" using assms(3) by (simp add: fs_store_def)
  have chain: "chain = map (id_object (bs_format (sk_spec s))) bs"
    using fs.backup_plan [OF ok c l, of chain] assms(4) by simp
  obtain rs where rs: "read_records cd digest (reader_of fs_store (sk_spec s) src (sk_store s)) (pe_read e) 0
      chain = Inr rs" "rr_records rep = of_nat (length rs)"
    "\<forall>off. stored (rp_cluster p') part off =
      (if off < of_nat (length rs) then Some (future_record TmSource (rs ! unat off)) else None)"
    "mode = Preserve \<longrightarrow> contig 0 (offsets rs)"
    using restore_to_kafka.produce_exact [OF assms(5,6)] by (elim exE conjE)
  have "rs = log" by (rule fs.read_records_content [OF ok ids(1,2) rs(1) [unfolded chain]])
  then show ?thesis using rs(2-4) by (simp add: contig_def)
qed

text \<open>
  A cluster that starts empty and takes records as long as its offsets last; a producer with a window of
  two records in flight.
\<close>

definition demo_cluster :: "(kmessage list, unit) cluster" where
  "demo_cluster = \<lparr>
     cl_enqueue = (\<lambda>e m b. if int (length b) < 9223372036854775808
       then (Queued (length b), b @ [m]) else (SendFailed, b)),
     cl_await = (\<lambda>e tok b. if tok < length b \<and> int tok < 9223372036854775808
       then (Delivered 0 (of_nat tok), b) else (DeliveryFailed, b)),
     cl_flush = (\<lambda>e b. (Ok (), b)),
     cl_watermarks = (\<lambda>e b. if int (length b) < 9223372036854775808
       then (Inr (0, of_nat (length b)), b) else (Inl (), b))\<rparr>"

definition demo_stored :: "kmessage list \<Rightarrow> i32 \<Rightarrow> u64 \<Rightarrow> kmessage option" where
  "demo_stored b p off = (if p = 0 \<and> unat off < length b then Some (b ! unat off) else None)"

definition demo_issued :: "kmessage list \<Rightarrow> nat \<Rightarrow> kmessage option" where
  "demo_issued b tok = (if tok < length b then Some (b ! tok) else None)"

lemma demo_unat: "int n < 9223372036854775808 \<Longrightarrow> unat (of_nat n :: u64) = n"
  by (simp add: unat_of_nat take_bit_nat_eq_self)

lemma demo_cluster_ok: "cluster_ok demo_cluster demo_stored demo_issued 0"
  unfolding cluster_ok_def
proof (intro conjI allI impI)
  fix e m b d b' assume e: "cl_enqueue demo_cluster e m b = (d, b')"
  show "keeps demo_stored b b'"
    using e by (auto simp: demo_cluster_def keeps_def demo_stored_def nth_append split: if_splits)
  show "case d of Queued tok \<Rightarrow> demo_issued b tok = None \<and> demo_issued b' = (demo_issued b)(tok \<mapsto> m)
      | _ \<Rightarrow> demo_issued b' = demo_issued b"
    using e by (auto simp: demo_cluster_def demo_issued_def nth_append fun_eq_iff split: if_splits)
next
  fix e tok b d b' assume a: "cl_await demo_cluster e tok b = (d, b')"
  show "keeps demo_stored b b'" "demo_issued b' = demo_issued b"
    using a by (auto simp: demo_cluster_def keeps_def split: if_splits)
  fix p off m assume "d = Delivered p off" "demo_issued b tok = Some m"
  then show "demo_stored b' p off = Some m"
    using a by (auto simp: demo_cluster_def demo_issued_def demo_stored_def demo_unat split: if_splits)
next
  fix e b d b' assume "cl_flush demo_cluster e b = (d, b')"
  then show "keeps demo_stored b b'" "demo_issued b' = demo_issued b"
    by (auto simp: demo_cluster_def keeps_def)
next
  fix e b q b' assume w: "cl_watermarks demo_cluster e b = (q, b')"
  show "keeps demo_stored b b'" "demo_issued b' = demo_issued b"
    using w by (auto simp: demo_cluster_def keeps_def split: if_splits)
  fix low high off assume "q = Inr (low, high)" "0 \<le>s high" "high \<le> off"
  then show "demo_stored b' 0 off = None"
    using w by (auto simp: demo_cluster_def demo_stored_def word_le_nat_alt demo_unat split: if_splits)
qed

definition demo_target :: "kmessage list restore_producer" where
  "demo_target = (with_max_message_bytes [] 0 CT_Utf8 CT_Bytes 1000000)\<lparr>rp_window := 2\<rparr>"

lemma demo_target_sends: "producer_sends demo_cluster demo_stored demo_issued 0 demo_target []"
  by (simp add: producer_sends_def demo_cluster_ok demo_target_def with_max_message_bytes_def)

definition demo_plan :: "chain_object list" where
  "demo_plan = [\<lparr>co_name = demo_name1, co_from = 0, co_to = 1, co_key_id = None\<rparr>,
     \<lparr>co_name = demo_name2, co_from = 2, co_to = 2, co_key_id = None\<rparr>]"

definition demo_summary :: backup_summary where
  "demo_summary = \<lparr>su_objects = [summarize (demo_plan ! 0) [demo_rec 0, demo_rec 1] 7,
       summarize (demo_plan ! 1) [demo_rec 2] 7],
     su_first_offset = 0, su_last_offset = 2, su_records = 3, su_holes = 0, su_first_hole = None\<rparr>"

abbreviation demo_reader :: "(fs_dir, fs_env) reader" where
  "demo_reader \<equiv> reader_of fs_store (sk_spec demo_backup) demo_of (sk_store demo_backup)"

abbreviation demo_producer :: "(kmessage list restore_producer, nat \<Rightarrow> unit) target_ops" where
  "demo_producer \<equiv> producer_ops (\<lambda>_. True) demo_cluster"

abbreviation demo_restore ::
    "(restore_error + restore_report) \<times> kmessage list restore_producer" where
  "demo_restore \<equiv> produce demo_codec (\<lambda>_. 7) demo_reader demo_producer
     \<lparr>pe_read = \<lambda>_. demo_fs ''x'', pe_send = \<lambda>_ _. (), pe_start = \<lambda>_. (), pe_drain = \<lambda>_. (),
       pe_finish = \<lambda>_. (), pe_end = \<lambda>_. ()\<rparr>
     demo_plan demo_summary Preserve demo_target"

lemma demo_names_built:
  "blob_filename 0 1 None (extension Ndjson) = demo_name1" "blob_filename 2 2 None (extension Ndjson) = demo_name2"
  by code_simp+

lemma demo_names_parsed:
  "parse_blob_name demo_name1 (extension Ndjson) = Some \<lparr>bn_from = 0, bn_to = 1, bn_key_id = None\<rparr>"
  "parse_blob_name demo_name2 (extension Ndjson) = Some \<lparr>bn_from = 2, bn_to = 2, bn_key_id = None\<rparr>"
  using parse_blob_filename [of None 0 1 "extension Ndjson"] parse_blob_filename [of None 2 2 "extension Ndjson"]
    demo_names_built by simp_all

lemma demo_planned: "plan_chain [demo_name1, demo_name2] Ndjson 0 None = Inr demo_plan"
  using plan_chain_accepts [of "[demo_name1, demo_name2]" Ndjson "[((0, 1), None), ((2, 2), None)]" 0 3 None]
  by (simp add: demo_names_built ids_ok_def u64_max_def demo_plan_def)

lemma demo_reads:
  "read_object_with_digest demo_codec (\<lambda>_. 7) demo_reader (demo_fs ''x'') (demo_plan ! 0) =
     Inr ([demo_rec 0, demo_rec 1], 7)"
  "read_object_with_digest demo_codec (\<lambda>_. 7) demo_reader (demo_fs ''x'') (demo_plan ! 1) =
     Inr ([demo_rec 2], 7)"
proof -
  have g: "st_get fs_store (demo_fs ''x'') (sk_store demo_backup) demo_name1 = Inr [0, 1]"
    "st_get fs_store (demo_fs ''x'') (sk_store demo_backup) demo_name2 = Inr [2]" by code_simp+
  have c: "check_records demo_of (demo_plan ! 0) None [demo_rec 0, demo_rec 1] = Ok ()"
    "check_records demo_of (demo_plan ! 1) None [demo_rec 2] = Ok ()"
    "r_offset (demo_rec 1) = 1" "r_offset (demo_rec 2) = 2" by code_simp+
  have d: "cd_decode demo_codec Ndjson [0, 1] = Inr [demo_rec 0, demo_rec 1]"
    "cd_decode demo_codec Ndjson [2] = Inr [demo_rec 2]" by code_simp+
  show "read_object_with_digest demo_codec (\<lambda>_. 7) demo_reader (demo_fs ''x'') (demo_plan ! 0) =
     Inr ([demo_rec 0, demo_rec 1], 7)"
    using g(1) c(1,3) d(1) demo_names_parsed(1)
    by (simp add: read_object_with_digest_def reader_of_def decode_blob_def demo_spec_def
        demo_plan_def del: check_records.simps)
  show "read_object_with_digest demo_codec (\<lambda>_. 7) demo_reader (demo_fs ''x'') (demo_plan ! 1) =
     Inr ([demo_rec 2], 7)"
    using g(2) c(2,4) d(2) demo_names_parsed(2)
    by (simp add: read_object_with_digest_def reader_of_def decode_blob_def demo_spec_def
        demo_plan_def del: check_records.simps)
qed

abbreviation demo_message :: "nat \<Rightarrow> kmessage" where
  "demo_message i \<equiv> future_record TmSource (demo_rec i)"

abbreviation demo_after :: "kmessage list \<Rightarrow> (u64 \<times> nat) list \<Rightarrow> kmessage list restore_producer" where
  "demo_after ms q \<equiv> demo_target\<lparr>rp_cluster := ms, rp_in_flight := q\<rparr>"

abbreviation demo_messages :: "kmessage list" where
  "demo_messages \<equiv> [demo_message 0, demo_message 1, demo_message 2]"

lemma demo_sends:
  "send_records demo_producer (\<lambda>_ _. ()) Preserve [demo_rec 0, demo_rec 1] 0 demo_target =
     (Ok (), 2, demo_after [demo_message 0, demo_message 1] [(0, 0), (1, 1)])"
  "send_records demo_producer (\<lambda>_ _. ()) Preserve [demo_rec 2] 2
     (demo_after [demo_message 0, demo_message 1] [(0, 0), (1, 1)]) =
     (Ok (), 3, demo_after demo_messages [(1, 1), (2, 2)])"
  "tg_finish demo_producer (\<lambda>_. ()) (demo_after demo_messages [(1, 1), (2, 2)]) =
     (Ok (), demo_after demo_messages [])"
  "tg_high_watermark demo_producer (\<lambda>_. ()) (demo_after demo_messages []) = (Ok 3, demo_after demo_messages [])"
  "tg_high_watermark demo_producer (\<lambda>_. ()) demo_target = (Ok 0, demo_target)"
  by code_simp+

lemma demo_restored: "\<exists>p'. demo_restore = (Inr \<lparr>rr_records = 3, rr_high_watermark = 3\<rparr>, p')"
proof -
  have z: "zip demo_plan (su_objects demo_summary) =
      [(demo_plan ! 0, summarize (demo_plan ! 0) [demo_rec 0, demo_rec 1] 7),
       (demo_plan ! 1, summarize (demo_plan ! 1) [demo_rec 2] 7)]"
    "length demo_plan = length (su_objects demo_summary)"
    by (simp_all add: demo_plan_def demo_summary_def)
  have dg: "os_digest (summarize ob rs dg) = dg" for ob rs dg by (simp add: summarize_def Let_def)
  have mode: "check_mode Preserve demo_summary = Ok ()" "su_records demo_summary = 3"
    by (simp_all add: check_mode_def demo_summary_def)
  show ?thesis
    using demo_reads mode z by (simp add: produce_def dg demo_sends del: send_records.simps One_nat_def)
qed

theorem restore_copies_backup_witness:
  "\<exists>p'. demo_restore = (Inr \<lparr>rr_records = 3, rr_high_watermark = 3\<rparr>, p')
     \<and> demo_stored (rp_cluster p') 0 1 = Some (future_record TmSource (demo_rec 1))
     \<and> demo_stored (rp_cluster p') 0 3 = None"
proof -
  obtain p' where r: "demo_restore = (Inr \<lparr>rr_records = 3, rr_high_watermark = 3\<rparr>, p')"
    using demo_restored by blast
  have plan: "plan_chain [demo_name1, demo_name2] (bs_format (sk_spec demo_backup)) 0
      (map_option be_keyring (bs_encryption (sk_spec demo_backup))) = Inr demo_plan"
    using demo_planned by (simp add: demo_spec_def)
  note all = restore_copies_backup [OF demo_backup_facts(1) _ demo_backup_facts(2) plan demo_target_sends r]
  have "demo_stored (rp_cluster p') 0 off =
      (if off < of_nat (length demo_log) then Some (future_record TmSource (demo_log ! unat off)) else None)"
    for off using all by simp
  from this [of 1] this [of 3] show ?thesis using r by (auto simp: demo_log_def)
qed

section \<open>Agreement of the two chain checks\<close>

text \<open>
  C32: from offset 0, restore and the mirror accept the same listings: \<open>plan_chain\<close> succeeds exactly on
  the nonempty listings from which an append-mode sink would resume and whose encrypted objects all name a
  key that is held.
\<close>

theorem restore_accepts_what_the_mirror_resumes:
  "is_ok (plan_chain names fmt 0 keyring) \<longleftrightarrow>
     names \<noteq> [] \<and> is_ok (validate_chain names fmt None)
     \<and> (\<forall>n \<in> set names. \<forall>b kid. parse_blob_name n (extension fmt) = Some b \<longrightarrow> bn_key_id b = Some kid
          \<longrightarrow> keyring_has keyring kid)"
  by (rule plan_chain_agrees)

definition demo_encrypted_names :: "string list" where
  "demo_encrypted_names = [blob_filename 0 2 (Some ''k1'') (extension Parquet)]"

theorem restore_accepts_what_the_mirror_resumes_witness:
  "is_ok (validate_chain demo_encrypted_names Parquet None)
   \<and> \<not> is_ok (plan_chain demo_encrypted_names Parquet 0 None)
   \<and> is_ok (plan_chain demo_encrypted_names Parquet 0 (Some [(''k1'', [1])]))"
proof -
  have ok: "ids_ok [((0, 2), Some ''k1'')]"
  proof -
    have "is_key_id ''k1''" by code_simp
    then show ?thesis by (simp add: ids_ok_def u64_max_def)
  qed
  have v: "is_ok (validate_chain demo_encrypted_names Parquet None)"
    using validate_append_accepts [of demo_encrypted_names Parquet "[((0, 2), Some ''k1'')]" 3] ok
    by (simp add: demo_encrypted_names_def u64_max_def)
  have p: "parse_blob_name (blob_filename 0 2 (Some ''k1'') (extension Parquet)) (extension Parquet) =
      Some \<lparr>bn_from = 0, bn_to = 2, bn_key_id = Some ''k1''\<rparr>"
    by (rule parse_blob_filename) (use ok in \<open>simp add: ids_ok_def\<close>)
  have "is_ok (plan_chain demo_encrypted_names Parquet 0 keyring) = keyring_has keyring ''k1''" for keyring
    using v p by (subst restore_accepts_what_the_mirror_resumes) (simp add: demo_encrypted_names_def)
  then show ?thesis using v by (simp add: keyring_has_def)
qed

end
