(* ===== verification/Props_Process.thy ===== *)
theory Props_Process
  imports Fixtures Spawn
begin

text \<open>
  The properties of the configuration and of the process: what an accepted configuration guarantees the
  parts built from it, when a mirror is opened again, and what a cache mirror reads.
\<close>

section \<open>The configuration\<close>

text \<open>
  C39: the text of a configuration is expanded piece by piece.  For a text made of plain parts, escaped
  dollars and references, the result is the concatenation of their values, in one pass: a value is never
  looked at again, a default applies only when the variable is not set, and the first variable that has
  neither is the error.
\<close>

theorem config_text_expands_by_pieces:
  assumes "list_all piece_ok ps"
  shows "expand env (concat (map piece_text ps)) =
    res_bind (try_map (piece_value env) ps) (\<lambda>vs. Ok (concat vs))"
  by (rule expand_pieces [OF assms])

definition demo_pieces :: "piece list" where
  "demo_pieces = [Plain ''topic: '', Ref ''TOPIC'' (Some ''none''), Dollar, Ref ''SET'' None]"

theorem config_text_expands_by_pieces_witness:
  "expand (\<lambda>n. if n = ''SET'' then Some ''${TOPIC}'' else None) ''topic: ${TOPIC:-none}$$${SET}'' =
     Ok ''topic: none$${TOPIC}''"
proof -
  let ?env = "\<lambda>n. if n = ''SET'' then Some ''${TOPIC}'' else None"
  have ok: "list_all piece_ok demo_pieces" by code_simp
  have "concat (map piece_text demo_pieces) = ''topic: ${TOPIC:-none}$$${SET}''" by code_simp
  moreover have "try_map (piece_value ?env) demo_pieces = Ok [''topic: '', ''none'', ''$'', ''${TOPIC}'']"
    by code_simp
  ultimately show ?thesis using config_text_expands_by_pieces [OF ok, of ?env] by simp
qed

text \<open>What the sinks rely on of the configuration they are opened with.\<close>

definition spec_ok :: "blob_spec \<Rightarrow> bool" where
  "spec_ok spec = ((append_spec spec \<or> log_spec spec)
     \<and> (bs_format spec = Ndjson \<longrightarrow> bs_compaction spec = None \<and> bs_encryption spec = None
          \<and> bs_keys spec = CT_Utf8 \<and> bs_values spec = CT_Utf8)
     \<and> (\<forall>s. ft_daily_at_utc_seconds (bs_flush spec) = Some s \<longrightarrow> unat s < 86400))"

definition opened_ok :: "inner_config \<Rightarrow> bool" where
  "opened_ok c = (case c of
      OpenKafka k \<Rightarrow> True
    | OpenFilesystem f \<Rightarrow> spec_ok (fc_spec f)
    | OpenS3 s \<Rightarrow> spec_ok (s3g_spec s))"

lemma validated_ndjson:
  assumes "validate_destinations m = Ok ()" "list_ex is_blob (mc_destinations m)"
    "format_to_envelope (unwrap_or (mc_format m) format_default) = Ndjson"
  shows "key_type m = CT_Utf8 \<and> value_type m = CT_Utf8 \<and> mc_compaction m = None"
proof -
  have "unwrap_or (mc_format m) format_default = CfgNdjson"
    using assms(3) by (cases "unwrap_or (mc_format m) format_default") (simp_all add: format_to_envelope_def)
  then show ?thesis
    using assms(1,2)
    by (auto simp: validate_destinations_def Let_def key_type_def value_type_def column_type_to_envelope_def
        split: if_splits)
qed

lemma resolve_blob_params_Ok:
  assumes "resolve_blob_params m = Inr p"
  shows "bp_format p = format_to_envelope (unwrap_or (mc_format m) format_default)
    \<and> bp_keys p = key_type m \<and> bp_values p = value_type m
    \<and> (\<forall>s. ft_daily_at_utc_seconds (bp_flush p) = Some s \<longrightarrow> unat s < 86400)"
  using assms
  by (auto simp: resolve_blob_params_def dest: parse_at_utc_bound split: option.splits sum.splits)

lemma blob_spec_ok:
  assumes "validate_destinations m = Ok ()" "d \<in> set (mc_destinations m)" "is_blob d"
    "resolve_blob_params m = Inr p"
    "keys_ok (blob_spec_of m p enc)" "bp_format p = Ndjson \<longrightarrow> enc = None"
  shows "spec_ok (blob_spec_of m p enc)"
proof -
  have b: "list_ex is_blob (mc_destinations m)" using assms(2,3) by (auto simp: list_ex_iff)
  note p = resolve_blob_params_Ok [OF assms(4)]
  have "compaction_to_fs (mc_compaction m) = None \<or> compaction_to_fs (mc_compaction m) = Some CLog"
    by (cases "mc_compaction m") (auto simp: compaction_to_fs_def split: cfg_compaction.splits)
  moreover have "bp_format p = Ndjson \<longrightarrow> key_type m = CT_Utf8 \<and> value_type m = CT_Utf8 \<and> mc_compaction m = None"
    using validated_ndjson [OF assms(1) b] p by simp
  ultimately show ?thesis
    using p assms(5,6)
    by (auto simp: spec_ok_def append_spec_def log_spec_def blob_spec_of_def compaction_to_fs_def)
qed

lemma s3_encryption_Ok:
  assumes "s3_encryption load_keys s = Inr enc"
  shows "case sd_encryption s of EncNone \<Rightarrow> enc = None
    | EncParquetKeys k \<Rightarrow> (\<exists>ring. map_of ring (pk_key_id k) \<noteq> None
        \<and> enc = Some \<lparr>be_key_id = pk_key_id k, be_keyring = ring\<rparr>)"
  using assms by (auto simp: s3_encryption_def split: encryption.splits if_splits)

lemma opened_from_validated:
  assumes vd: "validate_destinations m = Ok ()" and d: "d \<in> set (mc_destinations m)"
    "inner_sink_config env build_ok load_keys d m (effective_name d (mc_name m)) = Inr c"
  shows "opened_ok c"
proof (cases d)
  case (DKafka k)
  then show ?thesis using d(2) by (auto simp: inner_sink_config_def opened_ok_def)
next
  case (DFilesystem f)
  then obtain p where p: "resolve_blob_params m = Inr p" "c = OpenFilesystem
      \<lparr>fc_root = fd_root f, fc_destination_name = effective_name d (mc_name m),
       fc_partition = mc_partition m, fc_spec = blob_spec_of m p None\<rparr>"
    using d(2) by (auto simp: inner_sink_config_def)
  have "spec_ok (blob_spec_of m p None)"
    by (rule blob_spec_ok [OF vd d(1) _ p(1)])
      (simp_all add: DFilesystem is_blob_def keys_ok_def blob_spec_of_def)
  then show ?thesis using p(2) by (simp add: opened_ok_def)
next
  case (DS3 s)
  obtain p enc where p: "resolve_blob_params m = Inr p" "s3_encryption load_keys s = Inr enc"
    "\<exists>g. c = OpenS3 g \<and> s3g_spec g = blob_spec_of m p enc"
    using d(2) DS3 by (auto simp: inner_sink_config_def s3_sink_config_def)
  have par: "bp_format p = Parquet \<and> is_key_id (pk_key_id k)" if "sd_encryption s = EncParquetKeys k" for k
    using validated_encryption [OF vd _ that] d(1) DS3 resolve_blob_params_Ok [OF p(1)]
    by (auto simp: format_to_envelope_def unwrap_or_def)
  have "keys_ok (blob_spec_of m p enc) \<and> (bp_format p = Ndjson \<longrightarrow> enc = None)"
    using s3_encryption_Ok [OF p(2)] par
    by (auto simp: keys_ok_def blob_spec_of_def split: encryption.splits)
  then have "spec_ok (blob_spec_of m p enc)"
    using blob_spec_ok [OF vd d(1) _ p(1)] by (simp add: DS3 is_blob_def)
  then show ?thesis using p(3) by (auto simp: opened_ok_def)
qed

lemma notify_builds:
  assumes sh: "validate_notify_shared up n = Ok ()"
    and ports: "\<forall>t \<in> set (nc_targets n). \<forall>u. up (nt_url t) = Some u \<longrightarrow> up_port_or_known_default u \<noteq> None"
  shows "is_ok (build_inner up set_path True n topic part)"
proof -
  note f = validated_notify_shared [OF sh]
  have "\<exists>e. build_endpoint up set_path t = Inr e" if t: "t \<in> set (nc_targets n)" for t
  proof -
    obtain u h where u: "up (nt_url t) = Some u" "up_host u = Some h" "up_scheme u \<in> {''http'', ''https''}"
      using f [THEN conjunct2, THEN conjunct2, THEN conjunct2, THEN conjunct2, rule_format, OF t]
      by (elim exE conjE)
    then obtain p where "up_port_or_known_default u = Some p" using ports t by blast
    moreover have "\<not> (up_scheme u \<noteq> ''http'' \<and> up_scheme u \<noteq> ''https'')" using u(3) by blast
    ultimately show ?thesis
      using u(1,2) by (cases "nt_fan_out t") (simp_all add: build_endpoint_def Let_def)
  qed
  then have "\<exists>es. try_map (build_endpoint up set_path) (nc_targets n) = Inr es"
    by (intro try_map_all_ok) blast
  then show ?thesis using f [THEN conjunct1] by (auto simp: build_inner_def)
qed

lemma mirror_without_destinations:
  assumes "validate_no_destinations m = Ok ()"
  shows "serves_cache m \<or> trigger_mode m = Some SourceConsume"
proof (cases "mc_notify m")
  case None
  then have "has_http m" using assms by (auto simp: validate_no_destinations_def split: if_splits)
  then show ?thesis by (simp add: has_http_def serves_cache_def)
next
  case (Some n)
  then have "ng_on (nc_trigger n) \<noteq> DestinationFlush"
    using assms by (auto simp: validate_no_destinations_def split: if_splits)
  then show ?thesis using Some by (cases "ng_on (nc_trigger n)") (simp_all add: trigger_mode_def)
qed

text \<open>What the notifier and the dispatcher rely on of a notify block.\<close>

definition notify_ok :: "(string \<Rightarrow> url_parts option) \<Rightarrow> notify_config \<Rightarrow> bool" where
  "notify_ok up n = (nc_targets n \<noteq> []
     \<and> (\<forall>t \<in> set (nc_targets n). \<exists>u h. up (nt_url t) = Some u \<and> up_host u = Some h \<and> h \<noteq> []
          \<and> up_scheme u \<in> {''http'', ''https''})
     \<and> 0 < nc_timeout_ms n \<and> 0 < nr_max_attempts (nc_retry n) \<and> 0 < nr_backoff_ms (nc_retry n)
     \<and> (case ng_on (nc_trigger n) of
          SourceConsume \<Rightarrow> (\<exists>d. ng_debounce (nc_trigger n) = Some d \<and> 0 < nd_max_records d \<and> 0 < nd_max_time_ms d)
        | DestinationFlush \<Rightarrow> ng_debounce (nc_trigger n) = None))"

lemma validated_notify_ok:
  assumes "validate_notify_shared up n = Ok ()"
  shows "notify_ok up n"
proof -
  have "0 < nc_timeout_ms n" "ng_on (nc_trigger n) = DestinationFlush \<longrightarrow> ng_debounce (nc_trigger n) = None"
    using assms by (auto simp: validate_notify_shared_def word_gt_0 split: if_splits)
  moreover have "x \<noteq> 0 \<Longrightarrow> 0 < x" for x :: "'a::len word" by (simp add: word_gt_0)
  ultimately show ?thesis
    using validated_notify_shared [OF assms] unfolding notify_ok_def
    by (cases "ng_on (nc_trigger n)") (auto simp: word_gt_0)
qed

lemma validated_http:
  assumes "validate_http_and_notify up m = Ok ()" "mc_http_access m = Some h"
  shows "(ha_cache_v1_main h \<noteq> None \<longrightarrow> ha_cache_v1 h \<noteq> None)
    \<and> (ha_cache_v1 h \<noteq> None \<longrightarrow> mc_name m \<notin> set reserved_names)"
  using assms by (auto simp: validate_http_and_notify_def split: if_splits)

lemma serves_cache_has_http: "serves_cache m = has_http m"
  by (simp add: serves_cache_def has_http_def split: option.splits)

text \<open>
  C38: an accepted mirror is well formed for everything that is built from it.  Whatever its destinations are
  opened with satisfies the assumptions of the sinks (append or compaction mode with keys that are
  held; NDJSON only unencrypted, uncompacted and of text; a daily boundary within the day), their names
  are distinct, and one that writes objects has flush triggers.  A notify block has targets with a web
  address, positive limits, a debounce exactly when it is fed by the source, and, unless the mirror
  only notifies, the unprefixed cache routes that its consumers read from; the notifier builds from it.
  A cache's name is not one of its own path segments.  A mirror without destinations has a reader, and
  one notified of flushes has a destination; that this may be a Kafka topic, which never reports a flush,
  is what the validation lets pass although its comment and WEBHOOKS.md say that it does not.
\<close>

theorem accepted_mirror_is_well_formed:
  assumes "validate_mirror up m = Ok ()"
  shows "(\<forall>d \<in> set (mc_destinations m). \<forall>c.
        inner_sink_config env build_ok load_keys d m (effective_name d (mc_name m)) = Inr c \<longrightarrow> opened_ok c)
    \<and> distinct (map (\<lambda>d. effective_name d (mc_name m)) (mc_destinations m))
    \<and> (list_ex is_blob (mc_destinations m) \<longrightarrow> mc_flush m \<noteq> None)
    \<and> (\<forall>n. mc_notify m = Some n \<longrightarrow> notify_ok up n
        \<and> (mc_destinations m = [] \<and> \<not> serves_cache m
            \<or> (\<exists>h. mc_http_access m = Some h \<and> ha_cache_v1 h \<noteq> None \<and> ha_cache_v1_main h \<noteq> None))
        \<and> ((\<forall>t \<in> set (nc_targets n). \<forall>u. up (nt_url t) = Some u \<longrightarrow> up_port_or_known_default u \<noteq> None) \<longrightarrow>
             is_ok (build_inner up set_path True n topic part)))
    \<and> (\<forall>h. mc_http_access m = Some h \<longrightarrow> (ha_cache_v1_main h \<noteq> None \<longrightarrow> ha_cache_v1 h \<noteq> None)
        \<and> (ha_cache_v1 h \<noteq> None \<longrightarrow> mc_name m \<notin> set reserved_names))
    \<and> (mc_destinations m = [] \<longrightarrow> serves_cache m \<or> trigger_mode m = Some SourceConsume)
    \<and> (trigger_mode m = Some DestinationFlush \<longrightarrow> mc_destinations m \<noteq> [])"
proof -
  note v = validate_mirrorD [OF assms]
  have vd: "validate_destinations m = Ok ()" if "d \<in> set (mc_destinations m)" for d by (rule v(1)) (use that in auto)
  have names: "distinct (map (\<lambda>d. effective_name d (mc_name m)) (mc_destinations m))"
    using v(1) validated_names_distinct [of m] by (cases "mc_destinations m = []") auto
  have blob: "list_ex is_blob (mc_destinations m) \<longrightarrow> mc_flush m \<noteq> None"
    using v(1) validated_blob_flush [of m] by (cases "mc_destinations m = []") auto
  have shared: "validate_notify_shared up n = Ok ()" if "mc_notify m = Some n" for n
    using validated_notify [OF v(3) that] by simp
  have reread: "mc_destinations m = [] \<and> \<not> serves_cache m
      \<or> (\<exists>h. mc_http_access m = Some h \<and> ha_cache_v1 h \<noteq> None \<and> ha_cache_v1_main h \<noteq> None)"
    if "mc_notify m = Some n" for n
    using validated_notify [OF v(3) that] by (simp add: serves_cache_has_http)
  have flush: "mc_destinations m \<noteq> []" if "trigger_mode m = Some DestinationFlush"
    using v(2) that by (auto simp: validate_no_destinations_def trigger_mode_def split: if_splits option.splits)
  have notify: "\<forall>n. mc_notify m = Some n \<longrightarrow> notify_ok up n
        \<and> (mc_destinations m = [] \<and> \<not> serves_cache m
            \<or> (\<exists>h. mc_http_access m = Some h \<and> ha_cache_v1 h \<noteq> None \<and> ha_cache_v1_main h \<noteq> None))
        \<and> ((\<forall>t \<in> set (nc_targets n). \<forall>u. up (nt_url t) = Some u \<longrightarrow> up_port_or_known_default u \<noteq> None) \<longrightarrow>
             is_ok (build_inner up set_path True n topic part))"
    using validated_notify_ok [OF shared] reread notify_builds [OF shared] by blast
  have opened: "\<forall>d \<in> set (mc_destinations m). \<forall>c.
      inner_sink_config env build_ok load_keys d m (effective_name d (mc_name m)) = Inr c \<longrightarrow> opened_ok c"
    using opened_from_validated [OF vd] by blast
  have http: "\<forall>h. mc_http_access m = Some h \<longrightarrow> (ha_cache_v1_main h \<noteq> None \<longrightarrow> ha_cache_v1 h \<noteq> None)
      \<and> (ha_cache_v1 h \<noteq> None \<longrightarrow> mc_name m \<notin> set reserved_names)"
    using validated_http [OF v(3)] by blast
  show ?thesis
    using opened names blob notify http mirror_without_destinations [OF v(2)] flush by (intro conjI impI) blast+
qed

definition demo_url :: "string \<Rightarrow> url_parts option" where
  "demo_url u = Some \<lparr>up_scheme = ''http'', up_host = Some ''app'', up_path = ''/'',
     up_port_or_known_default = Some 80\<rparr>"

definition demo_dest :: destination where
  "demo_dest = DFilesystem \<lparr>fd_name = None, fd_root = ''/data'', fd_affects_readiness = True\<rparr>"

definition demo_mirror :: mirror_config where
  "demo_mirror = \<lparr>mc_name = ''orders'',
     mc_source = \<lparr>kc_bootstrap_servers = ''kafka:9092'', kc_group_id = None\<rparr>,
     mc_topic = ''orders'', mc_partition = 0, mc_destinations = [demo_dest],
     mc_format = Some CfgNdjson, mc_compression = None, mc_keys = None, mc_values = None,
     mc_compaction = None,
     mc_flush = Some \<lparr>cf_max_time_ms = 1000, cf_max_bytes = 1000, cf_max_offsets = 10, cf_daily = None\<rparr>,
     mc_timestamp_mode = None,
     mc_http_access = Some \<lparr>ha_cache_v1 = Some (), ha_cache_v1_main = Some ()\<rparr>, mc_enabled = None,
     mc_notify = Some \<lparr>nc_targets = [\<lparr>nt_url = ''http://app'', nt_fan_out = FanOutDnsA\<rparr>],
       nc_trigger = trigger_default, nc_timeout_ms = 5000, nc_retry = retry_default,
       nc_outcomes = outcomes_default\<rparr>\<rparr>"

theorem accepted_mirror_is_well_formed_witness:
  "\<exists>c. inner_sink_config (\<lambda>_. None) True (\<lambda>_. Err []) demo_dest demo_mirror ''orders'' = Inr (OpenFilesystem c)
     \<and> spec_ok (fc_spec c) \<and> bs_format (fc_spec c) = Ndjson
     \<and> notify_ok demo_url (the (mc_notify demo_mirror)) \<and> mc_flush demo_mirror \<noteq> None
     \<and> is_ok (build_inner demo_url (\<lambda>u p. u @ p) True (the (mc_notify demo_mirror)) ''orders'' 0)"
proof -
  have v: "validate_mirror demo_url demo_mirror = Ok ()" by code_simp
  note all = accepted_mirror_is_well_formed [OF v, of "\<lambda>_. None" True "\<lambda>_. Err []" "\<lambda>u p. u @ p" "''orders''" 0]
  obtain c where c: "inner_sink_config (\<lambda>_. None) True (\<lambda>_. Err []) demo_dest demo_mirror ''orders'' =
      Inr (OpenFilesystem c)" "bs_format (fc_spec c) = Ndjson"
    by (auto simp: inner_sink_config_def demo_dest_def demo_mirror_def resolve_blob_params_def
        blob_spec_of_def format_to_envelope_def)
  have d: "demo_dest \<in> set (mc_destinations demo_mirror)" "effective_name demo_dest (mc_name demo_mirror) = ''orders''"
    by (simp_all add: demo_mirror_def demo_dest_def effective_name_def)
  have "opened_ok (OpenFilesystem c)"
    using all [THEN conjunct1, rule_format, OF d(1), unfolded d(2), OF c(1)] .
  moreover have "is_ok (build_inner demo_url (\<lambda>u p. u @ p) True (the (mc_notify demo_mirror)) ''orders'' 0)"
    "notify_ok demo_url (the (mc_notify demo_mirror))"
    using all [THEN conjunct2, THEN conjunct2, THEN conjunct2, THEN conjunct1]
    by (auto simp: demo_mirror_def demo_url_def)
  moreover have "mc_flush demo_mirror \<noteq> None"
    using all [THEN conjunct2, THEN conjunct2, THEN conjunct1] by (simp add: demo_mirror_def demo_dest_def is_blob_def)
  ultimately show ?thesis using c by (auto simp: opened_ok_def)
qed

section \<open>Restarting in the process\<close>

lemma supervised_first:
  "supervise_in_process n as = (res, w) \<Longrightarrow> w \<noteq> [] \<Longrightarrow>
    w ! 0 = (if restart_backoff_max < at_lasted (as ! 0) then restart_backoff_min else n)"
  by (cases as) (auto simp: Let_def split: sum.splits if_splits prod.splits)

lemma supervised_steps:
  "supervise_in_process b as = (res, waits) \<Longrightarrow> Suc i < length waits \<Longrightarrow> waits ! Suc i =
    (if restart_backoff_max < at_lasted (as ! Suc i) then restart_backoff_min
     else min (waits ! i * 2) restart_backoff_max)"
proof (induction b as arbitrary: res waits i rule: supervise_in_process.induct)
  case (2 b a as)
  let ?b = "if restart_backoff_max < at_lasted a then restart_backoff_min else b"
  obtain e w where r: "at_result a = Inl e" "\<not> (at_shutting_down a \<or> \<not> is_transient e)" "\<not> at_stopped a"
    "supervise_in_process (min (?b * 2) restart_backoff_max) as = (res, w)" "waits = ?b # w"
    using "2.prems" by (auto simp: Let_def split: sum.splits if_splits prod.splits)
  show ?case
  proof (cases i)
    case 0
    then show ?thesis using supervised_first [OF r(4)] "2.prems"(2) r(5) by auto
  next
    case (Suc j)
    then show ?thesis using "2.IH" [OF r(1,2) refl r(3,4)] "2.prems"(2) r(5) by simp
  qed
qed simp

text \<open>A failure after which the mirror is opened again, unless the process is stopped in the wait.\<close>

definition reopens_after :: "attempt \<Rightarrow> bool" where
  "reopens_after a = (\<exists>e. at_result a = Inl e \<and> is_transient e \<and> \<not> at_shutting_down a)"

lemma supervised_waits_bounded:
  assumes "supervise_in_process b as = (res, waits)" "restart_backoff_min \<le> b" "b \<le> restart_backoff_max"
  shows "\<forall>w \<in> set waits. restart_backoff_min \<le> w \<and> w \<le> restart_backoff_max"
  using assms
proof (induction b as arbitrary: res waits rule: supervise_in_process.induct)
  case (2 b a as)
  let ?b = "if restart_backoff_max < at_lasted a then restart_backoff_min else b"
  have b: "restart_backoff_min \<le> ?b" "?b \<le> restart_backoff_max"
    using "2.prems"(2,3) by (auto simp: restart_backoff_min_def restart_backoff_max_def)
  then have n: "restart_backoff_min \<le> min (?b * 2) restart_backoff_max"
    by (auto simp: restart_backoff_min_def restart_backoff_max_def)
  show ?case
    using "2.prems"(1) b "2.IH" [OF _ _ refl _ _ n]
    by (auto simp: Let_def split: sum.splits if_splits prod.splits)
qed simp

lemma supervised_end:
  assumes "supervise_in_process b as = (res, waits)"
  shows "length waits \<le> length as
    \<and> (\<forall>i < length waits. reopens_after (as ! i)
         \<and> (at_stopped (as ! i) \<longrightarrow> Suc i = length waits \<and> res = SupervisedOk))
    \<and> (case res of
        Supervising \<Rightarrow> length waits = length as
      | SupervisedOk \<Rightarrow> length waits < length as \<and> at_result (as ! length waits) = Inr ()
          \<or> (\<exists>k. length waits = Suc k \<and> at_stopped (as ! k))
      | SupervisedErr e \<Rightarrow> length waits < length as \<and> at_result (as ! length waits) = Inl e
          \<and> (at_shutting_down (as ! length waits) \<or> \<not> is_transient e))"
  using assms
proof (induction b as arbitrary: res waits rule: supervise_in_process.induct)
  case (2 b a as)
  let ?b = "if restart_backoff_max < at_lasted a then restart_backoff_min else b"
  show ?case
  proof (cases "reopens_after a")
    case False
    then have "waits = [] \<and> (case res of SupervisedErr e \<Rightarrow> at_result a = Inl e \<and> (at_shutting_down a \<or> \<not> is_transient e)
        | SupervisedOk \<Rightarrow> at_result a = Inr () | Supervising \<Rightarrow> False)"
      using "2.prems" by (auto simp: reopens_after_def split: sum.splits if_splits)
    then show ?thesis by (cases res) auto
  next
    case True
    then obtain e where e: "at_result a = Inl e" "\<not> (at_shutting_down a \<or> \<not> is_transient e)"
      by (auto simp: reopens_after_def)
    show ?thesis
    proof (cases "at_stopped a")
      case stopped: True
      then have "res = SupervisedOk" "waits = [?b]" using "2.prems" e by auto
      then show ?thesis using True stopped by simp
    next
      case False
      then obtain w where w: "supervise_in_process (min (?b * 2) restart_backoff_max) as = (res, w)"
        "waits = ?b # w"
        using "2.prems" e by (auto simp: Let_def split: prod.splits)
      note IH = "2.IH" [OF e refl False w(1)]
      have each: "reopens_after ((a # as) ! i) \<and> (at_stopped ((a # as) ! i) \<longrightarrow> Suc i = length waits \<and> res = SupervisedOk)"
        if "i < length waits" for i
        using IH that True False w(2) by (cases i) auto
      have "length waits \<le> length (a # as)" using IH w(2) by simp
      moreover have "case res of
          Supervising \<Rightarrow> length waits = length (a # as)
        | SupervisedOk \<Rightarrow> length waits < length (a # as) \<and> at_result ((a # as) ! length waits) = Inr ()
            \<or> (\<exists>k. length waits = Suc k \<and> at_stopped ((a # as) ! k))
        | SupervisedErr e \<Rightarrow> length waits < length (a # as) \<and> at_result ((a # as) ! length waits) = Inl e
            \<and> (at_shutting_down ((a # as) ! length waits) \<or> \<not> is_transient e)"
        using IH [THEN conjunct2, THEN conjunct2] w(2) by (cases res) auto
      ultimately show ?thesis using each by blast
    qed
  qed
qed simp

text \<open>
  C40: a mirror is opened again exactly while its failures are transient and the process is not stopping.
  Every attempt that fails so is followed by a wait and, unless the stop comes in that wait, by the next
  attempt; nothing else is.  The supervisor ends without an error only when an attempt did or the stop
  came in a wait, and with an error only when that is the error of the last attempt and trying again
  cannot fix it or it came while stopping.  The first wait is one second, and each further one is twice the
  one before, at most a minute, or a second again after a run of more than a minute.
\<close>

theorem restarts_follow_transient_failures:
  assumes "supervise_in_process restart_backoff_min as = (res, waits)"
  shows "length waits \<le> length as
    \<and> (\<forall>i < length waits. reopens_after (as ! i)
         \<and> (at_stopped (as ! i) \<longrightarrow> Suc i = length waits \<and> res = SupervisedOk))
    \<and> (case res of
        Supervising \<Rightarrow> length waits = length as
      | SupervisedOk \<Rightarrow> length waits < length as \<and> at_result (as ! length waits) = Inr ()
          \<or> (\<exists>k. length waits = Suc k \<and> at_stopped (as ! k))
      | SupervisedErr e \<Rightarrow> length waits < length as \<and> at_result (as ! length waits) = Inl e
          \<and> (at_shutting_down (as ! length waits) \<or> \<not> is_transient e))
    \<and> (waits \<noteq> [] \<longrightarrow> waits ! 0 = 1)
    \<and> (\<forall>i. Suc i < length waits \<longrightarrow>
         waits ! Suc i = (if 60 < at_lasted (as ! Suc i) then 1 else min (waits ! i * 2) 60))
    \<and> (\<forall>w \<in> set waits. 1 \<le> w \<and> w \<le> 60)"
proof -
  have "waits \<noteq> [] \<Longrightarrow> waits ! 0 = restart_backoff_min"
    using supervised_first [OF assms] by simp
  then show ?thesis
    using supervised_end [OF assms] supervised_steps [OF assms] supervised_waits_bounded [OF assms]
    by (simp add: restart_backoff_min_def restart_backoff_max_def)
qed

definition demo_failed :: "error_chain \<Rightarrow> nat \<Rightarrow> attempt" where
  "demo_failed e lasted = \<lparr>at_result = Inl e, at_shutting_down = False, at_lasted = lasted, at_stopped = False\<rparr>"

definition demo_attempts :: "attempt list" where
  "demo_attempts = [demo_failed [COther, CMirror (MSink SnkTransport)] 3, demo_failed [CKafka KRead] 0,
      demo_failed [COther, CMirror (MSource SrcTransport)] 7200, demo_failed [CSink SnkInconsistent] 5]"

theorem restarts_follow_transient_failures_witness:
  "supervise_in_process restart_backoff_min demo_attempts = (SupervisedErr [CSink SnkInconsistent], [1, 2, 1])
   \<and> reopens_after (demo_attempts ! 2) \<and> \<not> is_transient [CSink SnkInconsistent]"
proof -
  have run: "supervise_in_process restart_backoff_min demo_attempts = (SupervisedErr [CSink SnkInconsistent], [1, 2, 1])"
    by (simp add: demo_attempts_def demo_failed_def restart_backoff_min_def restart_backoff_max_def
        mirror_is_transient_def sink_is_transient_def source_is_transient_def)
  note all = restarts_follow_transient_failures [OF run]
  have "reopens_after (demo_attempts ! 2)" using all by simp
  moreover have "at_shutting_down (demo_attempts ! 3) \<or> \<not> is_transient [CSink SnkInconsistent]"
    using all by (simp add: numeral_3_eq_3)
  ultimately show ?thesis using run by (simp add: demo_attempts_def demo_failed_def)
qed

section \<open>Cache mirrors\<close>

text \<open>
  A mirror that serves a cache reads its topic from the low watermark, whatever its destinations have,
  and its cache receives every record that the loop delivers, each once and in the order of the offsets.
  This holds with any kinds of destinations and for a mirror that has none; nothing is assumed of the
  destinations.
\<close>

theorem cache_mirror_reads_everything:
  fixes K :: "('s, 'e) sink_ops"
  assumes "serves_cache m"
    and "spawn_mirror (dyn_ops K no_destination_ops) e0 v m (open_inner_sinks opn m) (Inr no_destination_default)
      cache = Inr sp"
    and "start_mirror (tee_ops (dyn_ops K no_destination_ops) apply) S e source (sp_tee sp) n = Inr st"
    and "s_low_watermark S (ste_low e) source = (Inr low, source1)" and "sv_low v = Inr low"
    and "run_loop (tee_ops (dyn_ops K no_destination_ops) apply) S N evs st = (res, st', rs)"
    and "intact res"
  shows "lp_expected st = low \<and> increasing rs \<and> (\<forall>r \<in> set rs. low \<le> r_offset r)
    \<and> te_cache (lp_sink st') = map_option (fold apply rs) cache"
proof -
  let ?K = "dyn_ops K no_destination_ops"
  obtain sinks tee fl committed notifier where sp: "open_inner_sinks opn m = Inr sinks"
    "spawn_tee ?K e0 sinks (Inr no_destination_default) cache = Inr tee"
    "resume_floor (serves_cache m) (mc_destinations m \<noteq> []) (notifier \<noteq> None) committed (min_of_heads tee)
       (sv_low v) = Inr fl" "sp_tee sp = apply_floor fl tee" "sp_notifier sp = notifier"
    by (rule spawn_mirror_Inr [OF assms(2)])
  obtain ss where ss: "tee_open ?K e0 (if sinks = [] then [(''none'', Inr no_destination_default)] else sinks) cache
      = Inr tee"
    using sp(2) by (auto simp: spawn_tee_def split: sum.splits)
  have cache: "te_cache (sp_tee sp) = cache"
    using tee_open_cache [OF ss] sp(4) by (auto simp: apply_floor_def set_resume_floor_def split: option.splits)
  have le: "h \<le> low" if h: "tee_next_expected_offset ?K (ste_next e) (sp_tee sp) = (Inr h, t')" for h t'
  proof (cases "mc_destinations m = []")
    case True
    have "sinks = []" using sp(1) True by (simp add: open_inner_sinks_def)
    then have inners: "te_inners tee = [\<lparr>in_name = ''none'', in_sink = Inr no_destination_default, in_head = 0\<rparr>]"
      using ss by (auto simp: tee_open_def dyn_ops_def lift_call_def no_destination_ops_def
          no_destination_default_def)
    have "min_of_heads tee = 0" by (simp add: min_of_heads_def heads_def inners)
    then have "sp_tee sp = tee"
      using sp(3,4) True assms(1) by (auto simp: resume_floor_def apply_floor_def split: option.splits if_splits)
    then have "h = 0"
      using h inners tee_open_cache [OF ss]
      by (auto simp: tee_next_expected_offset_def dyn_ops_def lift_call_def no_destination_ops_def
          no_destination_default_def tee_position_def min_head_def)
    then show ?thesis by simp
  next
    case False
    then have "fl = Some low" using sp(3) assms(1,5) by (simp add: resume_floor_def)
    then have "te_resume_cursor (sp_tee sp) = Some low"
      using sp(4) by (simp add: apply_floor_def set_resume_floor_def)
    then show ?thesis using requery_cursor [OF h] by simp
  qed
  have low: "lp_expected st = low" by (rule start_at_low [OF assms(3,4) le])
  then show ?thesis
    using run_loop_delivers [OF assms(6)] run_loop_cache [OF assms(6,7)] start_mirror_cache [OF assms(3)] cache
    by simp
qed

text \<open>A topic of three records, and a destination that already holds the first of them.\<close>

definition demo_cache_mirror :: mirror_config where
  "demo_cache_mirror = demo_mirror\<lparr>mc_notify := None, mc_destinations :=
     [DKafka \<lparr>kd_name = None, kd_bootstrap_servers = ''other:9092'', kd_topic = None, kd_affects_readiness = True\<rparr>]\<rparr>"

abbreviation demo_dyn_ops ::
    "(kmessage list kafka_sink + no_destination_sink, (unit \<times> unit) \<times> unit) sink_ops" where
  "demo_dyn_ops \<equiv> dyn_ops (kafka_ops (\<lambda>_. True) demo_broker) no_destination_ops"

definition demo_copy :: "kmessage list kafka_sink" where
  "demo_copy = demo_topic\<lparr>ks_partition := [future_record TmSource (demo_rec 0)]\<rparr>"

definition demo_count :: "krecord \<Rightarrow> u64 list \<Rightarrow> u64 list" where
  "demo_count r c = c @ [r_offset r]"

definition demo_spawn_env :: spawn_env where
  "demo_spawn_env = \<lparr>sv_source = Ok (), sv_committed = Ok None, sv_low = Ok 0,
     sv_built = (\<lambda>_. Err NoTargets), sv_suppressed = (\<lambda>_. False)\<rparr>"

text \<open>A spawn without notifications, compared by its parts.\<close>

lemma spawned_eqI:
  fixes r :: "error_chain + ('s, 'c) spawned"
  assumes "case r of Inl _ \<Rightarrow> False | Inr s \<Rightarrow> sp_tee s = sp_tee t \<and> sp_ack_tracker s = sp_ack_tracker t
      \<and> Option.is_none (sp_notifier s) \<and> Option.is_none (sp_dispatcher s)"
    and "sp_notifier t = None" "sp_dispatcher t = None"
  shows "r = Inr t"
  using assms by (auto simp: Option.is_none_def split: sum.splits)

definition demo_spawned :: "(kmessage list kafka_sink + no_destination_sink, u64 list) spawned" where
  "demo_spawned = \<lparr>
     sp_tee = \<lparr>te_inners = [\<lparr>in_name = ''orders'', in_sink = Inl demo_copy, in_head = 1\<rparr>],
       te_cache = Some [], te_resume_cursor = Some 0\<rparr>,
     sp_ack_tracker = \<lparr>at_notify = None, at_destinations = [slot_new ''orders'' True]\<rparr>,
     sp_notifier = None, sp_dispatcher = None\<rparr>"

definition demo_cache_start ::
    "((kmessage list kafka_sink + no_destination_sink, u64 list) tee_sink, demo_src, unit) loop_state" where
  "demo_cache_start = \<lparr>lp_source = demo_src 0 3 [0, 1, 2], lp_sink = sp_tee demo_spawned,
     lp_notifier = (), lp_expected = 0, lp_last_heartbeat_offset = 0\<rparr>"

abbreviation demo_cache_loop ::
    "loop_result \<times> ((kmessage list kafka_sink + no_destination_sink, u64 list) tee_sink, demo_src, unit)
      loop_state \<times> krecord list" where
  "demo_cache_loop \<equiv> run_loop (tee_ops demo_dyn_ops demo_count) demo_source no_op_notifier
     [Poll () (\<lambda>_. (((), ()), ())) (), Poll () (\<lambda>_. (((), ()), ())) (), Poll () (\<lambda>_. (((), ()), ())) ()]
     demo_cache_start"

theorem cache_mirror_reads_everything_witness:
  "offsets (snd (snd demo_cache_loop)) = [0, 1, 2]
   \<and> te_cache (lp_sink (fst (snd demo_cache_loop))) = map_option (fold demo_count (snd (snd demo_cache_loop))) (Some [])"
proof -
  have serves: "serves_cache demo_cache_mirror" by code_simp
  have sp: "spawn_mirror demo_dyn_ops (\<lambda>_. (((), ()), ())) demo_spawn_env demo_cache_mirror
      (open_inner_sinks (\<lambda>d m n. Ok (Inl demo_copy)) demo_cache_mirror) (Inr no_destination_default) (Some []) =
      Inr demo_spawned" by (rule spawned_eqI, code_simp) (simp_all add: demo_spawned_def)
  have st: "start_mirror (tee_ops demo_dyn_ops demo_count) demo_source (demo_start (\<lambda>_. (((), ()), ())))
      (demo_src 0 3 [0, 1, 2]) (sp_tee demo_spawned) () = Inr demo_cache_start" by code_simp
  have low: "s_low_watermark demo_source (ste_low (demo_start (\<lambda>_. (((), ()), ())))) (demo_src 0 3 [0, 1, 2]) =
      (Inr 0, demo_src 0 3 [0, 1, 2])" by code_simp
  have v: "sv_low demo_spawn_env = Inr 0" by (simp add: demo_spawn_env_def)
  have run: "demo_cache_loop = (fst demo_cache_loop, fst (snd demo_cache_loop), snd (snd demo_cache_loop))" by simp
  have offs: "offsets (snd (snd demo_cache_loop)) = [0, 1, 2]" by code_simp
  have "fst demo_cache_loop = Running" by code_simp
  then have "intact (fst demo_cache_loop)" by (simp add: intact_def)
  from cache_mirror_reads_everything [OF serves sp st low v run this] offs show ?thesis by blast
qed

end
