(* ===== verification/Follow.thy ===== *)
theory Follow
  imports Restore_Exact Run_Loop
begin

text \<open>
  A backup as a mirror's source (\<open>crates/mirror-restore/src/follow.rs\<close>): \<open>ChainSource\<close> lists the
  objects of a backup that may still grow, and yields their records at the offsets of the target.  The store
  is looked at anew by every call, so each call's environment is the store as it is then with the outcome of
  the request.  A poll is a list of turns of its loop; a turn that the run loop drops while it awaits (a
  heartbeat fired) leaves what had changed by then.  Logs and the poll interval are left out.
\<close>

section \<open>The state\<close>

record ('st, 'e) follow_config =
  fc_ops :: "('st, 'e) store_ops"
  fc_format :: format
  fc_keyring :: "(string \<times> bytes) list option"
  fc_source :: backup_source
  fc_mode :: offset_mode
  fc_chain_start :: u64

text \<open>\<open>cs_pending\<close> is the object a read was started of, \<open>cs_idle\<close> whether \<open>idle_until\<close> is set.\<close>

record chain_source =
  cs_chain :: "chain_object list"
  cs_counts :: "u64 list"
  cs_next_object :: nat
  cs_skip :: u64
  cs_pending :: "nat option"
  cs_buffer :: "krecord list"
  cs_position :: u64
  cs_idle :: bool
  cs_last_read :: "(nat \<times> krecord list) option"

definition chain_source_new :: chain_source where
  "chain_source_new = \<lparr>cs_chain = [], cs_counts = [], cs_next_object = 0, cs_skip = 0, cs_pending = None,
     cs_buffer = [], cs_position = 0, cs_idle = False, cs_last_read = None\<rparr>"

section \<open>Listing and reading\<close>

definition list_new ::
    "('st, 'e) follow_config \<Rightarrow> 'st \<times> 'e \<Rightarrow> chain_source \<Rightarrow> (restore_error + bool) \<times> chain_source" where
  "list_new cfg d s =
     (let after = (if cs_chain s = [] then None else Some (co_name (last (cs_chain s)))) in
      case st_list_after (fc_ops cfg) (snd d) (fst d) after of
        Inl _ \<Rightarrow> (Err RStore, s)
      | Inr names \<Rightarrow>
          if names = [] then (Ok False, s)
          else (let start = (if cs_chain s = [] then fc_chain_start cfg else co_to (last (cs_chain s)) + 1);
                    first = list_min (map bn_from
                      (List.map_filter (\<lambda>n. parse_blob_name n (extension (fc_format cfg))) names))
            in if cs_chain s \<noteq> [] \<and> (case first of None \<Rightarrow> False | Some f \<Rightarrow> start < f) then (Err RChain, s)
               else (case plan_chain names (fc_format cfg) start (fc_keyring cfg) of
                   Inl x \<Rightarrow> (Inl x, s)
                 | Inr new \<Rightarrow> (Ok True, s\<lparr>cs_chain := cs_chain s @ new\<rparr>))))"

definition open_source ::
    "('st, 'e) follow_config \<Rightarrow> 'st \<times> 'e \<Rightarrow> restore_error + chain_source" where
  "open_source cfg d =
     (if fc_mode cfg = Preserve \<and> fc_chain_start cfg \<noteq> 0 then Err RMode
      else case list_new cfg d chain_source_new of
        (Inl x, _) \<Rightarrow> Inl x
      | (Inr _, s) \<Rightarrow> Ok s)"

definition follow_read ::
    "codec \<Rightarrow> ('st, 'e) follow_config \<Rightarrow> 'st \<times> 'e \<Rightarrow> chain_object \<Rightarrow> restore_error + krecord list" where
  "follow_read cd cfg d ob =
     read_object cd (\<lambda>_. 0) \<lparr>rd_ops = fc_ops cfg, rd_store = fst d, rd_format = fc_format cfg,
       rd_keyring = fc_keyring cfg, rd_source = fc_source cfg\<rparr> (snd d) ob"

definition records_of ::
    "codec \<Rightarrow> ('st, 'e) follow_config \<Rightarrow> 'st \<times> 'e \<Rightarrow> nat \<Rightarrow> chain_source
      \<Rightarrow> (restore_error + krecord list) \<times> chain_source" where
  "records_of cd cfg d i s =
     (case cs_last_read s of
        Some (j, records) \<Rightarrow>
          if j = i then (Ok records, s)
          else (case follow_read cd cfg d (cs_chain s ! i) of
              Inl x \<Rightarrow> (Inl x, s)
            | Inr rs \<Rightarrow> (Ok rs, s\<lparr>cs_last_read := Some (i, rs)\<rparr>))
      | None \<Rightarrow> (case follow_read cd cfg d (cs_chain s ! i) of
            Inl x \<Rightarrow> (Inl x, s)
          | Inr rs \<Rightarrow> (Ok rs, s\<lparr>cs_last_read := Some (i, rs)\<rparr>)))"

text \<open>The loop of \<open>count\<close>, which counts \<open>k\<close> more objects; object \<open>j\<close> is read with environment \<open>e j\<close>.\<close>

fun count_more ::
    "codec \<Rightarrow> ('st, 'e) follow_config \<Rightarrow> (nat \<Rightarrow> 'st \<times> 'e) \<Rightarrow> nat \<Rightarrow> chain_source
      \<Rightarrow> (restore_error + unit) \<times> chain_source" where
  "count_more cd cfg e 0 s = (Ok (), s)"
| "count_more cd cfg e (Suc k) s =
     (let j = length (cs_counts s) in
      case records_of cd cfg (e j) j s of
        (Inl x, s') \<Rightarrow> (Inl x, s')
      | (Inr rs, s') \<Rightarrow> count_more cd cfg e k (s'\<lparr>cs_counts := cs_counts s' @ [of_nat (length rs)]\<rparr>))"

definition count ::
    "codec \<Rightarrow> ('st, 'e) follow_config \<Rightarrow> (nat \<Rightarrow> 'st \<times> 'e) \<Rightarrow> nat \<Rightarrow> chain_source
      \<Rightarrow> (restore_error + u64) \<times> chain_source" where
  "count cd cfg e i s =
     (case count_more cd cfg e (Suc i - length (cs_counts s)) s of
        (Inl x, s') \<Rightarrow> (Inl x, s')
      | (Inr _, s') \<Rightarrow> (Ok (cs_counts s' ! i), s'))"

text \<open>
  The loop that both \<open>seek\<close> and \<open>record_at\<close> run over the objects from \<open>i\<close> on, \<open>k\<close> of which are left: the
  object that holds the position with the index in it, or the number of records.
\<close>

fun locate ::
    "codec \<Rightarrow> ('st, 'e) follow_config \<Rightarrow> (nat \<Rightarrow> 'st \<times> 'e) \<Rightarrow> u64 \<Rightarrow> nat \<Rightarrow> nat \<Rightarrow> u64 \<Rightarrow> chain_source
      \<Rightarrow> (restore_error + (nat \<times> u64) option \<times> u64) \<times> chain_source" where
  "locate cd cfg e position 0 i first s = (Ok (None, first), s)"
| "locate cd cfg e position (Suc k) i first s =
     (case count cd cfg e i s of
        (Inl x, s') \<Rightarrow> (Inl x, s')
      | (Inr n, s') \<Rightarrow>
          if position < first + n then (Ok (Some (i, position - first), first), s')
          else locate cd cfg e position k (i + 1) (first + n) s')"

fun position_where :: "('a \<Rightarrow> bool) \<Rightarrow> 'a list \<Rightarrow> nat option" where
  "position_where P [] = None"
| "position_where P (x # xs) = (if P x then Some 0 else map_option Suc (position_where P xs))"

definition positions_end :: "('st, 'e) follow_config \<Rightarrow> chain_source \<Rightarrow> u64" where
  "positions_end cfg s =
     (if cs_chain s = [] then 0 else co_to (last (cs_chain s)) + 1 - fc_chain_start cfg)"

section \<open>Resuming a target\<close>

text \<open>\<open>record_at\<close>; \<open>d\<close> is what the last read sees.\<close>

definition record_at ::
    "codec \<Rightarrow> ('st, 'e) follow_config \<Rightarrow> (nat \<Rightarrow> 'st \<times> 'e) \<Rightarrow> 'st \<times> 'e \<Rightarrow> u64 \<Rightarrow> chain_source
      \<Rightarrow> (restore_error + krecord option) \<times> chain_source" where
  "record_at cd cfg e d position s =
     (case fc_mode cfg of
        Preserve \<Rightarrow>
          (case position_where (\<lambda>ob. co_from ob \<le> position \<and> position \<le> co_to ob) (cs_chain s) of
             None \<Rightarrow> (Ok None, s)
           | Some i \<Rightarrow> (case records_of cd cfg d i s of
                 (Inl x, s') \<Rightarrow> (Inl x, s')
               | (Inr records, s') \<Rightarrow> (Ok (List.find (\<lambda>r. r_offset r = position) records), s')))
      | Renumber \<Rightarrow>
          (case locate cd cfg e position (length (cs_chain s)) 0 0 s of
             (Inl x, s1) \<Rightarrow> (Inl x, s1)
           | (Inr (None, _), s1) \<Rightarrow> (Ok None, s1)
           | (Inr (Some (i, k), _), s1) \<Rightarrow> (case records_of cd cfg d i s1 of
                 (Inl x, s') \<Rightarrow> (Inl x, s')
               | (Inr records, s') \<Rightarrow>
                   (Ok (if unat k < length records then Some ((records ! unat k)\<lparr>r_offset := position\<rparr>)
                        else None), s'))))"

definition same_record :: "krecord \<Rightarrow> krecord \<Rightarrow> bool" where
  "same_record ours theirs =
     (let compare_time = (r_timestamp_ms ours \<noteq> None \<and> r_timestamp_type theirs = CreateTime) in
      r_key ours = r_key theirs \<and> r_value ours = r_value theirs \<and> r_headers ours = r_headers theirs
      \<and> (\<not> compare_time \<or> r_timestamp_ms ours = r_timestamp_ms theirs))"

definition check_resume ::
    "codec \<Rightarrow> ('st, 'e) follow_config \<Rightarrow> (nat \<Rightarrow> 'st \<times> 'e) \<Rightarrow> 'st \<times> 'e \<Rightarrow> u64 \<Rightarrow> krecord \<Rightarrow> chain_source
      \<Rightarrow> (restore_error + unit) \<times> chain_source" where
  "check_resume cd cfg e d high last_record s =
     (if high = 0 then (Ok (), s)
      else (case record_at cd cfg e d (high - 1) s of
          (Inl x, s') \<Rightarrow> (Inl x, s')
        | (Inr None, s') \<Rightarrow> (Err RTarget, s')
        | (Inr (Some ours), s') \<Rightarrow>
            if same_record ours last_record then (Ok (), s') else (Err RTarget, s')))"

section \<open>Filling the buffer\<close>

text \<open>What \<open>fill\<close> appends to the buffer: up to the hole it reports.\<close>

fun push_preserved :: "u64 \<Rightarrow> krecord list \<Rightarrow> (restore_error + unit) \<times> krecord list" where
  "push_preserved expected [] = (Ok (), [])"
| "push_preserved expected (r # rs) =
     (if r_offset r < expected then push_preserved expected rs
      else if r_offset r \<noteq> expected then (Err RMode, [])
      else (case push_preserved (expected + 1) rs of (res, pushed) \<Rightarrow> (res, r # pushed)))"

fun renumbered :: "u64 \<Rightarrow> krecord list \<Rightarrow> krecord list" where
  "renumbered position [] = []"
| "renumbered position (r # rs) = r\<lparr>r_offset := position\<rparr> # renumbered (position + 1) rs"

definition fill_with ::
    "('st, 'e) follow_config \<Rightarrow> nat \<Rightarrow> krecord list \<Rightarrow> chain_source
      \<Rightarrow> (restore_error + unit) \<times> chain_source" where
  "fill_with cfg i records s =
     (let s1 = (if length (cs_counts s) = i
                then s\<lparr>cs_counts := cs_counts s @ [of_nat (length records)]\<rparr> else s) in
      case fc_mode cfg of
        Preserve \<Rightarrow> (case push_preserved (cs_position s1) records of
            (Inl x, pushed) \<Rightarrow> (Inl x, s1\<lparr>cs_buffer := cs_buffer s1 @ pushed\<rparr>)
          | (Inr _, pushed) \<Rightarrow>
              (Ok (), s1\<lparr>cs_buffer := cs_buffer s1 @ pushed, cs_next_object := cs_next_object s1 + 1\<rparr>))
      | Renumber \<Rightarrow>
          (Ok (), s1\<lparr>cs_skip := 0,
             cs_buffer := cs_buffer s1 @ renumbered (cs_position s1) (drop (unat (cs_skip s1)) records),
             cs_next_object := cs_next_object s1 + 1\<rparr>))"

text \<open>\<open>fill\<close> is dropped (result \<open>None\<close>) while the read it awaits is not done (environment \<open>None\<close>).\<close>

definition fill ::
    "codec \<Rightarrow> ('st, 'e) follow_config \<Rightarrow> ('st \<times> 'e) option \<Rightarrow> chain_source
      \<Rightarrow> (restore_error + unit) option \<times> chain_source" where
  "fill cd cfg e s =
     (let i = cs_next_object s;
          s1 = s\<lparr>cs_last_read := None\<rparr>
      in case (case cs_last_read s of
                 Some (j, records) \<Rightarrow> if j = i \<and> cs_pending s = None then Some records else None
               | None \<Rightarrow> None) of
           Some records \<Rightarrow> (case fill_with cfg i records s1 of (r, s2) \<Rightarrow> (Some r, s2))
         | None \<Rightarrow>
            (let p = unwrap_or (cs_pending s) i in
             case e of
               None \<Rightarrow> (None, s1\<lparr>cs_pending := Some p\<rparr>)
             | Some d \<Rightarrow> (case follow_read cd cfg d (cs_chain s ! p) of
                   Inl x \<Rightarrow> (Some (Inl x), s1\<lparr>cs_pending := None\<rparr>)
                 | Inr records \<Rightarrow>
                     (case fill_with cfg i records (s1\<lparr>cs_pending := None\<rparr>) of (r, s2) \<Rightarrow> (Some r, s2)))))"

section \<open>The source\<close>

definition source_error :: "restore_error \<Rightarrow> source_error" where
  "source_error e = (case e of RStore \<Rightarrow> SrcTransport | _ \<Rightarrow> SrcInconsistent)"

record ('st, 'e) turn_env =
  te_waited :: bool
  te_read :: "('st \<times> 'e) option"
  te_list :: "('st \<times> 'e) option"

datatype poll_turn_result = Again | Dropped | Returned "source_error + krecord option"

text \<open>One turn of the loop of \<open>poll_one\<close>.\<close>

definition poll_turn ::
    "codec \<Rightarrow> ('st, 'e) follow_config \<Rightarrow> ('st, 'e) turn_env \<Rightarrow> chain_source
      \<Rightarrow> poll_turn_result \<times> chain_source" where
  "poll_turn cd cfg t s =
     (if cs_idle s then
        (if te_waited t then (Returned (Ok None), s\<lparr>cs_idle := False\<rparr>) else (Dropped, s))
      else case cs_buffer s of
        r # rest \<Rightarrow> (Returned (Ok (Some r)), s\<lparr>cs_buffer := rest, cs_position := cs_position s + 1\<rparr>)
      | [] \<Rightarrow>
          if cs_next_object s < length (cs_chain s) then
            (case fill cd cfg (te_read t) s of
               (None, s') \<Rightarrow> (Dropped, s')
             | (Some (Inl x), s') \<Rightarrow> (Returned (Err (source_error x)), s')
             | (Some (Inr _), s') \<Rightarrow> (Again, s'))
          else (case te_list t of
              None \<Rightarrow> (Dropped, s)
            | Some d \<Rightarrow> (case list_new cfg d s of
                  (Inl x, s') \<Rightarrow> (Returned (Err (source_error x)), s')
                | (Inr True, s') \<Rightarrow> (Again, s')
                | (Inr False, s') \<Rightarrow> (Again, s'\<lparr>cs_idle := True\<rparr>))))"

text \<open>
  \<open>poll_one\<close>, called again after each dropped turn; \<open>None\<close> when it has not returned within the turns.
\<close>

fun poll_turns ::
    "codec \<Rightarrow> ('st, 'e) follow_config \<Rightarrow> ('st, 'e) turn_env list \<Rightarrow> chain_source
      \<Rightarrow> (source_error + krecord option) option \<times> chain_source" where
  "poll_turns cd cfg [] s = (None, s)"
| "poll_turns cd cfg (t # ts) s =
     (case poll_turn cd cfg t s of
        (Returned r, s') \<Rightarrow> (Some r, s')
      | (_, s') \<Rightarrow> poll_turns cd cfg ts s')"

definition follow_seek ::
    "codec \<Rightarrow> ('st, 'e) follow_config \<Rightarrow> 'st \<times> 'e \<Rightarrow> (nat \<Rightarrow> 'st \<times> 'e) \<Rightarrow> u64 \<Rightarrow> chain_source
      \<Rightarrow> (source_error + unit) \<times> chain_source" where
  "follow_seek cd cfg d e position s =
     (case list_new cfg d s of
        (Inl x, s1) \<Rightarrow> (Err (source_error x), s1)
      | (Inr _, s1) \<Rightarrow>
          if fc_mode cfg = Preserve \<and> positions_end cfg s1 < position then (Err SrcInconsistent, s1)
          else (let s2 = s1\<lparr>cs_pending := None, cs_buffer := [], cs_skip := 0, cs_idle := False,
                            cs_position := position\<rparr> in
            case fc_mode cfg of
              Preserve \<Rightarrow>
                (Ok (), s2\<lparr>cs_next_object :=
                   unwrap_or (position_where (\<lambda>ob. position \<le> co_to ob) (cs_chain s2)) (length (cs_chain s2))\<rparr>)
            | Renumber \<Rightarrow>
                (case locate cd cfg e position (length (cs_chain s2)) 0 0 s2 of
                   (Inl x, s3) \<Rightarrow> (Err (source_error x), s3)
                 | (Inr (Some (i, k), _), s3) \<Rightarrow> (Ok (), s3\<lparr>cs_skip := k, cs_next_object := i\<rparr>)
                 | (Inr (None, first), s3) \<Rightarrow>
                     if first < position then (Err SrcInconsistent, s3)
                     else (Ok (), s3\<lparr>cs_next_object := length (cs_chain s3)\<rparr>))))"

definition follow_high_watermark ::
    "('st, 'e) follow_config \<Rightarrow> 'st \<times> 'e \<Rightarrow> chain_source \<Rightarrow> (source_error + u64) \<times> chain_source" where
  "follow_high_watermark cfg d s =
     (case list_new cfg d s of
        (Inl x, s1) \<Rightarrow> (Err (source_error x), s1)
      | (Inr _, s1) \<Rightarrow> (Ok (positions_end cfg s1), s1))"

text \<open>What one call reads: a listing, the reads of a seek by object, and the turns of a poll.\<close>

record ('st, 'e) follow_env =
  fe_list :: "'st \<times> 'e"
  fe_reads :: "nat \<Rightarrow> 'st \<times> 'e"
  fe_turns :: "('st, 'e) turn_env list"

text \<open>
  A poll that does not return within its turns is no event of the run loop; it is written as one that
  found nothing.
\<close>

definition follow_source ::
    "codec \<Rightarrow> ('st, 'e) follow_config \<Rightarrow> (chain_source, ('st, 'e) follow_env) source_ops" where
  "follow_source cd cfg = \<lparr>
     s_seek = (\<lambda>e. follow_seek cd cfg (fe_list e) (fe_reads e)),
     s_poll_one = (\<lambda>e s. case poll_turns cd cfg (fe_turns e) s of (r, s') \<Rightarrow> (unwrap_or r (Ok None), s')),
     s_low_watermark = default_low_watermark,
     s_high_watermark = (\<lambda>e. follow_high_watermark cfg (fe_list e))\<rparr>"

end
