(* ===== verification/Follow_Exact.thy ===== *)
theory Follow_Exact
  imports Follow
begin

text \<open>
  What a followed backup yields (theory Follow): for a backup whose objects do not change once they are
  listed, every record that a poll returns is the backup's record for the position it is returned at, the
  positions of the records follow one another, and a poll that is not dropped returns within three turns.
\<close>

section \<open>The backup\<close>

definition object_records :: "chain_object \<Rightarrow> krecord list \<Rightarrow> bool" where
  "object_records ob rs = (rs \<noteq> [] \<and> increasing rs \<and> (\<forall>r \<in> set rs. co_from ob \<le> r_offset r)
     \<and> r_offset (last rs) = co_to ob)"

text \<open>
  What is relied on of the store: whenever an object is read, it is \<open>held\<close>.  A read that succeeds has
  checked what \<open>object_records\<close> says (lemma \<open>follow_read_checked\<close>); no object ends at the last offset.
\<close>

definition backup_is ::
    "codec \<Rightarrow> ('st, 'e) follow_config \<Rightarrow> (chain_object \<Rightarrow> krecord list) \<Rightarrow> bool" where
  "backup_is cd cfg held =
     ((\<forall>d ob rs. follow_read cd cfg d ob = Inr rs \<longrightarrow> rs = held ob)
      \<and> (\<forall>ob. co_from ob \<le> co_to ob \<longrightarrow> object_records ob (held ob))
      \<and> (\<forall>d after names n b. st_list_after (fc_ops cfg) (snd d) (fst d) after = Inr names \<longrightarrow>
           n \<in> set names \<longrightarrow> parse_blob_name n (extension (fc_format cfg)) = Some b \<longrightarrow> bn_to b \<noteq> u64_max))"

lemma backup_read: "backup_is cd cfg held \<Longrightarrow> follow_read cd cfg d ob = Inr rs \<Longrightarrow> rs = held ob"
  unfolding backup_is_def by blast

lemma backup_object: "backup_is cd cfg held \<Longrightarrow> co_from ob \<le> co_to ob \<Longrightarrow> object_records ob (held ob)"
  unfolding backup_is_def by blast

lemma backup_name:
  "backup_is cd cfg held \<Longrightarrow> st_list_after (fc_ops cfg) (snd d) (fst d) after = Inr names \<Longrightarrow>
     n \<in> set names \<Longrightarrow> parse_blob_name n (extension (fc_format cfg)) = Some b \<Longrightarrow> bn_to b \<noteq> u64_max"
  unfolding backup_is_def by blast

lemma follow_read_checked: "follow_read cd cfg d ob = Inr rs \<Longrightarrow> object_records ob rs"
  by (auto simp: follow_read_def read_object_def read_object_with_digest_def object_records_def
      check_records_ok split: sum.splits if_splits)

abbreviation backup_records :: "(chain_object \<Rightarrow> krecord list) \<Rightarrow> chain_object list \<Rightarrow> krecord list" where
  "backup_records held chain \<equiv> concat (map held chain)"

text \<open>The records as the target holds them.\<close>

definition target_records :: "offset_mode \<Rightarrow> krecord list \<Rightarrow> krecord list" where
  "target_records mode rs = (case mode of Preserve \<Rightarrow> rs | Renumber \<Rightarrow> renumbered 0 rs)"

lemma renumbered_append:
  "renumbered p (xs @ ys) = renumbered p xs @ renumbered (p + of_nat (length xs)) ys"
  by (induction xs arbitrary: p) (simp_all add: ac_simps)

lemma length_renumbered [simp]: "length (renumbered p rs) = length rs"
  by (induction rs arbitrary: p) simp_all

lemma offsets_renumbered: "contig p (offsets (renumbered p rs))"
  by (induction rs arbitrary: p) simp_all

lemma renumbered_drop:
  "n \<le> length rs \<Longrightarrow> renumbered (p + of_nat n) (drop n rs) = drop n (renumbered p rs)"
proof (induction rs arbitrary: p n)
  case (Cons r rs)
  show ?case
  proof (cases n)
    case (Suc m)
    then show ?thesis using Cons.IH [of m "p + 1"] Cons.prems by (simp add: add.assoc)
  qed simp
qed simp

lemma target_records_append:
  "set (target_records mode xs) \<subseteq> set (target_records mode (xs @ ys))"
  by (cases mode) (simp_all add: target_records_def renumbered_append)

definition chain_good :: "u64 \<Rightarrow> chain_object list \<Rightarrow> bool" where
  "chain_good s chain = (plan_walk s chain = Ok ()
     \<and> (\<forall>ob \<in> set chain. co_from ob \<le> co_to ob \<and> co_to ob \<noteq> u64_max))"

lemma plan_walk_append:
  "plan_walk s xs = Ok () \<Longrightarrow> xs \<noteq> [] \<Longrightarrow> plan_walk s (xs @ ys) = plan_walk (co_to (last xs) + 1) ys"
  by (induction s xs rule: plan_walk.induct) (auto split: if_splits)

lemma chain_good_append:
  "chain_good s xs \<Longrightarrow> chain_good (if xs = [] then s else co_to (last xs) + 1) ys \<Longrightarrow> chain_good s (xs @ ys)"
  by (cases "xs = []") (auto simp: chain_good_def plan_walk_append)

text \<open>A chain as a source knows it: contiguous from the start, each object from a listing that showed it.\<close>

definition listed :: "('st, 'e) follow_config \<Rightarrow> chain_object \<Rightarrow> bool" where
  "listed cfg ob = (plan_object (fc_format cfg) (co_name ob) = Inr ob
     \<and> (\<exists>d after names. st_list_after (fc_ops cfg) (snd d) (fst d) after = Inr names \<and> co_name ob \<in> set names))"

definition known :: "('st, 'e) follow_config \<Rightarrow> chain_object list \<Rightarrow> bool" where
  "known cfg chain = (chain_good (fc_chain_start cfg) chain \<and> list_all (listed cfg) chain)"

lemma known_good: "known cfg chain \<Longrightarrow> chain_good (fc_chain_start cfg) chain"
  by (simp add: known_def)

lemma object_records_length:
  assumes "object_records ob rs"
  shows "length rs + unat (co_from ob) \<le> unat (co_to ob) + 1"
proof -
  have d: "distinct (map unat (offsets rs))"
    using assms by (auto simp: object_records_def increasing_def strict_sorted_iff distinct_map inj_on_def
        word_unat_eq_iff)
  have "set (map unat (offsets rs)) \<subseteq> {unat (co_from ob)..unat (co_to ob)}"
  proof
    fix x assume "x \<in> set (map unat (offsets rs))"
    then obtain r where r: "r \<in> set rs" "x = unat (r_offset r)" by auto
    have "r_offset r \<le> co_to ob" using increasing_le_last [OF _ r(1)] assms by (auto simp: object_records_def)
    then show "x \<in> {unat (co_from ob)..unat (co_to ob)}"
      using assms r by (auto simp: object_records_def word_le_nat_alt)
  qed
  from card_mono [OF _ this] have "length rs \<le> card {unat (co_from ob)..unat (co_to ob)}"
    using distinct_card [OF d] by simp
  moreover have "co_from ob \<le> co_to ob"
  proof -
    have "last rs \<in> set rs" "r_offset (last rs) = co_to ob" using assms by (simp_all add: object_records_def)
    then show ?thesis using assms unfolding object_records_def by metis
  qed
  ultimately show ?thesis by (simp add: word_le_nat_alt)
qed

lemma chain_records_length:
  assumes "\<forall>ob. co_from ob \<le> co_to ob \<longrightarrow> object_records ob (held ob)"
  shows "chain_good s chain \<Longrightarrow> length (backup_records held chain) + unat s < 2 ^ 64"
proof (induction chain arbitrary: s)
  case (Cons ob chain)
  have ob: "co_from ob = s" "co_from ob \<le> co_to ob" "co_to ob \<noteq> u64_max" "chain_good (co_to ob + 1) chain"
    using Cons.prems by (auto simp: chain_good_def split: if_splits)
  have "length (held ob) + unat s \<le> unat (co_to ob) + 1"
    using object_records_length [of ob "held ob"] assms ob(1,2) by auto
  moreover have "length (backup_records held chain) + unat (co_to ob + 1) < 2 ^ 64" by (rule Cons.IH [OF ob(4)])
  ultimately show ?case using unat_succ [OF ob(3)] by simp
qed simp

section \<open>What is kept\<close>

text \<open>Counted and remembered objects are counted and remembered right.\<close>

definition reads_ok :: "(chain_object \<Rightarrow> krecord list) \<Rightarrow> chain_source \<Rightarrow> bool" where
  "reads_ok held s =
     (cs_counts s = map (\<lambda>ob. of_nat (length (held ob))) (take (length (cs_counts s)) (cs_chain s))
      \<and> (\<forall>i rs. cs_last_read s = Some (i, rs) \<longrightarrow> i < length (cs_chain s) \<and> rs = held (cs_chain s ! i)))"

lemma reads_ok_counts: "reads_ok held s \<Longrightarrow> length (cs_counts s) \<le> length (cs_chain s)"
  unfolding reads_ok_def by (metis length_map length_take min.cobounded1)

text \<open>Where the next record comes from.\<close>

definition at_position ::
    "('st, 'e) follow_config \<Rightarrow> (chain_object \<Rightarrow> krecord list) \<Rightarrow> chain_source \<Rightarrow> bool" where
  "at_position cfg held s =
     (let n = cs_next_object s; p = cs_position s + of_nat (length (cs_buffer s)) in
      case fc_mode cfg of
        Preserve \<Rightarrow> fc_chain_start cfg = 0 \<and>
          p \<le> (if n < length (cs_chain s) then co_to (cs_chain s ! n) else positions_end cfg s)
      | Renumber \<Rightarrow>
          p = of_nat (length (backup_records held (take n (cs_chain s)))) + cs_skip s
          \<and> (cs_skip s = 0 \<or> cs_buffer s = [] \<and> n < length (cs_chain s)
               \<and> unat (cs_skip s) < length (held (cs_chain s ! n))))"

definition follow_inv ::
    "('st, 'e) follow_config \<Rightarrow> (chain_object \<Rightarrow> krecord list) \<Rightarrow> chain_source \<Rightarrow> bool" where
  "follow_inv cfg held s =
     (known cfg (cs_chain s) \<and> reads_ok held s \<and> at_position cfg held s
      \<and> cs_next_object s \<le> length (cs_chain s)
      \<and> (\<forall>i. cs_pending s = Some i \<longrightarrow> i = cs_next_object s \<and> cs_buffer s = [] \<and> i < length (cs_chain s))
      \<and> contig (cs_position s) (offsets (cs_buffer s))
      \<and> set (cs_buffer s) \<subseteq> set (target_records (fc_mode cfg) (backup_records held (cs_chain s))))"

lemma follow_inv_new:
  "(fc_mode cfg = Preserve \<Longrightarrow> fc_chain_start cfg = 0) \<Longrightarrow> follow_inv cfg held chain_source_new"
  by (cases "fc_mode cfg") (simp_all add: follow_inv_def chain_source_new_def known_def chain_good_def reads_ok_def
      at_position_def Let_def positions_end_def)

section \<open>Listing\<close>

lemma reads_ok_append: "reads_ok held s \<Longrightarrow> reads_ok held (s\<lparr>cs_chain := cs_chain s @ new\<rparr>)"
  using reads_ok_counts [of held s] by (auto simp: reads_ok_def nth_append)

lemma at_position_append:
  assumes "at_position cfg held s" "cs_next_object s \<le> length (cs_chain s)"
    "chain_good (if cs_chain s = [] then fc_chain_start cfg else co_to (last (cs_chain s)) + 1) new"
  shows "at_position cfg held (s\<lparr>cs_chain := cs_chain s @ new\<rparr>)"
proof (cases "fc_mode cfg")
  case Preserve
  let ?p = "cs_position s + of_nat (length (cs_buffer s))"
  have start: "fc_chain_start cfg = 0"
    and p: "?p \<le> (if cs_next_object s < length (cs_chain s) then co_to (cs_chain s ! cs_next_object s)
        else positions_end cfg s)"
    using assms(1) Preserve by (simp_all add: at_position_def Let_def)
  show ?thesis
  proof (cases "cs_next_object s < length (cs_chain s) \<or> new = []")
    case True
    then show ?thesis using Preserve start p
      by (auto simp: at_position_def Let_def nth_append positions_end_def split: if_splits)
  next
    case False
    then obtain ob rest where new: "new = ob # rest" and n: "cs_next_object s = length (cs_chain s)"
      using assms(2) by (cases new) auto
    have "co_from ob = (if cs_chain s = [] then 0 else co_to (last (cs_chain s)) + 1)" "co_from ob \<le> co_to ob"
      using assms(3) new start unfolding chain_good_def
      by (auto split: if_splits simp: not_less)
    then have "positions_end cfg s = co_from ob" "co_from ob \<le> co_to ob"
      using start by (auto simp: positions_end_def)
    then have "?p \<le> co_to ob" using p n by auto
    then show ?thesis using Preserve start n new by (simp add: at_position_def Let_def)
  qed
next
  case Renumber
  then show ?thesis using assms(1,2) by (auto simp: at_position_def Let_def nth_append)
qed

lemma follow_inv_append:
  assumes "follow_inv cfg held s"
    "chain_good (if cs_chain s = [] then fc_chain_start cfg else co_to (last (cs_chain s)) + 1) new"
    "list_all (listed cfg) new"
  shows "follow_inv cfg held (s\<lparr>cs_chain := cs_chain s @ new\<rparr>)"
proof -
  have "set (cs_buffer s) \<subseteq> set (target_records (fc_mode cfg) (backup_records held (cs_chain s @ new)))"
    using assms(1) target_records_append [of "fc_mode cfg" "backup_records held (cs_chain s)"
        "backup_records held new"] by (auto simp: follow_inv_def)
  then show ?thesis
    using assms reads_ok_append [of held s new] at_position_append [of cfg held s new]
      chain_good_append [of "fc_chain_start cfg" "cs_chain s" new]
    by (auto simp: follow_inv_def known_def)
qed

lemma planned_chain_good:
  assumes "backup_is cd cfg held" "st_list_after (fc_ops cfg) (snd d) (fst d) after = Inr names"
    "plan_chain names (fc_format cfg) start keyring = Inr new"
  shows "chain_good start new \<and> list_all (listed cfg) new \<and> new \<noteq> []"
proof -
  note ok = plan_chain_Ok [OF assms(3)]
  have "co_from ob \<le> co_to ob \<and> co_to ob \<noteq> u64_max \<and> listed cfg ob" if ob: "ob \<in> set new" for ob
  proof -
    have pl: "plan_object (fc_format cfg) (co_name ob) = Inr ob" using ok ob by blast
    have "set (map co_name new) = set names" using ok by (metis mset_eq_setD)
    then have "co_name ob \<in> set names" using ob by auto
    from backup_name [OF assms(1,2) this] plan_object_Ok [OF pl] this pl assms(2) show ?thesis
      unfolding listed_def by auto
  qed
  then show ?thesis using ok by (simp add: chain_good_def list_all_iff)
qed

lemma list_new_inv:
  assumes "backup_is cd cfg held" "follow_inv cfg held s" "list_new cfg d s = (r, s')"
  shows "follow_inv cfg held s' \<and> (\<exists>new. s' = s\<lparr>cs_chain := cs_chain s @ new\<rparr> \<and> (r = Inr True \<longrightarrow> new \<noteq> []))"
proof (cases "s' = s \<and> r \<noteq> Inr True")
  case True
  then show ?thesis using assms(2) by (intro conjI exI [of _ "[]"]) simp_all
next
  case False
  let ?start = "if cs_chain s = [] then fc_chain_start cfg else co_to (last (cs_chain s)) + 1"
  let ?after = "if cs_chain s = [] then None else Some (co_name (last (cs_chain s)))"
  obtain names where n: "st_list_after (fc_ops cfg) (snd d) (fst d) ?after = Inr names"
    using assms(3) False unfolding list_new_def Let_def
    by (cases "st_list_after (fc_ops cfg) (snd d) (fst d) ?after") simp_all
  obtain new where p: "plan_chain names (fc_format cfg) ?start (fc_keyring cfg) = Inr new"
    "s' = s\<lparr>cs_chain := cs_chain s @ new\<rparr>"
    using assms(3) False n unfolding list_new_def Let_def
    by (cases "plan_chain names (fc_format cfg) ?start (fc_keyring cfg)")
      (simp_all split: if_split_asm del: not_None_eq)
  have "chain_good ?start new \<and> list_all (listed cfg) new \<and> new \<noteq> []" by (rule planned_chain_good [OF assms(1) n p(1)])
  then show ?thesis using follow_inv_append [OF assms(2)] p(2) by blast
qed

section \<open>Reading\<close>

lemma records_of_ok:
  assumes "backup_is cd cfg held" "reads_ok held s" "i < length (cs_chain s)" "records_of cd cfg d i s = (Inr rs, s')"
  shows "rs = held (cs_chain s ! i) \<and> reads_ok held s' \<and> (\<exists>lr. s' = s\<lparr>cs_last_read := lr\<rparr>)"
proof -
  note read = backup_read [OF assms(1)]
  show ?thesis
  proof (cases "\<exists>rs'. cs_last_read s = Some (i, rs')")
    case True
    then obtain rs' where "cs_last_read s = Some (i, rs')" by blast
    moreover from this have "s' = s\<lparr>cs_last_read := cs_last_read s\<rparr>" using assms(4) by (simp add: records_of_def)
    ultimately show ?thesis using assms(2,4) by (auto simp: records_of_def reads_ok_def)
  next
    case False
    then have "follow_read cd cfg d (cs_chain s ! i) = Inr rs \<and> s' = s\<lparr>cs_last_read := Some (i, rs)\<rparr>"
      using assms(4) by (auto simp: records_of_def split: option.splits sum.splits if_splits)
    then show ?thesis using assms(2,3) read [of d "cs_chain s ! i" rs] by (auto simp: reads_ok_def)
  qed
qed

text \<open>Counting changes the counts and the last read only.\<close>

definition same_but_reads :: "chain_source \<Rightarrow> chain_source \<Rightarrow> bool" where
  "same_but_reads s s' = (s' = s\<lparr>cs_counts := cs_counts s', cs_last_read := cs_last_read s'\<rparr>)"

lemma same_but_reads_refl [simp]: "same_but_reads s s"
  by (simp add: same_but_reads_def)

lemma same_but_reads_trans: "same_but_reads a b \<Longrightarrow> same_but_reads b c \<Longrightarrow> same_but_reads a c"
  by (cases a; cases b; cases c) (simp add: same_but_reads_def)

lemma same_but_reads_simps:
  "same_but_reads s s' \<Longrightarrow> cs_chain s' = cs_chain s \<and> cs_next_object s' = cs_next_object s
     \<and> cs_skip s' = cs_skip s \<and> cs_pending s' = cs_pending s \<and> cs_buffer s' = cs_buffer s
     \<and> cs_position s' = cs_position s \<and> cs_idle s' = cs_idle s"
  by (cases s; cases s') (simp add: same_but_reads_def)

lemma count_more_ok:
  assumes "backup_is cd cfg held"
  shows "reads_ok held s \<Longrightarrow> length (cs_counts s) + k \<le> length (cs_chain s) \<Longrightarrow>
    count_more cd cfg e k s = (r, s') \<Longrightarrow>
    reads_ok held s' \<and> same_but_reads s s' \<and> (is_ok r \<longrightarrow> length (cs_counts s') = length (cs_counts s) + k)"
proof (induction k arbitrary: s)
  case (Suc k)
  let ?j = "length (cs_counts s)"
  obtain q s1 where q: "records_of cd cfg (e ?j) ?j s = (q, s1)" by fastforce
  show ?case
  proof (cases q)
    case (Inl x)
    moreover from this have "s1 = s" using q by (auto simp: records_of_def split: option.splits sum.splits if_splits)
    ultimately show ?thesis using Suc.prems q by auto
  next
    case (Inr rs)
    obtain lr where lr: "rs = held (cs_chain s ! ?j)" "reads_ok held s1" "s1 = s\<lparr>cs_last_read := lr\<rparr>"
      using records_of_ok [OF assms Suc.prems(1) _ q [unfolded Inr]] Suc.prems(2) by auto
    let ?s2 = "s1\<lparr>cs_counts := cs_counts s1 @ [of_nat (length rs)]\<rparr>"
    have ok2: "reads_ok held ?s2"
      using lr Suc.prems(1,2) by (auto simp: reads_ok_def take_Suc_conv_app_nth)
    have "same_but_reads s ?s2" using lr(3) by (simp add: same_but_reads_def)
    moreover have "count_more cd cfg e k ?s2 = (r, s')" using Suc.prems(3) q Inr by simp
    ultimately show ?thesis
      using Suc.IH [OF ok2] Suc.prems(2) lr(3) same_but_reads_trans by auto
  qed
qed simp

lemma count_ok:
  assumes "backup_is cd cfg held" "reads_ok held s" "i < length (cs_chain s)" "count cd cfg e i s = (r, s')"
  shows "reads_ok held s' \<and> same_but_reads s s' \<and> (\<forall>n. r = Inr n \<longrightarrow> n = of_nat (length (held (cs_chain s ! i))))"
proof -
  let ?k = "Suc i - length (cs_counts s)"
  obtain q s1 where q: "count_more cd cfg e ?k s = (q, s1)" by fastforce
  have "length (cs_counts s) + ?k \<le> length (cs_chain s)" using reads_ok_counts [OF assms(2)] assms(3) by simp
  note m = count_more_ok [OF assms(1,2) this q]
  have s': "s' = s1" and r: "r = (case q of Inl x \<Rightarrow> Inl x | Inr _ \<Rightarrow> Inr (cs_counts s1 ! i))"
    using assms(4) q by (auto simp: count_def split: sum.splits)
  have "cs_counts s1 ! i = of_nat (length (held (cs_chain s ! i)))" if "is_ok q"
  proof -
    have i: "i < length (cs_counts s1)" using m that by auto
    have "cs_chain s1 = cs_chain s" using m same_but_reads_simps by auto
    moreover have "cs_counts s1 ! i = map (\<lambda>ob. of_nat (length (held ob))) (take (length (cs_counts s1)) (cs_chain s1)) ! i"
      using m by (auto simp: reads_ok_def)
    ultimately show ?thesis using i assms(3) by simp
  qed
  then show ?thesis using m s' r by (cases q) auto
qed

lemma locate_ok:
  assumes "backup_is cd cfg held"
  shows "reads_ok held s \<Longrightarrow> i + k = length (cs_chain s) \<Longrightarrow> length (backup_records held (cs_chain s)) < 2 ^ 64 \<Longrightarrow>
    locate cd cfg e p k i (of_nat (length (backup_records held (take i (cs_chain s))))) s = (r, s') \<Longrightarrow>
    length (backup_records held (take i (cs_chain s))) \<le> unat p \<Longrightarrow>
    reads_ok held s' \<and> same_but_reads s s'
    \<and> (\<forall>j q f. r = Inr (Some (j, q), f) \<longrightarrow> j < length (cs_chain s)
         \<and> p = of_nat (length (backup_records held (take j (cs_chain s)))) + q
         \<and> unat q < length (held (cs_chain s ! j)))
    \<and> (\<forall>f. r = Inr (None, f) \<longrightarrow> f = of_nat (length (backup_records held (cs_chain s))) \<and> f \<le> p)"
proof (induction k arbitrary: i s)
  case 0
  then show ?case by (auto simp: word_le_nat_alt unat_of_nat)
next
  case (Suc k)
  let ?L = "\<lambda>i. length (backup_records held (take i (cs_chain s)))"
  have i: "i < length (cs_chain s)" using Suc.prems(2) by simp
  have LS: "?L (Suc i) = ?L i + length (held (cs_chain s ! i))" using i by (simp add: take_Suc_conv_app_nth)
  have "?L (Suc i) \<le> length (backup_records held (cs_chain s))"
    by (subst (2) append_take_drop_id [of "Suc i" "cs_chain s", symmetric]) (simp del: append_take_drop_id)
  then have lt: "?L (Suc i) < 2 ^ 64" using Suc.prems(3) by simp
  obtain q s1 where q: "count cd cfg e i s = (q, s1)" by fastforce
  note c = count_ok [OF assms Suc.prems(1) i q]
  have same: "cs_chain s1 = cs_chain s" using c same_but_reads_simps by auto
  show ?case
  proof (cases q)
    case (Inl x)
    then show ?thesis using Suc.prems(4) q c by auto
  next
    case (Inr n)
    have f: "of_nat (?L i) + n = (of_nat (?L (Suc i)) :: u64)" using c Inr LS by simp
    have fits: "n < 2 ^ 64 \<Longrightarrow> unat (of_nat n :: u64) = n" for n by (simp add: unat_of_nat)
    have u: "unat (of_nat (?L i) :: u64) = ?L i" "unat (of_nat (?L (Suc i)) :: u64) = ?L (Suc i)"
      using lt LS by (intro fits; linarith)+
    show ?thesis
    proof (cases "p < of_nat (?L (Suc i))")
      case True
      then have r: "r = Inr (Some (i, p - of_nat (?L i)), of_nat (?L i))" "s' = s1"
        using Suc.prems(4) q Inr f by (auto simp: Let_def)
      have "unat (p - of_nat (?L i)) = unat p - ?L i"
        using Suc.prems(5) u(1) by (simp add: unat_sub word_le_nat_alt)
      also have "\<dots> < length (held (cs_chain s ! i))"
        using True u(2) Suc.prems(5) LS by (simp add: word_less_nat_alt)
      finally show ?thesis using r c i by simp
    next
      case False
      then have l: "locate cd cfg e p k (Suc i) (of_nat (?L (Suc i))) s1 = (r, s')"
        using Suc.prems(4) q Inr f by (simp del: of_nat_add)
      have "?L (Suc i) \<le> unat p" using False u(2) by (simp add: word_less_nat_alt not_less)
      from Suc.IH [of s1 "Suc i"] l this c same Suc.prems(2,3) show ?thesis
        using same_but_reads_trans [of s s1 s'] by auto
    qed
  qed
qed

section \<open>Filling the buffer\<close>

lemma push_preserved_contig:
  "push_preserved p rs = (res, pushed) \<Longrightarrow> contig p (offsets pushed) \<and> set pushed \<subseteq> set rs"
  by (induction p rs arbitrary: pushed rule: push_preserved.induct)
    (fastforce split: if_splits prod.splits)+

lemma push_preserved_last:
  "push_preserved p rs = (Inr u, pushed) \<Longrightarrow> rs \<noteq> [] \<Longrightarrow> increasing rs \<Longrightarrow> p \<le> r_offset (last rs) \<Longrightarrow>
     pushed \<noteq> [] \<and> last pushed = last rs"
proof (induction p rs arbitrary: pushed rule: push_preserved.induct)
  case (2 p r rs)
  have inc: "increasing rs" "\<forall>x \<in> set rs. r_offset r < r_offset x" using "2.prems"(3) by (auto simp: increasing_def)
  show ?case
  proof (cases "r_offset r < p")
    case True
    then have "rs \<noteq> []" using "2.prems"(4) by (cases rs) auto
    then show ?thesis using "2.IH"(1) [OF True _ _ inc(1)] True "2.prems"(1,4) by simp
  next
    case False
    then have r: "r_offset r = p" using "2.prems"(1) by (auto split: if_splits)
    obtain res rest where rest: "push_preserved (p + 1) rs = (res, rest)" by fastforce
    have p: "res = Inr u" "pushed = r # rest" using "2.prems"(1) r rest by auto
    show ?thesis
    proof (cases "rs = []")
      case True
      then show ?thesis using p rest by simp
    next
      case ne: False
      then have "p + 1 \<le> r_offset (last rs)" using inc(2) r by (auto intro: succ_le)
      then have "rest \<noteq> [] \<and> last rest = last rs"
        using "2.IH"(2) [OF False _ _ ne inc(1)] r rest p(1) by auto
      then show ?thesis using p(2) ne by simp
    qed
  qed
qed simp

lemma backup_records_at:
  "i < length chain \<Longrightarrow> backup_records held chain =
     backup_records held (take i chain) @ held (chain ! i) @ backup_records held (drop (Suc i) chain)"
  by (subst id_take_nth_drop [of i chain]) simp_all

lemma reads_ok_pushed:
  "reads_ok held s \<Longrightarrow> i < length (cs_chain s) \<Longrightarrow>
     reads_ok held (if length (cs_counts s) = i
       then s\<lparr>cs_counts := cs_counts s @ [of_nat (length (held (cs_chain s ! i)))]\<rparr> else s)"
  by (auto simp: reads_ok_def take_Suc_conv_app_nth)

lemma plan_walk_next: "plan_walk s chain = Ok () \<Longrightarrow> Suc i < length chain \<Longrightarrow> co_from (chain ! Suc i) = co_to (chain ! i) + 1"
proof (induction s chain arbitrary: i rule: plan_walk.induct)
  case (2 s ob obs)
  have rest: "plan_walk (co_to ob + 1) obs = Ok ()" "co_from ob = s" using "2.prems"(1) by (auto split: if_splits)
  show ?case
  proof (cases i)
    case 0
    then show ?thesis using rest "2.prems"(2) by (cases obs) (auto split: if_splits)
  next
    case (Suc j)
    then show ?thesis using "2.IH" [of j] rest "2.prems"(2) by simp
  qed
qed simp

lemma after_object:
  assumes "chain_good 0 (cs_chain s)" "n < length (cs_chain s)" "fc_chain_start cfg = 0"
  shows "co_to (cs_chain s ! n) + 1 \<le> (if n + 1 < length (cs_chain s) then co_to (cs_chain s ! (n + 1))
    else positions_end cfg s)"
proof (cases "n + 1 < length (cs_chain s)")
  case True
  have "co_from (cs_chain s ! Suc n) = co_to (cs_chain s ! n) + 1"
    by (rule plan_walk_next [of 0]) (use assms(1) True in \<open>simp_all add: chain_good_def\<close>)
  moreover have "co_from (cs_chain s ! Suc n) \<le> co_to (cs_chain s ! Suc n)"
    using assms(1) True by (auto simp: chain_good_def)
  ultimately show ?thesis using True by simp
next
  case False
  then have "n = length (cs_chain s) - 1" "cs_chain s \<noteq> []" using assms(2) by auto
  then have "last (cs_chain s) = cs_chain s ! n" by (simp add: last_conv_nth)
  then show ?thesis using False assms(2,3) by (auto simp: positions_end_def)
qed

text \<open>The next object's records go into the empty buffer.\<close>

lemma fill_preserved:
  assumes "follow_inv cfg held s" "cs_buffer s = []" "cs_next_object s < length (cs_chain s)" "fc_mode cfg = Preserve"
    "object_records (cs_chain s ! cs_next_object s) (held (cs_chain s ! cs_next_object s))"
    "push_preserved (cs_position s) (held (cs_chain s ! cs_next_object s)) = (Inr u, pushed)"
  shows "pushed \<noteq> [] \<and> contig (cs_position s) (offsets pushed)
    \<and> set pushed \<subseteq> set (backup_records held (cs_chain s)) \<and> fc_chain_start cfg = 0
    \<and> cs_position s + of_nat (length pushed) \<le> (if cs_next_object s + 1 < length (cs_chain s)
        then co_to (cs_chain s ! (cs_next_object s + 1)) else positions_end cfg s)"
proof -
  let ?ob = "cs_chain s ! cs_next_object s"
  have at: "cs_position s \<le> co_to ?ob" "fc_chain_start cfg = 0" "chain_good 0 (cs_chain s)"
    using assms(1-4) known_good [of cfg "cs_chain s"] by (auto simp: follow_inv_def at_position_def Let_def)
  have p: "contig (cs_position s) (offsets pushed)" "set pushed \<subseteq> set (held ?ob)"
    using push_preserved_contig [OF assms(6)] by auto
  have l: "pushed \<noteq> []" "last pushed = last (held ?ob)"
    using push_preserved_last [OF assms(6)] assms(5) at(1) by (auto simp: object_records_def)
  have "cs_position s + of_nat (length pushed) = co_to ?ob + 1"
    using contig_last [OF p(1)] l assms(5) by (simp add: last_map object_records_def)
  then show ?thesis
    using after_object [OF at(3) assms(3) at(2)] l p at(2) backup_records_at [OF assms(3), of held] by auto
qed

lemma fill_renumbered:
  assumes "follow_inv cfg held s" "cs_buffer s = []" "cs_next_object s < length (cs_chain s)" "fc_mode cfg = Renumber"
    "object_records (cs_chain s ! cs_next_object s) (held (cs_chain s ! cs_next_object s))"
    "pushed = renumbered (cs_position s) (drop (unat (cs_skip s)) (held (cs_chain s ! cs_next_object s)))"
  shows "pushed \<noteq> [] \<and> contig (cs_position s) (offsets pushed)
    \<and> set pushed \<subseteq> set (target_records Renumber (backup_records held (cs_chain s)))
    \<and> cs_position s + of_nat (length pushed) =
        of_nat (length (backup_records held (take (cs_next_object s + 1) (cs_chain s))))"
proof -
  let ?n = "cs_next_object s" and ?k = "unat (cs_skip s)"
  let ?ob = "cs_chain s ! ?n" and ?pre = "backup_records held (take ?n (cs_chain s))"
  have at: "cs_position s = of_nat (length ?pre) + of_nat ?k" "?k < length (held ?ob)"
    using assms(1-5) by (auto simp: follow_inv_def at_position_def Let_def object_records_def)
  have pre: "backup_records held (take (?n + 1) (cs_chain s)) = ?pre @ held ?ob"
    using assms(3) by (simp add: take_Suc_conv_app_nth)
  have "pushed = drop ?k (renumbered (of_nat (length ?pre)) (held ?ob))"
    using at renumbered_drop [of ?k "held ?ob" "of_nat (length ?pre)"] assms(6) by simp
  then have "set pushed \<subseteq> set (target_records Renumber (backup_records held (cs_chain s)))"
    using set_drop_subset [of ?k "renumbered (of_nat (length ?pre)) (held ?ob)"]
    unfolding backup_records_at [OF assms(3), of held] by (auto simp: target_records_def renumbered_append)
  moreover have "cs_position s + of_nat (length pushed) = of_nat (length (?pre @ held ?ob))"
    using at assms(6) by (simp add: of_nat_diff)
  moreover have "pushed \<noteq> []"
    using at(2) assms(6) by (metis drop_eq_Nil leD length_0_conv length_renumbered)
  ultimately show ?thesis using pre assms(6) offsets_renumbered by auto
qed

lemma fill_with_inv:
  assumes "backup_is cd cfg held" "follow_inv cfg held s" "cs_buffer s = []" "cs_next_object s < length (cs_chain s)"
    "cs_pending s = None" "fill_with cfg (cs_next_object s) (held (cs_chain s ! cs_next_object s)) s = (Inr u, s')"
  shows "follow_inv cfg held s' \<and> cs_buffer s' \<noteq> [] \<and> cs_chain s' = cs_chain s \<and> cs_position s' = cs_position s
    \<and> cs_idle s' = cs_idle s"
proof -
  let ?n = "cs_next_object s"
  let ?ob = "cs_chain s ! ?n"
  let ?s1 = "if length (cs_counts s) = ?n then s\<lparr>cs_counts := cs_counts s @ [of_nat (length (held ?ob))]\<rparr> else s"
  have inv: "known cfg (cs_chain s)" "reads_ok held s" using assms(2) by (auto simp: follow_inv_def)
  have "co_from ?ob \<le> co_to ?ob" using known_good [OF inv(1)] assms(4) by (auto simp: chain_good_def)
  then have ob: "object_records ?ob (held ?ob)" by (rule backup_object [OF assms(1)])
  have same: "cs_chain ?s1 = cs_chain s" "cs_position ?s1 = cs_position s" "cs_buffer ?s1 = []"
    "cs_next_object ?s1 = ?n" "cs_skip ?s1 = cs_skip s" "cs_pending ?s1 = None" "cs_idle ?s1 = cs_idle s"
    using assms(3,5) by auto
  note ok1 = reads_ok_pushed [OF inv(2) assms(4)]
  show ?thesis
  proof (cases "fc_mode cfg")
    case Preserve
    obtain res pushed where push: "push_preserved (cs_position s) (held ?ob) = (res, pushed)" by fastforce
    then have s': "res = Inr u" "s' = ?s1\<lparr>cs_buffer := pushed, cs_next_object := ?n + 1\<rparr>"
      using assms(6) same Preserve unfolding fill_with_def Let_def by (cases res; simp)+
    show ?thesis
      using fill_preserved [OF assms(2-4) Preserve ob push [unfolded s'(1)]] inv ok1 s'(2) Preserve same assms(4)
      by (auto simp: follow_inv_def at_position_def Let_def target_records_def reads_ok_def positions_end_def)
  next
    case Renumber
    have s': "s' = ?s1\<lparr>cs_skip := 0,
        cs_buffer := renumbered (cs_position s) (drop (unat (cs_skip s)) (held ?ob)), cs_next_object := ?n + 1\<rparr>"
      using assms(6) same Renumber unfolding fill_with_def Let_def by simp
    show ?thesis
      using fill_renumbered [OF assms(2-4) Renumber ob refl] inv ok1 s' Renumber same assms(4)
      by (auto simp: follow_inv_def at_position_def Let_def reads_ok_def)
  qed
qed

lemma reading_inv:
  assumes "follow_inv cfg held s" "cs_buffer s = []" "cs_next_object s < length (cs_chain s)"
    "p = None \<or> p = Some (cs_next_object s)"
  shows "follow_inv cfg held (s\<lparr>cs_last_read := None, cs_pending := p\<rparr>)"
  using assms
  by (cases "fc_mode cfg") (auto simp: follow_inv_def at_position_def positions_end_def reads_ok_def Let_def)

lemma fill_inv:
  assumes "backup_is cd cfg held" "follow_inv cfg held s" "cs_buffer s = []" "cs_next_object s < length (cs_chain s)"
    "fill cd cfg e s = (r, s')"
  shows "(r = None \<longrightarrow> e = None \<and> follow_inv cfg held s' \<and> cs_chain s' = cs_chain s
        \<and> cs_position s' = cs_position s)
    \<and> (\<forall>u. r = Some (Inr u) \<longrightarrow> follow_inv cfg held s' \<and> cs_buffer s' \<noteq> [] \<and> cs_chain s' = cs_chain s
        \<and> cs_position s' = cs_position s \<and> cs_idle s' = cs_idle s)"
proof -
  let ?n = "cs_next_object s"
  let ?s1 = "s\<lparr>cs_last_read := None, cs_pending := None\<rparr>"
  note s1 = reading_inv [OF assms(2-4), of None]
  have filled: "follow_inv cfg held s2 \<and> cs_buffer s2 \<noteq> [] \<and> cs_chain s2 = cs_chain s
      \<and> cs_position s2 = cs_position s \<and> cs_idle s2 = cs_idle s"
    if "fill_with cfg ?n (held (cs_chain s ! ?n)) ?s1 = (Inr u, s2)" for u s2
    using fill_with_inv [OF assms(1) s1, of u s2] that assms(3,4) by simp
  have pend: "unwrap_or (cs_pending s) ?n = ?n"
    using assms(2) by (cases "cs_pending s") (auto simp: follow_inv_def)
  show ?thesis
  proof (cases "\<exists>rs. cs_last_read s = Some (?n, rs) \<and> cs_pending s = None")
    case True
    then obtain rs where lr: "cs_last_read s = Some (?n, rs)" "cs_pending s = None" by blast
    then have rs: "rs = held (cs_chain s ! ?n)" using assms(2) by (auto simp: follow_inv_def reads_ok_def)
    obtain q s2 where f: "fill_with cfg ?n rs (s\<lparr>cs_last_read := None\<rparr>) = (q, s2)" by fastforce
    have "s\<lparr>cs_last_read := None\<rparr> = ?s1" using lr(2) by simp
    then have f1: "fill_with cfg ?n (held (cs_chain s ! ?n)) ?s1 = (q, s2)" using f rs by simp
    have r: "r = Some q" "s' = s2" using assms(5) lr f by (simp_all add: fill_def Let_def)
    show ?thesis
    proof (cases q)
      case (Inr u)
      show ?thesis using filled [OF f1 [unfolded Inr]] r Inr by simp
    qed (use r in simp)
  next
    case False
    then have none: "(case cs_last_read s of Some (j, records) \<Rightarrow>
        if j = ?n \<and> cs_pending s = None then Some records else None | None \<Rightarrow> None) = None"
      by (auto split: option.splits)
    show ?thesis
    proof (cases e)
      case None
      then have "r = None" "s' = s\<lparr>cs_last_read := None, cs_pending := Some ?n\<rparr>"
        using assms(5) none pend by (simp_all add: fill_def Let_def)
      moreover have "follow_inv cfg held (s\<lparr>cs_last_read := None, cs_pending := Some ?n\<rparr>)"
        using reading_inv [OF assms(2-4)] by simp
      ultimately show ?thesis using None by simp
    next
      case (Some d)
      show ?thesis
      proof (cases "follow_read cd cfg d (cs_chain s ! ?n)")
        case (Inl x)
        then show ?thesis using assms(5) none pend Some by (auto simp: fill_def Let_def)
      next
        case (Inr rs)
        have rs: "rs = held (cs_chain s ! ?n)" by (rule backup_read [OF assms(1) Inr])
        obtain q s2 where f: "fill_with cfg ?n (held (cs_chain s ! ?n)) ?s1 = (q, s2)" by fastforce
        have r: "r = Some q" "s' = s2" using assms(5) none pend Some Inr f rs by (simp_all add: fill_def Let_def)
        show ?thesis
        proof (cases q)
          case (Inr u)
          show ?thesis using filled [OF f [unfolded Inr]] r Inr by simp
        qed (use r in simp)
      qed
    qed
  qed
qed

lemma fill_chain: "fill cd cfg e s = (r, s') \<Longrightarrow> cs_chain s' = cs_chain s"
  by (auto simp: fill_def fill_with_def Let_def split: option.splits sum.splits prod.splits if_splits
      offset_mode.splits)

section \<open>Polling\<close>

text \<open>A poll of the state, and the record that is due.\<close>

definition due_record ::
    "('st, 'e) follow_config \<Rightarrow> (chain_object \<Rightarrow> krecord list) \<Rightarrow> chain_source \<Rightarrow> krecord \<Rightarrow> bool" where
  "due_record cfg held s r = (r_offset r = cs_position s
     \<and> r \<in> set (target_records (fc_mode cfg) (backup_records held (cs_chain s))))"

definition chain_extends :: "chain_source \<Rightarrow> chain_source \<Rightarrow> bool" where
  "chain_extends s s' = (\<exists>new. cs_chain s' = cs_chain s @ new)"

lemma chain_extends_refl [simp]: "chain_extends s s"
  by (simp add: chain_extends_def)

lemma chain_extends_trans: "chain_extends a b \<Longrightarrow> chain_extends b c \<Longrightarrow> chain_extends a c"
  by (auto simp: chain_extends_def)

lemma due_record_extends: "due_record cfg held s r \<Longrightarrow> chain_extends s s' \<Longrightarrow> cs_position s' = cs_position s \<Longrightarrow>
    due_record cfg held s' r"
  using target_records_append by (fastforce simp: due_record_def chain_extends_def)

text \<open>A turn: it goes on with the same position, drops, or returns the record that is due.\<close>

definition turn_ok ::
    "('st, 'e) follow_config \<Rightarrow> (chain_object \<Rightarrow> krecord list) \<Rightarrow> chain_source \<Rightarrow> poll_turn_result \<Rightarrow> chain_source \<Rightarrow> bool" where
  "turn_ok cfg held s res s' =
     (case res of
        Returned (Inl _) \<Rightarrow> chain_extends s s' \<and> known cfg (cs_chain s')
      | Returned (Inr (Some r)) \<Rightarrow> follow_inv cfg held s' \<and> chain_extends s s' \<and> due_record cfg held s r
          \<and> cs_position s' = cs_position s + 1
      | _ \<Rightarrow> follow_inv cfg held s' \<and> chain_extends s s' \<and> cs_position s' = cs_position s)"

lemma idle_inv [simp]: "follow_inv cfg held (s\<lparr>cs_idle := b\<rparr>) = follow_inv cfg held s"
  by (cases "fc_mode cfg") (auto simp: follow_inv_def at_position_def positions_end_def reads_ok_def Let_def)

lemma pop_inv:
  assumes "follow_inv cfg held s" "cs_buffer s = r # rest"
  shows "follow_inv cfg held (s\<lparr>cs_buffer := rest, cs_position := cs_position s + 1\<rparr>) \<and> due_record cfg held s r"
proof -
  have none: "cs_pending s = None" using assms by (cases "cs_pending s") (auto simp: follow_inv_def)
  have "at_position cfg held (s\<lparr>cs_buffer := rest, cs_position := cs_position s + 1\<rparr>)"
    using assms by (cases "fc_mode cfg")
      (auto simp: follow_inv_def at_position_def positions_end_def Let_def ac_simps split: if_splits)
  then show ?thesis
    using assms none by (auto simp: follow_inv_def due_record_def reads_ok_def)
qed

lemma inv_chain: "follow_inv cfg held s \<Longrightarrow> known cfg (cs_chain s)"
  by (simp add: follow_inv_def)

lemma poll_turn_ok:
  assumes "backup_is cd cfg held" "follow_inv cfg held s" "poll_turn cd cfg t s = (res, s')"
  shows "turn_ok cfg held s res s'"
proof -
  consider (idle) "cs_idle s" | (pop) r rest where "\<not> cs_idle s" "cs_buffer s = r # rest"
    | (fill) "\<not> cs_idle s" "cs_buffer s = []" "cs_next_object s < length (cs_chain s)"
    | (list) "\<not> cs_idle s" "cs_buffer s = []" "\<not> cs_next_object s < length (cs_chain s)"
    by (cases "cs_buffer s") auto
  then show ?thesis
  proof cases
    case idle
    then show ?thesis using assms(2,3) by (auto simp: poll_turn_def turn_ok_def chain_extends_def split: if_splits)
  next
    case pop
    then show ?thesis using assms(3) pop_inv [OF assms(2) pop(2)]
      by (auto simp: poll_turn_def turn_ok_def chain_extends_def)
  next
    case fill
    obtain q s1 where q: "fill cd cfg (te_read t) s = (q, s1)" by fastforce
    then show ?thesis using assms(3) fill fill_inv [OF assms(1,2) fill(2,3) q] fill_chain [OF q]
        inv_chain [OF assms(2)]
      by (auto simp: poll_turn_def turn_ok_def chain_extends_def split: option.splits sum.splits)
  next
    case list
    show ?thesis
    proof (cases "te_list t")
      case None
      then show ?thesis using assms(2,3) list by (auto simp: poll_turn_def turn_ok_def)
    next
      case (Some d)
      obtain q s1 where q: "list_new cfg d s = (q, s1)" by fastforce
      then show ?thesis using assms(3) list Some list_new_inv [OF assms(1,2) q] inv_chain [of cfg held s1]
        by (auto simp: poll_turn_def turn_ok_def chain_extends_def split: sum.splits bool.splits)
    qed
  qed
qed

text \<open>A poll.\<close>

lemma poll_turns_ok:
  assumes "backup_is cd cfg held"
  shows "follow_inv cfg held s \<Longrightarrow> poll_turns cd cfg ts s = (r, s') \<Longrightarrow>
    (case r of
       Some (Inl _) \<Rightarrow> chain_extends s s' \<and> known cfg (cs_chain s')
     | Some (Inr (Some x)) \<Rightarrow> follow_inv cfg held s' \<and> chain_extends s s' \<and> cs_position s' = cs_position s + 1
         \<and> r_offset x = cs_position s
         \<and> x \<in> set (target_records (fc_mode cfg) (backup_records held (cs_chain s')))
     | _ \<Rightarrow> follow_inv cfg held s' \<and> chain_extends s s' \<and> cs_position s' = cs_position s)"
proof (induction ts arbitrary: s)
  case (Cons t ts)
  obtain res s1 where t: "poll_turn cd cfg t s = (res, s1)" by fastforce
  note ok = poll_turn_ok [OF assms Cons.prems(1) t]
  show ?case
  proof (cases "res = Again \<or> res = Dropped")
    case True
    then have inv: "follow_inv cfg held s1" "chain_extends s s1" "cs_position s1 = cs_position s"
      using ok by (auto simp: turn_ok_def)
    have "poll_turns cd cfg ts s1 = (r, s')" using Cons.prems(2) t True by auto
    from Cons.IH [OF inv(1) this] show ?thesis
      using inv(2,3) chain_extends_trans [OF inv(2), of s'] by (auto split: option.splits sum.splits)
  next
    case False
    then obtain q where q: "res = Returned q" by (cases res) auto
    then have r: "r = Some q" "s' = s1" using Cons.prems(2) t by auto
    have "x \<in> set (target_records (fc_mode cfg) (backup_records held (cs_chain s1)))"
      if "due_record cfg held s x" "chain_extends s s1" for x
      using that target_records_append by (fastforce simp: due_record_def chain_extends_def)
    then show ?thesis using ok q r by (auto simp: turn_ok_def due_record_def split: option.splits sum.splits)
  qed
qed simp

text \<open>A poll whose calls all end returns within three turns.\<close>

definition ends :: "('st, 'e) turn_env \<Rightarrow> bool" where
  "ends t = (te_waited t \<and> te_read t \<noteq> None \<and> te_list t \<noteq> None)"

definition turns_left :: "chain_source \<Rightarrow> nat" where
  "turns_left s = (if cs_idle s \<or> cs_buffer s \<noteq> [] then 1
     else if cs_next_object s < length (cs_chain s) then 2 else 3)"

lemma poll_turn_progress:
  assumes "backup_is cd cfg held" "follow_inv cfg held s" "ends t" "poll_turn cd cfg t s = (res, s')"
  shows "(\<exists>r. res = Returned r) \<or> res = Again \<and> turns_left s' < turns_left s"
proof (cases "cs_idle s \<or> cs_buffer s \<noteq> []")
  case True
  then show ?thesis using assms(3,4) by (auto simp: poll_turn_def ends_def split: list.splits if_splits)
next
  case False
  show ?thesis
  proof (cases "cs_next_object s < length (cs_chain s)")
    case True
    obtain q s1 where q: "fill cd cfg (te_read t) s = (q, s1)" by fastforce
    then show ?thesis using assms(3,4) False True fill_inv [OF assms(1,2) _ True q]
      by (auto simp: poll_turn_def ends_def turns_left_def split: option.splits sum.splits)
  next
    case n: False
    obtain d where d: "te_list t = Some d" using assms(3) by (auto simp: ends_def)
    obtain q s1 where q: "list_new cfg d s = (q, s1)" by fastforce
    have "cs_next_object s \<le> length (cs_chain s)" using assms(2) by (simp add: follow_inv_def)
    then show ?thesis using assms(4) False n d q list_new_inv [OF assms(1,2) q]
      by (auto simp: poll_turn_def turns_left_def split: sum.splits bool.splits)
  qed
qed

lemma poll_turns_return:
  assumes "backup_is cd cfg held"
  shows "follow_inv cfg held s \<Longrightarrow> \<forall>t \<in> set ts. ends t \<Longrightarrow> turns_left s \<le> length ts \<Longrightarrow>
    fst (poll_turns cd cfg ts s) \<noteq> None"
proof (induction ts arbitrary: s)
  case Nil
  then show ?case by (auto simp: turns_left_def split: if_splits)
next
  case (Cons t ts)
  obtain res s1 where t: "poll_turn cd cfg t s = (res, s1)" by fastforce
  show ?case
  proof (cases "\<exists>r. res = Returned r")
    case True
    then show ?thesis using t by auto
  next
    case False
    then have again: "res = Again" "turns_left s1 < turns_left s"
      using poll_turn_progress [OF assms Cons.prems(1) _ t] Cons.prems(2) by auto
    have "follow_inv cfg held s1" using poll_turn_ok [OF assms Cons.prems(1) t] again by (simp add: turn_ok_def)
    then show ?thesis using Cons.IH [of s1] Cons.prems(2,3) t again by simp
  qed
qed

section \<open>Starting\<close>

lemma open_source_inv:
  assumes "backup_is cd cfg held" "open_source cfg d = Inr s"
  shows "follow_inv cfg held s"
proof -
  have "fc_mode cfg = Preserve \<Longrightarrow> fc_chain_start cfg = 0"
    using assms(2) by (simp add: open_source_def split: if_splits)
  then have "follow_inv cfg held chain_source_new" by (rule follow_inv_new)
  moreover obtain r where "list_new cfg d chain_source_new = (r, s)"
    using assms(2) by (auto simp: open_source_def split: prod.splits sum.splits if_splits)
  ultimately show ?thesis using list_new_inv [OF assms(1)] by blast
qed

lemma follow_high_watermark_inv:
  assumes "backup_is cd cfg held" "follow_inv cfg held s" "follow_high_watermark cfg d s = (Inr h, s')"
  shows "follow_inv cfg held s' \<and> chain_extends s s' \<and> cs_position s' = cs_position s"
proof -
  obtain r s1 where r: "list_new cfg d s = (r, s1)" by fastforce
  have "s1 = s'" using assms(3) r by (auto simp: follow_high_watermark_def split: sum.splits)
  then show ?thesis using list_new_inv [OF assms(1,2) r] by (auto simp: chain_extends_def)
qed

lemma position_where_Some: "position_where P xs = Some i \<Longrightarrow> i < length xs \<and> P (xs ! i)"
  by (induction xs arbitrary: i) (auto split: if_splits)

lemma seek_preserved:
  assumes "follow_inv cfg held s" "fc_mode cfg = Preserve" "p \<le> positions_end cfg s"
  shows "follow_inv cfg held (s\<lparr>cs_pending := None, cs_buffer := [], cs_skip := 0, cs_idle := False,
      cs_position := p, cs_next_object :=
        unwrap_or (position_where (\<lambda>ob. p \<le> co_to ob) (cs_chain s)) (length (cs_chain s))\<rparr>)"
proof (cases "position_where (\<lambda>ob. p \<le> co_to ob) (cs_chain s)")
  case None
  then show ?thesis using assms
    by (auto simp: follow_inv_def at_position_def positions_end_def reads_ok_def Let_def)
next
  case (Some i)
  then show ?thesis using assms position_where_Some [OF Some]
    by (auto simp: follow_inv_def at_position_def positions_end_def reads_ok_def Let_def)
qed

lemma seek_renumbered:
  assumes "follow_inv cfg held s" "fc_mode cfg = Renumber" "i \<le> length (cs_chain s)"
    "p = of_nat (length (backup_records held (take i (cs_chain s)))) + k"
    "k = 0 \<or> i < length (cs_chain s) \<and> unat k < length (held (cs_chain s ! i))" "reads_ok held t"
    "same_but_reads (s\<lparr>cs_pending := None, cs_buffer := [], cs_skip := 0, cs_idle := False, cs_position := p\<rparr>) t"
  shows "follow_inv cfg held (t\<lparr>cs_skip := k, cs_next_object := i\<rparr>)"
  using same_but_reads_simps [OF assms(7)] assms(1-6)
  by (auto simp: follow_inv_def at_position_def reads_ok_def Let_def)

lemma follow_seek_inv:
  assumes "backup_is cd cfg held" "follow_inv cfg held s" "follow_seek cd cfg d e p s = (Inr u, s')"
  shows "follow_inv cfg held s' \<and> chain_extends s s' \<and> cs_position s' = p"
proof -
  obtain r s1 where r: "list_new cfg d s = (r, s1)" by fastforce
  note l = list_new_inv [OF assms(1,2) r]
  let ?s2 = "s1\<lparr>cs_pending := None, cs_buffer := [], cs_skip := 0, cs_idle := False, cs_position := p\<rparr>"
  have ok: "\<exists>b. r = Inr b" "\<not> (fc_mode cfg = Preserve \<and> positions_end cfg s1 < p)"
    using assms(3) r by (auto simp: follow_seek_def split: sum.splits if_splits)
  have ext: "chain_extends s s1" using l by (auto simp: chain_extends_def)
  show ?thesis
  proof (cases "fc_mode cfg")
    case Preserve
    have "s' = ?s2\<lparr>cs_next_object :=
        unwrap_or (position_where (\<lambda>ob. p \<le> co_to ob) (cs_chain s1)) (length (cs_chain s1))\<rparr>"
      using assms(3) r ok Preserve by (auto simp: follow_seek_def)
    then show ?thesis using seek_preserved [of cfg held s1 p] l ext ok(2) Preserve
      by (simp add: chain_extends_def not_less)
  next
    case Renumber
    have inv1: "follow_inv cfg held s1" using l by blast
    have rd: "reads_ok held ?s2" using inv1 by (auto simp: follow_inv_def reads_ok_def)
    have fits: "length (backup_records held (cs_chain ?s2)) < 2 ^ 64"
      using chain_records_length [of held "fc_chain_start cfg" "cs_chain s1"] known_good [of cfg "cs_chain s1"] inv1
        backup_object [OF assms(1)]
      by (auto simp: follow_inv_def)
    obtain q s3 where q: "locate cd cfg e p (length (cs_chain ?s2)) 0 0 ?s2 = (q, s3)" by fastforce
    have q': "locate cd cfg e p (length (cs_chain ?s2)) 0
        (of_nat (length (backup_records held (take 0 (cs_chain ?s2))))) ?s2 = (q, s3)" using q by simp
    note loc = locate_ok [OF assms(1) rd _ fits q']
    have sm: "reads_ok held s3" "same_but_reads ?s2 s3" using loc by auto
    note fr = same_but_reads_simps [OF sm(2)]
    obtain found f where f: "q = Inr (found, f)"
      using assms(3) r ok Renumber q by (cases q) (auto simp: follow_seek_def Let_def)
    show ?thesis
    proof (cases found)
      case None
      have at: "f = of_nat (length (backup_records held (cs_chain s1)))" "f \<le> p" using loc f None by auto
      have s': "s' = s3\<lparr>cs_next_object := length (cs_chain s3)\<rparr>" "\<not> f < p"
        using assms(3) r ok Renumber q f None by (auto simp: follow_seek_def Let_def split: if_splits)
      have "s' = s3\<lparr>cs_skip := 0, cs_next_object := length (cs_chain s1)\<rparr>"
        using s'(1) fr by (cases s3) simp
      then show ?thesis
        using seek_renumbered [OF inv1 Renumber, of "length (cs_chain s1)" p 0 s3] at s'(2) sm fr ext
        by (auto simp: chain_extends_def)
    next
      case (Some jk)
      obtain j k where jk: "jk = (j, k)" by fastforce
      have at: "j < length (cs_chain s1)" "p = of_nat (length (backup_records held (take j (cs_chain s1)))) + k"
        "unat k < length (held (cs_chain s1 ! j))" using loc f Some jk by auto
      have s': "s' = s3\<lparr>cs_skip := k, cs_next_object := j\<rparr>"
        using assms(3) r ok Renumber q f Some jk by (auto simp: follow_seek_def Let_def)
      then show ?thesis
        using seek_renumbered [OF inv1 Renumber, of j p k s3] at sm fr ext
        by (auto simp: chain_extends_def)
    qed
  qed
qed

section \<open>Under the mirror loop\<close>

lemma follow_start:
  assumes "backup_is cd cfg held" "follow_inv cfg held src" "start_mirror K (follow_source cd cfg) e src sink n = Inr st"
  shows "follow_inv cfg held (lp_source st) \<and> chain_extends src (lp_source st)
    \<and> cs_position (lp_source st) = lp_expected st"
proof -
  obtain h sink1 low src1 high src2 f sink2 where
    low: "s_low_watermark (follow_source cd cfg) (ste_low e) src = (Inr low, src1)" and
    high: "s_high_watermark (follow_source cd cfg) (ste_high e) src1 = (Inr high, src2)" and
    seek: "s_seek (follow_source cd cfg) (ste_seek e) (lp_expected st) src2 = (Inr (), lp_source st)"
    by (rule start_mirror_Inr [OF assms(3)])
  have "src1 = src" using low by (simp add: follow_source_def default_low_watermark_def)
  then have h: "follow_inv cfg held src2" "chain_extends src src2"
    using follow_high_watermark_inv [OF assms(1,2)] high by (auto simp: follow_source_def)
  show ?thesis
    using follow_seek_inv [OF assms(1) h(1)] seek chain_extends_trans [OF h(2)] by (auto simp: follow_source_def)
qed

lemma follow_step:
  assumes "backup_is cd cfg held" "follow_inv cfg held (lp_source st)" "cs_position (lp_source st) = lp_expected st"
    "loop_step K (follow_source cd cfg) N ev st = (res, st', rs)"
  shows "chain_extends (lp_source st) (lp_source st') \<and> contig (lp_expected st) (offsets rs)
    \<and> set rs \<subseteq> set (target_records (fc_mode cfg) (backup_records held (cs_chain (lp_source st'))))
    \<and> known cfg (cs_chain (lp_source st'))
    \<and> (res \<noteq> Panicked \<longrightarrow> lp_expected st' = lp_expected st + of_nat (length rs))
    \<and> (res = Running \<longrightarrow> follow_inv cfg held (lp_source st') \<and> cs_position (lp_source st') = lp_expected st')"
proof (cases ev)
  case (Shutdown e f)
  then show ?thesis using assms(4) inv_chain [OF assms(2)]
    by (auto simp: loop_step_def finish_loop_def split: prod.splits sum.splits)
next
  case Heartbeat
  then show ?thesis using assms inv_chain [OF assms(2)] by (auto simp: loop_step_def)
next
  case (Poll d e f)
  obtain q s1 where q: "poll_turns cd cfg (fe_turns d) (lp_source st) = (q, s1)" by fastforce
  then have p: "s_poll_one (follow_source cd cfg) d (lp_source st) = (unwrap_or q (Ok None), s1)"
    by (simp add: follow_source_def)
  note ok = poll_turns_ok [OF assms(1,2) q]
  show ?thesis
  proof (cases "\<exists>r. q = Some (Inr (Some r))")
    case True
    then obtain r where r: "q = Some (Inr (Some r))" by blast
    have "deliver K N e f r (st\<lparr>lp_source := s1\<rparr>) = (res, st', rs)"
      using assms(4) Poll p r by (simp add: loop_step_def)
    then have "lp_source st' = s1 \<and> (rs = [] \<or> rs = [r])
        \<and> (res = Running \<longrightarrow> rs = [r])
        \<and> (res \<noteq> Panicked \<longrightarrow> lp_expected st' = lp_expected st + of_nat (length rs))"
      using ok r assms(3)
      by (auto simp: deliver_def Let_def checked_succ split: if_splits prod.splits sum.splits option.splits)
    then show ?thesis using ok r assms(3) inv_chain [of cfg held s1] by auto
  next
    case False
    then consider "unwrap_or q (Ok None) = Ok None" "q = None \<or> q = Some (Inr None)" | x where "q = Some (Inl x)"
      by (cases q) (auto split: sum.splits option.splits intro: sum.exhaust [of "the q"])
    then have "lp_source st' = s1 \<and> rs = [] \<and> lp_expected st' = lp_expected st \<and> (res = Running \<longrightarrow> (\<forall>x. q \<noteq> Some (Inl x)))"
      by cases (use assms(4) Poll p in \<open>auto simp: loop_step_def idle_check_def split: sum.splits prod.splits\<close>)
    moreover have "chain_extends (lp_source st) s1" using ok False by (auto split: option.splits sum.splits)
    ultimately show ?thesis using ok False assms(3) inv_chain [of cfg held s1]
      by (auto split: option.splits sum.splits)
  qed
qed

text \<open>Whatever the destination, the records it accepts are the backup's, one after the other.\<close>

lemma follow_run:
  assumes "backup_is cd cfg held"
  shows "follow_inv cfg held (lp_source st) \<Longrightarrow> cs_position (lp_source st) = lp_expected st \<Longrightarrow>
    run_loop K (follow_source cd cfg) N evs st = (res, st', rs) \<Longrightarrow>
    chain_extends (lp_source st) (lp_source st') \<and> contig (lp_expected st) (offsets rs)
    \<and> set rs \<subseteq> set (target_records (fc_mode cfg) (backup_records held (cs_chain (lp_source st'))))
    \<and> known cfg (cs_chain (lp_source st'))
    \<and> (res \<noteq> Panicked \<longrightarrow> lp_expected st' = lp_expected st + of_nat (length rs))
    \<and> (res = Running \<longrightarrow> follow_inv cfg held (lp_source st'))"
proof (induction evs arbitrary: st rs)
  case (Cons ev evs)
  obtain r1 st1 rs1 where s: "loop_step K (follow_source cd cfg) N ev st = (r1, st1, rs1)" by (metis prod_cases3)
  note one = follow_step [OF assms Cons.prems(1,2) s]
  show ?case
  proof (cases "r1 = Running")
    case True
    obtain rs2 where rest: "run_loop K (follow_source cd cfg) N evs st1 = (res, st', rs2)" "rs = rs1 @ rs2"
      using Cons.prems(3) s True by (auto split: prod.splits)
    have IH: "chain_extends (lp_source st1) (lp_source st')" "contig (lp_expected st1) (offsets rs2)"
      "set rs2 \<subseteq> set (target_records (fc_mode cfg) (backup_records held (cs_chain (lp_source st'))))"
      "known cfg (cs_chain (lp_source st'))"
      "res \<noteq> Panicked \<longrightarrow> lp_expected st' = lp_expected st1 + of_nat (length rs2)"
      "res = Running \<longrightarrow> follow_inv cfg held (lp_source st')"
      using Cons.IH [OF _ _ rest(1)] one True by auto
    have "set rs1 \<subseteq> set (target_records (fc_mode cfg) (backup_records held (cs_chain (lp_source st'))))"
      using one IH(1) target_records_append by (fastforce simp: chain_extends_def)
    then show ?thesis
      using one True IH rest(2) chain_extends_trans by (auto simp: contig_append)
  next
    case False
    then have "st' = st1" "rs = rs1" "res = r1" using Cons.prems(3) s by (auto split: loop_result.splits)
    then show ?thesis using one False by blast
  qed
qed (simp add: inv_chain)

end
