(* ===== verification/Follow_Target.thy ===== *)
theory Follow_Target
  imports Follow_Exact Kafka
begin

text \<open>
  A followed backup under the mirror loop into a Kafka partition: what it means that the partition holds a
  prefix of the backup, that the next record of the backup is the one that is due, and the contract of the
  Kafka destination with its timestamp mode.
\<close>

section \<open>The target is a prefix of the backup\<close>

text \<open>The target holds the first \<open>n\<close> records of a backup; with preserved offsets those have no holes.\<close>

definition target_holds ::
    "(krecord \<Rightarrow> kmessage) \<Rightarrow> offset_mode \<Rightarrow> krecord list \<Rightarrow> kmessage list \<Rightarrow> nat \<Rightarrow> bool" where
  "target_holds msg mode backup target n =
     (n \<le> length backup \<and> target = map msg (take n backup)
      \<and> (mode = Preserve \<longrightarrow> contig 0 (offsets (take n backup))))"

lemma target_holds_append: "target_holds msg mode recs t n \<Longrightarrow> target_holds msg mode (recs @ new) t n"
  by (auto simp: target_holds_def)

lemma renumbered_nth: "i < length rs \<Longrightarrow> renumbered p rs ! i = (rs ! i)\<lparr>r_offset := p + of_nat i\<rparr>"
  by (induction rs arbitrary: p i) (auto simp: nth_Cons ac_simps split: nat.splits)

lemma contig_nth: "contig s xs \<Longrightarrow> i < length xs \<Longrightarrow> xs ! i = s + of_nat i"
  unfolding contig_def by (metis (no_types, lifting) add_0 length_map nth_map_upt diff_zero length_upt)

text \<open>The record that is due at offset \<open>n\<close> is the next one of the backup.\<close>

lemma due_is_next:
  assumes "n \<le> length recs" "mode = Preserve \<longrightarrow> contig 0 (offsets (take n recs)) \<and> increasing recs"
    "length recs < 2 ^ 64" "r \<in> set (target_records mode recs)" "r_offset r = of_nat n"
    "\<And>r off. msg (r\<lparr>r_offset := off\<rparr>) = msg r"
  shows "n < length recs \<and> msg (recs ! n) = msg r \<and> (mode = Preserve \<longrightarrow> recs ! n = r)"
proof -
  have fits: "i < 2 ^ 64 \<Longrightarrow> unat (of_nat i :: u64) = i" for i by (simp add: unat_of_nat)
  show ?thesis
  proof (cases mode)
    case Renumber
    then obtain i where i: "i < length recs" "r = renumbered 0 recs ! i"
      using assms(4) by (auto simp: target_records_def in_set_conv_nth)
    then have r: "r = (recs ! i)\<lparr>r_offset := of_nat i\<rparr>" by (simp add: renumbered_nth)
    then have "unat (of_nat i :: u64) = unat (of_nat n :: u64)" using assms(5) by simp
    moreover have "i < 2 ^ 64" "n < 2 ^ 64" using i(1) assms(1,3) by linarith+
    ultimately have "i = n" by (simp only: fits)
    then show ?thesis using r i(1) Renumber assms(6) by simp
  next
    case Preserve
    have inc: "sorted_wrt (<) (offsets recs)" "contig 0 (offsets (take n recs))"
      using assms(2) Preserve by (auto simp: increasing_def)
    obtain i where i: "i < length recs" "r = recs ! i"
      using assms(4) Preserve by (auto simp: target_records_def in_set_conv_nth)
    have ge: "\<not> i < n"
    proof
      assume "i < n"
      then have "offsets (take n recs) ! i = of_nat i" using contig_nth [OF inc(2), of i] assms(1) by simp
      then have "unat (of_nat n :: u64) = unat (of_nat i :: u64)" using \<open>i < n\<close> i assms(1,5) by simp
      moreover have "i < 2 ^ 64" "n < 2 ^ 64" using i(1) assms(1,3) by linarith+
      ultimately show False using \<open>i < n\<close> by (simp only: fits)
    qed
    have bound: "j < length recs \<Longrightarrow> j \<le> unat (r_offset (recs ! j))" for j
    proof (induction j)
      case (Suc j)
      have "r_offset (recs ! j) < r_offset (recs ! Suc j)"
        using inc(1) Suc.prems by (simp add: sorted_wrt_iff_nth_less)
      then show ?case using Suc by (simp add: word_less_nat_alt)
    qed simp
    have "n < 2 ^ 64" using assms(1,3) by linarith
    then have "i \<le> n" using bound [OF i(1)] i(2) assms(5) by (simp only: fits)
    then have "i = n" using ge by simp
    then show ?thesis using i Preserve by simp
  qed
qed

lemma target_grows:
  assumes "mode = Preserve \<longrightarrow> increasing recs" "length recs < 2 ^ 64"
    "\<And>r off. msg (r\<lparr>r_offset := off\<rparr>) = msg r"
  shows "target_holds msg mode recs t n \<Longrightarrow> contig (of_nat n) (offsets rs) \<Longrightarrow>
    set rs \<subseteq> set (target_records mode recs) \<Longrightarrow>
    target_holds msg mode recs (t @ map msg rs) (n + length rs)"
proof (induction rs arbitrary: t n)
  case (Cons r rs)
  have "n < length recs \<and> msg (recs ! n) = msg r \<and> (mode = Preserve \<longrightarrow> recs ! n = r)"
    by (rule due_is_next) (use Cons.prems assms in \<open>auto simp: target_holds_def\<close>)
  then have "target_holds msg mode recs (t @ [msg r]) (Suc n)"
    using Cons.prems(1,2) by (auto simp: target_holds_def take_Suc_conv_app_nth contig_append)
  moreover have "contig (of_nat (Suc n)) (offsets rs)" using Cons.prems(2) by (simp add: ac_simps)
  ultimately show ?case using Cons.IH [of "t @ [msg r]" "Suc n"] Cons.prems(3) by simp
qed simp

lemma backup_increasing:
  assumes "\<forall>ob. co_from ob \<le> co_to ob \<longrightarrow> object_records ob (held ob)"
  shows "chain_good s chain \<Longrightarrow> increasing (backup_records held chain)
    \<and> (\<forall>r \<in> set (backup_records held chain). s \<le> r_offset r)"
proof (induction chain arbitrary: s)
  case (Cons ob chain)
  have ob: "co_from ob = s" "object_records ob (held ob)" "co_to ob \<noteq> u64_max" "chain_good (co_to ob + 1) chain"
    using Cons.prems assms by (auto simp: chain_good_def split: if_splits)
  have to: "r_offset x \<le> co_to ob" if "x \<in> set (held ob)" for x
    using increasing_le_last [OF _ that] ob(2) by (auto simp: object_records_def)
  have "s \<le> co_to ob" using Cons.prems ob(1) by (auto simp: chain_good_def)
  moreover have above: "r_offset x < r_offset y" if "x \<in> set (held ob)" "y \<in> set (backup_records held chain)" for x y
    using to [OF that(1)] Cons.IH [OF ob(4)] that(2) lt_succ [OF ob(3)]
    by (meson le_less_trans less_le_trans)
  moreover have "s \<le> r_offset y" if "y \<in> set (backup_records held chain)" for y
    using Cons.IH [OF ob(4)] that lt_succ [OF ob(3)] \<open>s \<le> co_to ob\<close> by (meson less_imp_le order_trans)
  ultimately show ?case
    using Cons.IH [OF ob(4)] ob(1,2) by (auto simp: increasing_append object_records_def)
qed simp

section \<open>The loop into a Kafka partition\<close>

text \<open>A Kafka destination keeps its timestamp mode, too.\<close>

lemma kafka_write_mode: "kafka_write json_ok B e r s = (x, s') \<Longrightarrow> ks_timestamp_mode s' = ks_timestamp_mode s"
  by (auto simp: kafka_write_def Let_def split: if_splits sum.splits prod.splits)

interpretation kafka_stamped: sink_contract "kafka_ops json_ok B"
    "\<lambda>s log. kafka_accepts B end_of messages base s log \<and> ks_timestamp_mode s = tm"
    "\<lambda>s. end_of (ks_partition s)" False
  for json_ok B end_of messages base tm
proof
  fix s s' log e h f r low and u :: unit
  let ?acc = "\<lambda>s log. kafka_accepts B end_of messages base s log \<and> ks_timestamp_mode s = tm"
  show "?acc s log \<Longrightarrow> k_allows_compacted_source (kafka_ops json_ok B) s = False"
    using kafka_dest.compacted_law by blast
  show "?acc s log \<Longrightarrow> k_next_expected_offset (kafka_ops json_ok B) e s = (Inr h, s') \<Longrightarrow>
      ?acc s' log \<and> h = end_of (ks_partition s') \<and> end_of (ks_partition s') = end_of (ks_partition s)"
    using kafka_dest.next_law [of B end_of messages base s log json_ok e h s']
    by (auto simp: kafka_ops_def kafka_next_expected_offset_def)
  show "?acc s log \<Longrightarrow> k_furthest_next_offset (kafka_ops json_ok B) e s = (Inr f, s') \<Longrightarrow>
      ?acc s' log \<and> end_of (ks_partition s') = end_of (ks_partition s)
      \<and> end_of (ks_partition s) \<le> unwrap_or f (end_of (ks_partition s))"
    by (auto simp: kafka_ops_def default_furthest_def)
  show "?acc s log \<Longrightarrow> end_of (ks_partition s) \<le> r_offset r \<Longrightarrow> r_offset r \<noteq> u64_max \<Longrightarrow>
      k_write (kafka_ops json_ok B) e r s = (Inr u, s') \<Longrightarrow>
      ?acc s' (log @ [r]) \<and> end_of (ks_partition s') = r_offset r + 1"
    using kafka_dest.write_law [of B end_of messages base s log r json_ok e u s']
      kafka_write_mode [of json_ok B e r s "Inr u" s']
    by (auto simp: kafka_ops_def)
  show "?acc s log \<Longrightarrow> k_flush (kafka_ops json_ok B) e s = (Inr u, s') \<Longrightarrow>
      ?acc s' log \<and> end_of (ks_partition s') = end_of (ks_partition s)"
    by (auto simp: kafka_ops_def default_flush_def)
  show "?acc s log \<Longrightarrow>
      k_allows_compacted_source (kafka_ops json_ok B) s \<Longrightarrow> end_of (ks_partition s) \<le> low \<Longrightarrow>
      k_align (kafka_ops json_ok B) e low s = (Inr u, s') \<Longrightarrow>
      ?acc s' log \<and> end_of (ks_partition s') = low"
    by (simp add: kafka_ops_def default_allows_def)
qed

end
