(* ===== verification/Props_Follow.thy ===== *)
theory Props_Follow
  imports Props_Restore Follow_Target
begin

text \<open>
  The properties of a continuous restore: a mirror whose source is a backup (theory Follow) and whose
  destination is a Kafka partition.
\<close>

section \<open>The target is a prefix of the backup\<close>

text \<open>
  C12: a continuous restore keeps the target equal to a prefix of the backup.  When it starts on a partition
  that holds exactly the backup's first \<open>n\<close> records, in order, the partition holds, after any run, the first
  records of the backup as it is listed by then, up to the offset the mirror expects next and nothing else,
  whatever was polled, dropped by a heartbeat, added to the backup or failed to be read meanwhile, as long as
  no write to the target failed.  That is where the next run may start again, in both offset modes.
\<close>

theorem followed_target_holds_backup:
  assumes "backup_is cd cfg held" and "open_source cfg d = Inr src" and "broker_ok B end_of messages"
    and "target_holds (future_record (ks_timestamp_mode sink)) (fc_mode cfg)
      (backup_records held (cs_chain src)) (messages (ks_partition sink)) n"
    and "end_of (ks_partition sink) = of_nat n"
    and "start_mirror (kafka_ops json_ok B) (follow_source cd cfg) e src sink nt = Inr st"
    and "run_loop (kafka_ops json_ok B) (follow_source cd cfg) N evs st = (res, st', rs)" and "intact res"
  shows "target_holds (future_record (ks_timestamp_mode (lp_sink st'))) (fc_mode cfg)
      (backup_records held (cs_chain (lp_source st'))) (messages (ks_partition (lp_sink st')))
      (n + length rs)
    \<and> end_of (ks_partition (lp_sink st')) = of_nat (n + length rs)"
proof -
  let ?tm = "ks_timestamp_mode sink" and ?chain = "cs_chain (lp_source st')"
  let ?recs = "backup_records held ?chain"
  have acc: "kafka_accepts B end_of messages (\<lambda>_. messages (ks_partition sink)) sink []
      \<and> ks_timestamp_mode sink = ?tm"
    using assms(3) by (simp add: kafka_accepts_def)
  note run = kafka_stamped.mirror_run [OF acc assms(6,7)]
  have at: "lp_expected st = of_nat n" using run assms(5) by simp
  have inv: "follow_inv cfg held src" by (rule open_source_inv [OF assms(1,2)])
  note start = follow_start [OF assms(1) inv assms(6)]
  note fol = follow_run [OF assms(1) _ _ assms(7)]
  have ext: "chain_extends src (lp_source st')"
    and got: "contig (of_nat n) (offsets rs)" "set rs \<subseteq> set (target_records (fc_mode cfg) ?recs)"
    and good: "chain_good (fc_chain_start cfg) ?chain"
    using start fol at chain_extends_trans known_good [of cfg ?chain] by auto
  have objs: "\<forall>ob. co_from ob \<le> co_to ob \<longrightarrow> object_records ob (held ob)" using backup_object [OF assms(1)] by blast
  have inc: "increasing ?recs" using backup_increasing [OF objs good] by simp
  have fits: "length ?recs < 2 ^ 64" using chain_records_length [OF objs good] by simp
  have "target_holds (future_record ?tm) (fc_mode cfg) ?recs (messages (ks_partition sink)) n"
    using assms(4) ext target_holds_append by (auto simp: chain_extends_def)
  from target_grows [OF _ fits _ this got] have "target_holds (future_record ?tm) (fc_mode cfg) ?recs
      (messages (ks_partition sink) @ map (future_record ?tm) rs) (n + length rs)"
    using inc by (simp add: future_record_def)
  moreover have "messages (ks_partition (lp_sink st')) = messages (ks_partition sink) @ map (future_record ?tm) rs"
    "ks_timestamp_mode (lp_sink st') = ?tm" "end_of (ks_partition (lp_sink st')) = lp_expected st'"
    using run assms(8) by (auto simp: kafka_accepts_def)
  moreover have "lp_expected st' = of_nat (n + length rs)"
    using start fol at intactD [OF assms(8)] by simp
  ultimately show ?thesis by simp
qed

text \<open>
  A backup of two objects, of which a listing shows the second when its environment says so, and whose
  objects never change.
\<close>

definition demo_growing :: "(unit, bool) store_ops" where
  "demo_growing = \<lparr>
     st_list = (\<lambda>e st. Inr (if e then [demo_name1, demo_name2] else [demo_name1])),
     st_put_new = (\<lambda>e st n b. (Err BStore, st)),
     st_get = (\<lambda>e st n. if n = demo_name1 then Inr [0, 1] else if n = demo_name2 then Inr [2] else Err BStore),
     st_list_after = (\<lambda>e st after. case after of
         None \<Rightarrow> Inr (if e then [demo_name1, demo_name2] else [demo_name1])
       | Some a \<Rightarrow> Inr (if e \<and> a = demo_name1 then [demo_name2] else []))\<rparr>"

definition demo_follow :: "offset_mode \<Rightarrow> (unit, bool) follow_config" where
  "demo_follow mode = \<lparr>fc_ops = demo_growing, fc_format = Ndjson, fc_keyring = None, fc_source = demo_of,
     fc_mode = mode, fc_chain_start = 0\<rparr>"

definition demo_held :: "offset_mode \<Rightarrow> chain_object \<Rightarrow> krecord list" where
  "demo_held mode ob = (case follow_read demo_codec (demo_follow mode) ((), False) ob of
      Inr rs \<Rightarrow> rs | Inl _ \<Rightarrow> [(demo_rec 0)\<lparr>r_offset := co_to ob\<rparr>])"

lemma demo_backup_is: "backup_is demo_codec (demo_follow mode) (demo_held mode)"
  unfolding backup_is_def
proof (intro conjI allI impI)
  fix d ob rs assume r: "follow_read demo_codec (demo_follow mode) d ob = Inr rs"
  obtain u e where d: "d = (u, e)" by (cases d)
  have "follow_read demo_codec (demo_follow mode) d ob = follow_read demo_codec (demo_follow mode) ((), False) ob"
    unfolding follow_read_def read_object_def read_object_with_digest_def d
    by (simp add: demo_follow_def demo_growing_def cong: if_cong sum.case_cong)
  then have "follow_read demo_codec (demo_follow mode) ((), False) ob = Inr rs" using r by simp
  then show "rs = demo_held mode ob" by (simp add: demo_held_def)
next
  fix ob :: chain_object assume "co_from ob \<le> co_to ob"
  then show "object_records ob (demo_held mode ob)"
    using follow_read_checked [of demo_codec "demo_follow mode" "((), False)" ob]
    by (auto simp: demo_held_def object_records_def increasing_def split: sum.splits)
next
  fix d :: "unit \<times> bool" and after names n b
  assume "st_list_after (fc_ops (demo_follow mode)) (snd d) (fst d) after = Inr names" "n \<in> set names"
  then have n: "n = demo_name1 \<or> n = demo_name2"
    by (auto simp: demo_follow_def demo_growing_def split: option.splits if_splits)
  assume "parse_blob_name n (extension (fc_format (demo_follow mode))) = Some b"
  then have "bn_to b = 1 \<or> bn_to b = 2" using n demo_names_parsed by (auto simp: demo_follow_def)
  then show "bn_to b \<noteq> u64_max" by (auto simp: u64_max_def)
qed

lemma demo_follow_reads:
  "follow_read demo_codec (demo_follow mode) d (demo_plan ! 0) = Inr [demo_rec 0, demo_rec 1]"
  "follow_read demo_codec (demo_follow mode) d (demo_plan ! Suc 0) = Inr [demo_rec 2]"
proof -
  have c: "check_records demo_of (demo_plan ! 0) None [demo_rec 0, demo_rec 1] = Ok ()"
    "check_records demo_of (demo_plan ! 1) None [demo_rec 2] = Ok ()"
    "r_offset (demo_rec 1) = 1" "r_offset (demo_rec 2) = 2" by code_simp+
  have d: "cd_decode demo_codec Ndjson [0, 1] = Inr [demo_rec 0, demo_rec 1]"
    "cd_decode demo_codec Ndjson [2] = Inr [demo_rec 2]" by code_simp+
  show "follow_read demo_codec (demo_follow mode) d (demo_plan ! 0) = Inr [demo_rec 0, demo_rec 1]"
    using c(1,3) d(1) demo_names_parsed(1)
    by (simp add: follow_read_def read_object_def read_object_with_digest_def decode_blob_def
        demo_follow_def demo_growing_def demo_plan_def del: check_records.simps)
  show "follow_read demo_codec (demo_follow mode) d (demo_plan ! Suc 0) = Inr [demo_rec 2]"
    using c(2,4) d(2) demo_names_parsed(2)
    by (simp add: follow_read_def read_object_def read_object_with_digest_def decode_blob_def
        demo_follow_def demo_growing_def demo_plan_def del: check_records.simps)
qed

text \<open>The source at its start, when it has read the first object, and when it has seen the second.\<close>

definition demo_at :: "nat \<Rightarrow> u64 list \<Rightarrow> nat \<Rightarrow> krecord list \<Rightarrow> u64 \<Rightarrow> chain_source" where
  "demo_at n counts i buffer p = chain_source_new\<lparr>cs_chain := take n demo_plan, cs_counts := counts,
     cs_next_object := i, cs_buffer := buffer, cs_position := p\<rparr>"

definition demo_turns :: "bool \<Rightarrow> (unit, bool) turn_env list" where
  "demo_turns b = replicate 3 \<lparr>te_waited = True, te_read = Some ((), b), te_list = Some ((), b)\<rparr>"

definition demo_fenv :: "bool \<Rightarrow> (unit, bool) follow_env" where
  "demo_fenv b = \<lparr>fe_list = ((), b), fe_reads = (\<lambda>_. ((), b)), fe_turns = demo_turns b\<rparr>"

lemma demo_planned_parts:
  "plan_chain [demo_name1] Ndjson 0 None = Inr (take 1 demo_plan)"
  "plan_chain [demo_name2] Ndjson 2 None = Inr (drop 1 demo_plan)"
  using plan_chain_accepts [of "[demo_name1]" Ndjson "[((0, 1), None)]" 0 2 None]
    plan_chain_accepts [of "[demo_name2]" Ndjson "[((2, 2), None)]" 2 3 None]
  by (simp_all add: demo_names_built ids_ok_def u64_max_def demo_plan_def)

lemma demo_listings:
  "open_source (demo_follow mode) ((), False) = Inr (demo_at 1 [] 0 [] 0)"
  "list_new (demo_follow mode) ((), False) (demo_at 1 c i b p) = (Inr False, demo_at 1 c i b p)"
  "list_new (demo_follow mode) ((), True) (demo_at 1 c i b p) = (Inr True, demo_at 2 c i b p)"
proof -
  show "open_source (demo_follow mode) ((), False) = Inr (demo_at 1 [] 0 [] 0)"
    using demo_planned_parts(1)
    by (simp add: open_source_def list_new_def chain_source_new_def demo_follow_def demo_growing_def demo_at_def)
  show "list_new (demo_follow mode) ((), False) (demo_at 1 c i b p) = (Inr False, demo_at 1 c i b p)"
    by (simp add: list_new_def demo_follow_def demo_growing_def demo_at_def demo_plan_def chain_source_new_def)
  have "list_min (map bn_from (List.map_filter (\<lambda>n. parse_blob_name n (extension Ndjson)) [demo_name2])) = Some 2"
    using demo_names_parsed(2) by (simp add: List.map_filter_def list_min_def)
  then show "list_new (demo_follow mode) ((), True) (demo_at 1 c i b p) = (Inr True, demo_at 2 c i b p)"
    using demo_planned_parts(2)
    by (simp add: list_new_def demo_follow_def demo_growing_def demo_at_def demo_plan_def chain_source_new_def)
qed

lemma demo_at_fields [simp]:
  "cs_chain (demo_at n c i b p) = take n demo_plan" "cs_next_object (demo_at n c i b p) = i"
  "cs_buffer (demo_at n c i b p) = b" "cs_position (demo_at n c i b p) = p"
  "cs_pending (demo_at n c i b p) = None" "cs_last_read (demo_at n c i b p) = None"
  "\<not> cs_idle (demo_at n c i b p)"
  "(demo_at n c i b p)\<lparr>cs_last_read := None\<rparr> = demo_at n c i b p"
  "(demo_at n c i b p)\<lparr>cs_pending := None\<rparr> = demo_at n c i b p"
  "(demo_at n c i b p)\<lparr>cs_buffer := b', cs_position := p'\<rparr> = demo_at n c i b' p'"
  "take 1 demo_plan = [demo_plan ! 0]" "take 2 demo_plan = [demo_plan ! 0, demo_plan ! Suc 0]"
  by (simp_all add: demo_at_def chain_source_new_def demo_plan_def)

lemma demo_fills:
  "fill demo_codec (demo_follow Preserve) (Some ((), e)) (demo_at 1 [] 0 [] 0) =
     (Some (Ok ()), demo_at 1 [2] 1 [demo_rec 0, demo_rec 1] 0)"
  "fill demo_codec (demo_follow Preserve) (Some ((), e)) (demo_at 2 [2] 1 [] 2) =
     (Some (Ok ()), demo_at 2 [2, 1] 2 [demo_rec 2] 2)"
proof -
  have "fill_with (demo_follow Preserve) 0 [demo_rec 0, demo_rec 1] (demo_at 1 [] 0 [] 0) =
      (Ok (), demo_at 1 [2] 1 [demo_rec 0, demo_rec 1] 0)"
    "fill_with (demo_follow Preserve) 1 [demo_rec 2] (demo_at 2 [2] 1 [] 2) = (Ok (), demo_at 2 [2, 1] 2 [demo_rec 2] 2)"
    by code_simp+
  then show "fill demo_codec (demo_follow Preserve) (Some ((), e)) (demo_at 1 [] 0 [] 0) =
     (Some (Ok ()), demo_at 1 [2] 1 [demo_rec 0, demo_rec 1] 0)"
    "fill demo_codec (demo_follow Preserve) (Some ((), e)) (demo_at 2 [2] 1 [] 2) =
     (Some (Ok ()), demo_at 2 [2, 1] 2 [demo_rec 2] 2)"
    using demo_follow_reads by (simp_all add: fill_def Let_def del: One_nat_def)
qed

lemma demo_polls:
  "poll_turns demo_codec (demo_follow Preserve) (demo_turns False) (demo_at 1 [] 0 [] 0) =
     (Some (Inr (Some (demo_rec 0))), demo_at 1 [2] 1 [demo_rec 1] 1)"
  "poll_turns demo_codec (demo_follow Preserve) (demo_turns False) (demo_at 1 [2] 1 [demo_rec 1] 1) =
     (Some (Inr (Some (demo_rec 1))), demo_at 1 [2] 1 [] 2)"
  "poll_turns demo_codec (demo_follow Preserve) (demo_turns True) (demo_at 1 [2] 1 [] 2) =
     (Some (Inr (Some (demo_rec 2))), demo_at 2 [2, 1] 2 [] 3)"
  by (simp_all add: demo_turns_def numeral_3_eq_3 poll_turn_def demo_fills demo_listings del: One_nat_def)

definition demo_follow_start :: "(kmessage list kafka_sink, chain_source, unit) loop_state" where
  "demo_follow_start = \<lparr>lp_source = demo_at 1 [] 0 [] 0, lp_sink = demo_topic, lp_notifier = (),
     lp_expected = 0, lp_last_heartbeat_offset = 0\<rparr>"

lemma demo_follow_starts:
  assumes k: "kafka_next_expected_offset B e demo_topic = (Ok 0, demo_topic)"
  shows "start_mirror (kafka_ops json_ok B) (follow_source demo_codec (demo_follow Preserve))
     \<lparr>ste_next = e, ste_low = demo_fenv False, ste_high = demo_fenv False, ste_furthest = e,
       ste_align = e, ste_seek = demo_fenv False\<rparr> (demo_at 1 [] 0 [] 0) demo_topic () = Inr demo_follow_start"
proof -
  have p: "position_where (\<lambda>ob. 0 \<le> co_to ob) [demo_plan ! 0] = Some 0" "positions_end (demo_follow Preserve) (demo_at 1 [] 0 [] 0) = 2"
    by code_simp+
  have s: "(demo_at 1 [] 0 [] 0)\<lparr>cs_pending := None, cs_buffer := [], cs_skip := 0, cs_idle := False,
      cs_position := 0, cs_next_object := 0\<rparr> = demo_at 1 [] 0 [] 0" by code_simp
  have m: "fc_mode (demo_follow Preserve) = Preserve" by (simp add: demo_follow_def)
  have h: "follow_high_watermark (demo_follow Preserve) ((), False) (demo_at 1 [] 0 [] 0) = (Ok 2, demo_at 1 [] 0 [] 0)"
    using p(2) by (simp add: follow_high_watermark_def demo_listings del: One_nat_def)
  have q: "follow_seek demo_codec (demo_follow Preserve) ((), False) (\<lambda>_. ((), False)) 0 (demo_at 1 [] 0 [] 0) =
      (Ok (), demo_at 1 [] 0 [] 0)"
    using p s m by (simp add: follow_seek_def demo_listings Let_def del: One_nat_def)
  show ?thesis
    using k h q
    by (simp add: start_mirror_def kafka_ops_def follow_source_def default_low_watermark_def default_furthest_def
        demo_fenv_def choose_start_def demo_follow_start_def Let_def del: One_nat_def)
qed

lemma demo_broker_next: "kafka_next_expected_offset demo_broker ((), ()) demo_topic = (Ok 0, demo_topic)"
  by code_simp

lemmas demo_follow_started = demo_follow_starts [OF demo_broker_next, of "\<lambda>_. True"]

abbreviation demo_copied :: "nat \<Rightarrow> kmessage list kafka_sink" where
  "demo_copied n \<equiv> demo_topic\<lparr>ks_partition := map (\<lambda>i. future_record TmSource (demo_rec i)) [0..<n]\<rparr>"

lemma demo_copies:
  "kafka_write (\<lambda>_. True) demo_broker ((), ()) (demo_rec 0) demo_topic = (Ok (), demo_copied 1)"
  "kafka_write (\<lambda>_. True) demo_broker ((), ()) (demo_rec 1) (demo_copied 1) = (Ok (), demo_copied 2)"
  "kafka_write (\<lambda>_. True) demo_broker ((), ()) (demo_rec 2) (demo_copied 2) = (Ok (), demo_copied 3)"
  "r_offset (demo_rec 0) = 0" "r_offset (demo_rec 1) = 1" "r_offset (demo_rec 2) = 2"
  by code_simp+

text \<open>The second object appears after the first was copied: the third poll lists it and reads it.\<close>

lemma demo_followed:
  "run_loop (kafka_ops (\<lambda>_. True) demo_broker) (follow_source demo_codec (demo_follow Preserve)) no_op_notifier
     [Poll (demo_fenv False) ((), ()) (), Poll (demo_fenv False) ((), ()) (), Poll (demo_fenv True) ((), ()) ()]
     demo_follow_start =
   (Running, \<lparr>lp_source = demo_at 2 [2, 1] 2 [] 3, lp_sink = demo_copied 3, lp_notifier = (), lp_expected = 3,
      lp_last_heartbeat_offset = 0\<rparr>, demo_log)"
proof -
  have p: "s_poll_one (follow_source demo_codec (demo_follow Preserve)) (demo_fenv e) s =
      (case poll_turns demo_codec (demo_follow Preserve) (demo_turns e) s of (r, s') \<Rightarrow> (unwrap_or r (Ok None), s'))" for e s
    by (simp add: follow_source_def demo_fenv_def)
  have d: "deliver (kafka_ops (\<lambda>_. True) demo_broker) no_op_notifier ((), ()) () (demo_rec i)
      \<lparr>lp_source = src, lp_sink = snk, lp_notifier = (), lp_expected = r_offset (demo_rec i), lp_last_heartbeat_offset = 0\<rparr> =
      (Running, \<lparr>lp_source = src, lp_sink = snk', lp_notifier = (), lp_expected = r_offset (demo_rec i) + 1,
        lp_last_heartbeat_offset = 0\<rparr>, [demo_rec i])"
    if "kafka_write (\<lambda>_. True) demo_broker ((), ()) (demo_rec i) snk = (Ok (), snk')" "r_offset (demo_rec i) \<noteq> u64_max"
    for i snk snk' and src :: chain_source
    using that by (simp add: deliver_def Let_def kafka_ops_def no_op_notifier_def checked_succ)
  show ?thesis
    using d [OF demo_copies(1)] d [OF demo_copies(2)] d [OF demo_copies(3)] demo_copies(4-6)
    by (simp add: demo_follow_start_def loop_step_def p demo_polls demo_log_def u64_max_def del: One_nat_def)
qed

theorem followed_target_holds_backup_witness:
  "target_holds (future_record TmSource) Preserve (backup_records (demo_held Preserve) demo_plan)
     (map (\<lambda>i. future_record TmSource (demo_rec i)) [0..<3]) 3"
proof -
  have o: "target_holds (future_record (ks_timestamp_mode demo_topic)) (fc_mode (demo_follow Preserve))
      (backup_records (demo_held Preserve) (cs_chain (demo_at 1 [] 0 [] 0))) (ks_partition demo_topic) 0"
    by (simp add: target_holds_def demo_topic_def)
  have e: "demo_end (ks_partition demo_topic) = of_nat 0" by (simp add: demo_end_def demo_topic_def)
  have i: "intact Running" by (simp add: intact_def)
  have f: "cs_chain (demo_at 2 [2, 1] 2 [] 3) = demo_plan" "fc_mode (demo_follow Preserve) = Preserve"
    "ks_timestamp_mode (demo_copied 3) = TmSource" "0 + length demo_log = 3"
    "ks_partition (demo_copied 3) = map demo_message [0..<3]"
    by (simp_all add: demo_at_def chain_source_new_def demo_plan_def demo_follow_def demo_topic_def demo_log_def)
  show ?thesis
    using conjunct1 [OF followed_target_holds_backup [OF demo_backup_is demo_listings(1) demo_broker_ok o e
        demo_follow_started demo_followed i]]
    by (simp only: f loop_state.simps kafka_sink.simps)
qed

section \<open>A poll returns\<close>

text \<open>
  C13: a poll of a followed backup returns.  At every point of a run that has not ended, a poll whose requests
  are answered and whose waits end returns within three turns of its loop, a record, nothing, or an error;
  it never lists or reads on for ever.
\<close>

theorem followed_poll_returns:
  assumes "backup_is cd cfg held" and "open_source cfg d = Inr src"
    and "start_mirror K (follow_source cd cfg) e src sink nt = Inr st"
    and "run_loop K (follow_source cd cfg) N evs st = (Running, st', rs)"
    and "\<forall>t \<in> set ts. te_waited t \<and> te_read t \<noteq> None \<and> te_list t \<noteq> None" and "3 \<le> length ts"
  shows "fst (poll_turns cd cfg ts (lp_source st')) \<noteq> None"
proof -
  have inv: "follow_inv cfg held src" by (rule open_source_inv [OF assms(1,2)])
  have "follow_inv cfg held (lp_source st')"
    using follow_start [OF assms(1) inv assms(3)] follow_run [OF assms(1) _ _ assms(4)] by auto
  then show ?thesis
    by (rule poll_turns_return [OF assms(1)]) (use assms(5,6) in \<open>auto simp: ends_def turns_left_def\<close>)
qed

theorem followed_poll_returns_witness:
  "fst (poll_turns demo_codec (demo_follow Preserve) (demo_turns False) (demo_at 2 [2, 1] 2 [] 3)) \<noteq> None"
  using followed_poll_returns [OF demo_backup_is demo_listings(1) demo_follow_started demo_followed, of "demo_turns False"]
  by (simp add: demo_turns_def)

end
