(* ===== verification/S3_Store.thy ===== *)
theory S3_Store
  imports Blob_Contract
begin

text \<open>
  The S3 store of a blob destination (\<open>crates/mirror-s3/src/lib.rs\<close>) over an object store client, which is
  a parameter (the \<open>object_store\<close> crate), reached with two identities: one lists and reads, one writes.  A
  \<open>Path\<close> of that crate is the list of its parts, and \<open>enc\<close> its encoding of a part.  The store is shown to
  keep the contract \<open>blob_store\<close>, from what the service documents, so the sink over it behaves as the one
  over a directory does.  \<open>S3Sink\<close> only forwards to the blob sink.
\<close>

section \<open>The client\<close>

type_synonym path = "string list"

datatype put_outcome = PutOk | PutAlreadyExists | PutPrecondition | PutFailed

text \<open>A listing is the stream of its items; getting an object asks for it and then for its bytes.\<close>

record ('o, 'e) object_client =
  oc_list :: "'e \<Rightarrow> path \<Rightarrow> 'o \<Rightarrow> (unit + path) list"
  oc_list_with_offset :: "'e \<Rightarrow> path \<Rightarrow> path \<Rightarrow> 'o \<Rightarrow> (unit + path) list"
  oc_put_create :: "'e \<Rightarrow> path \<Rightarrow> bytes \<Rightarrow> 'o \<Rightarrow> put_outcome \<times> 'o"
  oc_get :: "'e \<Rightarrow> path \<Rightarrow> 'o \<Rightarrow> unit + (unit + bytes)"

text \<open>\<open>Path::to_string\<close> and \<open>join("/")\<close>.\<close>

fun join_parts :: "string list \<Rightarrow> string" where
  "join_parts [] = []"
| "join_parts [p] = p"
| "join_parts (p # q # ps) = p @ CHR ''/'' # join_parts (q # ps)"

section \<open>The store\<close>

record ('o, 'e) s3_prefix =
  sp_read :: "('o, 'e) object_client"
  sp_write :: "('o, 'e) object_client option"
  sp_partition_prefix :: path

definition s3_new :: "('o, 'e) object_client \<Rightarrow> ('o, 'e) object_client \<Rightarrow> path \<Rightarrow> ('o, 'e) s3_prefix" where
  "s3_new r w p = \<lparr>sp_read = r, sp_write = Some w, sp_partition_prefix = p\<rparr>"

definition s3_read_only :: "('o, 'e) object_client \<Rightarrow> path \<Rightarrow> ('o, 'e) s3_prefix" where
  "s3_read_only r p = \<lparr>sp_read = r, sp_write = None, sp_partition_prefix = p\<rparr>"

definition s3_path :: "(string \<Rightarrow> string) \<Rightarrow> ('o, 'e) s3_prefix \<Rightarrow> string \<Rightarrow> path" where
  "s3_path enc S name = map enc (sp_partition_prefix S @ [name])"

definition partition_prefix :: "(string \<Rightarrow> string) \<Rightarrow> path option \<Rightarrow> string \<Rightarrow> u32 \<Rightarrow> path" where
  "partition_prefix enc root destination_name part =
     map enc ((case root of None \<Rightarrow> [] | Some p \<Rightarrow> p) @ [destination_name, dec_of (unat part)])"

fun name_below :: "path \<Rightarrow> path \<Rightarrow> path \<Rightarrow> string option" where
  "name_below location [] rest = (if rest = [] then None else Some (join_parts rest))"
| "name_below location (want # dir) [] = None"
| "name_below location (want # dir) (p # ps) =
     (if p \<noteq> want then Some (join_parts location) else name_below location dir ps)"

definition name_in_directory :: "path \<Rightarrow> path \<Rightarrow> string option" where
  "name_in_directory dir location = name_below location dir location"

fun collect_names :: "path \<Rightarrow> (unit + path) list \<Rightarrow> blob_error + string list" where
  "collect_names dir [] = Ok []"
| "collect_names dir (Inl _ # items) = Err BStore"
| "collect_names dir (Inr location # items) =
     res_bind (collect_names dir items) (\<lambda>names.
       Ok (case name_in_directory dir location of None \<Rightarrow> names | Some n \<Rightarrow> n # names))"

definition s3_list :: "('o, 'e) s3_prefix \<Rightarrow> 'e \<Rightarrow> 'o \<Rightarrow> blob_error + string list" where
  "s3_list S e st = collect_names (sp_partition_prefix S) (oc_list (sp_read S) e (sp_partition_prefix S) st)"

definition s3_put_new ::
    "(string \<Rightarrow> string) \<Rightarrow> ('o, 'e) s3_prefix \<Rightarrow> 'e \<Rightarrow> 'o \<Rightarrow> string \<Rightarrow> bytes \<Rightarrow> (blob_error + unit) \<times> 'o" where
  "s3_put_new enc S e st name b =
     (let path = s3_path enc S name in
      case sp_write S of
        None \<Rightarrow> (Err BStore, st)
      | Some w \<Rightarrow> (case oc_put_create w e path b st of (r, st') \<Rightarrow>
          (case r of
             PutOk \<Rightarrow> Ok ()
           | PutAlreadyExists \<Rightarrow> Err AlreadyExists
           | PutPrecondition \<Rightarrow> Err AlreadyExists
           | PutFailed \<Rightarrow> Err BStore, st')))"

definition s3_get ::
    "(string \<Rightarrow> string) \<Rightarrow> ('o, 'e) s3_prefix \<Rightarrow> 'e \<Rightarrow> 'o \<Rightarrow> string \<Rightarrow> blob_error + bytes" where
  "s3_get enc S e st name = (case oc_get (sp_read S) e (s3_path enc S name) st of
      Inl _ \<Rightarrow> Err BStore
    | Inr (Inl _) \<Rightarrow> Err BStore
    | Inr (Inr b) \<Rightarrow> Ok b)"

definition s3_list_after ::
    "(string \<Rightarrow> string) \<Rightarrow> ('o, 'e) s3_prefix \<Rightarrow> 'e \<Rightarrow> 'o \<Rightarrow> string option \<Rightarrow> blob_error + string list" where
  "s3_list_after enc S e st after = collect_names (sp_partition_prefix S)
     (case after of
        Some name \<Rightarrow> oc_list_with_offset (sp_read S) e (sp_partition_prefix S) (s3_path enc S name) st
      | None \<Rightarrow> oc_list (sp_read S) e (sp_partition_prefix S) st)"

definition s3_ops :: "(string \<Rightarrow> string) \<Rightarrow> ('o, 'e) s3_prefix \<Rightarrow> ('o, 'e) store_ops" where
  "s3_ops enc S = \<lparr>st_list = s3_list S, st_put_new = s3_put_new enc S, st_get = s3_get enc S,
     st_list_after = s3_list_after enc S\<rparr>"

section \<open>What the service is relied on for\<close>

text \<open>Names of digits, lower-case letters, hyphens and dots, from a digit on, are left as they are.\<close>

definition plain_name :: "string \<Rightarrow> bool" where
  "plain_name n = (n \<noteq> [] \<and> is_ascii_digit (hd n)
     \<and> list_all (\<lambda>c. is_ascii_digit c \<or> is_ascii_lowercase c \<or> c = CHR ''-'' \<or> c = CHR ''.'') n)"

definition part_ok :: "string \<Rightarrow> bool" where
  "part_ok p = (p \<noteq> [] \<and> CHR ''/'' \<notin> set p)"

text \<open>
  \<open>held o\<close> are the objects by path.  A listing that ends without an error has every object below the
  directory once, and possibly the directory's own placeholder; with an offset only those whose key is
  greater; a reported write has landed, and one that is reported to clash has not; what is read is what is
  held, and the reading identity sees what the writing one wrote.
\<close>

definition below :: "path \<Rightarrow> (path \<rightharpoonup> bytes) \<Rightarrow> path set" where
  "below dir objs = {p \<in> dom objs. \<exists>rest. rest \<noteq> [] \<and> p = dir @ rest}"

definition listing_of :: "path \<Rightarrow> path set \<Rightarrow> (unit + path) list \<Rightarrow> bool" where
  "listing_of dir ps items = (Inl () \<notin> set items \<longrightarrow>
     distinct items \<and> (\<exists>own \<subseteq> {dir}. Inr -` set items = ps \<union> own))"

definition client_reads :: "('o, 'e) object_client \<Rightarrow> ('o \<Rightarrow> path \<rightharpoonup> bytes) \<Rightarrow> bool" where
  "client_reads R held =
     ((\<forall>e dir st. listing_of dir (below dir (held st)) (oc_list R e dir st))
      \<and> (\<forall>e dir after st. listing_of dir {p \<in> below dir (held st). join_parts after < join_parts p}
           (oc_list_with_offset R e dir after st))
      \<and> (\<forall>e p st b. oc_get R e p st = Inr (Inr b) \<longrightarrow> held st p = Some b)
      \<and> (\<forall>st p. held st p \<noteq> None \<longrightarrow> list_all part_ok p))"

definition client_writes :: "('o, 'e) object_client \<Rightarrow> ('o \<Rightarrow> path \<rightharpoonup> bytes) \<Rightarrow> bool" where
  "client_writes W held = (\<forall>e p b st r st'. oc_put_create W e p b st = (r, st') \<longrightarrow>
     (case r of
        PutOk \<Rightarrow> held st' = (held st)(p \<mapsto> b)
      | PutFailed \<Rightarrow> held st' = held st \<or> held st' = (held st)(p \<mapsto> b)
      | _ \<Rightarrow> held st' = held st))"

definition s3_service :: "(string \<Rightarrow> string) \<Rightarrow> ('o, 'e) s3_prefix \<Rightarrow> ('o \<Rightarrow> path \<rightharpoonup> bytes) \<Rightarrow> bool" where
  "s3_service enc S held =
     ((\<forall>n. plain_name n \<longrightarrow> enc n = n) \<and> sp_partition_prefix S \<noteq> []
      \<and> map enc (sp_partition_prefix S) = sp_partition_prefix S
      \<and> client_reads (sp_read S) held \<and> (\<forall>w. sp_write S = Some w \<longrightarrow> client_writes w held))"

section \<open>Names and paths\<close>

fun parts_of :: "string \<Rightarrow> string list" where
  "parts_of [] = [[]]"
| "parts_of (c # s) = (if c = CHR ''/'' then [] # parts_of s
     else (case parts_of s of [] \<Rightarrow> [[c]] | p # ps \<Rightarrow> (c # p) # ps))"

lemma parts_of_plain: "CHR ''/'' \<notin> set s \<Longrightarrow> parts_of s = [s]"
  by (induction s) auto

lemma parts_of_cons: "CHR ''/'' \<notin> set p \<Longrightarrow> parts_of (p @ CHR ''/'' # s) = p # parts_of s"
  by (induction p) auto

lemma parts_of_join: "list_all part_ok ps \<Longrightarrow> ps \<noteq> [] \<Longrightarrow> parts_of (join_parts ps) = ps"
  by (induction ps rule: join_parts.induct) (auto simp: part_ok_def parts_of_plain parts_of_cons)

lemma join_parts_of: "join_parts (parts_of s) = s"
proof (induction s)
  case (Cons c s)
  have "parts_of s \<noteq> []" by (cases s) (auto split: list.splits)
  then obtain p ps where ps: "parts_of s = p # ps" by (cases "parts_of s") auto
  then show ?case using Cons by (cases ps) auto
qed simp

lemma join_parts_append:
  "xs \<noteq> [] \<Longrightarrow> ys \<noteq> [] \<Longrightarrow> join_parts (xs @ ys) = join_parts xs @ CHR ''/'' # join_parts ys"
proof (induction xs rule: join_parts.induct)
  case (2 p)
  then show ?case by (cases ys) auto
qed auto

lemma string_less_append: "(xs @ ys < xs @ (zs :: string)) = (ys < zs)"
  by (induction xs) simp_all

lemma name_below_append: "rest \<noteq> [] \<Longrightarrow> name_below location dir (dir @ rest) = Some (join_parts rest)"
  by (induction dir) simp_all

lemma name_below_self: "name_below location dir dir = None"
  by (induction dir) simp_all

lemma plain_blob_name:
  assumes "\<And>kid. k = Some kid \<Longrightarrow> is_key_id kid"
  shows "plain_name (blob_filename f t k (extension fmt))"
proof -
  have d: "list_all is_ascii_digit (pad_dec w n)" "pad_dec w n \<noteq> []" for w n by (simp_all add: str_simps)
  have h: "is_ascii_digit (hd (pad_dec w n @ x))" for w n x using d [where w = w and n = n] by (cases "pad_dec w n") auto
  have ds: "list_all (\<lambda>c. is_ascii_digit c \<or> is_ascii_lowercase c \<or> c = CHR ''-'' \<or> c = CHR ''.'') (pad_dec w n)" for w n
    using d(1) by (auto simp: list_all_iff)
  have ext: "list_all (\<lambda>c. is_ascii_digit c \<or> is_ascii_lowercase c \<or> c = CHR ''-'' \<or> c = CHR ''.'') (extension fmt)"
    by (cases fmt) (simp_all add: extension_def is_ascii_lowercase_def)
  have kid: "list_all (\<lambda>c. is_ascii_digit c \<or> is_ascii_lowercase c \<or> c = CHR ''-'' \<or> c = CHR ''.'') kid"
    if "k = Some kid" for kid
    using assms [OF that] by (auto simp: is_key_id_def list_all_iff)
  show ?thesis
    using h ds ext kid
    by (auto simp: plain_name_def blob_filename_def batch_filename_def is_ascii_lowercase_def split: option.splits)
qed

lemma plain_part: "plain_name n \<Longrightarrow> part_ok n"
  by (auto simp: plain_name_def part_ok_def list_all_iff is_ascii_digit_def is_ascii_lowercase_def)

section \<open>The store keeps the contract\<close>

text \<open>The objects of the directory, by the names the store lists them under.\<close>

definition s3_objects :: "('o, 'e) s3_prefix \<Rightarrow> ('o \<Rightarrow> path \<rightharpoonup> bytes) \<Rightarrow> 'o \<Rightarrow> string \<rightharpoonup> bytes" where
  "s3_objects S held st n = held st (sp_partition_prefix S @ parts_of n)"

lemma s3_path_plain:
  "s3_service enc S held \<Longrightarrow> plain_name n \<Longrightarrow> s3_path enc S n = sp_partition_prefix S @ [n]"
  by (simp add: s3_service_def s3_path_def)

lemma parts_of_plain_name: "plain_name n \<Longrightarrow> parts_of n = [n]"
  using plain_part by (auto simp: part_ok_def intro: parts_of_plain)

lemma parts_of_eq: "plain_name n \<Longrightarrow> (parts_of m = [n]) = (m = n)"
  using parts_of_plain_name join_parts_of by metis

lemma dom_s3_objects:
  assumes "client_reads R held"
  shows "dom (s3_objects S held st) = join_parts ` {rest. rest \<noteq> [] \<and> held st (sp_partition_prefix S @ rest) \<noteq> None}"
proof -
  have ok: "list_all part_ok rest" if "held st (sp_partition_prefix S @ rest) \<noteq> None" for rest
    using assms that unfolding client_reads_def by (metis list_all_append)
  have ne: "parts_of n \<noteq> []" for n by (cases n) (auto split: list.splits)
  show ?thesis
  proof (intro equalityI subsetI)
    fix n assume "n \<in> dom (s3_objects S held st)"
    then have "held st (sp_partition_prefix S @ parts_of n) \<noteq> None" by (auto simp: s3_objects_def)
    then show "n \<in> join_parts ` {rest. rest \<noteq> [] \<and> held st (sp_partition_prefix S @ rest) \<noteq> None}"
      using ne [of n] join_parts_of [of n] by (intro image_eqI [of _ _ "parts_of n"]) auto
  next
    fix n assume "n \<in> join_parts ` {rest. rest \<noteq> [] \<and> held st (sp_partition_prefix S @ rest) \<noteq> None}"
    then obtain rest where r: "n = join_parts rest" "rest \<noteq> []" "held st (sp_partition_prefix S @ rest) \<noteq> None" by blast
    then have "parts_of n = rest" using parts_of_join ok by simp
    then show "n \<in> dom (s3_objects S held st)" using r(3) by (auto simp: s3_objects_def)
  qed
qed

lemma collect_names_Inr:
  "collect_names dir items = Inr ns \<Longrightarrow> Inl () \<notin> set items
     \<and> ns = List.map_filter (\<lambda>i. case i of Inl _ \<Rightarrow> None | Inr p \<Rightarrow> name_in_directory dir p) items"
  by (induction dir items arbitrary: ns rule: collect_names.induct)
    (auto simp: List.map_filter_def split: option.splits)

text \<open>A listing read to its end gives every name once.\<close>

lemma collect_listing:
  assumes "listing_of dir ps items" "collect_names dir items = Inr ns"
    "\<And>p. p \<in> ps \<Longrightarrow> \<exists>rest. rest \<noteq> [] \<and> list_all part_ok rest \<and> p = dir @ rest"
  shows "distinct ns \<and> set ns = join_parts ` {rest. rest \<noteq> [] \<and> dir @ rest \<in> ps}"
proof -
  let ?f = "\<lambda>i :: unit + path. case i of Inl _ \<Rightarrow> None | Inr p \<Rightarrow> name_in_directory dir p"
  note c = collect_names_Inr [OF assms(2)]
  obtain own where l: "distinct items" "own \<subseteq> {dir}" "Inr -` set items = ps \<union> own"
    using assms(1) c by (auto simp: listing_of_def)
  have f: "case ?f i of None \<Rightarrow> i = Inr dir
      | Some n \<Rightarrow> \<exists>rest. rest \<noteq> [] \<and> list_all part_ok rest \<and> i = Inr (dir @ rest) \<and> n = join_parts rest \<and> dir @ rest \<in> ps"
    if mem: "i \<in> set items" for i
  proof (cases i)
    case (Inl x)
    then show ?thesis using mem conjunct1 [OF c] by simp
  next
    case (Inr p)
    then have "p \<in> Inr -` set items" using mem by simp
    then consider "p = dir" | "p \<in> ps" using l(2,3) by auto
    then show ?thesis
    proof cases
      case 1
      then show ?thesis using Inr by (simp add: name_in_directory_def name_below_self)
    next
      case 2
      then obtain rest where "rest \<noteq> []" "list_all part_ok rest" "p = dir @ rest" using assms(3) by blast
      then show ?thesis using Inr 2 by (auto simp: name_in_directory_def name_below_append)
    qed
  qed
  have inj: "inj_on (the \<circ> ?f) (set (filter (\<lambda>i. ?f i \<noteq> None) items))"
  proof (rule inj_onI)
    fix i j assume i: "i \<in> set (filter (\<lambda>i. ?f i \<noteq> None) items)" and j: "j \<in> set (filter (\<lambda>i. ?f i \<noteq> None) items)"
      and eq: "(the \<circ> ?f) i = (the \<circ> ?f) j"
    obtain n m where nm: "?f i = Some n" "?f j = Some m" using i j by auto
    obtain r1 where r1: "r1 \<noteq> []" "list_all part_ok r1" "i = Inr (dir @ r1)" "n = join_parts r1"
      using f [of i] nm(1) i by auto
    obtain r2 where r2: "r2 \<noteq> []" "list_all part_ok r2" "j = Inr (dir @ r2)" "m = join_parts r2"
      using f [of j] nm(2) j by auto
    have "n = m" using eq nm by simp
    then show "i = j" using r1 r2 parts_of_join by metis
  qed
  have "distinct ns" using c l(1) inj by (simp add: List.map_filter_def distinct_map)
  moreover have "set ns = join_parts ` {rest. rest \<noteq> [] \<and> dir @ rest \<in> ps}"
  proof (intro equalityI subsetI)
    fix n assume "n \<in> set ns"
    then obtain i where "i \<in> set items" "?f i = Some n" using c by (auto simp: List.map_filter_def)
    with f [of i] show "n \<in> join_parts ` {rest. rest \<noteq> [] \<and> dir @ rest \<in> ps}" by auto
  next
    fix n assume "n \<in> join_parts ` {rest. rest \<noteq> [] \<and> dir @ rest \<in> ps}"
    then obtain rest where r: "n = join_parts rest" "rest \<noteq> []" "dir @ rest \<in> ps" by blast
    then have "Inr (dir @ rest) \<in> set items" "?f (Inr (dir @ rest)) = Some n"
      using l(3) by (auto simp: name_in_directory_def name_below_append)
    then show "n \<in> set ns" using c by (force simp: List.map_filter_def)
  qed
  ultimately show ?thesis ..
qed

lemma below_parts:
  "client_reads R held \<Longrightarrow> p \<in> below dir (held st) \<Longrightarrow>
     \<exists>rest. rest \<noteq> [] \<and> list_all part_ok rest \<and> p = dir @ rest"
  unfolding client_reads_def below_def by (auto simp: list_all_append dest!: spec)

lemma s3_put_objects:
  assumes "s3_service enc S held" "plain_name n" "s3_put_new enc S e st n b = (r, st')"
  shows "(s3_objects S held st' = s3_objects S held st \<or> s3_objects S held st' = (s3_objects S held st)(n \<mapsto> b))
    \<and> (is_ok r \<longrightarrow> s3_objects S held st' = (s3_objects S held st)(n \<mapsto> b))"
proof (cases "sp_write S")
  case None
  then show ?thesis using assms(3) by (auto simp: s3_put_new_def Let_def)
next
  case (Some w)
  let ?p = "sp_partition_prefix S @ [n]"
  obtain q where q: "oc_put_create w e ?p b st = (q, st')" "is_ok r \<longleftrightarrow> q = PutOk"
    using assms(3) Some s3_path_plain [OF assms(1,2)]
    by (auto simp: s3_put_new_def Let_def split: prod.splits put_outcome.splits)
  have w: "client_writes w held" using assms(1) Some by (simp add: s3_service_def)
  have "held st' = held st \<or> held st' = (held st)(?p \<mapsto> b)" "q = PutOk \<Longrightarrow> held st' = (held st)(?p \<mapsto> b)"
    using w [unfolded client_writes_def, rule_format, OF q(1)] by (auto split: put_outcome.splits)
  moreover have "s3_objects S held st' = (s3_objects S held st)(n \<mapsto> b)" if "held st' = (held st)(?p \<mapsto> b)"
    using that parts_of_eq [OF assms(2)] by (auto simp: s3_objects_def fun_eq_iff)
  moreover have "s3_objects S held st' = s3_objects S held st" if "held st' = held st"
    using that by (simp add: s3_objects_def fun_eq_iff)
  ultimately show ?thesis using q(2) by blast
qed

lemma s3_list_objects:
  assumes "s3_service enc S held" "s3_list S e st = Inr ns"
  shows "distinct ns \<and> set ns = dom (s3_objects S held st)"
proof -
  let ?dir = "sp_partition_prefix S"
  have r: "client_reads (sp_read S) held" using assms(1) by (simp add: s3_service_def)
  have "listing_of ?dir (below ?dir (held st)) (oc_list (sp_read S) e ?dir st)"
    using r by (simp add: client_reads_def)
  from collect_listing [OF this assms(2) [unfolded s3_list_def] below_parts [OF r, of _ ?dir st]] show ?thesis
    by (auto simp: dom_s3_objects [OF r] below_def)
qed

lemma s3_list_after_objects:
  assumes "s3_service enc S held" "\<And>a. after = Some a \<Longrightarrow> plain_name a" "s3_list_after enc S e st after = Inr ns"
  shows "set ns = {n \<in> dom (s3_objects S held st). \<forall>a. after = Some a \<longrightarrow> a < n}"
proof (cases after)
  case None
  then show ?thesis using s3_list_objects [OF assms(1), of e st ns] assms(3)
    by (simp add: s3_list_after_def s3_list_def)
next
  case (Some a)
  let ?dir = "sp_partition_prefix S"
  let ?ps = "{p \<in> below ?dir (held st). join_parts (?dir @ [a]) < join_parts p}"
  have r: "client_reads (sp_read S) held" and d: "?dir \<noteq> []" using assms(1) by (simp_all add: s3_service_def)
  have path: "s3_path enc S a = ?dir @ [a]" by (rule s3_path_plain [OF assms(1) assms(2) [OF Some]])
  have "listing_of ?dir ?ps (oc_list_with_offset (sp_read S) e ?dir (?dir @ [a]) st)"
    using r by (simp add: client_reads_def)
  moreover have "collect_names ?dir (oc_list_with_offset (sp_read S) e ?dir (?dir @ [a]) st) = Inr ns"
    using assms(3) Some path by (simp add: s3_list_after_def)
  moreover have "p \<in> ?ps \<Longrightarrow> \<exists>rest. rest \<noteq> [] \<and> list_all part_ok rest \<and> p = ?dir @ rest" for p
    using below_parts [OF r] by blast
  ultimately have "set ns = join_parts ` {rest. rest \<noteq> [] \<and> ?dir @ rest \<in> ?ps}"
    using collect_listing by blast
  moreover have "?dir @ rest \<in> ?ps \<longleftrightarrow> held st (?dir @ rest) \<noteq> None \<and> a < join_parts rest" if "rest \<noteq> []" for rest
    using that d by (auto simp: below_def join_parts_append string_less_append)
  then have "{rest. rest \<noteq> [] \<and> ?dir @ rest \<in> ?ps} =
      {rest. rest \<noteq> [] \<and> held st (?dir @ rest) \<noteq> None \<and> a < join_parts rest}" by blast
  ultimately show ?thesis using Some by (auto simp: dom_s3_objects [OF r])
qed

interpretation s3: blob_store "s3_ops enc S" "s3_objects S held" "\<lambda>st. s3_service enc S held" plain_name
  for enc S held
proof
  fix st n b st' k f t fmt and u :: unit and x and e ns and after :: "string option"
  let ?ok = "s3_service enc S held" and ?objs = "s3_objects S held"
  show "?ok \<Longrightarrow> plain_name n \<Longrightarrow> st_put_new (s3_ops enc S) e st n b = (Inr u, st') \<Longrightarrow>
      ?ok \<and> ?objs st' = (?objs st)(n \<mapsto> b)"
    using s3_put_objects [of enc S held n e st b "Inr u" st'] by (simp add: s3_ops_def)
  show "?ok \<Longrightarrow> plain_name n \<Longrightarrow> st_put_new (s3_ops enc S) e st n b = (Inl x, st') \<Longrightarrow>
      ?ok \<and> (?objs st' = ?objs st \<or> ?objs st' = (?objs st)(n \<mapsto> b))"
    using s3_put_objects [of enc S held n e st b "Inl x" st'] by (simp add: s3_ops_def)
  show "?ok \<Longrightarrow> st_list (s3_ops enc S) e st = Inr ns \<Longrightarrow> distinct ns \<and> set ns = dom (?objs st)"
    using s3_list_objects [of enc S held e st ns] by (simp add: s3_ops_def)
  show "?ok \<Longrightarrow> (\<And>a. after = Some a \<Longrightarrow> plain_name a) \<Longrightarrow> st_list_after (s3_ops enc S) e st after = Inr ns \<Longrightarrow>
      set ns = {n \<in> dom (?objs st). \<forall>a. after = Some a \<longrightarrow> a < n}"
    using s3_list_after_objects [of enc S held after e st ns] by (simp add: s3_ops_def)
  show "?ok \<Longrightarrow> st_get (s3_ops enc S) e st n = Inr b \<Longrightarrow> plain_name n \<Longrightarrow> ?objs st n = Some b"
    by (auto simp: s3_ops_def s3_get_def s3_objects_def s3_path_plain parts_of_plain_name s3_service_def client_reads_def
        split: sum.splits)
  show "(\<And>kid. k = Some kid \<Longrightarrow> is_key_id kid) \<Longrightarrow> plain_name (blob_filename f t k (extension fmt))"
    by (rule plain_blob_name)
qed

interpretation s3c: blob_codec "s3_ops enc S" "s3_objects S held" "\<lambda>st. s3_service enc S held" plain_name cd
  for enc S held cd
  by unfold_locales

section \<open>Paths that are not listed\<close>

text \<open>
  A path is encoded again whenever it is built from parts: an object of a directory with a part that its
  encoding changes is put outside of the directory that is listed.
\<close>

lemma encoded_prefix_not_listed:
  assumes "map enc (sp_partition_prefix S) \<noteq> sp_partition_prefix S"
  shows "s3_path enc S name \<notin> below (sp_partition_prefix S) objs"
proof
  assume "s3_path enc S name \<in> below (sp_partition_prefix S) objs"
  then obtain rest where r: "map enc (sp_partition_prefix S) @ [enc name] = sp_partition_prefix S @ rest"
    by (auto simp: below_def s3_path_def)
  then show False using assms by (metis append_eq_append_conv length_map)
qed

end
