(* ===== verification/Props_S3.thy ===== *)
theory Props_S3
  imports Fixtures S3_Store
begin

text \<open>
  The properties of the S3 destination: what the blob sink guarantees over a directory holds over a prefix of
  an object store, for any client that does what the service documents.
\<close>

section \<open>Restarts\<close>

text \<open>
  C3: restarts of an S3 mirror lose nothing and repeat nothing.  Whatever an append-mode sink over a
  prefix is made to do, with any request failing at any point and a failed write that may have landed after
  all, opening the prefix again succeeds whenever it can be listed, and finds objects that decode to exactly
  the accepted records below the position at which the sink resumes.
\<close>

theorem s3_restart_exact:
  assumes "codec_ok cd" and "s3_service enc S held"
    and "sink_inv cd (s3_objects S held) (\<lambda>st. s3_service enc S held) s log"
    and "\<forall>r \<in> set (op_records os). r_offset r \<noteq> u64_max"
    and "run_ops (s3_ops enc S) cd os s = (res, s', rs)"
    and "s3_list S e (sk_store s') = Inr names"
  shows "\<exists>s2 n more bs. open_store (s3_ops enc S) cd e e' now_unix now (sk_store s') (sk_spec s) = Inr s2
    \<and> (more = [] \<or> (\<exists>r \<in> set (op_records os). more = [r]))
    \<and> chain_state cd (sk_spec s2) (s3_objects S held (sk_store s2)) bs (take n (log @ rs @ more))
        (buffered_head s2)
    \<and> (\<forall>r \<in> set (drop n (log @ rs @ more)). buffered_head s2 \<le> r_offset r)"
proof -
  have "st_list (s3_ops enc S) e (sk_store s') = Inr names" using assms(6) by (simp add: s3_ops_def)
  moreover have "append_inv cd (s3_objects S held) (\<lambda>st. s3_service enc S held) s log"
    using assms(1,3) by (simp add: append_inv_def)
  ultimately show ?thesis using assms(4,5) by (intro s3c.run_and_reopen_chain)
qed

text \<open>
  A client over an association list, each request of which may be told to fail; a write that fails lands
  when its environment says so.
\<close>

datatype demo_request = Works | Fails | FailsLate

type_synonym demo_bucket = "(path \<times> bytes) list"

definition demo_bucket_held :: "demo_bucket \<Rightarrow> path \<rightharpoonup> bytes" where
  "demo_bucket_held st p = (if list_all part_ok p then map_of st p else None)"

definition demo_keys :: "path \<Rightarrow> demo_bucket \<Rightarrow> path list" where
  "demo_keys dir st = remdups (filter (\<lambda>p. list_all part_ok p \<and> length dir < length p \<and> take (length dir) p = dir)
     (map fst st))"

definition demo_client :: "(demo_bucket, demo_request) object_client" where
  "demo_client = \<lparr>
     oc_list = (\<lambda>e dir st. if e = Works then map Inr (demo_keys dir st) else [Inl ()]),
     oc_list_with_offset = (\<lambda>e dir after st. if e = Works
       then map Inr (filter (\<lambda>p. join_parts after < join_parts p) (demo_keys dir st)) else [Inl ()]),
     oc_put_create = (\<lambda>e p b st. case e of
         Works \<Rightarrow> if \<not> list_all part_ok p then (PutFailed, st)
           else if demo_bucket_held st p \<noteq> None then (PutAlreadyExists, st) else (PutOk, (p, b) # st)
       | Fails \<Rightarrow> (PutFailed, st)
       | FailsLate \<Rightarrow> (PutFailed, if list_all part_ok p then (p, b) # st else st)),
     oc_get = (\<lambda>e p st. if e \<noteq> Works then Inl () else (case demo_bucket_held st p of
         None \<Rightarrow> Inl () | Some b \<Rightarrow> Inr (Inr b)))\<rparr>"

definition demo_prefix :: "(demo_bucket, demo_request) s3_prefix" where
  "demo_prefix = s3_new demo_client demo_client (partition_prefix (\<lambda>p. p) (Some [''backups'']) ''orders'' 0)"

lemma demo_keys_below: "set (demo_keys dir st) = below dir (demo_bucket_held st)"
proof -
  have "(length dir < length p \<and> take (length dir) p = dir) = (\<exists>rest. rest \<noteq> [] \<and> p = dir @ rest)" for p :: path
    by (metis append_eq_conv_conj append_take_drop_id drop_eq_Nil2 leD length_append length_greater_0_conv
        less_add_same_cancel1 not_le_imp_less)
  moreover have "demo_bucket_held st p \<noteq> None \<longleftrightarrow> list_all part_ok p \<and> p \<in> fst ` set st" for p
    using map_of_eq_None_iff [of st p] by (auto simp: demo_bucket_held_def)
  ultimately show ?thesis by (auto simp: demo_keys_def below_def dom_def)
qed

lemma demo_listing:
  "distinct ps \<Longrightarrow> listing_of dir (set ps) (map Inr ps)"
  by (auto simp: listing_of_def distinct_map)

lemma demo_s3_service: "s3_service (\<lambda>p. p) demo_prefix demo_bucket_held"
proof -
  have "client_reads demo_client demo_bucket_held"
    unfolding client_reads_def
  proof (intro conjI allI impI)
    fix e dir after st and p :: path and b
    have d: "distinct (demo_keys dir st)" by (simp add: demo_keys_def)
    have err: "listing_of dir x [Inl ()]" for x by (simp add: listing_of_def)
    show "listing_of dir (below dir (demo_bucket_held st)) (oc_list demo_client e dir st)"
      using demo_listing [OF d, of dir] err by (simp add: demo_client_def demo_keys_below)
    show "listing_of dir {p \<in> below dir (demo_bucket_held st). join_parts after < join_parts p}
        (oc_list_with_offset demo_client e dir after st)"
      using demo_listing [of "filter (\<lambda>p. join_parts after < join_parts p) (demo_keys dir st)" dir] d err
      by (simp add: demo_client_def demo_keys_below)
    show "oc_get demo_client e p st = Inr (Inr b) \<Longrightarrow> demo_bucket_held st p = Some b"
      by (auto simp: demo_client_def split: if_splits option.splits)
    show "demo_bucket_held st p \<noteq> None \<Longrightarrow> list_all part_ok p" by (simp add: demo_bucket_held_def split: if_splits)
  qed
  moreover have "client_writes demo_client demo_bucket_held"
    by (auto simp: client_writes_def demo_client_def demo_bucket_held_def fun_eq_iff split: demo_request.splits if_splits)
  ultimately show ?thesis
    by (simp add: s3_service_def demo_prefix_def s3_new_def partition_prefix_def)
qed

definition demo_s3_sink :: "demo_bucket blob_sink" where
  "demo_s3_sink = \<lparr>sk_store = [], sk_spec = demo_spec None, sk_durable_position = 0, sk_buffer = [],
     sk_buffer_bytes = 0, sk_buffer_started = None, sk_view = None, sk_next_daily_unix = None,
     sk_flush_observer = None, sk_tail = [], sk_last_drift_check = 0, sk_drift_check_interval = 60\<rparr>"

text \<open>Two writes that fill a flush, a third, and a flush that fails but lands.\<close>

definition demo_s3_ops :: "demo_request sink_op list" where
  "demo_s3_ops = [OpWrite (demo_env Works) (demo_rec 0), OpWrite (demo_env Works) (demo_rec 1),
     OpNext (demo_env Works), OpWrite (demo_env Works) (demo_rec 3), OpFlush (demo_env FailsLate)]"

abbreviation demo_s3_run :: "(sink_error + unit) \<times> demo_bucket blob_sink \<times> krecord list" where
  "demo_s3_run \<equiv> run_ops (s3_ops (\<lambda>p. p) demo_prefix) demo_codec demo_s3_ops demo_s3_sink"

lemma demo_s3_sink_inv:
  "sink_inv demo_codec (s3_objects demo_prefix demo_bucket_held) (\<lambda>st. s3_service (\<lambda>p. p) demo_prefix demo_bucket_held)
     demo_s3_sink []"
  by (rule sink_invI [where bs = "[]" and rs = "[]"])
    (simp_all add: demo_s3_sink_def demo_spec_def append_spec_def keys_ok_def chain_state_def ids_ok_def objects_exact_def
      demo_s3_service s3_objects_def demo_bucket_held_def last_two_def fun_eq_iff)

theorem s3_restart_exact_witness:
  "fst demo_s3_run = Inl SnkTransport
   \<and> (\<exists>s2 n more bs. open_store (s3_ops (\<lambda>p. p) demo_prefix) demo_codec Works Works 0 0
        (sk_store (fst (snd demo_s3_run))) (sk_spec demo_s3_sink) = Inr s2
      \<and> (more = [] \<or> (\<exists>r \<in> set (op_records demo_s3_ops). more = [r]))
      \<and> chain_state demo_codec (sk_spec s2) (s3_objects demo_prefix demo_bucket_held (sk_store s2)) bs
          (take n ([] @ snd (snd demo_s3_run) @ more)) (buffered_head s2)
      \<and> (\<forall>r \<in> set (drop n ([] @ snd (snd demo_s3_run) @ more)). buffered_head s2 \<le> r_offset r))"
proof
  show "fst demo_s3_run = Inl SnkTransport" by code_simp
  have max: "\<forall>r \<in> set (op_records demo_s3_ops). r_offset r \<noteq> u64_max" by code_simp
  have names: "s3_list demo_prefix Works (sk_store (fst (snd demo_s3_run))) =
      Inr [''00000000000000000002-00000000000000000003.ndjson'',
        ''00000000000000000000-00000000000000000001.ndjson'']" by code_simp
  have run: "demo_s3_run = (fst demo_s3_run, fst (snd demo_s3_run), snd (snd demo_s3_run))" by simp
  show "\<exists>s2 n more bs. open_store (s3_ops (\<lambda>p. p) demo_prefix) demo_codec Works Works 0 0
        (sk_store (fst (snd demo_s3_run))) (sk_spec demo_s3_sink) = Inr s2
      \<and> (more = [] \<or> (\<exists>r \<in> set (op_records demo_s3_ops). more = [r]))
      \<and> chain_state demo_codec (sk_spec s2) (s3_objects demo_prefix demo_bucket_held (sk_store s2)) bs
          (take n ([] @ snd (snd demo_s3_run) @ more)) (buffered_head s2)
      \<and> (\<forall>r \<in> set (drop n ([] @ snd (snd demo_s3_run) @ more)). buffered_head s2 \<le> r_offset r)"
    by (rule s3_restart_exact [OF demo_codec_ok demo_s3_service demo_s3_sink_inv max run names])
qed

end
