(* ===== verification/Restore_Cmd.thy ===== *)
theory Restore_Cmd
  imports Follow_Exact Restore_Producer Spawn S3_Store Keyring
begin

text \<open>
  The restore command (\<open>crates/mirror-bin/src/restore.rs\<close>): the choice of the mirror's destination to read
  and what it is read with, the one-shot pass (list, plan, verify every object, check the offset mode,
  produce), and following, which opens the backup as a source and the target as a destination, checks that
  a target that is not empty may be resumed, runs the mirror loop and opens both again after a transient
  failure.  The configuration file's content, the keys directory, the store, the target's cluster and what
  ends a wait are parameters; what is printed is left out.
\<close>

section \<open>What to read\<close>

datatype offsets_arg = ArgPreserve | ArgRenumber

definition offset_mode_of :: "offsets_arg \<Rightarrow> offset_mode" where
  "offset_mode_of a = (case a of ArgPreserve \<Rightarrow> Preserve | ArgRenumber \<Rightarrow> Renumber)"

record restore_target =
  rt_bootstrap_servers :: string
  rt_topic :: string

record restore_args =
  ra_mirror :: string
  ra_destination :: "string option"
  ra_offsets :: offsets_arg
  ra_chain_start :: u64
  ra_target :: "restore_target option"
  ra_follow :: "nat option"

definition destination_names :: "mirror_config \<Rightarrow> string list" where
  "destination_names m = map (\<lambda>d. effective_name d (mc_name m)) (mc_destinations m)"

definition pick_destination :: "mirror_config \<Rightarrow> string option \<Rightarrow> error_chain + destination" where
  "pick_destination m name =
     res_bind (case name of
         Some n \<Rightarrow> (case List.find (\<lambda>d. effective_name d (mc_name m) = n) (mc_destinations m) of
             None \<Rightarrow> Err [COther] | Some d \<Rightarrow> Ok d)
       | None \<Rightarrow> (case mc_destinations m of [only] \<Rightarrow> Ok only | _ \<Rightarrow> Err [COther]))
       (\<lambda>d. if is_blob d then Ok d else Err [COther])"

record backup =
  bk_mirror :: mirror_config
  bk_dest_name :: string
  bk_format :: format
  bk_chain_start :: u64
  bk_mode :: offset_mode
  bk_source :: backup_source

text \<open>Where the backup is, with what it takes to open the store.\<close>

datatype backup_place =
    InDirectory "string list"
  | InBucket s3_client path "(string \<times> bytes) list option"

definition place_keyring :: "backup_place \<Rightarrow> (string \<times> bytes) list option" where
  "place_keyring p = (case p of InDirectory _ \<Rightarrow> None | InBucket _ _ ring \<Rightarrow> ring)"

text \<open>\<open>i32::try_from\<close> of a \<open>u32\<close>.\<close>

definition partition_i32 :: "u32 \<Rightarrow> error_chain + i32" where
  "partition_i32 p = (if uint p < 2147483648 then Ok p else Err [COther, COther])"

record restore_env =
  re_is_dir :: "string list \<Rightarrow> bool"
  re_env :: "string \<Rightarrow> string option"
  re_build_ok :: bool
  re_text :: text_lib
  re_keys_dir :: "string \<Rightarrow> unit + key_entry list"
  re_parse_path :: "string \<Rightarrow> path"
  re_encode_part :: "string \<Rightarrow> string"

definition load_keyring :: "restore_env \<Rightarrow> string \<Rightarrow> error_chain + (string \<times> bytes) list" where
  "load_keyring v dir = (case keyring_load (re_text v) dir (re_keys_dir v dir) of
      Inl _ \<Rightarrow> Err [COther] | Inr kr \<Rightarrow> Ok (kr_keys kr))"

definition backup_place_of ::
    "restore_env \<Rightarrow> mirror_config \<Rightarrow> string \<Rightarrow> destination \<Rightarrow> error_chain + backup_place" where
  "backup_place_of v m dest_name d = (case d of
      DKafka _ \<Rightarrow> undefined
    | DFilesystem f \<Rightarrow>
        let dir = partition_dir [fd_root f] dest_name (mc_partition m)
        in if \<not> re_is_dir v dir then Err [COther] else Ok (InDirectory dir)
    | DS3 s \<Rightarrow>
        res_bind (s3_store (re_env v) (re_build_ok v) s (s3c_read (sd_credentials s))) (\<lambda>client.
        let prefix = partition_prefix (re_encode_part v) (map_option (re_parse_path v) (sd_prefix s))
              dest_name (mc_partition m) in
        res_bind (case sd_encryption s of
            EncNone \<Rightarrow> Ok None
          | EncParquetKeys k \<Rightarrow> res_bind (with_context (load_keyring v (pk_keys_dir k))) (\<lambda>ring. Ok (Some ring)))
          (\<lambda>ring. Ok (InBucket client prefix ring))))"

text \<open>\<open>run_restore\<close> up to the dispatch.\<close>

definition open_backup ::
    "restore_env \<Rightarrow> load_error + mirror_config list \<Rightarrow> restore_args \<Rightarrow> error_chain + backup \<times> backup_place" where
  "open_backup v cfg a = (case cfg of
      Inl _ \<Rightarrow> Err [COther, COther]
    | Inr ms \<Rightarrow> (case List.find (\<lambda>m. mc_name m = ra_mirror a) ms of
          None \<Rightarrow> Err [COther]
        | Some m \<Rightarrow>
            if mc_compaction m \<noteq> None then Err [COther]
            else res_bind (pick_destination m (ra_destination a)) (\<lambda>d.
              let dest_name = effective_name d (mc_name m) in
              res_bind (resolve_blob_params m) (\<lambda>params.
              res_bind (partition_i32 (mc_partition m)) (\<lambda>p.
              res_bind (backup_place_of v m dest_name d) (\<lambda>place.
              Ok (\<lparr>bk_mirror = m, bk_dest_name = dest_name, bk_format = bp_format params,
                   bk_chain_start = ra_chain_start a, bk_mode = offset_mode_of (ra_offsets a),
                   bk_source = \<lparr>src_topic = mc_topic m, src_partition = p\<rparr>\<rparr>, place)))))))"

text \<open>What is asked for.  Following without a target is refused by the argument parser.\<close>

datatype restore_command = VerifyOnly | RestoreInto restore_target | FollowInto restore_target nat

definition dispatch_command :: "nat option \<Rightarrow> restore_target option \<Rightarrow> restore_command" where
  "dispatch_command follow target = (case (follow, target) of
      (Some interval, Some t) \<Rightarrow> FollowInto t interval
    | (Some _, None) \<Rightarrow> undefined
    | (None, None) \<Rightarrow> VerifyOnly
    | (None, Some t) \<Rightarrow> RestoreInto t)"

section \<open>One pass\<close>

datatype restore_outcome = Verified backup_summary | Restored restore_report

definition restore_context :: "restore_error + 'a \<Rightarrow> error_chain + 'a" where
  "restore_context r = (case r of Inl x \<Rightarrow> Err [COther, CRestore x] | Inr y \<Rightarrow> Ok y)"

definition backup_reader :: "('st, 'e) store_ops \<Rightarrow> 'st \<Rightarrow> (string \<times> bytes) list option \<Rightarrow> backup \<Rightarrow> ('st, 'e) reader" where
  "backup_reader ops st ring B = \<lparr>rd_ops = ops, rd_store = st, rd_format = bk_format B, rd_keyring = ring,
     rd_source = bk_source B\<rparr>"

record ('e, 'f) run_env =
  ve_list :: 'e
  ve_verify :: "nat \<Rightarrow> 'e"
  ve_produce :: "('e, 'f) produce_env"

text \<open>The plan and its summary, once every object has been read and the mode checked.\<close>

definition verify_backup ::
    "codec \<Rightarrow> (bytes \<Rightarrow> u64) \<Rightarrow> ('st, 'e) store_ops \<Rightarrow> 'st \<Rightarrow> (string \<times> bytes) list option \<Rightarrow> ('e, 'f) run_env
      \<Rightarrow> backup \<Rightarrow> error_chain + chain_object list \<times> backup_summary" where
  "verify_backup cd digest ops st ring v B =
     (case st_list ops (ve_list v) st of
        Inl x \<Rightarrow> Err [COther, CBlob x]
      | Inr names \<Rightarrow>
          res_bind (restore_context (plan_chain names (bk_format B) (bk_chain_start B) ring)) (\<lambda>chain.
          case verify cd digest (backup_reader ops st ring B) (ve_verify v) chain of
            Inl x \<Rightarrow> Err [CRestore x]
          | Inr summary \<Rightarrow> (case check_mode (bk_mode B) summary of
                Inl x \<Rightarrow> Err [CRestore x]
              | Inr _ \<Rightarrow> Ok (chain, summary))))"

text \<open>\<open>opened\<close>: the producer, opened with the mirror's column types.  The target is what it leaves.\<close>

definition backup_run ::
    "codec \<Rightarrow> (bytes \<Rightarrow> u64) \<Rightarrow> ('st, 'e) store_ops \<Rightarrow> 'st \<Rightarrow> (string \<times> bytes) list option \<Rightarrow> ('e, 'f) run_env
      \<Rightarrow> ('t, 'f) target_ops \<Rightarrow> (i32 \<Rightarrow> column_type \<Rightarrow> column_type \<Rightarrow> kafka_error + 't) \<Rightarrow> backup \<Rightarrow> restore_target option
      \<Rightarrow> (error_chain + restore_outcome) \<times> 't option" where
  "backup_run cd digest ops st ring v T opened B target =
     (case verify_backup cd digest ops st ring v B of
        Inl x \<Rightarrow> (Inl x, None)
      | Inr (chain, summary) \<Rightarrow> (case target of
            None \<Rightarrow> (Ok (Verified summary), None)
          | Some _ \<Rightarrow>
              (case opened (src_partition (bk_source B)) (key_type (bk_mirror B)) (value_type (bk_mirror B)) of
                 Inl x \<Rightarrow> (Err [COther, CKafka x], None)
               | Inr t \<Rightarrow> (case produce cd digest (backup_reader ops st ring B) T (ve_produce v) chain summary
                     (bk_mode B) t of
                   (r, t') \<Rightarrow> (res_bind (restore_context r) (\<lambda>report. Ok (Restored report)), Some t')))))"

section \<open>Following\<close>

definition follow_config_of ::
    "('st, 'e) store_ops \<Rightarrow> (string \<times> bytes) list option \<Rightarrow> backup \<Rightarrow> ('st, 'e) follow_config" where
  "follow_config_of ops ring B = \<lparr>fc_ops = ops, fc_format = bk_format B, fc_keyring = ring,
     fc_source = bk_source B, fc_mode = bk_mode B, fc_chain_start = bk_chain_start B\<rparr>"

definition follow_sink :: "backup \<Rightarrow> restore_target \<Rightarrow> 'b \<Rightarrow> 'b kafka_sink" where
  "follow_sink B t b = \<lparr>ks_topic = rt_topic t, ks_partition = b, ks_timestamp_mode = TmSource,
     ks_keys = key_type (bk_mirror B), ks_values = value_type (bk_mirror B), ks_write_observer = None\<rparr>"

text \<open>
  One attempt of the loop: what opening and running it read, and what the shutdown flag and the clock say
  at its end.  \<open>fa_last\<close> is what reading the target's last record polls; \<open>fa_stopped_opening\<close> a signal
  while opening, which only reads.
\<close>

record ('st, 'e, 'be, 'f) follow_attempt =
  fa_stopped_opening :: bool
  fa_list :: "'st \<times> 'e"
  fa_opened :: bool
  fa_next :: "'be \<times> 'be"
  fa_last :: "poll_outcome list"
  fa_reads :: "nat \<Rightarrow> 'st \<times> 'e"
  fa_read :: "'st \<times> 'e"
  fa_start :: "('be \<times> 'be, ('st, 'e) follow_env) start_env"
  fa_events :: "('be \<times> 'be, ('st, 'e) follow_env, 'f) loop_event list"
  fa_shutting_down :: bool
  fa_lasted :: nat
  fa_stopped :: bool

definition open_follow ::
    "codec \<Rightarrow> ('st, 'e) follow_config \<Rightarrow> ('b, 'be) broker \<Rightarrow> ('st, 'e, 'be, 'f) follow_attempt \<Rightarrow> 'b kafka_sink
      \<Rightarrow> error_chain + chain_source \<times> 'b kafka_sink \<times> u64" where
  "open_follow cd cfg B a sink =
     res_bind (restore_context (open_source cfg (fa_list a))) (\<lambda>source.
     if \<not> fa_opened a then Err [COther, CKafka KInit]
     else (case kafka_next_expected_offset B (fa_next a) sink of
         (Inl x, _) \<Rightarrow> Err [COther, CSink x]
       | (Inr at, sink) \<Rightarrow>
           if at = 0 then Ok (source, sink, at)
           else (case read_record_at (at - 1) (fa_last a) of
               Inl x \<Rightarrow> Err [COther, CKafka x]
             | Inr last_record \<Rightarrow> (case check_resume cd cfg (fa_reads a) (fa_read a) at last_record source of
                   (Inl x, _) \<Rightarrow> Err [CRestore x]
                 | (Inr _, source) \<Rightarrow> Ok (source, sink, at)))))"

text \<open>How an attempt ended, and the target's partition after it.  A run without an end is still going.\<close>

datatype followed = Following | Stopped | FollowFailed error_chain | FollowPanicked

definition follow_once ::
    "(string \<Rightarrow> bool) \<Rightarrow> codec \<Rightarrow> ('st, 'e) follow_config \<Rightarrow> ('b, 'be) broker \<Rightarrow> ('b \<Rightarrow> 'b kafka_sink)
      \<Rightarrow> ('st, 'e, 'be, 'f) follow_attempt \<Rightarrow> 'b \<Rightarrow> followed \<times> 'b" where
  "follow_once json_ok cd cfg B sink a b =
     (if fa_stopped_opening a then (Stopped, b)
      else (case open_follow cd cfg B a (sink b) of
          Inl x \<Rightarrow> (FollowFailed x, b)
        | Inr (source, snk, at) \<Rightarrow>
            (case start_mirror (kafka_ops json_ok B) (follow_source cd cfg) (fa_start a) source snk () of
               Inl x \<Rightarrow> (FollowFailed [COther, CMirror x], b)
             | Inr st \<Rightarrow> (case run_loop (kafka_ops json_ok B) (follow_source cd cfg) no_op_notifier (fa_events a) st of
                   (res, st', _) \<Rightarrow>
                     (case res of
                        Running \<Rightarrow> Following
                      | Finished \<Rightarrow> Stopped
                      | Failed x \<Rightarrow> FollowFailed [COther, CMirror x]
                      | Panicked \<Rightarrow> FollowPanicked, ks_partition (lp_sink st'))))))"

text \<open>The loop, with the seconds it waits after each attempt that failed.\<close>

fun follow_loop ::
    "(string \<Rightarrow> bool) \<Rightarrow> codec \<Rightarrow> ('st, 'e) follow_config \<Rightarrow> ('b, 'be) broker \<Rightarrow> ('b \<Rightarrow> 'b kafka_sink)
      \<Rightarrow> nat \<Rightarrow> ('st, 'e, 'be, 'f) follow_attempt list \<Rightarrow> 'b \<Rightarrow> followed \<times> nat list \<times> 'b" where
  "follow_loop json_ok cd cfg B sink backoff [] b = (Following, [], b)"
| "follow_loop json_ok cd cfg B sink backoff (a # as) b =
     (case follow_once json_ok cd cfg B sink a b of (r, b1) \<Rightarrow>
      (case r of
         FollowFailed e \<Rightarrow>
           if fa_shutting_down a \<or> \<not> is_transient e then (FollowFailed e, [], b1)
           else (let bo = (if restart_backoff_max < fa_lasted a then restart_backoff_min else backoff) in
             if fa_stopped a then (Stopped, [bo], b1)
             else (case follow_loop json_ok cd cfg B sink (min (bo * 2) restart_backoff_max) as b1 of
                 (res, waits, b2) \<Rightarrow> (res, bo # waits, b2)))
       | _ \<Rightarrow> (r, [], b1)))"

section \<open>Where the mirror writes, restore reads\<close>

lemma find_Some_iff_in: "List.find P xs = Some x \<Longrightarrow> x \<in> set xs \<and> P x"
  by (induction xs) (auto split: if_splits)

lemma pick_destination_ok:
  assumes "pick_destination m name = Inr d"
  shows "d \<in> set (mc_destinations m) \<and> is_blob d \<and> (\<forall>n. name = Some n \<longrightarrow> effective_name d (mc_name m) = n)"
  using assms
  by (auto simp: pick_destination_def split: option.splits list.splits if_splits dest!: find_Some_iff_in)

lemma open_backup_ok:
  assumes "open_backup v cfg a = Inr (B, place)"
  shows "\<exists>ms m d p. cfg = Inr ms \<and> m \<in> set ms \<and> mc_name m = ra_mirror a \<and> bk_mirror B = m
    \<and> mc_compaction m = None \<and> pick_destination m (ra_destination a) = Inr d
    \<and> bk_dest_name B = effective_name d (mc_name m) \<and> resolve_blob_params m = Inr p \<and> bk_format B = bp_format p
    \<and> uint (mc_partition m) < 2147483648
    \<and> bk_source B = \<lparr>src_topic = mc_topic m, src_partition = mc_partition m\<rparr>
    \<and> bk_chain_start B = ra_chain_start a \<and> bk_mode B = offset_mode_of (ra_offsets a)
    \<and> backup_place_of v m (bk_dest_name B) d = Inr place"
  using assms
  by (auto simp: open_backup_def partition_i32_def Let_def split: sum.splits option.splits if_splits
      dest!: find_Some_iff_in)

text \<open>The keys the sink encrypts with are among those restore decrypts with.\<close>

section \<open>What a pass does\<close>

lemma verify_backup_ok:
  assumes "verify_backup cd digest ops st ring v B = Inr (chain, summary)"
  shows "\<exists>names. st_list ops (ve_list v) st = Inr names
    \<and> plan_chain names (bk_format B) (bk_chain_start B) ring = Inr chain
    \<and> verify cd digest (backup_reader ops st ring B) (ve_verify v) chain = Inr summary
    \<and> check_mode (bk_mode B) summary = Inr ()"
  using assms by (auto simp: verify_backup_def restore_context_def split: sum.splits)

text \<open>The target's producer is opened only after every object has been read and the offset mode is allowed.\<close>

lemma target_used_after_verification:
  assumes "backup_run cd digest ops st ring v T opened B target = (r, Some t)"
  shows "\<exists>chain summary. verify_backup cd digest ops st ring v B = Inr (chain, summary)"
  using assms by (auto simp: backup_run_def split: sum.splits)

lemma backup_run_restored:
  assumes "backup_run cd digest ops st ring v T opened B target = (Inr (Restored report), Some t')"
  shows "\<exists>names chain summary t. st_list ops (ve_list v) st = Inr names
    \<and> plan_chain names (bk_format B) (bk_chain_start B) ring = Inr chain
    \<and> opened (src_partition (bk_source B)) (key_type (bk_mirror B)) (value_type (bk_mirror B)) = Inr t
    \<and> produce cd digest (backup_reader ops st ring B) T (ve_produce v) chain summary (bk_mode B) t = (Inr report, t')"
  using assms verify_backup_ok [of cd digest ops st ring v B]
  by (auto simp: backup_run_def restore_context_def split: sum.splits option.splits prod.splits)

end
