(* ===== verification/Follow_Restarts.thy ===== *)
theory Follow_Restarts
  imports Follow_Target Restore_Cmd
begin

text \<open>
  A continuous restore over its restarts (theory Restore_Cmd): whatever fails, a produce that may have landed
  after all included, the target holds a prefix of the backup, so the next attempt may go on at its end.
  Attempts list the backup anew; what ties their listings together is that the backup is one growing chain.
\<close>

section \<open>A partition that nobody else writes\<close>

text \<open>A produce that fails has appended its message or nothing.\<close>

definition broker_alone :: "('b, 'e) broker \<Rightarrow> ('b \<Rightarrow> u64) \<Rightarrow> ('b \<Rightarrow> kmessage list) \<Rightarrow> bool" where
  "broker_alone B end_of messages =
     ((\<forall>e b w. br_high_watermark B e b = Inr w \<longrightarrow> 0 \<le>s w \<longrightarrow> w = end_of b)
      \<and> (\<forall>e m b d b'. br_send B e m b = (d, b') \<longrightarrow>
           (case d of Inr off \<Rightarrow> off = end_of b | Inl _ \<Rightarrow> True)
           \<and> (end_of b' = end_of b + 1 \<and> messages b' = messages b @ [m]
              \<or> \<not> is_ok d \<and> end_of b' = end_of b \<and> messages b' = messages b)))"

lemma broker_alone_ok: "broker_alone B end_of messages \<Longrightarrow> broker_ok B end_of messages"
  unfolding broker_alone_def broker_ok_def
  by (intro conjI allI impI) (blast, rule exI [of _ "[]"], fastforce)

text \<open>What the partition gained.\<close>

definition gained ::
    "('b \<Rightarrow> u64) \<Rightarrow> ('b \<Rightarrow> kmessage list) \<Rightarrow> 'b kafka_sink \<Rightarrow> 'b kafka_sink \<Rightarrow> krecord list \<Rightarrow> bool" where
  "gained end_of messages s s' ws =
     (ks_timestamp_mode s' = ks_timestamp_mode s
      \<and> messages (ks_partition s') = messages (ks_partition s) @ map (future_record (ks_timestamp_mode s)) ws
      \<and> end_of (ks_partition s') = end_of (ks_partition s) + of_nat (length ws))"

lemma gained_none: "gained end_of messages s s []"
  by (simp add: gained_def)

lemma gained_trans: "gained h ms a b xs \<Longrightarrow> gained h ms b c ys \<Longrightarrow> gained h ms a c (xs @ ys)"
  by (simp add: gained_def ac_simps)

lemma kafka_write_gains:
  assumes "broker_alone B end_of messages" "kafka_write json_ok B e r s = (res, s')"
  shows "\<exists>ws. gained end_of messages s s' ws \<and> (ws = [] \<or> ws = [r]) \<and> (is_ok res \<longrightarrow> ws = [r])"
proof (cases "\<exists>d b'. br_send B (snd e) (future_record (ks_timestamp_mode s) r) (ks_partition s) = (d, b')
    \<and> ks_partition s' = b' \<and> ks_timestamp_mode s' = ks_timestamp_mode s \<and> (is_ok res \<longrightarrow> is_ok d)")
  case True
  then obtain d b' where d: "br_send B (snd e) (future_record (ks_timestamp_mode s) r) (ks_partition s) = (d, b')"
    "ks_partition s' = b'" "ks_timestamp_mode s' = ks_timestamp_mode s" "is_ok res \<longrightarrow> is_ok d" by blast
  then have "end_of b' = end_of (ks_partition s) + 1
      \<and> messages b' = messages (ks_partition s) @ [future_record (ks_timestamp_mode s) r]
    \<or> \<not> is_ok d \<and> end_of b' = end_of (ks_partition s) \<and> messages b' = messages (ks_partition s)"
    using assms(1) unfolding broker_alone_def by blast
  then show ?thesis
  proof
    assume "end_of b' = end_of (ks_partition s) + 1
      \<and> messages b' = messages (ks_partition s) @ [future_record (ks_timestamp_mode s) r]"
    then show ?thesis using d by (intro exI [of _ "[r]"]) (simp add: gained_def)
  next
    assume "\<not> is_ok d \<and> end_of b' = end_of (ks_partition s) \<and> messages b' = messages (ks_partition s)"
    then show ?thesis using d by (intro exI [of _ "[]"]) (simp add: gained_def)
  qed
next
  case False
  then have "s' = s \<and> \<not> is_ok res"
    using assms(2) by (auto simp: kafka_write_def Let_def split: if_splits sum.splits prod.splits)
  then show ?thesis using gained_none [of end_of messages s] by (intro exI [of _ "[]"]) auto
qed

section \<open>One run\<close>

lemma deliver_gains:
  assumes "broker_alone B end_of messages" "deliver (kafka_ops json_ok B) N e f r st = (res, st', rs)"
    "r_offset r = lp_expected st"
  shows "\<exists>ws. gained end_of messages (lp_sink st) (lp_sink st') ws \<and> (ws = [] \<or> ws = [r])
    \<and> (res = Running \<longrightarrow> ws = [r] \<and> lp_expected st' = lp_expected st + 1) \<and> lp_source st' = lp_source st"
proof -
  obtain x s' where w: "kafka_write json_ok B e r (lp_sink st) = (x, s')" by fastforce
  then obtain ws where ws: "gained end_of messages (lp_sink st) s' ws" "ws = [] \<or> ws = [r]" "is_ok x \<longrightarrow> ws = [r]"
    using kafka_write_gains [OF assms(1) w] by (elim exE conjE)
  have "lp_sink st' = s' \<and> lp_source st' = lp_source st
      \<and> (res = Running \<longrightarrow> is_ok x \<and> lp_expected st' = lp_expected st + 1)"
    using assms(2,3) w
    by (auto simp: deliver_def Let_def kafka_ops_def checked_succ split: if_splits prod.splits sum.splits option.splits)
  then show ?thesis using ws by auto
qed

lemma follow_step_gains:
  assumes "backup_is cd cfg held" "broker_alone B end_of messages" "follow_inv cfg held (lp_source st)"
    "cs_position (lp_source st) = lp_expected st"
    "loop_step (kafka_ops json_ok B) (follow_source cd cfg) N ev st = (res, st', rs)"
  shows "\<exists>ws. gained end_of messages (lp_sink st) (lp_sink st') ws \<and> contig (lp_expected st) (offsets ws)
    \<and> set ws \<subseteq> set (target_records (fc_mode cfg) (backup_records held (cs_chain (lp_source st'))))
    \<and> (res = Running \<longrightarrow> lp_expected st' = lp_expected st + of_nat (length ws))"
proof -
  have quiet: "lp_sink st' = lp_sink st \<Longrightarrow> (res = Running \<longrightarrow> lp_expected st' = lp_expected st) \<Longrightarrow> ?thesis"
    using gained_none [of end_of messages "lp_sink st"] by (intro exI [of _ "[]"]) simp
  show ?thesis
  proof (cases ev)
    case (Shutdown e f)
    then show ?thesis using assms(5)
      by (intro quiet) (auto simp: loop_step_def finish_loop_def kafka_ops_def default_flush_def split: prod.splits sum.splits)
  next
    case Heartbeat
    then show ?thesis using assms(5) by (intro quiet) (auto simp: loop_step_def)
  next
    case (Poll d e f)
    obtain q s1 where q: "poll_turns cd cfg (fe_turns d) (lp_source st) = (q, s1)" by fastforce
    then have p: "s_poll_one (follow_source cd cfg) d (lp_source st) = (unwrap_or q (Ok None), s1)"
      by (simp add: follow_source_def)
    note ok = poll_turns_ok [OF assms(1,3) q]
    show ?thesis
    proof (cases "\<exists>r. q = Some (Inr (Some r))")
      case True
      then obtain r where r: "q = Some (Inr (Some r))" by blast
      have del: "deliver (kafka_ops json_ok B) N e f r (st\<lparr>lp_source := s1\<rparr>) = (res, st', rs)"
        using assms(5) Poll p r by (simp add: loop_step_def)
      have due: "r_offset r = lp_expected st"
        "r \<in> set (target_records (fc_mode cfg) (backup_records held (cs_chain s1)))"
        using ok r assms(4) by auto
      obtain ws where "gained end_of messages (lp_sink st) (lp_sink st') ws" "ws = [] \<or> ws = [r]"
        "res = Running \<longrightarrow> ws = [r] \<and> lp_expected st' = lp_expected st + 1" "lp_source st' = s1"
        using deliver_gains [OF assms(2) del] due(1) by auto
      then show ?thesis using due by (intro exI [of _ ws]) auto
    next
      case False
      then consider "unwrap_or q (Ok None) = Ok None" | x where "q = Some (Inl x)"
        by (cases q) (auto split: sum.splits option.splits intro: sum.exhaust [of "the q"])
      then have "lp_sink st' = lp_sink st \<and> (res = Running \<longrightarrow> lp_expected st' = lp_expected st)"
        by cases (use assms(5) Poll p in \<open>auto simp: loop_step_def idle_check_def kafka_ops_def
            kafka_next_expected_offset_def split: sum.splits prod.splits\<close>)
      then show ?thesis by (intro quiet) simp_all
    qed
  qed
qed

lemma follow_run_gains:
  assumes "backup_is cd cfg held" "broker_alone B end_of messages"
  shows "follow_inv cfg held (lp_source st) \<Longrightarrow> cs_position (lp_source st) = lp_expected st \<Longrightarrow>
    run_loop (kafka_ops json_ok B) (follow_source cd cfg) N evs st = (res, st', rs) \<Longrightarrow>
    \<exists>ws. gained end_of messages (lp_sink st) (lp_sink st') ws \<and> contig (lp_expected st) (offsets ws)
    \<and> set ws \<subseteq> set (target_records (fc_mode cfg) (backup_records held (cs_chain (lp_source st'))))"
proof (induction evs arbitrary: st rs)
  case Nil
  then show ?case using gained_none [of end_of messages "lp_sink st"] by (intro exI [of _ "[]"]) simp
next
  case (Cons ev evs)
  obtain r1 st1 rs1 where s: "loop_step (kafka_ops json_ok B) (follow_source cd cfg) N ev st = (r1, st1, rs1)"
    by (metis prod_cases3)
  note one = follow_step [OF assms(1) Cons.prems(1,2) s]
  obtain ws where ws: "gained end_of messages (lp_sink st) (lp_sink st1) ws" "contig (lp_expected st) (offsets ws)"
    "set ws \<subseteq> set (target_records (fc_mode cfg) (backup_records held (cs_chain (lp_source st1))))"
    "r1 = Running \<longrightarrow> lp_expected st1 = lp_expected st + of_nat (length ws)"
    using follow_step_gains [OF assms Cons.prems(1,2) s] by (elim exE conjE)
  show ?case
  proof (cases "r1 = Running")
    case True
    obtain rs2 where rest: "run_loop (kafka_ops json_ok B) (follow_source cd cfg) N evs st1 = (res, st', rs2)"
      using Cons.prems(3) s True by (auto split: prod.splits)
    have st1: "follow_inv cfg held (lp_source st1)" "cs_position (lp_source st1) = lp_expected st1"
      using one True by auto
    obtain ws2 where ws2: "gained end_of messages (lp_sink st1) (lp_sink st') ws2"
      "contig (lp_expected st1) (offsets ws2)"
      "set ws2 \<subseteq> set (target_records (fc_mode cfg) (backup_records held (cs_chain (lp_source st'))))"
      using Cons.IH [OF st1 rest] by (elim exE conjE)
    have "chain_extends (lp_source st1) (lp_source st')" using follow_run [OF assms(1) st1 rest] by blast
    then have "set ws \<subseteq> set (target_records (fc_mode cfg) (backup_records held (cs_chain (lp_source st'))))"
      using ws(3) target_records_append by (fastforce simp: chain_extends_def)
    moreover have "contig (lp_expected st) (offsets (ws @ ws2))"
      using ws(2,4) ws2(2) True by (simp add: contig_append)
    ultimately show ?thesis
      using gained_trans [OF ws(1) ws2(1)] ws2(3) by (intro exI [of _ "ws @ ws2"]) simp
  next
    case False
    then have "st' = st1" using Cons.prems(3) s by (auto split: loop_result.splits)
    then show ?thesis using ws by blast
  qed
qed

section \<open>One growing backup\<close>

text \<open>Every object that a listing shows is one of the chain \<open>whole\<close>, that of the backup at its end.\<close>

definition one_chain :: "('st, 'e) follow_config \<Rightarrow> chain_object list \<Rightarrow> bool" where
  "one_chain cfg whole = (chain_good (fc_chain_start cfg) whole \<and> (\<forall>ob. listed cfg ob \<longrightarrow> ob \<in> set whole))"

lemma chain_good_Cons:
  "chain_good s (ob # obs) \<Longrightarrow> co_from ob = s \<and> s \<le> co_to ob \<and> co_to ob \<noteq> u64_max \<and> chain_good (co_to ob + 1) obs"
  by (auto simp: chain_good_def not_less split: if_splits)

lemma chain_good_from: "chain_good s obs \<Longrightarrow> ob \<in> set obs \<Longrightarrow> s \<le> co_from ob"
proof (induction obs arbitrary: s)
  case (Cons x obs)
  note c = chain_good_Cons [OF Cons.prems(1)]
  show ?case
  proof (cases "ob = x")
    case False
    then have "co_to x + 1 \<le> co_from ob" using Cons c by simp
    then show ?thesis using c lt_succ [of "co_to x"] by (meson le_less_trans less_imp_le order_less_le_trans)
  qed (use c in simp)
qed simp

lemma chain_is_prefix:
  "chain_good s c \<Longrightarrow> chain_good s whole \<Longrightarrow> set c \<subseteq> set whole \<Longrightarrow> \<exists>rest. whole = c @ rest"
proof (induction c arbitrary: s whole)
  case (Cons ob c)
  note c = chain_good_Cons [OF Cons.prems(1)]
  obtain ob2 whole2 where w: "whole = ob2 # whole2" using Cons.prems(3) by (cases whole) auto
  note w2 = chain_good_Cons [OF Cons.prems(2) [unfolded w]]
  have later: "s < co_from x" if "x \<in> set obs" "chain_good (t + 1) obs" "s \<le> t" "t \<noteq> u64_max" for x t obs
    using chain_good_from [OF that(2,1)] that(3) lt_succ [OF that(4)] by (meson le_less_trans order_less_le_trans)
  have "ob \<notin> set whole2" using later [of ob whole2 "co_to ob2"] w2 c by auto
  then have same: "ob2 = ob" using Cons.prems(3) w by auto
  have "ob \<notin> set c" using later [of ob c "co_to ob"] c by auto
  then have "set c \<subseteq> set whole2" using Cons.prems(3) w same by auto
  then obtain rest where "whole2 = c @ rest" using Cons.IH [of "co_to ob + 1" whole2] c w2 same by auto
  then show ?case using w same by auto
qed simp

lemma known_prefix: "one_chain cfg whole \<Longrightarrow> known cfg c \<Longrightarrow> \<exists>rest. whole = c @ rest"
  by (rule chain_is_prefix [of "fc_chain_start cfg"]) (auto simp: one_chain_def known_def list_all_iff)

section \<open>The restarts\<close>

definition target_is_prefix ::
    "offset_mode \<Rightarrow> krecord list \<Rightarrow> ('b \<Rightarrow> u64) \<Rightarrow> ('b \<Rightarrow> kmessage list) \<Rightarrow> 'b \<Rightarrow> nat \<Rightarrow> bool" where
  "target_is_prefix mode recs end_of messages b n =
     (target_holds (future_record TmSource) mode recs (messages b) n \<and> end_of b = of_nat n)"

lemma reads_keep_inv:
  "follow_inv cfg held s \<Longrightarrow> same_but_reads s s' \<Longrightarrow> reads_ok held s' \<Longrightarrow> follow_inv cfg held s'"
  using same_but_reads_simps [of s s']
  by (cases "fc_mode cfg") (auto simp: follow_inv_def at_position_def positions_end_def Let_def)

lemma last_read_same: "same_but_reads s (s\<lparr>cs_last_read := lr\<rparr>)"
  by (simp add: same_but_reads_def)

lemma record_at_inv:
  assumes "backup_is cd cfg held" "follow_inv cfg held s" "record_at cd cfg e d p s = (Inr x, s')"
  shows "follow_inv cfg held s'"
proof -
  have rd: "reads_ok held s" and good: "chain_good (fc_chain_start cfg) (cs_chain s)"
    using assms(2) by (auto simp: follow_inv_def known_def)
  have reads: "follow_inv cfg held t'"
    if "reads_ok held t" "same_but_reads s t" "i < length (cs_chain t)" "records_of cd cfg d i t = (Inr rs, t')" for i t rs t'
    using records_of_ok [OF assms(1) that(1,3,4)] that(2) last_read_same same_but_reads_trans
    by (intro reads_keep_inv [OF assms(2)]) blast+
  show ?thesis
  proof (cases "fc_mode cfg")
    case Preserve
    show ?thesis
    proof (cases "position_where (\<lambda>ob. co_from ob \<le> p \<and> p \<le> co_to ob) (cs_chain s)")
      case None
      then show ?thesis using assms(2,3) Preserve by (simp add: record_at_def)
    next
      case (Some i)
      then obtain rs where "records_of cd cfg d i s = (Inr rs, s')"
        using assms(3) Preserve by (auto simp: record_at_def split: prod.splits sum.splits)
      then show ?thesis using reads [OF rd same_but_reads_refl] position_where_Some [OF Some] by blast
    qed
  next
    case Renumber
    have fits: "length (backup_records held (cs_chain s)) < 2 ^ 64"
      using chain_records_length [OF _ good] backup_object [OF assms(1)] by fastforce
    obtain q s1 where q: "locate cd cfg e p (length (cs_chain s)) 0 0 s = (q, s1)" by fastforce
    have q': "locate cd cfg e p (length (cs_chain s)) 0
        (of_nat (length (backup_records held (take 0 (cs_chain s))))) s = (q, s1)" using q by simp
    note loc = locate_ok [OF assms(1) rd _ fits q']
    have s1: "reads_ok held s1" "same_but_reads s s1" using loc by auto
    note fr = same_but_reads_simps [OF s1(2)]
    obtain found f where f: "q = Inr (found, f)"
      using assms(3) Renumber q by (cases q) (auto simp: record_at_def)
    show ?thesis
    proof (cases found)
      case None
      then have "s' = s1" using assms(3) Renumber q f by (simp add: record_at_def)
      then show ?thesis using reads_keep_inv [OF assms(2) s1(2,1)] by simp
    next
      case (Some jk)
      obtain j k where jk: "jk = (j, k)" by fastforce
      have j: "j < length (cs_chain s1)" using loc f Some jk fr by auto
      obtain rs where "records_of cd cfg d j s1 = (Inr rs, s')"
        using assms(3) Renumber q f Some jk by (auto simp: record_at_def split: prod.splits sum.splits)
      then show ?thesis using reads [OF s1 j] by blast
    qed
  qed
qed

lemma check_resume_inv:
  assumes "backup_is cd cfg held" "follow_inv cfg held s" "check_resume cd cfg e d high rec s = (Inr u, s')"
  shows "follow_inv cfg held s'"
  using assms(2,3) record_at_inv [OF assms(1,2), of e d "high - 1"]
  by (fastforce simp: check_resume_def split: if_splits prod.splits sum.splits option.splits)

lemma open_follow_ok:
  assumes "backup_is cd cfg held" "open_follow cd cfg B a sink = Inr (src, sink', at)"
  shows "follow_inv cfg held src \<and> sink' = sink"
proof -
  obtain s0 where s0: "open_source cfg (fa_list a) = Inr s0"
    using assms(2) by (auto simp: open_follow_def restore_context_def split: sum.splits)
  note inv = open_source_inv [OF assms(1) s0]
  show ?thesis
  proof (cases "at = 0")
    case True
    then show ?thesis using assms(2) s0 inv
      by (auto simp: open_follow_def restore_context_def kafka_next_expected_offset_def split: if_splits sum.splits prod.splits)
  next
    case False
    then obtain rec u where "check_resume cd cfg (fa_reads a) (fa_read a) at rec s0 = (Inr u, src)" "sink' = sink"
      using assms(2) s0
      by (auto simp: open_follow_def restore_context_def kafka_next_expected_offset_def split: if_splits sum.splits prod.splits)
    then show ?thesis using check_resume_inv [OF assms(1) inv] by blast
  qed
qed

text \<open>Starting does not write; from there the run goes on with the record that is due.\<close>

lemma follow_once_prefix:
  assumes bkp: "backup_is cd cfg held" and alone: "broker_alone B end_of messages"
    and one: "one_chain cfg whole" and src: "ks_timestamp_mode (sink b) = TmSource" "ks_partition (sink b) = b"
    and pre: "target_is_prefix (fc_mode cfg) (backup_records held whole) end_of messages b n"
    and run: "follow_once json_ok cd cfg B sink a b = (r, b')"
  shows "\<exists>m. n \<le> m \<and> target_is_prefix (fc_mode cfg) (backup_records held whole) end_of messages b' m"
proof (cases "b' = b")
  case True
  then show ?thesis using pre by blast
next
  case False
  then obtain source snk at st where o: "open_follow cd cfg B a (sink b) = Inr (source, snk, at)"
    and st: "start_mirror (kafka_ops json_ok B) (follow_source cd cfg) (fa_start a) source snk () = Inr st"
    using run by (auto simp: follow_once_def split: if_splits sum.splits prod.splits)
  obtain res st' rs where l: "run_loop (kafka_ops json_ok B) (follow_source cd cfg) no_op_notifier (fa_events a) st =
      (res, st', rs)" by (metis prod_cases3)
  have b': "b' = ks_partition (lp_sink st')"
    using run o st l False by (auto simp: follow_once_def split: if_splits)
  have inv: "follow_inv cfg held source" and snk: "snk = sink b" using open_follow_ok [OF bkp o] by auto
  have acc: "kafka_accepts B end_of messages (\<lambda>_. messages b) (sink b) [] \<and> ks_timestamp_mode (sink b) = TmSource"
    using broker_alone_ok [OF alone] src by (simp add: kafka_accepts_def)
  have began: "kafka_accepts B end_of messages (\<lambda>_. messages b) (lp_sink st) []
      \<and> ks_timestamp_mode (lp_sink st) = TmSource" "end_of (ks_partition (lp_sink st)) = lp_expected st"
    "lp_expected st = end_of b"
    using kafka_stamped.mirror_run [OF acc st [unfolded snk], of no_op_notifier "[]" Running st "[]"] src
    by (auto simp: intact_def)
  note start = follow_start [OF bkp inv st]
  have follow: "follow_inv cfg held (lp_source st)" "cs_position (lp_source st) = lp_expected st" using start by auto
  obtain ws where ws: "gained end_of messages (lp_sink st) (lp_sink st') ws" "contig (lp_expected st) (offsets ws)"
    "set ws \<subseteq> set (target_records (fc_mode cfg) (backup_records held (cs_chain (lp_source st'))))"
    using follow_run_gains [OF bkp alone follow l] by (elim exE conjE)
  have "known cfg (cs_chain (lp_source st'))" using follow_run [OF bkp follow l] by blast
  then obtain rest where whole: "whole = cs_chain (lp_source st') @ rest" using known_prefix [OF one] by blast
  let ?recs = "backup_records held whole"
  have objs: "\<forall>ob. co_from ob \<le> co_to ob \<longrightarrow> object_records ob (held ob)" using backup_object [OF bkp] by blast
  have good: "chain_good (fc_chain_start cfg) whole" using one by (simp add: one_chain_def)
  have "set ws \<subseteq> set (target_records (fc_mode cfg) ?recs)"
    using ws(3) target_records_append whole by fastforce
  moreover have "length ?recs < 2 ^ 64" using chain_records_length [OF objs good] by simp
  moreover have "increasing ?recs" using backup_increasing [OF objs good] by simp
  moreover have "contig (of_nat n) (offsets ws)" using ws(2) began(3) pre by (simp add: target_is_prefix_def)
  ultimately have "target_holds (future_record TmSource) (fc_mode cfg) ?recs
      (messages b @ map (future_record TmSource) ws) (n + length ws)"
    using pre by (intro target_grows) (auto simp: target_is_prefix_def future_record_def)
  moreover have "messages (ks_partition (lp_sink st)) = messages b" using began(1) by (simp add: kafka_accepts_def)
  ultimately have "target_is_prefix (fc_mode cfg) ?recs end_of messages b' (n + length ws)"
    using ws(1) began pre b' by (simp add: gained_def target_is_prefix_def)
  then show ?thesis using le_add1 by blast
qed

lemma follow_loop_prefix:
  assumes "backup_is cd cfg held" "broker_alone B end_of messages" "one_chain cfg whole"
    "\<And>b. ks_timestamp_mode (sink b) = TmSource" "\<And>b. ks_partition (sink b) = b"
  shows "target_is_prefix (fc_mode cfg) (backup_records held whole) end_of messages b n \<Longrightarrow>
    follow_loop json_ok cd cfg B sink bo as b = (r, waits, b') \<Longrightarrow>
    \<exists>m. n \<le> m \<and> target_is_prefix (fc_mode cfg) (backup_records held whole) end_of messages b' m"
proof (induction as arbitrary: b n bo waits)
  case Nil
  then show ?case by auto
next
  case (Cons a as)
  obtain r1 b1 where o: "follow_once json_ok cd cfg B sink a b = (r1, b1)" by fastforce
  obtain m where m: "n \<le> m" "target_is_prefix (fc_mode cfg) (backup_records held whole) end_of messages b1 m"
    using follow_once_prefix [OF assms(1-3) assms(4,5) Cons.prems(1) o] by blast
  show ?case
  proof (cases "b' = b1")
    case True
    then show ?thesis using m by blast
  next
    case False
    then obtain bo2 waits2 where "follow_loop json_ok cd cfg B sink bo2 as b1 = (r, waits2, b')"
      using Cons.prems(2) o by (auto simp: Let_def split: followed.splits if_splits prod.splits)
    from Cons.IH [OF m(2) this] m(1) show ?thesis by (meson order_trans)
  qed
qed

end
