(* ===== verification/Props_Restore_Cmd.thy ===== *)
theory Props_Restore_Cmd
  imports Props_Follow Follow_Restarts
begin

text \<open>
  The properties of the restore command: it reads where the mirror writes, what it reports as restored is the
  backup, and following resumes with a target that holds a prefix of the backup.
\<close>

section \<open>What is read\<close>

text \<open>
  C9: restore reads what the mirror writes.  For the destination that is picked from the mirror's
  configuration, the place that is opened is the one the mirror's own sink for it is opened on, with the sink's
  format and with its keyring, and never one with snapshots instead of records; a Kafka destination is never
  picked.
\<close>

theorem restore_reads_where_mirror_writes:
  assumes "open_backup v cfg a = Inr (bk, place)"
    and "pick_destination (bk_mirror bk) (ra_destination a) = Inr d"
    and "inner_sink_config (re_env v) (re_build_ok v) (load_keyring v) d (bk_mirror bk) (bk_dest_name bk) = Inr c"
  shows "case c of
      OpenKafka _ \<Rightarrow> False
    | OpenFilesystem f \<Rightarrow> place = InDirectory (partition_dir [fc_root f] (fc_destination_name f) (fc_partition f))
        \<and> bk_format bk = bs_format (fc_spec f) \<and> bs_compaction (fc_spec f) = None \<and> bs_encryption (fc_spec f) = None
    | OpenS3 g \<Rightarrow> (\<exists>ring. place = InBucket (s3g_read_store g)
          (partition_prefix (re_encode_part v) (map_option (re_parse_path v) (s3g_prefix g)) (s3g_destination_name g)
             (s3g_partition g)) ring
        \<and> ring = map_option be_keyring (bs_encryption (s3g_spec g)))
        \<and> bk_format bk = bs_format (s3g_spec g) \<and> bs_compaction (s3g_spec g) = None"
proof -
  obtain p where opened: "mc_compaction (bk_mirror bk) = None" "resolve_blob_params (bk_mirror bk) = Inr p"
    "bk_format bk = bp_format p" "backup_place_of v (bk_mirror bk) (bk_dest_name bk) d = Inr place"
    using open_backup_ok [OF assms(1)] assms(2) by auto
  show ?thesis
  proof (cases d)
    case (DKafka k)
    then show ?thesis using pick_destination_ok [OF assms(2)] by (simp add: is_blob_def)
  next
    case (DFilesystem f)
    then show ?thesis using assms(3) opened
      by (auto simp: inner_sink_config_def backup_place_of_def blob_spec_of_def compaction_to_fs_def Let_def
          split: if_splits)
  next
    case (DS3 s)
    then show ?thesis using assms(3) opened
      by (auto simp: inner_sink_config_def backup_place_of_def blob_spec_of_def compaction_to_fs_def Let_def
          s3_sink_config_def s3_encryption_def split: encryption.splits if_splits)
  qed
qed

definition demo_files :: destination where
  "demo_files = DFilesystem \<lparr>fd_name = Some ''files'', fd_root = ''/backups'', fd_affects_readiness = True\<rparr>"

definition demo_copy_destination :: destination where
  "demo_copy_destination = DKafka \<lparr>kd_name = Some ''copy'', kd_bootstrap_servers = ''b:9092'', kd_topic = None,
     kd_affects_readiness = True\<rparr>"

definition demo_backed_mirror :: mirror_config where
  "demo_backed_mirror = \<lparr>mc_name = ''orders'', mc_source = \<lparr>kc_bootstrap_servers = ''a:9092'', kc_group_id = None\<rparr>,
     mc_topic = ''orders'', mc_partition = 0, mc_destinations = [demo_copy_destination, demo_files],
     mc_format = Some CfgNdjson, mc_compression = None, mc_keys = None,
     mc_values = Some \<lparr>cc_kind = CfgBytes\<rparr>, mc_compaction = None,
     mc_flush = Some \<lparr>cf_max_time_ms = 1000, cf_max_bytes = 1000000, cf_max_offsets = 2, cf_daily = None\<rparr>,
     mc_timestamp_mode = None, mc_http_access = None, mc_enabled = None, mc_notify = None\<rparr>"

definition demo_restore_env :: restore_env where
  "demo_restore_env = \<lparr>re_is_dir = (\<lambda>dir. dir = [''/backups'', ''files'', ''0'']), re_env = Map.empty,
     re_build_ok = True, re_text = \<lparr>tl_to_writer = \<lambda>_. Inl (), tl_from_slice = \<lambda>_. Inl (), tl_b64_encode = \<lambda>_. [],
       tl_b64_decode = \<lambda>_. Inl (), tl_json_ok = \<lambda>_. True\<rparr>, re_keys_dir = (\<lambda>_. Inl ()),
     re_parse_path = (\<lambda>p. [p]), re_encode_part = (\<lambda>p. p)\<rparr>"

definition demo_args :: restore_args where
  "demo_args = \<lparr>ra_mirror = ''orders'', ra_destination = Some ''files'', ra_offsets = ArgPreserve,
     ra_chain_start = 0, ra_target = Some \<lparr>rt_bootstrap_servers = ''b:9092'', rt_topic = ''copy''\<rparr>, ra_follow = None\<rparr>"

definition demo_bk :: backup where
  "demo_bk = \<lparr>bk_mirror = demo_backed_mirror, bk_dest_name = ''files'', bk_format = Ndjson, bk_chain_start = 0,
     bk_mode = Preserve, bk_source = demo_of\<rparr>"

lemma demo_zero: "dec_of 0 = ''0''"
  by code_simp

lemmas demo_picked_simps = pick_destination_def demo_backed_mirror_def demo_files_def demo_copy_destination_def effective_name_def is_blob_def

lemma demo_opened:
  "open_backup demo_restore_env (Inr [demo_backed_mirror]) demo_args = Inr (demo_bk, InDirectory [''/backups'', ''files'', ''0''])"
  "pick_destination demo_backed_mirror (Some ''files'') = Inr demo_files"
  "pick_destination demo_backed_mirror (Some ''copy'') = Err [COther]"
  by (simp_all add: demo_picked_simps open_backup_def demo_args_def demo_restore_env_def demo_bk_def demo_of_def
      resolve_blob_params_def partition_i32_def backup_place_of_def partition_dir_def demo_zero offset_mode_of_def
      format_to_envelope_def Let_def)

theorem restore_reads_where_mirror_writes_witness:
  "\<exists>f. inner_sink_config Map.empty True (load_keyring demo_restore_env) demo_files demo_backed_mirror ''files'' =
      Inr (OpenFilesystem f)
    \<and> partition_dir [fc_root f] (fc_destination_name f) (fc_partition f) = [''/backups'', ''files'', ''0'']
    \<and> bs_format (fc_spec f) = Ndjson"
proof -
  obtain f where f: "inner_sink_config Map.empty True (load_keyring demo_restore_env) demo_files demo_backed_mirror ''files'' =
      Inr (OpenFilesystem f)"
    by (simp add: inner_sink_config_def demo_files_def resolve_blob_params_def demo_backed_mirror_def)
  have "pick_destination (bk_mirror demo_bk) (ra_destination demo_args) = Inr demo_files"
    using demo_opened(2) by (simp add: demo_bk_def demo_args_def)
  from restore_reads_where_mirror_writes [OF demo_opened(1) this, of "OpenFilesystem f"] f
  show ?thesis by (simp add: demo_bk_def demo_restore_env_def)
qed

section \<open>One pass\<close>

text \<open>
  C7: \<open>mirror-v3 restore\<close> that reports a restore has copied the backup.  From whatever the target's cluster
  was when the producer was opened, the partition of the mirror's source number in the target topic holds,
  from offset 0 on, one message per record that the mirror had accepted, in order, as it was, and nothing
  else; the report counts them; and with \<open>--offsets preserve\<close> each is at the offset it was read from.
\<close>

theorem restore_command_copies_backup:
  assumes "sink_inv cd fs_objects fs_ok s log" and "sk_buffer s = []"
    and "bk_format bk = bs_format (sk_spec s)" and "ring = map_option be_keyring (bs_encryption (sk_spec s))"
    and "bk_chain_start bk = 0"
    and "\<forall>p keys vals t. opened p keys vals = Inr t \<longrightarrow> producer_sends C stored issued p t []"
    and "backup_run cd digest fs_store (sk_store s) ring v (producer_ops json_ok C) opened bk (Some target) =
      (Inr (Restored rep), Some p')"
  shows "(\<forall>off. stored (rp_cluster p') (src_partition (bk_source bk)) off =
      (if off < of_nat (length log) then Some (future_record TmSource (log ! unat off)) else None))
    \<and> rr_records rep = of_nat (length log)
    \<and> (bk_mode bk = Preserve \<longrightarrow> offsets log = map of_nat [0..<length log])"
proof -
  obtain names chain su t where r: "st_list fs_store (ve_list v) (sk_store s) = Inr names"
    "plan_chain names (bk_format bk) (bk_chain_start bk) ring = Inr chain"
    "opened (src_partition (bk_source bk)) (key_type (bk_mirror bk)) (value_type (bk_mirror bk)) = Inr t"
    "produce cd digest (backup_reader fs_store (sk_store s) ring bk) (producer_ops json_ok C) (ve_produce v) chain su
      (bk_mode bk) t = (Inr rep, p')"
    using backup_run_restored [OF assms(7)] by (elim exE conjE)
  have "backup_reader fs_store (sk_store s) ring bk = reader_of fs_store (sk_spec s) (bk_source bk) (sk_store s)"
    using assms(3,4) by (simp add: backup_reader_def reader_of_def)
  then show ?thesis
    using restore_copies_backup [OF assms(1,2), of "ve_list v" names chain C stored issued
        "src_partition (bk_source bk)" t digest "bk_source bk" json_ok "ve_produce v" su "bk_mode bk" rep p']
      r assms(3-6) by (simp add: fs_store_def)
qed

definition demo_run_env :: "(fs_env, nat \<Rightarrow> unit) run_env" where
  "demo_run_env = \<lparr>ve_list = demo_fs ''x'', ve_verify = (\<lambda>_. demo_fs ''x''),
     ve_produce = \<lparr>pe_read = \<lambda>_. demo_fs ''x'', pe_send = \<lambda>_ _. (), pe_start = \<lambda>_. (), pe_drain = \<lambda>_. (),
       pe_finish = \<lambda>_. (), pe_end = \<lambda>_. ()\<rparr>\<rparr>"

definition demo_open_producer ::
    "i32 \<Rightarrow> column_type \<Rightarrow> column_type \<Rightarrow> kafka_error + kmessage list restore_producer" where
  "demo_open_producer p keys vals = (if p = 0 \<and> keys = CT_Utf8 \<and> vals = CT_Bytes then Inr demo_target else Inl KRead)"

abbreviation demo_command :: "(error_chain + restore_outcome) \<times> kmessage list restore_producer option" where
  "demo_command \<equiv> backup_run demo_codec (\<lambda>_. 7) fs_store (sk_store demo_backup) None demo_run_env demo_producer
     demo_open_producer demo_bk (ra_target demo_args)"

lemma demo_plan_nonempty: "demo_plan \<noteq> []"
  by (simp add: demo_plan_def)

lemma demo_verified:
  "verify_backup demo_codec (\<lambda>_. 7) fs_store (sk_store demo_backup) None demo_run_env demo_bk = Inr (demo_plan, demo_summary)"
proof -
  have rd: "backup_reader fs_store (sk_store demo_backup) None demo_bk = demo_reader"
    by (simp add: backup_reader_def reader_of_def demo_bk_def demo_spec_def)
  have ob: "demo_plan = [demo_plan ! 0, demo_plan ! 1]" by (simp add: demo_plan_def)
  have all: "read_all demo_codec (\<lambda>_. 7) demo_reader (\<lambda>_. demo_fs ''x'') 0 [demo_plan ! 0, demo_plan ! 1] =
      Inr (su_objects demo_summary)"
    using demo_reads by (simp add: demo_summary_def del: One_nat_def)
  have sums: "sum_list (map os_records (su_objects demo_summary)) = 3" "sum_list (map os_holes (su_objects demo_summary)) = 0"
    "find_some os_first_hole (su_objects demo_summary) = None" "co_from (hd demo_plan) = 0" "co_to (last demo_plan) = 2"
    by code_simp+
  have "verify demo_codec (\<lambda>_. 7) demo_reader (\<lambda>_. demo_fs ''x'') demo_plan = Inr demo_summary"
    using all [folded ob] sums by (simp add: verify_def demo_plan_nonempty) (simp add: demo_summary_def)
  moreover have "check_mode Preserve demo_summary = Ok ()" by (simp add: check_mode_def demo_summary_def)
  moreover have "st_list fs_store (demo_fs ''x'') (sk_store demo_backup) = Inr [demo_name1, demo_name2]"
    using demo_backup_facts(2) by (simp add: fs_store_def)
  ultimately show ?thesis
    using rd demo_planned by (simp add: verify_backup_def demo_run_env_def demo_bk_def restore_context_def)
qed

theorem restore_command_copies_backup_witness:
  "\<exists>p'. demo_command = (Inr (Restored \<lparr>rr_records = 3, rr_high_watermark = 3\<rparr>), Some p')
     \<and> demo_stored (rp_cluster p') 0 2 = Some (future_record TmSource (demo_rec 2))
     \<and> demo_stored (rp_cluster p') 0 3 = None"
proof -
  obtain p' where r: "demo_restore = (Inr \<lparr>rr_records = 3, rr_high_watermark = 3\<rparr>, p')"
    using demo_restored by blast
  have rd: "backup_reader fs_store (sk_store demo_backup) None demo_bk = demo_reader"
    by (simp add: backup_reader_def reader_of_def demo_bk_def demo_spec_def)
  have op: "demo_open_producer (src_partition (bk_source demo_bk)) (key_type (bk_mirror demo_bk))
      (value_type (bk_mirror demo_bk)) = Inr demo_target"
    "ra_target demo_args = Some \<lparr>rt_bootstrap_servers = ''b:9092'', rt_topic = ''copy''\<rparr>" "bk_mode demo_bk = Preserve"
    by code_simp+
  have run: "demo_command = (Inr (Restored \<lparr>rr_records = 3, rr_high_watermark = 3\<rparr>), Some p')"
    using demo_verified r rd op unfolding backup_run_def demo_run_env_def by (simp add: restore_context_def)
  have "\<forall>p keys vals t. demo_open_producer p keys vals = Inr t \<longrightarrow> producer_sends demo_cluster demo_stored demo_issued p t []"
    using demo_target_sends by (simp add: demo_open_producer_def)
  from restore_command_copies_backup [OF demo_backup_facts(1) _ _ _ _ this run [unfolded op(2)]]
  have "demo_stored (rp_cluster p') 0 off =
      (if off < of_nat (length demo_log) then Some (future_record TmSource (demo_log ! unat off)) else None)" for off
    by (simp add: demo_bk_def demo_of_def demo_spec_def)
  from this [of 2] this [of 3] show ?thesis using run by (auto simp: demo_log_def)
qed

section \<open>Following\<close>

text \<open>
  C11: a continuous restore survives its failures.  Over any number of attempts, each of which opens the backup
  and the target again and may fail anywhere, a produce that failed but landed included, the target partition
  holds, whenever one looks, exactly the first records of the backup, in order, and never fewer than before;
  so the next attempt goes on at its end and nothing is lost, repeated or reordered.
\<close>

theorem followed_restarts_hold_backup:
  assumes "backup_is cd (follow_config_of ops ring bk) held" and "broker_alone B end_of messages"
    and "one_chain (follow_config_of ops ring bk) whole"
    and "target_is_prefix (bk_mode bk) (backup_records held whole) end_of messages b n"
    and "follow_loop json_ok cd (follow_config_of ops ring bk) B (follow_sink bk target) restart_backoff_min as b =
      (r, waits, b')"
  shows "\<exists>m. n \<le> m \<and> target_is_prefix (bk_mode bk) (backup_records held whole) end_of messages b' m"
proof -
  have sink: "ks_timestamp_mode (follow_sink bk target p) = TmSource" "ks_partition (follow_sink bk target p) = p" for p
    by (simp_all add: follow_sink_def)
  have "fc_mode (follow_config_of ops ring bk) = bk_mode bk" by (simp add: follow_config_of_def)
  then show ?thesis using follow_loop_prefix [OF assms(1-3) sink _ assms(5), of n] assms(4) by simp
qed

text \<open>A broker that appends every message, and reports so when its environment says so.\<close>

definition demo_late :: "(kmessage list, bool) broker" where
  "demo_late = \<lparr>br_high_watermark = (\<lambda>e b. Inr (of_nat (length b))),
     br_send = (\<lambda>e m b. (if e then Inr (of_nat (length b)) else Inl (), b @ [m]))\<rparr>"

lemma demo_late_alone: "broker_alone demo_late demo_end (\<lambda>b. b)"
  by (auto simp: broker_alone_def demo_late_def demo_end_def split: if_splits)

lemma demo_one_chain: "one_chain (demo_follow Preserve) demo_plan"
  unfolding one_chain_def
proof (intro conjI allI impI)
  show "chain_good (fc_chain_start (demo_follow Preserve)) demo_plan" by code_simp
  fix ob assume "listed (demo_follow Preserve) ob"
  then have "plan_object Ndjson (co_name ob) = Inr ob" "co_name ob = demo_name1 \<or> co_name ob = demo_name2"
    by (auto simp: listed_def demo_follow_def demo_growing_def split: option.splits if_splits)
  then show "ob \<in> set demo_plan"
    using demo_names_parsed by (auto simp: plan_object_def demo_plan_def split: if_splits)
qed

text \<open>The second record's produce lands and is reported failed; a signal ends the second attempt.\<close>

definition demo_attempt :: "(unit, bool, bool, unit) follow_attempt" where
  "demo_attempt = \<lparr>fa_stopped_opening = False, fa_list = ((), False), fa_opened = True, fa_next = (True, True),
     fa_last = [], fa_reads = (\<lambda>_. ((), False)), fa_read = ((), False),
     fa_start = \<lparr>ste_next = (True, True), ste_low = demo_fenv False, ste_high = demo_fenv False,
       ste_furthest = (True, True), ste_align = (True, True), ste_seek = demo_fenv False\<rparr>,
     fa_events = [Poll (demo_fenv False) (True, True) (), Poll (demo_fenv False) (True, False) ()],
     fa_shutting_down = False, fa_lasted = 5, fa_stopped = False\<rparr>"

definition demo_attempts :: "(unit, bool, bool, unit) follow_attempt list" where
  "demo_attempts = [demo_attempt, demo_attempt\<lparr>fa_stopped_opening := True\<rparr>]"

definition demo_to :: restore_target where
  "demo_to = \<lparr>rt_bootstrap_servers = ''b:9092'', rt_topic = ''copy''\<rparr>"

lemma demo_follow_of: "follow_config_of demo_growing None demo_bk = demo_follow Preserve"
  by (simp add: follow_config_of_def demo_bk_def demo_follow_def)

lemma demo_follow_sink: "follow_sink demo_bk demo_to b = demo_topic\<lparr>ks_partition := b\<rparr>"
  by (simp add: follow_sink_def demo_bk_def demo_to_def demo_topic_def key_type_def value_type_def demo_backed_mirror_def
      column_default_def column_type_to_envelope_def)

lemma demo_topic_empty: "demo_topic\<lparr>ks_partition := []\<rparr> = demo_topic"
  by (simp add: demo_topic_def)

lemma demo_late_copies:
  "kafka_next_expected_offset demo_late (True, True) demo_topic = (Ok 0, demo_topic)"
  "kafka_write (\<lambda>_. True) demo_late (True, True) (demo_rec 0) demo_topic = (Ok (), demo_copied 1)"
  "kafka_write (\<lambda>_. True) demo_late (True, False) (demo_rec 1) (demo_copied 1) = (Err SnkTransport, demo_copied 2)"
  by code_simp+

lemma demo_late_run:
  "\<exists>st' rs. run_loop (kafka_ops (\<lambda>_. True) demo_late) (follow_source demo_codec (demo_follow Preserve)) no_op_notifier
     (fa_events demo_attempt) demo_follow_start = (Failed (MSink SnkTransport), st', rs) \<and> lp_sink st' = demo_copied 2"
proof -
  have p: "s_poll_one (follow_source demo_codec (demo_follow Preserve)) (demo_fenv e) s =
      (case poll_turns demo_codec (demo_follow Preserve) (demo_turns e) s of (r, s') \<Rightarrow> (unwrap_or r (Ok None), s'))" for e s
    by (simp add: follow_source_def demo_fenv_def)
  show ?thesis
    using demo_late_copies(2,3) demo_copies(4,5)
    by (simp add: demo_attempt_def demo_follow_start_def loop_step_def p demo_polls deliver_def Let_def kafka_ops_def
        no_op_notifier_def checked_succ u64_max_def del: One_nat_def)
qed

lemma demo_follow_loop:
  "follow_loop (\<lambda>_. True) demo_codec (demo_follow Preserve) demo_late (follow_sink demo_bk demo_to) restart_backoff_min
     demo_attempts [] = (Stopped, [1], [demo_message 0, demo_message 1])"
proof -
  have o: "open_follow demo_codec (demo_follow Preserve) demo_late demo_attempt demo_topic =
      Inr (demo_at 1 [] 0 [] 0, demo_topic, 0)"
    using demo_listings(1) demo_late_copies(1)
    by (simp add: open_follow_def restore_context_def demo_attempt_def del: One_nat_def)
  have s: "start_mirror (kafka_ops (\<lambda>_. True) demo_late) (follow_source demo_codec (demo_follow Preserve))
      (fa_start demo_attempt) (demo_at 1 [] 0 [] 0) demo_topic () = Inr demo_follow_start"
    using demo_follow_starts [OF demo_late_copies(1), of "\<lambda>_. True"] by (simp add: demo_attempt_def del: One_nat_def)
  obtain st' rs where l: "run_loop (kafka_ops (\<lambda>_. True) demo_late) (follow_source demo_codec (demo_follow Preserve))
      no_op_notifier (fa_events demo_attempt) demo_follow_start = (Failed (MSink SnkTransport), st', rs)"
    "lp_sink st' = demo_copied 2" using demo_late_run by blast
  have parts: "ks_partition (demo_copied 2) = [demo_message 0, demo_message 1]"
    by (simp add: numeral_2_eq_2)
  have once: "follow_once (\<lambda>_. True) demo_codec (demo_follow Preserve) demo_late (follow_sink demo_bk demo_to) demo_attempt [] =
      (FollowFailed [COther, CMirror (MSink SnkTransport)], [demo_message 0, demo_message 1])"
    using o s l parts unfolding follow_once_def demo_follow_sink demo_topic_empty
    by (simp add: demo_attempt_def del: One_nat_def)
  have "is_transient [COther, CMirror (MSink SnkTransport)]"
    by (simp add: mirror_is_transient_def sink_is_transient_def)
  then show ?thesis using once
    by (simp add: demo_attempts_def follow_once_def [of _ _ _ _ _ "demo_attempt\<lparr>fa_stopped_opening := True\<rparr>"]
        demo_attempt_def [THEN arg_cong, of fa_shutting_down] demo_attempt_def [THEN arg_cong, of fa_lasted]
        demo_attempt_def [THEN arg_cong, of fa_stopped] restart_backoff_max_def restart_backoff_min_def)
qed

theorem followed_restarts_hold_backup_witness:
  "\<exists>m. target_is_prefix Preserve (backup_records (demo_held Preserve) demo_plan) demo_end (\<lambda>b. b)
     [demo_message 0, demo_message 1] m"
proof -
  have pre: "target_is_prefix (bk_mode demo_bk) (backup_records (demo_held Preserve) demo_plan) demo_end (\<lambda>b. b) [] 0"
    by (simp add: target_is_prefix_def target_holds_def demo_end_def)
  from followed_restarts_hold_backup [of demo_codec demo_growing None demo_bk, unfolded demo_follow_of, OF demo_backup_is
      demo_late_alone demo_one_chain pre demo_follow_loop]
  show ?thesis by (auto simp: demo_bk_def)
qed

end
