(* ===== verification/Props_Cache_Loop.thy ===== *)
theory Props_Cache_Loop
  imports Props_Cache Props_Process
begin

text \<open>
  The cache from end to end: what is registered at startup, what the mirror loop delivers through the tee,
  and what a client reads.
\<close>

text \<open>What the tee does with each record, once: \<open>binding.state.apply_record\<close>.\<close>

definition cache_apply :: "string \<Rightarrow> krecord \<Rightarrow> cache_state \<Rightarrow> cache_state" where
  "cache_apply name r c = (case apply_record name r c of None \<Rightarrow> c | Some c' \<Rightarrow> c')"

lemma cache_apply_event: "cache_apply name r c = cache_event (name, Applied r) c"
  by (simp add: cache_apply_def cache_event_def)

lemma fold_cache_apply: "fold (cache_apply name) rs c = fold cache_event (map (\<lambda>r. (name, Applied r)) rs) c"
  by (simp add: fold_map o_def cache_apply_event [abs_def])

lemma applied_own: "applied (events_of name (map (\<lambda>r. (name, Applied r)) rs)) = rs"
  by (induction rs) (simp_all add: events_of_def)

lemma fresh_all:
  assumes "\<forall>r \<in> set rs. record_tp r = tp" "increasing rs" "\<And>l. seen tp = Some l \<Longrightarrow> \<forall>r \<in> set rs. l < r_offset r"
  shows "fresh_records seen rs = rs"
  using assms
proof (induction rs arbitrary: seen)
  case (Cons r rs)
  have "\<not> behind seen r" using Cons.prems by (auto simp: behind_def not_le split: option.splits)
  moreover have "fresh_records (seen(record_tp r \<mapsto> r_offset r)) rs = rs"
    using Cons.prems by (intro Cons.IH) (auto simp: increasing_def)
  ultimately show ?case by simp
qed simp

text \<open>
  C14: a cache answers with the topic.  A mirror that serves a cache, registered with the startup high watermark and
  run from any position its destinations have, delivers its topic's records from the low watermark on; a
  client then reads, for every key, the value of the last delivered record with that key and the offset of
  that record, and nothing for a key whose last record is a tombstone; and the mirror answers, instead of
  503, exactly once it has delivered the record before the startup high watermark or a later one.
\<close>

theorem cache_serves_topic:
  fixes K :: "('s, 'e) sink_ops"
  assumes "serves_cache m" and "cache = register_one hwm committed m c0"
    and "spawn_mirror (dyn_ops K no_destination_ops) e0 v m (open_inner_sinks opn m) (Inr no_destination_default)
      (Some cache) = Inr sp"
    and "start_mirror (tee_ops (dyn_ops K no_destination_ops) (cache_apply (mc_name m))) S e source (sp_tee sp) n = Inr st"
    and "s_low_watermark S (ste_low e) source = (Inr low, source1)" and "sv_low v = Inr low"
    and "run_loop (tee_ops (dyn_ops K no_destination_ops) (cache_apply (mc_name m))) S N evs st = (res, st', rs)"
    and "intact res" and "\<forall>r \<in> set rs. record_tp r = tp \<and> r_offset r \<noteq> u64_max"
  shows "lp_expected st = low \<and> (\<exists>c. te_cache (lp_sink st') = Some c
    \<and> (\<forall>key. map_option vr_value (read_value (mc_name m) key c) =
        Some (map_option (\<lambda>e. (ce_value e, ce_offset e)) (latest (concat (map cache_update rs)) key)))
    \<and> (resolve_mirror c c (mc_name m) = None \<longleftrightarrow> hwm = 0 \<or> (\<exists>r \<in> set rs. hwm \<le> r_offset r + 1)))"
proof -
  have run: "lp_expected st = low" "increasing rs"
    "te_cache (lp_sink st') = map_option (fold (cache_apply (mc_name m)) rs) (Some cache)"
    using cache_mirror_reads_everything [OF assms(1,3-8)] by auto
  let ?nes = "map (\<lambda>r. (mc_name m, Applied r)) rs"
  define c where "c = registered (mc_name m) hwm committed (is_main m) (mc_topic m) (mc_partition m) c0 ?nes"
  have kept: "te_cache (lp_sink st') = Some c"
    using run(3) assms(1,2) by (simp add: c_def fold_cache_apply register_one_def)
  have fresh: "fresh_records (\<lambda>_. None) rs = rs" by (rule fresh_all [of rs tp]) (use assms(9) run(2) in auto)
  have reads: "map_option vr_value (read_value (mc_name m) key c) =
      Some (map_option (\<lambda>e. (ce_value e, ce_offset e)) (latest (concat (map cache_update rs)) key))" for key
    unfolding c_def
    by (rule registered_read [where name = "mc_name m" and key = key and hwm = hwm and committed = committed
        and is_main = "is_main m" and topic = "mc_topic m" and part = "mc_partition m" and c = c0 and nes = ?nes])
      (simp add: applied_own fresh)
  have "map_of (cs_mirrors c) (mc_name m) \<noteq> None" by (simp add: c_def registered_slot)
  then have answers: "resolve_mirror c c (mc_name m) = None \<longleftrightarrow> hwm = 0 \<or> (\<exists>r \<in> set rs. hwm \<le> r_offset r + 1)"
    using mirror_resolves_iff [of "mc_name m" ?nes c hwm committed "is_main m" "mc_topic m" "mc_partition m" c0]
      assms(9) by (simp add: applied_own c_def)
  show ?thesis using run(1) kept reads answers by (intro exI [of _ c] conjI allI) simp_all
qed

text \<open>The topic of theory Props_Process, read into a cache whose startup high watermark is its end.\<close>

definition demo_cache_slot :: cache_state where
  "demo_cache_slot = register_one 3 None demo_cache_mirror cache_new"

definition demo_served :: "(kmessage list kafka_sink + no_destination_sink, cache_state) spawned" where
  "demo_served = \<lparr>
     sp_tee = \<lparr>te_inners = [\<lparr>in_name = ''orders'', in_sink = Inl demo_copy, in_head = 1\<rparr>],
       te_cache = Some demo_cache_slot, te_resume_cursor = Some 0\<rparr>,
     sp_ack_tracker = \<lparr>at_notify = None, at_destinations = [slot_new ''orders'' True]\<rparr>,
     sp_notifier = None, sp_dispatcher = None\<rparr>"

definition demo_served_start ::
    "((kmessage list kafka_sink + no_destination_sink, cache_state) tee_sink, demo_src, unit) loop_state" where
  "demo_served_start = \<lparr>lp_source = demo_src 0 3 [0, 1, 2], lp_sink = sp_tee demo_served,
     lp_notifier = (), lp_expected = 0, lp_last_heartbeat_offset = 0\<rparr>"

abbreviation demo_served_loop ::
    "loop_result \<times> ((kmessage list kafka_sink + no_destination_sink, cache_state) tee_sink, demo_src, unit)
      loop_state \<times> krecord list" where
  "demo_served_loop \<equiv> run_loop (tee_ops demo_dyn_ops (cache_apply (mc_name demo_cache_mirror))) demo_source no_op_notifier
     [Poll () (\<lambda>_. (((), ()), ())) (), Poll () (\<lambda>_. (((), ()), ())) (), Poll () (\<lambda>_. (((), ()), ())) ()]
     demo_served_start"

theorem cache_serves_topic_witness:
  "\<exists>c. te_cache (lp_sink (fst (snd demo_served_loop))) = Some c \<and> resolve_mirror c c ''orders'' = None
     \<and> map_option vr_value (read_value ''orders'' ''k'' c) = Some (Some ([2], 2))"
proof -
  let ?e = "\<lambda>_ :: nat. (((), ()), ())" and ?a = "cache_apply (mc_name demo_cache_mirror)"
  have serves: "serves_cache demo_cache_mirror" by code_simp
  have sp: "spawn_mirror demo_dyn_ops (\<lambda>_. (((), ()), ())) demo_spawn_env demo_cache_mirror
      (open_inner_sinks (\<lambda>d m n. Ok (Inl demo_copy)) demo_cache_mirror) (Inr no_destination_default)
      (Some demo_cache_slot) = Inr demo_served" by (rule spawned_eqI, code_simp) (simp_all add: demo_served_def)
  have st: "start_mirror (tee_ops demo_dyn_ops ?a) demo_source (demo_start (\<lambda>_. (((), ()), ())))
      (demo_src 0 3 [0, 1, 2]) (sp_tee demo_served) () = Inr demo_served_start" by code_simp
  have low: "s_low_watermark demo_source (ste_low (demo_start (\<lambda>_. (((), ()), ())))) (demo_src 0 3 [0, 1, 2]) =
      (Inr 0, demo_src 0 3 [0, 1, 2])" by code_simp
  have v: "sv_low demo_spawn_env = Inr 0" by (simp add: demo_spawn_env_def)
  have run: "demo_served_loop = (fst demo_served_loop, fst (snd demo_served_loop), snd (snd demo_served_loop))" by simp
  have rs: "snd (snd demo_served_loop) = [demo_rec 0, demo_rec 1, demo_rec 2]" by code_simp
  have "fst demo_served_loop = Running" by code_simp
  then have intact: "intact (fst demo_served_loop)" by (simp add: intact_def)
  have recs: "\<forall>r \<in> set (snd (snd demo_served_loop)). record_tp r = (''orders'', 0) \<and> r_offset r \<noteq> u64_max"
    unfolding rs by code_simp
  have nm: "mc_name demo_cache_mirror = ''orders''" by code_simp
  from cache_serves_topic [OF serves demo_cache_slot_def sp st low v run intact recs]
  obtain c where c: "te_cache (lp_sink (fst (snd demo_served_loop))) = Some c"
    "\<forall>key. map_option vr_value (read_value (mc_name demo_cache_mirror) key c) = Some (map_option
      (\<lambda>e. (ce_value e, ce_offset e)) (latest (concat (map cache_update (snd (snd demo_served_loop)))) key))"
    "resolve_mirror c c (mc_name demo_cache_mirror) = None \<longleftrightarrow>
      (3 :: u64) = 0 \<or> (\<exists>r \<in> set (snd (snd demo_served_loop)). 3 \<le> r_offset r + 1)"
    by (elim exE conjE)
  note reads = c(2) [unfolded rs, unfolded nm, rule_format, of "''k''"] and answers = c(3) [unfolded rs, unfolded nm]
  have last: "map_option (\<lambda>e. (ce_value e, ce_offset e))
      (latest (concat (map cache_update [demo_rec 0, demo_rec 1, demo_rec 2])) ''k'') = Some ([2], 2)" by code_simp
  have "(3 :: u64) \<le> r_offset (demo_rec 2) + 1" by code_simp
  then have "resolve_mirror c c ''orders'' = None" unfolding answers by simp
  with c(1) reads [unfolded last] show ?thesis by blast
qed

end
