(* ===== verification/Read_Back.thy ===== *)
theory Read_Back
  imports Blob_Contract
begin

text \<open>
  What an operator reads from a partition directory (\<open>read_all_records\<close> and \<open>read_latest_snapshot\<close> in
  \<open>crates/mirror-fs/src/lib.rs\<close>): of the directory an append-mode sink left, the records it accepted; of
  one in compaction mode, the latest record of each key.
\<close>

section \<open>Reading\<close>

text \<open>\<open>e n\<close>: how reading the file \<open>n\<close> goes.\<close>

definition read_latest_snapshot ::
    "codec \<Rightarrow> fs_env \<Rightarrow> (string \<Rightarrow> fs_env) \<Rightarrow> fs_dir \<Rightarrow> format \<Rightarrow> blob_error + krecord list" where
  "read_latest_snapshot cd e0 e dir fmt =
     res_bind (list_sync e0 dir) (\<lambda>names.
     res_bind (validate_chain names fmt (Some CLog)) (\<lambda>chain.
     case ch_latest chain of
       None \<Rightarrow> Ok []
     | Some name \<Rightarrow>
         res_bind (get_sync (e name) dir name) (\<lambda>b.
         res_bind (decode_view cd name b fmt None) (\<lambda>view. Ok (map snd view)))))"

definition batch_entry :: "format \<Rightarrow> string \<Rightarrow> (u64 \<times> string) option" where
  "batch_entry fmt name = map_option (\<lambda>(frm, _). (frm, name)) (parse_filename name (extension fmt))"

definition read_batch ::
    "codec \<Rightarrow> (string \<Rightarrow> fs_env) \<Rightarrow> fs_dir \<Rightarrow> format \<Rightarrow> u64 \<times> string \<Rightarrow> blob_error + krecord list" where
  "read_batch cd e dir fmt = (\<lambda>(_, name).
     res_bind (get_sync (e name) dir name) (\<lambda>b.
     case cd_decode cd fmt b of Inl _ \<Rightarrow> Err CorruptChain | Inr rs \<Rightarrow> Ok rs))"

definition read_all_records ::
    "codec \<Rightarrow> fs_env \<Rightarrow> (string \<Rightarrow> fs_env) \<Rightarrow> fs_dir \<Rightarrow> format \<Rightarrow> blob_error + krecord list" where
  "read_all_records cd e0 e dir fmt =
     res_bind (list_sync e0 dir) (\<lambda>names.
     res_bind (try_map (read_batch cd e dir fmt) (sort (List.map_filter (batch_entry fmt) names))) (\<lambda>batches.
     Ok (concat batches)))"

section \<open>What is read\<close>

definition listing_works :: "fs_env \<Rightarrow> bool" where
  "listing_works e = (fs_read_dir_ok e \<and> fs_entry_ok e)"

lemma listing_Inr: "listing_works e \<Longrightarrow> \<exists>names. list_sync e dir = Inr names"
  by (auto simp: listing_works_def list_sync_def split: option.splits)

lemma get_Inr:
  assumes "fs_read_ok e" "fs_objects dir n = Some b"
  shows "get_sync e dir n = Inr b"
  using assms by (auto simp: get_sync_def fs_objects_def entry_objects_def split: option.splits if_splits)

lemma map_filter_some: "(\<And>x. x \<in> set xs \<Longrightarrow> f x = Some (g x)) \<Longrightarrow> List.map_filter f xs = map g xs"
  by (induction xs) (auto simp: List.map_filter_simps)

text \<open>Without encryption no object of a chain names a key.\<close>

lemma no_key_named:
  assumes "bs_encryption spec = None" "ids_ok bs" "b \<in> set bs"
    "content cd spec objs (id_name (bs_format spec) b) = Some rs"
  shows "snd b = None"
proof (rule ccontr)
  assume "snd b \<noteq> None"
  then obtain kid where kid: "snd b = Some kid" by blast
  have "parse_blob_name (id_name (bs_format spec) b) (extension (bs_format spec)) =
      Some \<lparr>bn_from = fst (fst b), bn_to = snd (fst b), bn_key_id = snd b\<rparr>"
    by (rule parse_blob_filename) (use assms(2,3) in \<open>auto simp: ids_ok_def list_all_iff\<close>)
  then show False using assms(1,4) kid by (simp add: content_def decode_blob_def split: option.splits)
qed

lemma plain_content:
  assumes "bs_encryption spec = None" "ids_ok bs" "b \<in> set bs" "snd b = None"
    "content cd spec objs (id_name (bs_format spec) b) = Some rs"
  shows "\<exists>bs'. objs (id_name (bs_format spec) b) = Some bs' \<and> cd_decode cd (bs_format spec) bs' = Inr rs"
proof -
  have "parse_blob_name (id_name (bs_format spec) b) (extension (bs_format spec)) =
      Some \<lparr>bn_from = fst (fst b), bn_to = snd (fst b), bn_key_id = snd b\<rparr>"
    by (rule parse_blob_filename) (use assms(4) in simp)
  then show ?thesis
    using assms(1,4,5) by (auto simp: content_def decode_blob_def split: option.splits sum.splits)
qed

lemma batch_entry_id: "snd b = None \<Longrightarrow> batch_entry fmt (id_name fmt b) = Some (fst (fst b), id_name fmt b)"
  by (simp add: batch_entry_def blob_filename_def parse_filename_batch split_beta)

lemma batches_read:
  assumes "\<And>n. fs_read_ok (e n)" "bs_encryption spec = None"
  shows "ids_ok bs \<Longrightarrow> \<forall>b \<in> set bs. snd b = None \<Longrightarrow>
    contents (content cd spec (fs_objects dir)) (names_of spec bs) = Some rs \<Longrightarrow>
    \<exists>rss. try_map (read_batch cd e dir (bs_format spec))
      (map (\<lambda>b. (fst (fst b), id_name (bs_format spec) b)) bs) = Inr rss \<and> concat rss = rs"
proof (induction bs arbitrary: rs)
  case (Cons b bs)
  obtain x y where x: "content cd spec (fs_objects dir) (id_name (bs_format spec) b) = Some x"
    and y: "contents (content cd spec (fs_objects dir)) (names_of spec bs) = Some y" "rs = x @ y"
    using Cons.prems(3) by (auto split: option.splits)
  obtain bs' where "fs_objects dir (id_name (bs_format spec) b) = Some bs'" "cd_decode cd (bs_format spec) bs' = Inr x"
    using plain_content [OF assms(2) Cons.prems(1) _ _ x] Cons.prems(2) by auto
  then have "read_batch cd e dir (bs_format spec) (fst (fst b), id_name (bs_format spec) b) = Inr x"
    by (simp add: read_batch_def get_Inr [OF assms(1)])
  moreover obtain rss where "try_map (read_batch cd e dir (bs_format spec))
      (map (\<lambda>b. (fst (fst b), id_name (bs_format spec) b)) bs) = Inr rss" "concat rss = y"
    using Cons.IH [OF _ _ y(1)] Cons.prems(1,2) by (auto simp: ids_ok_def)
  ultimately show ?case using y(2) by simp
qed simp

lemma batches_sorted:
  assumes "mset names = mset (map (id_name fmt) bs)" "ids_ok bs" "separated (map fst bs)" "\<forall>b \<in> set bs. snd b = None"
  shows "sort (List.map_filter (batch_entry fmt) names) = map (\<lambda>b. (fst (fst b), id_name fmt b)) bs"
proof (rule properties_for_sort)
  let ?g = "\<lambda>n. the (batch_entry fmt n)"
  have each: "batch_entry fmt n = Some (?g n)" if "n \<in> set (map (id_name fmt) bs)" for n
    using that assms(4) batch_entry_id by auto
  have "set names = set (map (id_name fmt) bs)" by (rule mset_eq_setD [OF assms(1)])
  then have "List.map_filter (batch_entry fmt) names = map ?g names" by (intro map_filter_some each) simp
  then have "mset (List.map_filter (batch_entry fmt) names) = mset (map ?g (map (id_name fmt) bs))"
    using assms(1) by (simp only: mset_map)
  also have "map ?g (map (id_name fmt) bs) = map (\<lambda>b. (fst (fst b), id_name fmt b)) bs"
    unfolding map_map o_def using assms(4) batch_entry_id by (intro map_cong refl) simp
  finally show "mset (map (\<lambda>b. (fst (fst b), id_name fmt b)) bs) = mset (List.map_filter (batch_entry fmt) names)" by simp
  have "sorted_wrt (\<lambda>a b. fst (fst a) < fst (fst b)) bs"
    using assms(3) unfolding separated_def sorted_wrt_map
    by (rule sorted_wrt_mono_rel [rotated]) (use assms(2) in \<open>fastforce simp: ids_ok_def list_all_iff\<close>)
  then show "sorted (map (\<lambda>b. (fst (fst b), id_name fmt b)) bs)"
    by (auto simp: sorted_wrt_map less_eq_prod_def elim!: sorted_wrt_mono_rel [rotated])
qed

text \<open>In compaction mode it reads as the latest record of each key, in the order of the keys.\<close>

lemma read_latest_snapshot_exact:
  assumes "log_inv cd fs_objects fs_ok s log" "sk_buffer s = []" "bs_encryption (sk_spec s) = None"
    "listing_works e0" "\<And>n. fs_read_ok (e n)"
  shows "\<exists>v. read_latest_snapshot cd e0 e (sk_store s) (bs_format (sk_spec s)) = Inr (map snd v) \<and> view_log v log"
proof -
  let ?spec = "sk_spec s" and ?objs = "fs_objects (sk_store s)"
  obtain bs where c: "log_state cd ?spec ?objs bs log" "fs_ok (sk_store s)"
    using assms(1,2) by (auto simp: log_inv_def)
  have st: "ids_ok bs" "separated (map fst bs)" "dom ?objs = set (names_of ?spec bs)"
    using c(1) by (auto simp: log_state_def)
  obtain names where names: "list_sync e0 (sk_store s) = Inr names" using listing_Inr [OF assms(4)] by blast
  have "distinct names \<and> set names = dom ?objs"
    using fs.list_ok [OF c(2)] names by (simp add: fs_store_def)
  then have "mset names = mset (names_of ?spec bs)" using listing_mset [OF st(1,2)] st(3) by simp
  note chain = validate_log_accepts [OF this st(1,2)]
  show ?thesis
  proof (cases "bs = []")
    case True
    then show ?thesis using chain names c(1) view_log_Nil
      by (intro exI [of _ "[]"]) (simp add: read_latest_snapshot_def log_state_def)
  next
    case False
    then obtain v where v: "view_log v log"
      "content cd ?spec ?objs (id_name (bs_format ?spec) (last bs)) = Some (map snd v)"
      using c(1) by (auto simp: log_state_def)
    have b: "last bs \<in> set bs" using False by simp
    obtain b' where b': "?objs (id_name (bs_format ?spec) (last bs)) = Some b'"
      "decode_blob cd (id_name (bs_format ?spec) (last bs)) b' (bs_format ?spec) None = Inr (map snd v)"
      using v(2) assms(3) by (auto simp: content_def split: option.splits sum.splits)
    have "view_of (map snd v) [] = Inr v" using view_of_snapshot [of "[]" v] v(1) by (simp add: view_log_def)
    then show ?thesis using chain names False v(1) b' get_Inr [OF assms(5) b'(1)]
      by (intro exI [of _ v]) (simp add: read_latest_snapshot_def decode_view_def)
  qed
qed

end
