(* ===== verification/Props_Read_Back.thy ===== *)
theory Props_Read_Back
  imports Read_Back Props_Restore
begin

text \<open>
  What an operator reads from the directory of a mirror.
\<close>

text \<open>
  C35: a directory reads back as what the mirror accepted.  Whatever writes and flushes a sink in append mode
  went through, failures included, once its buffer is flushed the plain files of its directory, read in the
  order of their offsets, hold exactly the accepted records, in order.
\<close>

theorem directory_reads_back:
  assumes "sink_inv cd fs_objects fs_ok s log" and "sk_buffer s = []" and "bs_encryption (sk_spec s) = None"
    and "listing_works e0" and "\<forall>n. fs_read_ok (e n)"
  shows "read_all_records cd e0 e (sk_store s) (bs_format (sk_spec s)) = Inr log"
proof -
  let ?spec = "sk_spec s" and ?objs = "fs_objects (sk_store s)"
  obtain bs where c: "chain_state cd ?spec ?objs bs log (sk_durable_position s)" "fs_ok (sk_store s)"
    using assms(1,2) by (auto simp: sink_inv_def)
  have st: "ids_ok bs" "separated (map fst bs)" "dom ?objs = set (names_of ?spec bs)"
    "contents (content cd ?spec ?objs) (names_of ?spec bs) = Some log" "objects_exact cd ?spec ?objs bs"
    using c(1) chain_from_separated by (auto simp: chain_state_def)
  have plain: "\<forall>b \<in> set bs. snd b = None"
    using no_key_named [OF assms(3) st(1)] st(5) by (fastforce simp: objects_exact_def)
  obtain names where names: "list_sync e0 (sk_store s) = Inr names" using listing_Inr [OF assms(4)] by blast
  have "distinct names \<and> set names = dom ?objs"
    using fs.list_ok [OF c(2)] names by (simp add: fs_store_def)
  then have "mset names = mset (names_of ?spec bs)" using listing_mset [OF st(1,2)] st(3) by simp
  from batches_sorted [OF this st(1,2) plain] batches_read [OF spec [OF assms(5)] assms(3) st(1) plain st(4)]
  show ?thesis using names by (auto simp: read_all_records_def)
qed


theorem directory_reads_back_witness:
  "read_all_records demo_codec (demo_fs ''x'') (\<lambda>_. demo_fs ''x'') (sk_store demo_backup) Ndjson = Inr demo_log
   \<and> length demo_log = 3"
proof -
  have "listing_works (demo_fs ''x'')" by (simp add: listing_works_def demo_fs_def)
  from directory_reads_back [OF demo_backup_facts(1) _ _ this, of "\<lambda>_. demo_fs ''x''"]
  show ?thesis by (simp add: demo_fs_def demo_spec_def demo_log_def)
qed

end
