(* ===== verification/Readiness.thy ===== *)
theory Readiness
  imports Cache_Http Supervisor
begin

text \<open>
  Process settings (\<open>crates/mirror-bin/src/knobs.rs\<close>) and the readiness poller
  (\<open>crates/mirror-bin/src/readiness_poller.rs\<close>).  Durations are milliseconds; the lag gauge and the logs are
  left out.  The poller only makes events of its own mirror's slot, so what holds of the cache for every
  sequence of events (theory Props_Cache) holds with pollers running.
\<close>

section \<open>Settings\<close>

record knobs =
  kn_cache_port :: "u16"
  kn_metrics_port :: "u16"
  kn_readiness_lag :: u64
  kn_readiness_poll :: nat
  kn_commit_interval :: nat
  kn_heartbeat :: nat

definition parse_u16 :: "string \<Rightarrow> u16 option" where
  "parse_u16 s = (case parse_u64 s of
      None \<Rightarrow> None
    | Some n \<Rightarrow> if unat n < 65536 then Some (of_nat (unat n)) else None)"

definition knob_num ::
    "(string \<Rightarrow> 'a option) \<Rightarrow> (string \<Rightarrow> string option) \<Rightarrow> string \<Rightarrow> 'a \<Rightarrow> error_chain + 'a" where
  "knob_num parse get name dflt = (case get name of
      None \<Rightarrow> Ok dflt
    | Some v \<Rightarrow> (case parse v of None \<Rightarrow> Err [COther, COther] | Some n \<Rightarrow> Ok n))"

definition knobs_from_lookup :: "(string \<Rightarrow> string option) \<Rightarrow> error_chain + knobs" where
  "knobs_from_lookup get =
     res_bind (knob_num parse_u16 get ''MIRROR_V3_CACHE_PORT'' 8080) (\<lambda>cache_port.
     res_bind (knob_num parse_u16 get ''MIRROR_V3_METRICS_PORT'' 9090) (\<lambda>metrics_port.
     res_bind (knob_num parse_u64 get ''MIRROR_V3_READINESS_LAG'' 0) (\<lambda>readiness_lag.
     res_bind (knob_num parse_u64 get ''MIRROR_V3_READINESS_POLL_MS'' 2000) (\<lambda>readiness_poll.
     res_bind (knob_num parse_u64 get ''MIRROR_V3_OFFSET_COMMIT_INTERVAL_MS'' 5000) (\<lambda>commit_interval.
     res_bind (knob_num parse_u64 get ''MIRROR_V3_HEARTBEAT_SECS'' 30) (\<lambda>heartbeat.
     Ok \<lparr>kn_cache_port = cache_port, kn_metrics_port = metrics_port, kn_readiness_lag = readiness_lag,
         kn_readiness_poll = unat readiness_poll, kn_commit_interval = unat commit_interval,
         kn_heartbeat = unat heartbeat * 1000\<rparr>))))))"

section \<open>The poller\<close>

text \<open>
  One tick: the high watermark (\<open>Inl\<close> when fetching it or joining its task failed), then the assignment of
  the run loop's consumer (\<open>Inl\<close> when it cannot be read).
\<close>

definition poller_tick :: "string \<Rightarrow> unit + u64 \<Rightarrow> unit + bool \<Rightarrow> cache_state \<Rightarrow> cache_state" where
  "poller_tick name hwm assigned c =
     (let c = (case hwm of Inr h \<Rightarrow> set_broker_end_offset name h c | Inl _ \<Rightarrow> c)
      in case assigned of
          Inr True \<Rightarrow> mark_source_assigned name c
        | Inr False \<Rightarrow> mark_source_unassigned name c
        | Inl _ \<Rightarrow> c)"

text \<open>A change of the shutdown flag wins over a tick that is due too.\<close>

datatype poller_event = ShutdownChanged bool | PollTick "unit + u64" "unit + bool"

datatype poller_state = Polling | Exited

fun poller_loop :: "string \<Rightarrow> poller_event list \<Rightarrow> cache_state \<Rightarrow> poller_state \<times> cache_state" where
  "poller_loop name [] c = (Polling, c)"
| "poller_loop name (ShutdownChanged flag # evs) c = (if flag then (Exited, c) else poller_loop name evs c)"
| "poller_loop name (PollTick hwm assigned # evs) c = poller_loop name evs (poller_tick name hwm assigned c)"

text \<open>The first tick of an interval is immediate and skipped: \<open>evs\<close> are the events after it.\<close>

definition spawn_readiness_poller ::
    "string \<Rightarrow> nat \<Rightarrow> poller_event list \<Rightarrow> cache_state \<Rightarrow> poller_state \<times> cache_state" where
  "spawn_readiness_poller name interval evs c = (if interval = 0 then (Exited, c) else poller_loop name evs c)"

section \<open>A poller only makes events of its mirror\<close>

definition tick_events :: "string \<Rightarrow> unit + u64 \<Rightarrow> unit + bool \<Rightarrow> (string \<times> slot_event) list" where
  "tick_events name hwm assigned =
     (case hwm of Inr h \<Rightarrow> [(name, BrokerEnd h)] | Inl _ \<Rightarrow> [])
     @ (case assigned of Inr True \<Rightarrow> [(name, Assigned)] | Inr False \<Rightarrow> [(name, Unassigned)] | Inl _ \<Rightarrow> [])"

lemma poller_tick_events: "poller_tick name hwm assigned c = fold cache_event (tick_events name hwm assigned) c"
  by (auto simp: poller_tick_def tick_events_def cache_event_def split: sum.splits bool.splits)

lemma poller_events:
  "\<exists>nes. snd (spawn_readiness_poller name interval evs c) = fold cache_event nes c \<and> (\<forall>ne \<in> set nes. fst ne = name)"
proof -
  have "\<exists>nes. snd (poller_loop name evs c) = fold cache_event nes c \<and> (\<forall>ne \<in> set nes. fst ne = name)"
  proof (induction name evs c rule: poller_loop.induct)
    case (2 name flag evs c)
    then show ?case by (cases flag) (auto intro: exI [of _ "[]"])
  next
    case (3 name hwm assigned evs c)
    then obtain nes where "snd (poller_loop name evs (poller_tick name hwm assigned c)) =
        fold cache_event nes (poller_tick name hwm assigned c)" "\<forall>ne \<in> set nes. fst ne = name" by blast
    moreover have "\<forall>ne \<in> set (tick_events name hwm assigned). fst ne = name"
      by (auto simp: tick_events_def split: sum.splits bool.splits)
    ultimately show ?case
      by (intro exI [of _ "tick_events name hwm assigned @ nes"]) (auto simp: poller_tick_events)
  qed (auto intro: exI [of _ "[]"])
  then show ?thesis by (auto simp: spawn_readiness_poller_def intro: exI [of _ "[]"])
qed

text \<open>After a tick that worked the status says what the broker and the consumer said.\<close>

lemma tick_reports:
  assumes "map_of (cs_mirrors c) name = Some s" "\<not> dest_lagging (ms_status s)" "slot_ok (cs_readiness_lag_tolerance c) s"
  shows "status_for name (poller_tick name (Inr h) (Inr a) c) = Some (source_status (cs_readiness_lag_tolerance c)
    (s\<lparr>ms_broker_end_offset := max (ms_broker_end_offset s) h, ms_source_assigned := a\<rparr>))"
proof -
  let ?t = "cs_readiness_lag_tolerance c"
  have "map_of (cs_mirrors (poller_tick name (Inr h) (Inr a) c)) name =
      Some (slot_step ?t (if a then Assigned else Unassigned) (slot_step ?t (BrokerEnd h) s))"
    unfolding poller_tick_events cache_events_slot using assms(1)
    by (cases a) (simp_all add: tick_events_def events_of_def)
  then show ?thesis using assms(2)
    by (auto simp: status_for_def slot_step_def recompute_status_def source_status_def dest_lagging_def Let_def
        split: mirror_status.splits)
qed

end
