(* ===== verification/Kafka_Client.thy ===== *)
theory Kafka_Client
  imports Kafka Std_Maps
begin

text \<open>
  The settings the Kafka clients are created with (\<open>crates/mirror-kafka/src/lib.rs\<close>).  The rest of the model
  rests on them: a source never moves to another offset by itself nor commits by itself, and a
  destination's producer never sends a record twice.  The client library is not modelled;
  \<open>created\<close> says whether it made the client.
\<close>

type_synonym client_config = "(string \<times> string) list"

definition cfg_set :: "string \<Rightarrow> string \<Rightarrow> client_config \<Rightarrow> client_config" where
  "cfg_set = im_insert"

section \<open>The source\<close>

record kafka_source_config =
  kq_bootstrap_servers :: string
  kq_group_id :: string
  kq_topic :: string
  kq_partition :: i32
  kq_poll_timeout_ms :: nat

definition kafka_source_config_new :: "string \<Rightarrow> string \<Rightarrow> string \<Rightarrow> i32 \<Rightarrow> kafka_source_config" where
  "kafka_source_config_new bootstrap group_id topic part =
     \<lparr>kq_bootstrap_servers = bootstrap, kq_group_id = group_id, kq_topic = topic, kq_partition = part,
      kq_poll_timeout_ms = 2000\<rparr>"

definition consumer_config :: "string \<Rightarrow> string \<Rightarrow> client_config" where
  "consumer_config bootstrap group_id =
     fold (\<lambda>(k, v). cfg_set k v)
       [(''bootstrap.servers'', bootstrap), (''group.id'', group_id), (''enable.auto.commit'', ''false''),
        (''enable.auto.offset.store'', ''false''), (''auto.offset.reset'', ''error'')] []"

record kafka_source =
  kq_consumer :: client_config
  kq_config :: kafka_source_config
  kq_last_stored_offset :: u64

definition kafka_source_open :: "bool \<Rightarrow> kafka_source_config \<Rightarrow> kafka_error + kafka_source" where
  "kafka_source_open created cfg =
     (if \<not> created then Err KInit
      else Ok \<lparr>kq_consumer = consumer_config (kq_bootstrap_servers cfg) (kq_group_id cfg),
        kq_config = cfg, kq_last_stored_offset = 0\<rparr>)"

text \<open>The library's list of assigned partitions, or its error.\<close>

definition current_assignment_includes ::
    "unit + (string \<times> i32) list \<Rightarrow> string \<Rightarrow> i32 \<Rightarrow> source_error + bool" where
  "current_assignment_includes assignment topic part = (case assignment of
      Inl _ \<Rightarrow> Err SrcTransport
    | Inr tpl \<Rightarrow> Ok ((topic, part) \<in> set tpl))"

definition read_record_config :: "string \<Rightarrow> client_config" where
  "read_record_config bootstrap =
     fold (\<lambda>(k, v). cfg_set k v)
       [(''bootstrap.servers'', bootstrap), (''group.id'', ''mirror-v3-read-record-noop''),
        (''enable.auto.commit'', ''false''), (''auto.offset.reset'', ''error'')] []"

section \<open>The destination\<close>

definition producer_config :: "string \<Rightarrow> client_config" where
  "producer_config bootstrap =
     fold (\<lambda>(k, v). cfg_set k v)
       [(''bootstrap.servers'', bootstrap), (''acks'', ''all''), (''enable.idempotence'', ''false''),
        (''max.in.flight.requests.per.connection'', ''1''), (''message.send.max.retries'', ''0'')] []"

definition watermark_config :: "string \<Rightarrow> client_config" where
  "watermark_config bootstrap =
     fold (\<lambda>(k, v). cfg_set k v)
       [(''bootstrap.servers'', bootstrap), (''group.id'', ''mirror-v3-watermark-noop''),
        (''enable.auto.commit'', ''false'')] []"

text \<open>\<open>KafkaSink::open\<close> creates the producer, then the consumer for watermarks.\<close>

definition kafka_sink_open ::
    "bool \<Rightarrow> bool \<Rightarrow> string \<Rightarrow> 'b \<Rightarrow> timestamp_mode \<Rightarrow> column_type \<Rightarrow> column_type \<Rightarrow> kafka_error + 'b kafka_sink" where
  "kafka_sink_open producer_created consumer_created topic b mode keys vals =
     (if \<not> producer_created then Err KInit
      else if \<not> consumer_created then Err KInit
      else Ok \<lparr>ks_topic = topic, ks_partition = b, ks_timestamp_mode = mode, ks_keys = keys, ks_values = vals,
        ks_write_observer = None\<rparr>)"

end
