(* ===== verification/Divergences.thy ===== *)
theory Divergences
  imports Props_Cache Props_Process
begin

text \<open>
  Where the code and what its comments say part, or where a rule misses a case: each as a concrete run or
  as a general fact of the model.
\<close>

section \<open>Kafka destination\<close>

text \<open>A record that violates the declared column types fails as a transport error, which is retried.\<close>

lemma schema_violation_is_transient:
  assumes "\<not> is_ok (validate_column json_ok (ks_values s) (r_value r))"
    and "is_ok (validate_column json_ok (ks_keys s) (r_key r))"
  shows "\<exists>x. kafka_write json_ok B e r s = (Err x, s) \<and> mirror_is_transient (MSink x)"
  using assms by (simp add: kafka_write_def mirror_is_transient_def sink_is_transient_def)

text \<open>
  Two handles stage 5 and 10 at once: both see that theirs is higher, and the library gets 10 before 5, so
  that the next commit goes back.
\<close>

lemma interleaved_staging_goes_back:
  "let (a, s1) = stage_raise 5 \<lparr>sg_last_stored_offset = 0, sg_stored = []\<rparr>;
       (b, s2) = stage_raise 10 s1;
       s3 = snd (stage_store True True 10 s2);
       s4 = snd (stage_store True True 5 s3)
   in a \<and> b \<and> sg_stored s4 = [10, 5]"
  by code_simp

section \<open>Notifications\<close>

text \<open>
  A name that resolves to no address counts as delivered, whatever the outcome policy says of a failed
  resolution.
\<close>

lemma empty_resolution_delivers_nothing:
  assumes "resolve_at e i attempt st = (Inr [], st')"
  shows "dns_a_loop I e i rq attempt st = (Ok (), st')"
  using assms by (simp add: dns_a_loop.simps [of I e i rq attempt st])

section \<open>Configuration\<close>

definition kafka_only_mirror :: mirror_config where
  "kafka_only_mirror = demo_cache_mirror\<lparr>mc_format := None, mc_flush := None,
     mc_notify := Some \<lparr>nc_targets = [\<lparr>nt_url = ''http://app'', nt_fan_out = FanOutNone\<rparr>],
       nc_trigger = \<lparr>ng_on = DestinationFlush, ng_debounce = None\<rparr>, nc_timeout_ms = 5000, nc_retry = retry_default,
       nc_outcomes = outcomes_default\<rparr>\<rparr>"

text \<open>Flush notifications are accepted for a mirror without a destination that reports flushes.\<close>

lemma kafka_only_flush_accepted:
  "validate_mirror demo_url kafka_only_mirror = Ok ()"
  "list_all (\<lambda>d. \<not> is_blob d) (mc_destinations kafka_only_mirror)"
  "trigger_mode kafka_only_mirror = Some DestinationFlush"
  by code_simp+

definition blob_mirror :: "string \<Rightarrow> string \<Rightarrow> mirror_config" where
  "blob_mirror name root = demo_mirror\<lparr>mc_name := name, mc_topic := name, mc_notify := None, mc_http_access := None,
     mc_destinations := [DFilesystem \<lparr>fd_name = Some ''files'', fd_root = root, fd_affects_readiness = True\<rparr>]\<rparr>"

text \<open>Two mirrors with one directory are refused, unless the roots are spelled differently.\<close>

lemma blob_mirror_valid: "validate_mirror demo_url (blob_mirror ''a'' r) = Ok ()" "validate_mirror demo_url (blob_mirror ''b'' r) = Ok ()"
  by code_simp+

lemma blob_mirror_fields:
  "mc_name (blob_mirror a r) = a" "mc_topic (blob_mirror a r) = a" "mc_http_access (blob_mirror a r) = None"
  by (simp_all add: blob_mirror_def)

lemma dec_of_zero: "dec_of 0 = ''0''"
  by code_simp

lemma blob_mirror_dirs: "blob_dirs [blob_mirror a r, blob_mirror b r'] = [r @ ''/files/0'', r' @ ''/files/0'']"
  by (simp add: blob_dirs_def blob_dir_def blob_mirror_def demo_mirror_def effective_name_def List.map_filter_simps dec_of_zero)

lemma blob_dirs_compared_as_text:
  "validate demo_url [blob_mirror ''a'' ''/data'', blob_mirror ''b'' ''/data''] \<noteq> Ok ()"
  "validate demo_url [blob_mirror ''a'' ''/data'', blob_mirror ''b'' ''/data/''] = Ok ()"
  by (simp_all add: validate_ok blob_mirror_dirs blob_mirror_valid blob_mirror_fields commit_group_def)

section \<open>Cache\<close>

text \<open>While a destination lags, the loss of the source's assignment does not show in the status.\<close>

lemma lagging_hides_unassigned:
  "dest_lagging (ms_status s) \<Longrightarrow> ms_status (recompute_status t (s\<lparr>ms_source_assigned := False\<rparr>)) = ms_status s"
  by (auto simp: recompute_status_def dest_lagging_def split: mirror_status.splits)

text \<open>The values and the offsets of one response may be of different states.\<close>

lemma values_and_offsets_may_differ:
  assumes "resolve_mirror c0 c1 m = None" "snapshot_values_for m c2 = Some vs"
  shows "rp_body (values_handler to_json c0 c1 c2 c3 m) = Bytes (lines_of vs)
    \<and> rp_headers (values_handler to_json c0 c1 c2 c3 m) =
        offsets_header_for to_json c3 m @ [(''content-type'', ''text/plain; charset=utf-8'')]"
  using assms by (simp add: values_handler_def)

end
