(* ===== verification/Spec2Isabelle.thy ===== *)
theory Spec2Isabelle
  imports Props_Destination Props_Envelope Props_Loop Props_Cache Props_Notify Props_Restore Props_Process Props_Follow Props_S3 Props_Restore_Cmd
    Props_Cache_Loop Props_Read_Back Readiness Kafka_Client Divergences
begin

text \<open>
  A model of mirror-v3, which copies one Kafka topic partition per mirror to destinations (another Kafka
  topic, a directory, an S3 prefix), serves the latest value per key over HTTP and notifies webhooks, and
  which restores its own backups.  The model follows the Rust code under \<open>src/crates\<close> function by function;
  names are the code's where HOL allows it.

  \<^bold>\<open>The parts and how they meet.\<close>  A mirror is a loop (\<open>run_mirror_with_notifier\<close>) over a source, a sink and a
  notifier.  The sink is always a tee over the mirror's destinations; the tee applies each record to the cache
  once, then writes it to every destination that is not past it.  Each destination decides by itself where it
  continues: a blob destination by listing its objects, a Kafka destination by its high watermark.  Flushes
  and writes are reported to acknowledgement slots; what the process commits to the source's consumer group is
  the notifier's acknowledgement or, for a mirror that does not notify, that of its furthest destination.  A
  flush observer posts flush events to webhooks, and a watch on its error is raced against the loop.  Restore reads the objects back, once into
  a topic, or as the source of another mirror loop.

  \<^bold>\<open>Theories and code.\<close>
  \<^item> Prelude, Std_Text, Std_Maps: machine integers (\<open>u64\<close> etc. as words), results as sums (\<open>Inl\<close> the error), UTF-8,
    decimal text, \<open>BTreeMap\<close> and \<open>IndexMap\<close> (locale \<open>dict\<close>).
  \<^item> Core_Types, Run_Loop: \<open>mirror-core/src/lib.rs\<close>.  \<open>krecord\<close>, the errors and what is transient; the loop as
    \<open>start_mirror\<close> and \<open>loop_step\<close> over one event (poll, idle timer, shutdown), \<open>run_loop\<close> over a list of them.
    The traits Source, Sink and Notifier are records of operations.
  \<^item> Naming, Chain: \<open>mirror-fs/src/naming.rs\<close> and \<open>validate_chain\<close> of \<open>blob.rs\<close>.
  \<^item> Blob_Store, Read_Back, S3_Store: \<open>mirror-fs/src/lib.rs\<close> and \<open>mirror-s3/src/lib.rs\<close>; a directory is its
    entries with every failure point of a write, a bucket is what the service answers.
  \<^item> Blob_Sink, Sink_Mode, Blob_Restart, Log_Restart, Blob_Contract: \<open>BlobSink\<close> of \<open>mirror-fs/src/blob.rs\<close> in append
    mode and in compaction mode.
  \<^item> Envelope, Parquet_Format, Keyring: \<open>mirror-envelope\<close>; NDJSON, Parquet, encryption, the keys directory.
  \<^item> Kafka, Kafka_Client, Restore_Producer: \<open>mirror-kafka\<close>; source, sink, offset staging, client settings, and the
    producer of a restore with its window of records in flight.
  \<^item> Tee, Tee_Contract, Flush_Coord: \<open>mirror-core/src/tee.rs\<close>.
  \<^item> Cache, Cache_Http, Readiness: \<open>mirror-core/src/cache.rs\<close>, the handlers of \<open>mirror-cache/src/lib.rs\<close>,
    \<open>mirror-bin/src/readiness_poller.rs\<close> and \<open>knobs.rs\<close>.
  \<^item> Envsubst, Config: \<open>mirror-config\<close>; interpolation, the configuration types, every validation rule.
  \<^item> Notify_Dispatch, Notify, Flush_Dispatch: \<open>mirror-notify-kkv\<close>; the retry policy and fan-out, the buffering notifier
    with its timer task as the step relation \<open>nf_step\<close>, the dispatcher of flush events with its drainer and the
    watch on its error.  Both keep as history which dispatches were made, with what their calls answered.
  \<^item> Ack_Tracker: \<open>mirror-bin/src/ack_tracker.rs\<close>; the slots, the periodic and the final commit.
  \<^item> Supervisor, Spawn: \<open>mirror-bin/src/main.rs\<close>; what destinations are opened with, status rows, restarts with
    backoff, registration in the cache, spawning with the resume floor.
  \<^item> Restore, Restore_Exact, Follow, Follow_Exact: \<open>mirror-restore\<close>; planning, verifying, producing, and the backup as a
    source.  Restore_Cmd, Follow_Target, Follow_Restarts: \<open>mirror-bin/src/restore.rs\<close>.
  \<^item> Fixtures and the Props theories: concrete inputs, and the properties with their witnesses.  Divergences: runs
    in which the code parts from its comments or from its other half.

  \<^bold>\<open>Contracts.\<close>  \<open>blob_store\<close> is what the blob sink asks of a store, interpreted by the filesystem and by S3;
  \<open>blob_codec\<close> adds an encoder and is the place of the append and compaction proofs (two sublocales of
  \<open>sink_mode\<close>).  \<open>sink_contract\<close> is what the loop asks of a sink, interpreted by the blob sink in both modes,
  the Kafka sink, the in-memory sink, a choice of two sinks and the tee (a sublocale of \<open>tee_of\<close>), so that one
  proof about the loop serves every destination and every nesting.  \<open>restore_target\<close> is what a restore asks of its
  target, interpreted by the producer.

  \<^bold>\<open>What is shown.\<close>
  \<^item> Destinations (C1 to C6, C15 to C24, C35): whatever fails, a destination that is opened again holds exactly the
    accepted records below its resume position, or the latest value of each key of them; the loop delivers what
    the source's polls return, in order and once; a tee keeps that for each of its destinations; names, chains in
    both modes, drift checks, the bound on what is buffered and flush reports are what this needs.
  \<^item> Restore (C7 to C13, C32): the formats round-trip; restore reads where the mirror writes; what it reports as
    restored is the backup, record for record; following keeps the target a growing prefix of the backup over any
    number of failed attempts, and its polls return.
  \<^item> Cache (C14, C33, C34, C36, C37): a client reads the last delivered value of a key, from the low watermark on,
    once the startup high watermark was reached, with offsets of the same state; what is not notified of is fixed
    when the mirror is registered.
  \<^item> Notification and commits (C25 to C31): acknowledged means dispatched to every configured target, where the last
    attempt succeeded or had an outcome that the configuration accepts or skips; shutdown loses nothing; buffered
    records are dispatched; no flush event is lost silently; commits follow the acknowledgements.
  \<^item> Configuration and process (C38 to C40): what validation guarantees, interpolation, restarts.

  \<^bold>\<open>How effects are modelled.\<close>  What the outside decides (a system call, a broker, a store, a clock, a random
  name) is an argument of the operation, one per call, so each failure is a branch.  Concurrent tasks are
  steps that interleave at the points where the code gives up its lock or awaits.  A handler that locks the cache twice
  reads two states.  Operations return the state they leave also when they fail.

  \<^bold>\<open>Bounds.\<close>  No definition has fuel.  A run is a list of events, so a result \<open>Running\<close> means that the events are used up,
  not that the code ended.  \<open>poll_turns\<close> takes the turns of a poll as a list: three are enough (C13).  The retry
  loops terminate by the attempts left (C28), interpolation by the text left, the daily boundary by the distance to the clock,
  the enqueue loop of the producer by the acknowledgements it still waits for.

  \<^bold>\<open>Assumptions.\<close>  They are named and each has a witness: \<open>codec_ok\<close> (decoding inverts encoding; C8 derives it from
  \<open>text_lib_ok\<close> and \<open>parquet_lib_ok\<close>), \<open>s3_service\<close> (the client lists and reads what it holds, a failed put
  changed nothing or landed, encoding changes no part of the prefix), \<open>broker_ok\<close> and \<open>broker_alone\<close> (a partition is an append-only log; the second, that nothing else
  writes to it), \<open>backup_is\<close> (an object does not change once listed), \<open>cluster_ok\<close> (a delivery report says where the message
  is, and nothing is stored from the high watermark on).

  \<^bold>\<open>Not modelled.\<close>  The command line, logging, metrics, signals and the runtime's task spawning in \<open>main.rs\<close>; the route
  table, the OpenAPI document and serving in \<open>mirror-cache\<close>, which are calls of the HTTP library; serde's reading of
  YAML (the configuration starts from the deserialized values; unknown fields are serde's), the HTTP, DNS,
  Kafka, S3, Arrow, Parquet, JSON and base64 libraries, which are parameters; the in-memory test doubles
  \<open>mock.rs\<close> and \<open>testing.rs\<close>; the schema generator \<open>xtask\<close>; tests and deployment files.  Durations count in whole units
  and allocation failures do not occur.
\<close>

end
